(* ===== verification/Prelude.thy ===== *)
theory Prelude
  imports Main "HOL-Library.Word"
begin

text \<open>
  What the components share: the widths of the C integer types, byte strings with the two
  \<^verbatim>\<open>memcpy\<close> shapes the sources use (overwrite a region, read a region), C strings, and
  the rule collections of the development. Allocation succeeds: the branches of the sources
  that return because \<^verbatim>\<open>malloc\<close> gave \<^verbatim>\<open>NULL\<close> are not modelled, and a pointer argument
  whose \<^verbatim>\<open>NULL\<close> case is only guarded against is a plain value. Log lines and simulated
  delays (\<^verbatim>\<open>usleep\<close>) change no state and are left out.
\<close>

unbundle bit_operations_syntax

type_synonym u8 = "8 word"
type_synonym u16 = "16 word"
type_synonym u32 = "32 word"
type_synonym u64 = "64 word"

type_synonym bytes = "u8 list"

named_theorems region_simps \<open>reading and overwriting regions of a byte string\<close>
named_theorems heap_simps \<open>fields of control blocks after an update through a pointer\<close>

text \<open>\<^verbatim>\<open>memcpy(s + off, bs, length bs)\<close> and \<^verbatim>\<open>memcpy(dst, s + off, n)\<close>.\<close>

definition store_at :: "nat \<Rightarrow> 'a list \<Rightarrow> 'a list \<Rightarrow> 'a list" where
  "store_at off bs s = take off s @ bs @ drop (off + length bs) s"

definition region :: "nat \<Rightarrow> nat \<Rightarrow> 'a list \<Rightarrow> 'a list" where
  "region off n s = take n (drop off s)"

lemma length_store_at [region_simps]:
  "off + length bs \<le> length s \<Longrightarrow> length (store_at off bs s) = length s"
  by (simp add: store_at_def)

lemma length_region [region_simps]: "off + n \<le> length s \<Longrightarrow> length (region off n s) = n"
  by (simp add: region_def)

lemma region_store_same [region_simps]:
  "off + length bs \<le> length s \<Longrightarrow> n = length bs \<Longrightarrow> region off n (store_at off bs s) = bs"
  by (simp add: region_def store_at_def)

lemma nth_store_at:
  assumes "off + length bs \<le> length s" and "i < length s"
  shows "store_at off bs s ! i =
    (if off \<le> i \<and> i < off + length bs then bs ! (i - off) else s ! i)"
  using assms by (auto simp: store_at_def nth_append)

lemma nth_region [region_simps]: "off + n \<le> length s \<Longrightarrow> i < n \<Longrightarrow> region off n s ! i = s ! (off + i)"
  by (simp add: region_def)

lemma region_store_disjoint:
  assumes "off + length bs \<le> length s" and "off' + n \<le> length s"
    and "off' + n \<le> off \<or> off + length bs \<le> off'"
  shows "region off' n (store_at off bs s) = region off' n s"
  using assms by (intro nth_equalityI) (auto simp: region_simps nth_store_at)

lemma take_store_at [region_simps]: "off \<le> length s \<Longrightarrow> take off (store_at off bs s) = take off s"
  by (simp add: store_at_def)

text \<open>Writing two adjacent pieces is writing their concatenation.\<close>

lemma store_at_append:
  assumes "off + length as + length bs \<le> length s"
  shows "store_at (off + length as) bs (store_at off as s) = store_at off (as @ bs) s"
  using assms by (intro nth_equalityI) (auto simp: nth_store_at region_simps nth_append)

text \<open>The bytes of a \<^verbatim>\<open>char *\<close> up to its terminator.\<close>

definition c_string :: "bytes \<Rightarrow> bytes" where
  "c_string s = takeWhile (\<lambda>b. b \<noteq> 0) s"

lemma c_string_no_nul [simp]: "0 \<notin> set s \<Longrightarrow> c_string s = s"
  by (auto simp: c_string_def takeWhile_eq_all_conv)

lemma nth_upd: "xs[i := v] ! j = (if i = j \<and> j < length xs then v else xs ! j)"
  by (cases "i = j") (auto simp: list_update_beyond)

text \<open>The first element of a list with a property, as the search loops of the sources find it.\<close>

lemma find_upt_Some: "find P [0..<n] = Some i \<Longrightarrow> i < n \<and> P i"
  by (auto simp: find_Some_iff)

lemma find_SomeD: "find P xs = Some x \<Longrightarrow> P x \<and> x \<in> set xs"
  by (auto simp: find_Some_iff)

text \<open>Reading a \<^verbatim>\<open>uint32_t\<close> as an \<^verbatim>\<open>int\<close>.\<close>

lemma sint32: "sint (w::32 word) = (if uint w < 2^31 then uint w else uint w - 2^32)"
proof -
  have u: "0 \<le> uint w" "uint w < 2 ^ 32" using uint_lt2p [of w] by simp_all
  have "sint w = (uint w + 2 ^ 31) mod 2 ^ 32 - 2 ^ 31"
    by (simp add: sint_uint signed_take_bit_eq_take_bit_shift take_bit_eq_mod)
  also have "(uint w + 2 ^ 31) mod 2 ^ 32 = (if uint w < 2^31 then uint w + 2 ^ 31 else uint w - 2^31)"
  proof (cases "uint w < 2 ^ 31")
    case True
    with u show ?thesis by simp
  next
    case False
    then have "(uint w + 2 ^ 31) mod 2 ^ 32 = (uint w - 2 ^ 31 + 2 ^ 32) mod 2 ^ 32" by (simp add: add.commute)
    also have "\<dots> = uint w - 2 ^ 31" using False u by (subst mod_add_self2) simp
    finally show ?thesis using False by simp
  qed
  finally show ?thesis by simp
qed

lemma sint32_nat:
  assumes "0 \<le> sint (w::32 word)"
  shows "sint w = int (unat w)" and "unat w < 2 ^ 31"
proof -
  have u: "uint w < 2 ^ 31"
  proof (rule ccontr)
    assume "\<not> uint w < 2 ^ 31"
    with assms have "2 ^ 32 \<le> uint w" by (simp add: sint32)
    with uint_lt2p [of w] show False by simp
  qed
  then show "sint w = int (unat w)" by (simp add: sint32)
  have "int (unat w) < int (2 ^ 31)" using u by simp
  then show "unat w < 2 ^ 31" by (simp only: of_nat_less_iff)
qed

lemma sint32_small:
  assumes "n < 2 ^ 31"
  shows "unat (word_of_nat n :: 32 word) = n" and "sint (word_of_nat n :: 32 word) = int n"
proof -
  show u: "unat (word_of_nat n :: 32 word) = n" using assms by (simp add: unat_of_nat take_bit_nat_eq_self)
  have "uint (word_of_nat n :: 32 word) = int n" by (metis u of_nat_unat)
  with assms show "sint (word_of_nat n :: 32 word) = int n" by (simp add: sint32)
qed

text \<open>C strings as bytes: the characters of a name, one byte each.\<close>

definition to_bytes :: "string \<Rightarrow> bytes" where
  "to_bytes s = map of_char s"

definition of_bytes :: "bytes \<Rightarrow> string" where
  "of_bytes bs = map (\<lambda>b. char_of (unat b)) bs"

lemma of_to_bytes [simp]: "of_bytes (to_bytes s) = s"
proof -
  have "char_of (unat (of_char c :: u8)) = c" for c :: char
  proof -
    have "(of_char c :: u8) = word_of_nat (of_char c)" by (simp only: of_nat_of_char)
    then have "unat (of_char c :: u8) = of_char c mod 2 ^ 8" by (simp only: unat_of_nat) simp
    also have "\<dots> = (of_char c :: nat)" by simp
    finally show ?thesis by simp
  qed
  then show ?thesis by (simp add: of_bytes_def to_bytes_def comp_def)
qed

subsection \<open>Transition systems\<close>

text \<open>
  What the step relations of the development share: steps that keep a property keep it along
  every run, and where the property gives every unfinished state a step no run gets stuck.
\<close>

lemma two_steps: "R r s \<Longrightarrow> R s t \<Longrightarrow> R\<^sup>*\<^sup>* r t"
  by (erule converse_rtranclp_into_rtranclp) (erule r_into_rtranclp)

locale invariant_system =
  fixes step :: "'s \<Rightarrow> 's \<Rightarrow> bool" and inv :: "'s \<Rightarrow> bool"
  assumes step_inv: "step s t \<Longrightarrow> inv s \<Longrightarrow> inv t"
begin

lemma steps_inv: "step\<^sup>*\<^sup>* s t \<Longrightarrow> inv s \<Longrightarrow> inv t"
  by (induction rule: rtranclp_induct) (auto intro: step_inv)

end

locale progress_system = invariant_system +
  fixes final :: "'a \<Rightarrow> bool"
  assumes progress: "inv s \<Longrightarrow> \<not> final s \<Longrightarrow> \<exists>t. step s t"
begin

lemma never_stuck: "step\<^sup>*\<^sup>* s t \<Longrightarrow> inv s \<Longrightarrow> \<not> final t \<Longrightarrow> \<exists>u. step t u"
  by (rule progress [OF steps_inv])

end

end
