(* ===== verification/Page_Table.thy ===== *)
theory Page_Table
  imports Prelude
begin

text \<open>
  The page table of one File:Tag in a Worker: \<^verbatim>\<open>worker/src/memory/page_table.c\<close>. The
  array of entries is a list whose length is the recorded page count in every table the
  module builds (\<open>pt_ok\<close>). Page and frame numbers are natural numbers: the counters they
  stand for are bounded by the size of the allocated arrays.
\<close>

record pt_entry_t =
  page_number :: nat
  frame :: nat
  dirty :: bool
  present :: bool
  last_access_time :: nat
  use_bit :: bool

record page_table_t =
  entries :: "pt_entry_t list"
  page_count :: nat
  pt_page_size :: nat

definition pt_get_entry :: "page_table_t \<Rightarrow> nat \<Rightarrow> pt_entry_t option" where
  "pt_get_entry pt n = (if n \<ge> page_count pt then None else Some (entries pt ! n))"

text \<open>An entry as \<^verbatim>\<open>calloc\<close> and the initialising loops leave it.\<close>

definition blank_entry :: "nat \<Rightarrow> pt_entry_t" where
  "blank_entry i = \<lparr>page_number = i, frame = 0, dirty = False, present = False,
     last_access_time = 0, use_bit = False\<rparr>"

definition pt_create :: "nat \<Rightarrow> nat \<Rightarrow> page_table_t option" where
  "pt_create n psize =
     (if n = 0 \<or> psize = 0 then None
      else Some \<lparr>entries = map blank_entry [0..<n], page_count = n, pt_page_size = psize\<rparr>)"

definition pt_resize :: "page_table_t \<Rightarrow> nat \<Rightarrow> int \<times> page_table_t" where
  "pt_resize pt n =
     (if n = 0 then (-1, pt)
      else if n = page_count pt then (0, pt)
      else
        (0, pt\<lparr>entries := take n (entries pt) @ map blank_entry [page_count pt..<n],
               page_count := n\<rparr>))"

text \<open>A write through the pointer \<^verbatim>\<open>pt_get_entry\<close> returned.\<close>

definition pt_update :: "page_table_t \<Rightarrow> nat \<Rightarrow> (pt_entry_t \<Rightarrow> pt_entry_t) \<Rightarrow> page_table_t" where
  "pt_update pt n f = pt\<lparr>entries := (entries pt)[n := f (entries pt ! n)]\<rparr>"

definition pt_map :: "page_table_t \<Rightarrow> nat \<Rightarrow> nat \<Rightarrow> int \<times> page_table_t" where
  "pt_map pt n fr =
     (case pt_get_entry pt n of
        None \<Rightarrow> (-1, pt)
      | Some _ \<Rightarrow>
          (0, pt_update pt n (\<lambda>e. e\<lparr>frame := fr, present := True, dirty := False\<rparr>)))"

definition pt_unmap :: "page_table_t \<Rightarrow> nat \<Rightarrow> int \<times> page_table_t" where
  "pt_unmap pt n =
     (case pt_get_entry pt n of
        None \<Rightarrow> (-1, pt)
      | Some _ \<Rightarrow>
          (0, pt_update pt n (\<lambda>e. e\<lparr>frame := 0, present := False, dirty := False\<rparr>)))"

definition pt_set_dirty :: "page_table_t \<Rightarrow> nat \<Rightarrow> bool \<Rightarrow> page_table_t" where
  "pt_set_dirty pt n d =
     (case pt_get_entry pt n of None \<Rightarrow> pt | Some _ \<Rightarrow> pt_update pt n (\<lambda>e. e\<lparr>dirty := d\<rparr>))"

definition pt_set_present :: "page_table_t \<Rightarrow> nat \<Rightarrow> bool \<Rightarrow> page_table_t" where
  "pt_set_present pt n p =
     (case pt_get_entry pt n of None \<Rightarrow> pt | Some _ \<Rightarrow> pt_update pt n (\<lambda>e. e\<lparr>present := p\<rparr>))"

definition pt_update_access_time :: "page_table_t \<Rightarrow> nat \<Rightarrow> nat \<Rightarrow> page_table_t" where
  "pt_update_access_time pt n ts =
     (case pt_get_entry pt n of
        None \<Rightarrow> pt
      | Some _ \<Rightarrow> pt_update pt n (\<lambda>e. e\<lparr>last_access_time := ts\<rparr>))"

text \<open>
  The copies of the dirty entries, in order, as a list: it is empty exactly where the source
  returns \<^verbatim>\<open>NULL\<close> with a count of 0.
\<close>

definition pt_get_dirty_entries :: "page_table_t \<Rightarrow> pt_entry_t list" where
  "pt_get_dirty_entries pt = filter dirty (entries pt)"

subsection \<open>Well-formed tables\<close>

definition pt_ok :: "page_table_t \<Rightarrow> bool" where
  "pt_ok pt \<longleftrightarrow> length (entries pt) = page_count pt \<and> 0 < page_count pt \<and> 0 < pt_page_size pt \<and>
     (\<forall>i < page_count pt. page_number (entries pt ! i) = i)"

lemma pt_okD:
  assumes "pt_ok pt"
  shows "length (entries pt) = page_count pt" and "0 < page_count pt"
    and "i < page_count pt \<Longrightarrow> page_number (entries pt ! i) = i"
  using assms by (auto simp: pt_ok_def)

lemma pt_create_ok: "pt_create n psize = Some pt \<Longrightarrow> pt_ok pt"
  by (auto simp: pt_create_def pt_ok_def blank_entry_def split: if_splits)

lemma pt_resize_ok: "pt_ok pt \<Longrightarrow> pt_ok (snd (pt_resize pt n))"
  by (auto simp: pt_resize_def pt_ok_def blank_entry_def nth_append)

lemma pt_update_fields [simp]:
  "page_count (pt_update pt n f) = page_count pt" "pt_page_size (pt_update pt n f) = pt_page_size pt"
  "length (entries (pt_update pt n f)) = length (entries pt)"
  by (simp_all add: pt_update_def)

lemma nth_pt_update:
  "i < length (entries pt) \<Longrightarrow>
   entries (pt_update pt n f) ! i = (if i = n then f (entries pt ! n) else entries pt ! i)"
  by (simp add: pt_update_def nth_list_update)

lemma pt_update_ok:
  "pt_ok pt \<Longrightarrow> page_number (f (entries pt ! n)) = page_number (entries pt ! n) \<Longrightarrow>
   pt_ok (pt_update pt n f)"
  by (auto simp: pt_ok_def nth_pt_update)

lemma pt_ops_ok:
  assumes "pt_ok pt"
  shows "pt_ok (snd (pt_map pt n fr))" and "pt_ok (snd (pt_unmap pt n))"
    and "pt_ok (pt_set_dirty pt n d)" and "pt_ok (pt_set_present pt n p)"
    and "pt_ok (pt_update_access_time pt n ts)"
  using assms
  by (auto simp: pt_map_def pt_unmap_def pt_set_dirty_def pt_set_present_def
      pt_update_access_time_def intro: pt_update_ok split: option.splits)

text \<open>
  Resizing a page table keeps what it can and adds only absent pages. A request for zero
  pages fails and changes nothing; otherwise the table has the requested number of pages and
  stays well formed, every page below both sizes keeps its whole entry, and every page added
  is absent and clean.
\<close>

theorem pt_resize_spec:
  assumes "pt_ok pt"
  shows "pt_resize pt 0 = (-1, pt) \<and>
    (0 < n \<longrightarrow> fst (pt_resize pt n) = 0 \<and> pt_ok (snd (pt_resize pt n)) \<and>
      page_count (snd (pt_resize pt n)) = n \<and> pt_page_size (snd (pt_resize pt n)) = pt_page_size pt \<and>
      (\<forall>i < n. pt_get_entry (snd (pt_resize pt n)) i =
         (if i < page_count pt then pt_get_entry pt i else Some (blank_entry i))))"
  using assms pt_resize_ok [OF assms, of n]
  by (auto simp: pt_resize_def pt_get_entry_def pt_ok_def nth_append)

theorem pt_resize_spec_witness:
  "fst (pt_resize (the (pt_create 2 16)) 5) = 0 \<and>
   pt_get_entry (snd (pt_resize (the (pt_create 2 16)) 5)) 4 = Some (blank_entry 4)"
proof -
  have "pt_ok (the (pt_create 2 16))"
    by (rule pt_create_ok [of 2 16]) (simp add: pt_create_def)
  from pt_resize_spec [OF this, of 5] show ?thesis
    by (auto simp: pt_create_def)
qed

end
