(* ===== verification/Memory_Manager.thy ===== *)
theory Memory_Manager
  imports Page_Table
begin

text \<open>
  The internal memory of a Worker: \<^verbatim>\<open>worker/src/memory/memory_manager.c\<close>. A record holds
  the array of File:Tag entries (with their page tables), the frame table, the physical
  memory as bytes, the clock pointer and the static timestamp of the LRU policy. A
  \<^verbatim>\<open>page_table_t *\<close> handed around by the source is the index of its entry, which no
  operation that receives one changes. The two calls to the Storage process
  (\<^verbatim>\<open>read_block_from_storage\<close>, \<^verbatim>\<open>write_block_to_storage\<close>) are arguments: functions on a
  store state. Operations that may run CLOCK-M, whose search loop has no bound in the source,
  return an \<open>option\<close>: \<open>None\<close> means that the call does not return.
\<close>

record 's store_io =
  io_read :: "'s \<Rightarrow> string \<Rightarrow> string \<Rightarrow> nat \<Rightarrow> (int \<times> bytes) \<times> 's"
  io_write :: "'s \<Rightarrow> string \<Rightarrow> string \<Rightarrow> nat \<Rightarrow> bytes \<Rightarrow> int \<times> 's"

datatype pt_replacement_t = CLOCK_M | LRU

record file_tag_entry_t =
  e_file :: string
  e_tag :: string
  e_pt :: page_table_t

record memory_manager_t =
  mm_entries :: "file_tag_entry_t list"
  capacity :: nat
  mm_page_size :: nat
  policy :: pt_replacement_t
  physical_memory :: bytes
  memory_retardation :: int
  storage_socket :: int
  mm_worker_id :: int
  mm_query_id :: int
  master_socket :: int
  frames :: "bool list" \<comment> \<open>the \<^verbatim>\<open>used\<close> flag of each frame\<close>
  frame_count :: nat
  clock_pointer :: nat
  last_victim_file :: "string option"
  last_victim_tag :: "string option"
  last_victim_page :: nat
  last_victim_valid :: bool
  global_timestamp :: nat

subsection \<open>Pages and page tables by index\<close>

definition mm_pt :: "memory_manager_t \<Rightarrow> nat \<Rightarrow> page_table_t" where
  "mm_pt mm i = e_pt (mm_entries mm ! i)"

definition set_pt :: "memory_manager_t \<Rightarrow> nat \<Rightarrow> page_table_t \<Rightarrow> memory_manager_t" where
  "set_pt mm i pt = mm\<lparr>mm_entries := (mm_entries mm)[i := (mm_entries mm ! i)\<lparr>e_pt := pt\<rparr>]\<rparr>"

definition page_at :: "memory_manager_t \<Rightarrow> nat \<Rightarrow> nat \<Rightarrow> pt_entry_t" where
  "page_at mm i j = entries (mm_pt mm i) ! j"

text \<open>The order in which the nested loops over entries and pages visit the pages.\<close>

definition page_slots :: "memory_manager_t \<Rightarrow> (nat \<times> nat) list" where
  "page_slots mm =
     concat (map (\<lambda>i. map (Pair i) [0..<page_count (mm_pt mm i)]) [0..<length (mm_entries mm)])"

definition mm_find_page_for_frame :: "memory_manager_t \<Rightarrow> nat \<Rightarrow> (nat \<times> nat) option" where
  "mm_find_page_for_frame mm frame_idx =
     find (\<lambda>(i, j). present (page_at mm i j) \<and> frame (page_at mm i j) = frame_idx) (page_slots mm)"

subsection \<open>Creation and the table of entries\<close>

definition mm_resize_entries :: "memory_manager_t \<Rightarrow> memory_manager_t" where
  "mm_resize_entries mm =
     (if length (mm_entries mm) < capacity mm then mm
      else mm\<lparr>capacity := (if capacity mm = 0 then 4 else capacity mm * 2)\<rparr>)"

text \<open>\<open>garbage\<close> is what the fresh physical memory happens to hold.\<close>

definition mm_create ::
  "(nat \<Rightarrow> u8) \<Rightarrow> nat \<Rightarrow> nat \<Rightarrow> pt_replacement_t \<Rightarrow> int \<Rightarrow> memory_manager_t option" where
  "mm_create garbage memory_size psize pol retardation_ms =
     (if memory_size = 0 \<or> psize = 0 then None
      else Some
        \<lparr>mm_entries = [], capacity = 0, mm_page_size = psize, policy = pol,
         physical_memory = map garbage [0..<memory_size], memory_retardation = retardation_ms,
         storage_socket = -1, mm_worker_id = -1, mm_query_id = -1, master_socket = -1,
         frames = replicate (memory_size div psize) False, frame_count = memory_size div psize,
         clock_pointer = 0, last_victim_file = None, last_victim_tag = None, last_victim_page = 0,
         last_victim_valid = False, global_timestamp = 0\<rparr>)"

definition mm_set_storage_connection :: "memory_manager_t \<Rightarrow> int \<Rightarrow> int \<Rightarrow> memory_manager_t" where
  "mm_set_storage_connection mm sock wid = mm\<lparr>storage_socket := sock, mm_worker_id := wid\<rparr>"

definition mm_set_master_connection :: "memory_manager_t \<Rightarrow> int \<Rightarrow> memory_manager_t" where
  "mm_set_master_connection mm sock = mm\<lparr>master_socket := sock\<rparr>"

definition mm_set_query_id :: "memory_manager_t \<Rightarrow> int \<Rightarrow> memory_manager_t" where
  "mm_set_query_id mm qid = mm\<lparr>mm_query_id := qid\<rparr>"

definition mm_find_page_table :: "memory_manager_t \<Rightarrow> string \<Rightarrow> string \<Rightarrow> nat option" where
  "mm_find_page_table mm file tag =
     find (\<lambda>i. e_file (mm_entries mm ! i) = file \<and> e_tag (mm_entries mm ! i) = tag)
       [0..<length (mm_entries mm)]"

definition mm_has_page_table :: "memory_manager_t \<Rightarrow> string \<Rightarrow> string \<Rightarrow> bool" where
  "mm_has_page_table mm file tag \<longleftrightarrow> mm_find_page_table mm file tag \<noteq> None"

definition mm_create_page_table ::
  "memory_manager_t \<Rightarrow> string \<Rightarrow> string \<Rightarrow> nat option \<times> memory_manager_t" where
  "mm_create_page_table mm file tag =
     (case mm_find_page_table mm file tag of
        Some i \<Rightarrow> (Some i, mm)
      | None \<Rightarrow>
          let mm1 = mm_resize_entries mm
          in case pt_create 1 (mm_page_size mm1) of
               None \<Rightarrow> (None, mm1)
             | Some pt \<Rightarrow>
                 (Some (length (mm_entries mm1)),
                  mm1\<lparr>mm_entries := mm_entries mm1 @ [\<lparr>e_file = file, e_tag = tag, e_pt = pt\<rparr>]\<rparr>))"

text \<open>The last entry takes the place of the removed one.\<close>

definition mm_remove_page_table :: "memory_manager_t \<Rightarrow> string \<Rightarrow> string \<Rightarrow> memory_manager_t" where
  "mm_remove_page_table mm file tag =
     (case mm_find_page_table mm file tag of
        None \<Rightarrow> mm
      | Some i \<Rightarrow>
          mm\<lparr>mm_entries := butlast ((mm_entries mm)[i := last (mm_entries mm)])\<rparr>)"

definition mm_resize_page_table ::
  "memory_manager_t \<Rightarrow> string \<Rightarrow> string \<Rightarrow> nat \<Rightarrow> int \<times> memory_manager_t" where
  "mm_resize_page_table mm file tag new_page_count =
     (case mm_find_page_table mm file tag of
        None \<Rightarrow> (-1, mm)
      | Some i \<Rightarrow>
          let (r, pt) = pt_resize (mm_pt mm i) new_page_count in (r, set_pt mm i pt))"

subsection \<open>Frames and accesses\<close>

definition mm_free_frame :: "memory_manager_t \<Rightarrow> nat \<Rightarrow> int \<times> memory_manager_t" where
  "mm_free_frame mm fr =
     (if fr \<ge> frame_count mm then (-1, mm) else (0, mm\<lparr>frames := (frames mm)[fr := False]\<rparr>))"

text \<open>The address of a frame, as an offset into the physical memory.\<close>

definition mm_get_frame_address :: "memory_manager_t \<Rightarrow> nat \<Rightarrow> nat option" where
  "mm_get_frame_address mm fr =
     (if fr \<ge> frame_count mm then None else Some (fr * mm_page_size mm))"

definition mm_update_page_access :: "memory_manager_t \<Rightarrow> nat \<Rightarrow> nat \<Rightarrow> memory_manager_t" where
  "mm_update_page_access mm i n =
     (if n \<ge> page_count (mm_pt mm i) then mm
      else case policy mm of
        LRU \<Rightarrow>
          let new_ts = global_timestamp mm + 1
          in (set_pt mm i (pt_update_access_time (mm_pt mm i) n new_ts))\<lparr>global_timestamp := new_ts\<rparr>
      | CLOCK_M \<Rightarrow> set_pt mm i (pt_update (mm_pt mm i) n (\<lambda>e. e\<lparr>use_bit := True\<rparr>)))"

subsection \<open>Victim selection\<close>

text \<open>
  What both policies do with the victim: unmap the page, free the frame, note the victim.
\<close>

definition evict :: "memory_manager_t \<Rightarrow> nat \<Rightarrow> nat \<Rightarrow> nat \<Rightarrow> memory_manager_t" where
  "evict mm i j fr =
     (let mm1 = set_pt mm i (snd (pt_unmap (mm_pt mm i) j))
      in mm1\<lparr>frames := (frames mm1)[fr := False],
             last_victim_file := Some (e_file (mm_entries mm ! i)),
             last_victim_tag := Some (e_tag (mm_entries mm ! i)),
             last_victim_page := j, last_victim_valid := True\<rparr>)"

text \<open>
  The scan of LRU: the first present page whose access time is strictly below every earlier
  one, starting from \<^verbatim>\<open>UINT64_MAX\<close>.
\<close>

fun lru_step ::
  "memory_manager_t \<Rightarrow> nat \<times> nat \<Rightarrow> nat \<times> (nat \<times> nat) option \<Rightarrow> nat \<times> (nat \<times> nat) option" where
  "lru_step mm (i, j) (oldest_time, victim) =
     (if present (page_at mm i j) \<and> last_access_time (page_at mm i j) < oldest_time
      then (last_access_time (page_at mm i j), Some (i, j))
      else (oldest_time, victim))"

definition lru_scan :: "memory_manager_t \<Rightarrow> nat \<times> (nat \<times> nat) option" where
  "lru_scan mm = fold (lru_step mm) (page_slots mm) (2 ^ 64 - 1, None)"

definition mm_find_lru_victim ::
  "'s store_io \<Rightarrow> memory_manager_t \<Rightarrow> 's \<Rightarrow> int \<times> memory_manager_t \<times> 's" where
  "mm_find_lru_victim io mm s =
     (if mm_entries mm = [] then (-1, mm, s)
      else case snd (lru_scan mm) of
        None \<Rightarrow> (-1, mm, s)
      | Some (i, j) \<Rightarrow>
          let victim_frame = frame (page_at mm i j);
              entry = mm_entries mm ! i
          in if dirty (page_at mm i j) then
               (case mm_get_frame_address mm victim_frame of
                  None \<Rightarrow> (-1, mm, s)
                | Some addr \<Rightarrow>
                    let (r, s1) = io_write io s (e_file entry) (e_tag entry) j
                          (region addr (mm_page_size mm) (physical_memory mm))
                    in if r \<noteq> 0 then (-1, mm, s1)
                       else (int victim_frame, evict mm i j victim_frame, s1))
             else (int victim_frame, evict mm i j victim_frame, s))"

text \<open>First pass of CLOCK-M over \<open>k\<close> frames: a used, mapped page with U=0 and M=0.\<close>

fun clockm_pass1 :: "nat \<Rightarrow> memory_manager_t \<Rightarrow> nat option \<times> memory_manager_t" where
  "clockm_pass1 0 mm = (None, mm)"
| "clockm_pass1 (Suc k) mm =
     (let idx = clock_pointer mm;
          next_ptr = (idx + 1) mod frame_count mm
      in if \<not> frames mm ! idx then clockm_pass1 k (mm\<lparr>clock_pointer := next_ptr\<rparr>)
         else case mm_find_page_for_frame mm idx of
           None \<Rightarrow> clockm_pass1 k (mm\<lparr>clock_pointer := next_ptr\<rparr>)
         | Some (i, j) \<Rightarrow>
             if \<not> use_bit (page_at mm i j) \<and> \<not> dirty (page_at mm i j)
             then (Some idx, (evict mm i j idx)\<lparr>clock_pointer := next_ptr\<rparr>)
             else clockm_pass1 k (mm\<lparr>clock_pointer := next_ptr\<rparr>))"

text \<open>
  Second pass: remember the first page with U=0 and M=1, and clear every U met on the way.
\<close>

fun clockm_pass2 ::
  "nat \<Rightarrow> memory_manager_t \<Rightarrow> (nat \<times> nat \<times> nat) option \<Rightarrow>
   (nat \<times> nat \<times> nat) option \<times> memory_manager_t" where
  "clockm_pass2 0 mm cand = (cand, mm)"
| "clockm_pass2 (Suc k) mm cand =
     (let idx = clock_pointer mm;
          next_ptr = (idx + 1) mod frame_count mm
      in if \<not> frames mm ! idx then clockm_pass2 k (mm\<lparr>clock_pointer := next_ptr\<rparr>) cand
         else case mm_find_page_for_frame mm idx of
           None \<Rightarrow> clockm_pass2 k (mm\<lparr>clock_pointer := next_ptr\<rparr>) cand
         | Some (i, j) \<Rightarrow>
             let page = page_at mm i j;
                 cand1 = (if \<not> use_bit page \<and> dirty page \<and> cand = None then Some (idx, i, j) else cand);
                 mm1 = (if use_bit page
                        then set_pt mm i (pt_update (mm_pt mm i) j (\<lambda>e. e\<lparr>use_bit := False\<rparr>))
                        else mm)
             in clockm_pass2 k (mm1\<lparr>clock_pointer := next_ptr\<rparr>) cand1)"

text \<open>The unbounded loop over the two passes.\<close>

partial_function (option) clockm_loop ::
  "'s store_io \<Rightarrow> memory_manager_t \<Rightarrow> 's \<Rightarrow> (int \<times> memory_manager_t \<times> 's) option" where
  "clockm_loop io mm s =
     (case clockm_pass1 (frame_count mm) mm of
        (Some idx, mm1) \<Rightarrow> Some (int idx, mm1, s)
      | (None, mm1) \<Rightarrow>
          (case clockm_pass2 (frame_count mm1) mm1 None of
             (None, mm2) \<Rightarrow> clockm_loop io mm2 s
           | (Some (fr, i, j), mm2) \<Rightarrow>
               (let entry = mm_entries mm2 ! i
                in case mm_get_frame_address mm2 fr of
                     None \<Rightarrow> Some (-1, mm2, s)
                   | Some addr \<Rightarrow>
                       (let (r, s1) = io_write io s (e_file entry) (e_tag entry) j
                              (region addr (mm_page_size mm2) (physical_memory mm2))
                        in if r \<noteq> 0 then Some (-1, mm2, s1)
                           else Some (int fr,
                             (evict mm2 i j fr)\<lparr>clock_pointer := (fr + 1) mod frame_count mm2\<rparr>, s1)))))"

definition mm_find_clockm_victim ::
  "'s store_io \<Rightarrow> memory_manager_t \<Rightarrow> 's \<Rightarrow> (int \<times> memory_manager_t \<times> 's) option" where
  "mm_find_clockm_victim io mm s =
     (if policy mm \<noteq> CLOCK_M then Some (-1, mm, s)
      else if frame_count mm = 0 then Some (-1, mm, s)
      else clockm_loop io mm s)"

definition mm_allocate_frame ::
  "'s store_io \<Rightarrow> memory_manager_t \<Rightarrow> 's \<Rightarrow> (int \<times> memory_manager_t \<times> 's) option" where
  "mm_allocate_frame io mm s =
     (case find (\<lambda>i. \<not> frames mm ! i) [0..<frame_count mm] of
        Some i \<Rightarrow> Some (int i, mm\<lparr>frames := (frames mm)[i := True]\<rparr>, s)
      | None \<Rightarrow>
          (case (case policy mm of LRU \<Rightarrow> Some (mm_find_lru_victim io mm s)
                                 | CLOCK_M \<Rightarrow> mm_find_clockm_victim io mm s) of
             None \<Rightarrow> None
           | Some (victim_frame, mm1, s1) \<Rightarrow>
               if victim_frame \<noteq> -1
               then Some (victim_frame, mm1\<lparr>frames := (frames mm1)[nat victim_frame := True]\<rparr>, s1)
               else Some (-1, mm1, s1)))"

subsection \<open>Page faults and memory accesses\<close>

text \<open>Both the access loop and the fault handler first grow the page table up to the page.\<close>

definition ensure_page :: "memory_manager_t \<Rightarrow> nat \<Rightarrow> nat \<Rightarrow> int \<times> memory_manager_t" where
  "ensure_page mm i n =
     (if n \<ge> page_count (mm_pt mm i)
      then (let (r, pt) = pt_resize (mm_pt mm i) (n + 1) in (r, set_pt mm i pt))
      else (0, mm))"

text \<open>What a fault leaves in the frame, from the answer of the store.\<close>

definition fill_frame :: "nat \<Rightarrow> bytes \<Rightarrow> bytes" where
  "fill_frame psize data = take psize data @ replicate (psize - length data) 0"

definition mm_handle_page_fault ::
  "'s store_io \<Rightarrow> memory_manager_t \<Rightarrow> 's \<Rightarrow> nat \<Rightarrow> string \<Rightarrow> string \<Rightarrow> nat \<Rightarrow>
   (int \<times> memory_manager_t \<times> 's) option" where
  "mm_handle_page_fault io mm s i file tag n =
     (let (r0, mm0) = ensure_page mm i n
      in if r0 \<noteq> 0 then Some (-1, mm0, s)
         else if storage_socket mm0 = -1 \<or> mm_worker_id mm0 = -1 then Some (-1, mm0, s)
         else case mm_allocate_frame io mm0 s of
           None \<Rightarrow> None
         | Some (fr, mm1, s1) \<Rightarrow>
             if fr = -1 then Some (-1, mm1, s1)
             else case mm_get_frame_address mm1 (nat fr) of
               None \<Rightarrow> Some (-1, snd (mm_free_frame mm1 (nat fr)), s1)
             | Some addr \<Rightarrow>
                 let ((result, data), s2) = io_read io s1 file tag n
                 in if result \<noteq> 0 \<and> result \<noteq> -2
                    then Some (-1, snd (mm_free_frame mm1 (nat fr)), s2)
                    else
                      let content = (if result = 0 \<and> data \<noteq> [] then fill_frame (mm_page_size mm1) data
                                     else replicate (mm_page_size mm1) 0);
                          mm2 = mm1\<lparr>physical_memory := store_at addr content (physical_memory mm1)\<rparr>;
                          (r, pt) = pt_map (mm_pt mm2 i) n (nat fr)
                      in if r \<noteq> 0 then Some (-1, snd (mm_free_frame mm2 (nat fr)), s2)
                         else
                           let mm3 = mm_update_page_access (set_pt mm2 i pt) i n
                           in Some (0, mm3\<lparr>last_victim_valid := False\<rparr>, s2))"

text \<open>
  The loop of \<^verbatim>\<open>mm_access_memory\<close>. \<open>wr\<close> tells a write from a read; \<open>ptr\<close> is what is
  left of the bytes to write, \<open>out\<close> what has been read. A page size of 0 cannot occur (a
  manager is not created with one) and would make no progress: the loop then does not
  return, as for a frame number that has no address.
\<close>

function access_loop ::
  "'s store_io \<Rightarrow> bool \<Rightarrow> nat \<Rightarrow> string \<Rightarrow> string \<Rightarrow> memory_manager_t \<Rightarrow> 's \<Rightarrow> nat \<Rightarrow> nat \<Rightarrow> nat \<Rightarrow>
   bytes \<Rightarrow> bytes \<Rightarrow> (int \<times> bytes \<times> memory_manager_t \<times> 's) option" where
  "access_loop io wr i file tag mm s current_page off remaining ptr out =
     (if remaining = 0 then Some (0, out, mm, s)
      else
        let (r0, mm0) = ensure_page mm i current_page
        in if r0 \<noteq> 0 then Some (-1, out, mm0, s)
           else case (if present (page_at mm0 i current_page) then Some (0, mm0, s)
                      else mm_handle_page_fault io mm0 s i file tag current_page) of
             None \<Rightarrow> None
           | Some (rf, mm1, s1) \<Rightarrow>
               if rf \<noteq> 0 then Some (-1, out, mm1, s1)
               else
                 let mm2 = mm_update_page_access mm1 i current_page
                 in case mm_get_frame_address mm2 (frame (page_at mm2 i current_page)) of
                      None \<Rightarrow> None
                    | Some addr \<Rightarrow>
                        let n = min (mm_page_size mm2 - off) remaining
                        in if n = 0 then None
                           else if wr then
                             let mm3 = mm2\<lparr>physical_memory :=
                                   store_at (addr + off) (take n ptr) (physical_memory mm2)\<rparr>;
                                 mm4 = set_pt mm3 i (pt_set_dirty (mm_pt mm3 i) current_page True)
                             in access_loop io wr i file tag mm4 s1 (current_page + 1) 0
                                  (remaining - n) (drop n ptr) out
                           else
                             access_loop io wr i file tag mm2 s1 (current_page + 1) 0
                               (remaining - n) ptr (out @ region (addr + off) n (physical_memory mm2)))"
  by pat_completeness auto
termination
  by (relation "measure (\<lambda>(io, wr, i, file, tag, mm, s, p, off, remaining, ptr, out). remaining)") auto

declare access_loop.simps [simp del]

definition mm_access_memory ::
  "'s store_io \<Rightarrow> bool \<Rightarrow> memory_manager_t \<Rightarrow> 's \<Rightarrow> nat \<Rightarrow> string \<Rightarrow> string \<Rightarrow> nat \<Rightarrow> nat \<Rightarrow> bytes \<Rightarrow>
   (int \<times> bytes \<times> memory_manager_t \<times> 's) option" where
  "mm_access_memory io wr mm s i file tag base_address len data =
     (if len = 0 then Some (-1, [], mm, s)
      else access_loop io wr i file tag mm s (base_address div mm_page_size mm)
             (base_address mod mm_page_size mm) len data [])"

definition mm_write_to_memory ::
  "'s store_io \<Rightarrow> memory_manager_t \<Rightarrow> 's \<Rightarrow> nat \<Rightarrow> string \<Rightarrow> string \<Rightarrow> nat \<Rightarrow> bytes \<Rightarrow>
   (int \<times> memory_manager_t \<times> 's) option" where
  "mm_write_to_memory io mm s i file tag base_address data =
     map_option (\<lambda>(r, _, mm1, s1). (r, mm1, s1))
       (mm_access_memory io True mm s i file tag base_address (length data) data)"

definition mm_read_from_memory ::
  "'s store_io \<Rightarrow> memory_manager_t \<Rightarrow> 's \<Rightarrow> nat \<Rightarrow> string \<Rightarrow> string \<Rightarrow> nat \<Rightarrow> nat \<Rightarrow>
   (int \<times> bytes \<times> memory_manager_t \<times> 's) option" where
  "mm_read_from_memory io mm s i file tag base_address len =
     mm_access_memory io False mm s i file tag base_address len []"

subsection \<open>Flushing\<close>

definition mm_get_dirty_pages :: "memory_manager_t \<Rightarrow> string \<Rightarrow> string \<Rightarrow> pt_entry_t list" where
  "mm_get_dirty_pages mm file tag =
     (case mm_find_page_table mm file tag of
        None \<Rightarrow> []
      | Some i \<Rightarrow> pt_get_dirty_entries (mm_pt mm i))"

definition mm_mark_all_clean :: "memory_manager_t \<Rightarrow> string \<Rightarrow> string \<Rightarrow> memory_manager_t" where
  "mm_mark_all_clean mm file tag =
     (case mm_find_page_table mm file tag of
        None \<Rightarrow> mm
      | Some i \<Rightarrow>
          set_pt mm i (fold (\<lambda>n pt. pt_set_dirty pt n False) [0..<page_count (mm_pt mm i)] (mm_pt mm i)))"

text \<open>
  The loop over the copied dirty entries of one File:Tag: both flush operations run it. A
  page that is not present is skipped; the first failure ends the flush.
\<close>

fun flush_pages ::
  "'s store_io \<Rightarrow> string \<Rightarrow> string \<Rightarrow> nat \<Rightarrow> pt_entry_t list \<Rightarrow> memory_manager_t \<Rightarrow> 's \<Rightarrow>
   int \<times> memory_manager_t \<times> 's" where
  "flush_pages io file tag i [] mm s = (0, mm, s)"
| "flush_pages io file tag i (p # ps) mm s =
     (if \<not> present p then flush_pages io file tag i ps mm s
      else case mm_get_frame_address mm (frame p) of
        None \<Rightarrow> (-1, mm, s)
      | Some addr \<Rightarrow>
          let (r, s1) = io_write io s file tag (page_number p)
                (region addr (mm_page_size mm) (physical_memory mm))
          in if r \<noteq> 0 then (-1, mm, s1)
             else flush_pages io file tag i ps
                    (set_pt mm i (pt_set_dirty (mm_pt mm i) (page_number p) False)) s1)"

definition mm_flush_query ::
  "'s store_io \<Rightarrow> memory_manager_t \<Rightarrow> 's \<Rightarrow> string \<Rightarrow> string \<Rightarrow> int \<times> memory_manager_t \<times> 's" where
  "mm_flush_query io mm s file tag =
     (if storage_socket mm = -1 \<or> mm_worker_id mm = -1 then (-1, mm, s)
      else if mm_get_dirty_pages mm file tag = [] then (0, mm, s)
      else case mm_find_page_table mm file tag of
        None \<Rightarrow> (-1, mm, s)
      | Some i \<Rightarrow> flush_pages io file tag i (mm_get_dirty_pages mm file tag) mm s)"

fun flush_entries ::
  "'s store_io \<Rightarrow> nat list \<Rightarrow> memory_manager_t \<Rightarrow> 's \<Rightarrow> int \<times> memory_manager_t \<times> 's" where
  "flush_entries io [] mm s = (0, mm, s)"
| "flush_entries io (i # is) mm s =
     (let file = e_file (mm_entries mm ! i);
          tag = e_tag (mm_entries mm ! i);
          dirty_pages = mm_get_dirty_pages mm file tag
      in if dirty_pages = [] then flush_entries io is mm s
         else
           let (r, mm1, s1) = flush_pages io file tag i dirty_pages mm s
           in if r \<noteq> 0 then (-1, mm1, s1) else flush_entries io is mm1 s1)"

definition mm_flush_all_dirty ::
  "'s store_io \<Rightarrow> memory_manager_t \<Rightarrow> 's \<Rightarrow> int \<times> memory_manager_t \<times> 's" where
  "mm_flush_all_dirty io mm s =
     (if storage_socket mm = -1 \<or> mm_worker_id mm = -1 then (-1, mm, s)
      else flush_entries io [0..<length (mm_entries mm)] mm s)"

end
