(* ===== verification/Memory_Correct.thy ===== *)
theory Memory_Correct
  imports Memory_Manager
begin

text \<open>
  Correctness of the Worker's memory. \<open>mm_ok\<close> is the invariant of the manager (frames and
  pages agree, no frame is shared), \<open>coherent\<close> ties clean pages to the store, and
  \<open>vcontent\<close> is the memory a query sees: the frame of a present page, the store elsewhere.
  What the module relies on from the store is the locale \<open>block_store\<close>.
\<close>

subsection \<open>Elementary facts\<close>

definition slot :: "memory_manager_t \<Rightarrow> nat \<Rightarrow> nat \<Rightarrow> bool" where
  "slot mm i j \<longleftrightarrow> i < length (mm_entries mm) \<and> j < page_count (mm_pt mm i)"

definition key_at :: "memory_manager_t \<Rightarrow> nat \<Rightarrow> string \<times> string" where
  "key_at mm i = (e_file (mm_entries mm ! i), e_tag (mm_entries mm ! i))"

definition frame_bytes :: "memory_manager_t \<Rightarrow> nat \<Rightarrow> bytes" where
  "frame_bytes mm fr = region (fr * mm_page_size mm) (mm_page_size mm) (physical_memory mm)"

lemma set_page_slots: "set (page_slots mm) = {(i, j). slot mm i j}"
  by (auto simp: page_slots_def slot_def)

lemma set_pt_fields [simp]:
  "length (mm_entries (set_pt mm i pt)) = length (mm_entries mm)"
  "frames (set_pt mm i pt) = frames mm" "frame_count (set_pt mm i pt) = frame_count mm"
  "mm_page_size (set_pt mm i pt) = mm_page_size mm"
  "physical_memory (set_pt mm i pt) = physical_memory mm"
  "clock_pointer (set_pt mm i pt) = clock_pointer mm" "policy (set_pt mm i pt) = policy mm"
  "storage_socket (set_pt mm i pt) = storage_socket mm"
  "mm_worker_id (set_pt mm i pt) = mm_worker_id mm"
  by (simp_all add: set_pt_def)

lemma key_at_set_pt [simp]: "key_at (set_pt mm i pt) k = key_at mm k"
  by (cases "i < length (mm_entries mm)")
    (auto simp: key_at_def set_pt_def nth_list_update list_update_beyond)

lemma mm_pt_set_pt:
  "i < length (mm_entries mm) \<Longrightarrow> mm_pt (set_pt mm i pt) k = (if k = i then pt else mm_pt mm k)"
  by (simp add: mm_pt_def set_pt_def nth_list_update)

text \<open>Fields that neither the pages nor the frames depend on.\<close>

lemma view_irrelevant [simp]:
  "mm_pt (mm\<lparr>clock_pointer := c\<rparr>) = mm_pt mm" "page_at (mm\<lparr>clock_pointer := c\<rparr>) = page_at mm"
  "key_at (mm\<lparr>clock_pointer := c\<rparr>) = key_at mm"
  "mm_pt (mm\<lparr>global_timestamp := t\<rparr>) = mm_pt mm" "page_at (mm\<lparr>global_timestamp := t\<rparr>) = page_at mm"
  "key_at (mm\<lparr>global_timestamp := t\<rparr>) = key_at mm"
  "mm_pt (mm\<lparr>last_victim_valid := v\<rparr>) = mm_pt mm" "page_at (mm\<lparr>last_victim_valid := v\<rparr>) = page_at mm"
  "key_at (mm\<lparr>last_victim_valid := v\<rparr>) = key_at mm"
  "mm_pt (mm\<lparr>frames := f\<rparr>) = mm_pt mm" "page_at (mm\<lparr>frames := f\<rparr>) = page_at mm"
  "key_at (mm\<lparr>frames := f\<rparr>) = key_at mm"
  "mm_pt (mm\<lparr>physical_memory := m\<rparr>) = mm_pt mm" "page_at (mm\<lparr>physical_memory := m\<rparr>) = page_at mm"
  "key_at (mm\<lparr>physical_memory := m\<rparr>) = key_at mm"
  by (auto simp: fun_eq_iff mm_pt_def page_at_def key_at_def)

lemma slot_irrelevant [simp]:
  "slot (mm\<lparr>clock_pointer := c\<rparr>) = slot mm" "slot (mm\<lparr>global_timestamp := ts\<rparr>) = slot mm"
  "slot (mm\<lparr>last_victim_valid := v\<rparr>) = slot mm" "slot (mm\<lparr>frames := f\<rparr>) = slot mm"
  "slot (mm\<lparr>physical_memory := m\<rparr>) = slot mm"
  by (auto simp: fun_eq_iff slot_def)

lemma find_Some_exists: "find P xs = None \<longleftrightarrow> (\<forall>x \<in> set xs. \<not> P x)"
  by (auto simp: find_None_iff)

lemma find_page_for_frame_Some:
  assumes "mm_find_page_for_frame mm fr = Some (i, j)"
  shows "slot mm i j" and "present (page_at mm i j)" and "frame (page_at mm i j) = fr"
  using find_SomeD [OF assms [unfolded mm_find_page_for_frame_def]] by (auto simp: set_page_slots)

lemma find_page_for_frame_None:
  assumes "mm_find_page_for_frame mm fr = None" and "slot mm i j" and "present (page_at mm i j)"
  shows "frame (page_at mm i j) \<noteq> fr"
  using assms by (auto simp: mm_find_page_for_frame_def find_Some_exists set_page_slots)

subsection \<open>The invariant\<close>

definition mm_ok :: "memory_manager_t \<Rightarrow> bool" where
  "mm_ok mm \<longleftrightarrow>
     0 < mm_page_size mm \<and> length (frames mm) = frame_count mm \<and>
     frame_count mm * mm_page_size mm \<le> length (physical_memory mm) \<and>
     (0 < frame_count mm \<longrightarrow> clock_pointer mm < frame_count mm) \<and>
     inj_on (key_at mm) {..<length (mm_entries mm)} \<and>
     (\<forall>i < length (mm_entries mm). pt_ok (mm_pt mm i)) \<and>
     (\<forall>i j. slot mm i j \<longrightarrow> present (page_at mm i j) \<longrightarrow>
        frame (page_at mm i j) < frame_count mm \<and> frames mm ! frame (page_at mm i j)) \<and>
     (\<forall>i j i' j'. slot mm i j \<longrightarrow> slot mm i' j' \<longrightarrow> present (page_at mm i j) \<longrightarrow>
        present (page_at mm i' j') \<longrightarrow> frame (page_at mm i j) = frame (page_at mm i' j') \<longrightarrow>
        i = i' \<and> j = j')"

lemma mm_okD:
  assumes "mm_ok mm"
  shows "0 < mm_page_size mm" and "length (frames mm) = frame_count mm"
    and "frame_count mm * mm_page_size mm \<le> length (physical_memory mm)"
    and "0 < frame_count mm \<Longrightarrow> clock_pointer mm < frame_count mm"
    and "inj_on (key_at mm) {..<length (mm_entries mm)}"
    and "i < length (mm_entries mm) \<Longrightarrow> pt_ok (mm_pt mm i)"
    and "slot mm i j \<Longrightarrow> present (page_at mm i j) \<Longrightarrow> frame (page_at mm i j) < frame_count mm"
    and "slot mm i j \<Longrightarrow> present (page_at mm i j) \<Longrightarrow> frames mm ! frame (page_at mm i j)"
    and "slot mm i j \<Longrightarrow> slot mm i' j' \<Longrightarrow> present (page_at mm i j) \<Longrightarrow> present (page_at mm i' j') \<Longrightarrow>
      frame (page_at mm i j) = frame (page_at mm i' j') \<Longrightarrow> i = i' \<and> j = j'"
  using assms by (simp_all add: mm_ok_def)

text \<open>Every used frame holds a page: what keeps CLOCK-M from searching for ever.\<close>

definition no_leak :: "memory_manager_t \<Rightarrow> bool" where
  "no_leak mm \<longleftrightarrow> (\<forall>fr < frame_count mm. frames mm ! fr \<longrightarrow>
     (\<exists>i j. slot mm i j \<and> present (page_at mm i j) \<and> frame (page_at mm i j) = fr))"

lemma slotD: "slot mm i j \<Longrightarrow> i < length (mm_entries mm)" "slot mm i j \<Longrightarrow> j < page_count (mm_pt mm i)"
  by (simp_all add: slot_def)

lemma slot_nth: "mm_ok mm \<Longrightarrow> slot mm i j \<Longrightarrow> j < length (entries (mm_pt mm i))"
  using mm_okD(6) pt_okD(1) by (fastforce simp: slot_def)

lemma mm_find_page_table_eq:
  assumes "mm_ok mm"
  shows "mm_find_page_table mm f t = Some i \<longleftrightarrow> i < length (mm_entries mm) \<and> key_at mm i = (f, t)"
proof
  show "mm_find_page_table mm f t = Some i \<Longrightarrow> i < length (mm_entries mm) \<and> key_at mm i = (f, t)"
    by (auto simp: mm_find_page_table_def key_at_def dest!: find_upt_Some)
next
  assume a: "i < length (mm_entries mm) \<and> key_at mm i = (f, t)"
  then obtain k where k: "mm_find_page_table mm f t = Some k"
    by (cases "mm_find_page_table mm f t")
      (auto simp: mm_find_page_table_def find_Some_exists key_at_def)
  then have "k < length (mm_entries mm)" "key_at mm k = (f, t)"
    by (auto simp: mm_find_page_table_def key_at_def dest!: find_upt_Some)
  with a mm_okD(5) [OF assms] have "k = i"
    by (auto simp: inj_on_def)
  with k show "mm_find_page_table mm f t = Some i" by simp
qed

text \<open>
  Two managers with the same pages, frames and memory: bookkeeping of the policies moves
  between them.
\<close>

definition mm_eqv :: "memory_manager_t \<Rightarrow> memory_manager_t \<Rightarrow> bool" where
  "mm_eqv mm mm' \<longleftrightarrow>
     length (mm_entries mm') = length (mm_entries mm) \<and>
     (\<forall>i < length (mm_entries mm). key_at mm' i = key_at mm i \<and>
        page_count (mm_pt mm' i) = page_count (mm_pt mm i) \<and>
        (pt_ok (mm_pt mm i) \<longrightarrow> pt_ok (mm_pt mm' i)) \<and>
        (pt_ok (mm_pt mm i) \<longrightarrow> (\<forall>j < page_count (mm_pt mm i).
           present (page_at mm' i j) = present (page_at mm i j) \<and>
           frame (page_at mm' i j) = frame (page_at mm i j) \<and>
           dirty (page_at mm' i j) = dirty (page_at mm i j)))) \<and>
     frames mm' = frames mm \<and> frame_count mm' = frame_count mm \<and>
     mm_page_size mm' = mm_page_size mm \<and> physical_memory mm' = physical_memory mm \<and>
     policy mm' = policy mm \<and> storage_socket mm' = storage_socket mm \<and>
     mm_worker_id mm' = mm_worker_id mm \<and>
     (clock_pointer mm < frame_count mm \<longrightarrow> clock_pointer mm' < frame_count mm)"

lemma mm_eqv_refl: "mm_eqv mm mm"
  by (simp add: mm_eqv_def)

lemma mm_eqv_trans: "mm_eqv a b \<Longrightarrow> mm_eqv b c \<Longrightarrow> mm_eqv a c"
  unfolding mm_eqv_def by (elim conjE, intro conjI; simp)

lemma mm_eqv_slot: "mm_eqv mm mm' \<Longrightarrow> slot mm' i j = slot mm i j"
  by (auto simp: mm_eqv_def slot_def)

lemma mm_eqv_page:
  assumes "mm_eqv mm mm'" and "mm_ok mm" and "slot mm i j"
  shows "present (page_at mm' i j) = present (page_at mm i j)"
    and "frame (page_at mm' i j) = frame (page_at mm i j)"
    and "dirty (page_at mm' i j) = dirty (page_at mm i j)"
  using assms by (auto simp: mm_eqv_def slot_def mm_ok_def)

lemma mm_eqvD:
  assumes "mm_eqv mm mm'"
  shows "length (mm_entries mm') = length (mm_entries mm)" and "frames mm' = frames mm"
    and "frame_count mm' = frame_count mm" and "mm_page_size mm' = mm_page_size mm"
    and "physical_memory mm' = physical_memory mm" and "policy mm' = policy mm"
    and "storage_socket mm' = storage_socket mm" and "mm_worker_id mm' = mm_worker_id mm"
    and "clock_pointer mm < frame_count mm \<Longrightarrow> clock_pointer mm' < frame_count mm"
    and "i < length (mm_entries mm) \<Longrightarrow> key_at mm' i = key_at mm i"
    and "i < length (mm_entries mm) \<Longrightarrow> page_count (mm_pt mm' i) = page_count (mm_pt mm i)"
    and "i < length (mm_entries mm) \<Longrightarrow> pt_ok (mm_pt mm i) \<Longrightarrow> pt_ok (mm_pt mm' i)"
  using assms unfolding mm_eqv_def by blast+

lemma mm_okI:
  assumes "0 < mm_page_size mm" and "length (frames mm) = frame_count mm"
    and "frame_count mm * mm_page_size mm \<le> length (physical_memory mm)"
    and "0 < frame_count mm \<Longrightarrow> clock_pointer mm < frame_count mm"
    and "inj_on (key_at mm) {..<length (mm_entries mm)}"
    and "\<And>i. i < length (mm_entries mm) \<Longrightarrow> pt_ok (mm_pt mm i)"
    and "\<And>i j. slot mm i j \<Longrightarrow> present (page_at mm i j) \<Longrightarrow>
      frame (page_at mm i j) < frame_count mm \<and> frames mm ! frame (page_at mm i j)"
    and "\<And>i j i' j'. slot mm i j \<Longrightarrow> slot mm i' j' \<Longrightarrow> present (page_at mm i j) \<Longrightarrow>
      present (page_at mm i' j') \<Longrightarrow> frame (page_at mm i j) = frame (page_at mm i' j') \<Longrightarrow> i = i' \<and> j = j'"
  shows "mm_ok mm"
  using assms unfolding mm_ok_def by blast

lemma mm_eqv_ok:
  assumes e: "mm_eqv mm mm'" and ok: "mm_ok mm"
  shows "mm_ok mm'"
proof (rule mm_okI)
  note d = mm_eqvD [OF e]
  note p = mm_eqv_page [OF e ok] mm_eqv_slot [OF e]
  show "inj_on (key_at mm') {..<length (mm_entries mm')}"
    using mm_okD(5) [OF ok] by (simp add: d inj_on_def)
  show "pt_ok (mm_pt mm' i)" if "i < length (mm_entries mm')" for i
    using that mm_okD(6) [OF ok] by (simp add: d)
  show "0 < mm_page_size mm'" "length (frames mm') = frame_count mm'"
    "frame_count mm' * mm_page_size mm' \<le> length (physical_memory mm')"
    "0 < frame_count mm' \<Longrightarrow> clock_pointer mm' < frame_count mm'"
    using mm_okD(1-4) [OF ok] d(9) by (simp_all add: d(1-8))
  show "frame (page_at mm' i j) < frame_count mm' \<and> frames mm' ! frame (page_at mm' i j)"
    if "slot mm' i j" "present (page_at mm' i j)" for i j
    using that mm_okD(7,8) [OF ok, of i j] by (simp add: p d(2,3))
  show "i = i' \<and> j = j'" if "slot mm' i j" "slot mm' i' j'" "present (page_at mm' i j)"
    "present (page_at mm' i' j')" "frame (page_at mm' i j) = frame (page_at mm' i' j')" for i j i' j'
    using that mm_okD(9) [OF ok, of i j i' j'] by (simp add: p)
qed

lemma mm_eqv_no_leak:
  assumes e: "mm_eqv mm mm'" and ok: "mm_ok mm" and nl: "no_leak mm"
  shows "no_leak mm'"
  unfolding no_leak_def
proof (intro allI impI)
  fix fr assume "fr < frame_count mm'" "frames mm' ! fr"
  with nl obtain i j where "slot mm i j" "present (page_at mm i j)" "frame (page_at mm i j) = fr"
    unfolding no_leak_def mm_eqvD(2,3) [OF e] by blast
  then show "\<exists>i j. slot mm' i j \<and> present (page_at mm' i j) \<and> frame (page_at mm' i j) = fr"
    using mm_eqv_page [OF e ok] mm_eqv_slot [OF e] by blast
qed

text \<open>Touching only the policy bits of a page.\<close>

lemma mm_eqv_set_pt_update:
  assumes "i < length (mm_entries mm)"
    and "\<And>e. page_number (f e) = page_number e" and "\<And>e. present (f e) = present e"
    and "\<And>e. frame (f e) = frame e" and "\<And>e. dirty (f e) = dirty e"
  shows "mm_eqv mm (set_pt mm i (pt_update (mm_pt mm i) n f))"
  unfolding mm_eqv_def using assms
  by (auto simp: mm_pt_set_pt page_at_def nth_pt_update pt_ok_def)

lemma mm_eqv_clock:
  "(clock_pointer mm < frame_count mm \<Longrightarrow> c < frame_count mm) \<Longrightarrow> mm_eqv mm (mm\<lparr>clock_pointer := c\<rparr>)"
  by (auto simp: mm_eqv_def)

lemma mm_eqv_update_page_access:
  assumes "i < length (mm_entries mm)"
  shows "mm_eqv mm (mm_update_page_access mm i n)"
proof (cases "policy mm")
  case LRU
  have "mm_eqv mm (set_pt mm i (pt_update_access_time (mm_pt mm i) n ts))" if "n < page_count (mm_pt mm i)" for ts
    using that assms by (simp add: pt_update_access_time_def pt_get_entry_def mm_eqv_set_pt_update)
  with LRU show ?thesis
    by (auto simp: mm_update_page_access_def Let_def mm_eqv_refl mm_eqv_def)
next
  case CLOCK_M
  with assms show ?thesis
    by (simp add: mm_update_page_access_def mm_eqv_set_pt_update mm_eqv_refl)
qed

subsection \<open>The memory a query sees\<close>

text \<open>The frame that holds page \<open>j\<close> of a File:Tag, if one does.\<close>

definition cached :: "memory_manager_t \<Rightarrow> string \<Rightarrow> string \<Rightarrow> nat \<Rightarrow> nat option" where
  "cached mm f t j =
     (case mm_find_page_table mm f t of
        None \<Rightarrow> None
      | Some i \<Rightarrow>
          if j < page_count (mm_pt mm i) \<and> present (page_at mm i j)
          then Some (frame (page_at mm i j)) else None)"

lemma cached_irrelevant [simp]:
  "cached (mm\<lparr>clock_pointer := c\<rparr>) = cached mm" "cached (mm\<lparr>global_timestamp := ts\<rparr>) = cached mm"
  "cached (mm\<lparr>last_victim_valid := v\<rparr>) = cached mm" "cached (mm\<lparr>frames := f\<rparr>) = cached mm"
  "cached (mm\<lparr>physical_memory := m\<rparr>) = cached mm"
  by (simp_all add: fun_eq_iff cached_def mm_find_page_table_def split: option.split)

type_synonym 's store_view = "'s \<Rightarrow> string \<Rightarrow> string \<Rightarrow> nat \<Rightarrow> bytes option"

definition vcontent :: "'s store_view \<Rightarrow> memory_manager_t \<Rightarrow> 's \<Rightarrow> string \<Rightarrow> string \<Rightarrow> nat \<Rightarrow> bytes option" where
  "vcontent content mm s f t j =
     (case cached mm f t j of Some fr \<Rightarrow> Some (frame_bytes mm fr) | None \<Rightarrow> content s f t j)"

definition vbyte :: "'s store_view \<Rightarrow> memory_manager_t \<Rightarrow> 's \<Rightarrow> string \<Rightarrow> string \<Rightarrow> nat \<Rightarrow> u8 option" where
  "vbyte content mm s f t a =
     map_option (\<lambda>b. b ! (a mod mm_page_size mm)) (vcontent content mm s f t (a div mm_page_size mm))"

definition coherent :: "'s store_view \<Rightarrow> memory_manager_t \<Rightarrow> 's \<Rightarrow> bool" where
  "coherent content mm s \<longleftrightarrow>
     (\<forall>i j. slot mm i j \<longrightarrow> present (page_at mm i j) \<longrightarrow> \<not> dirty (page_at mm i j) \<longrightarrow>
        content s (fst (key_at mm i)) (snd (key_at mm i)) j = Some (frame_bytes mm (frame (page_at mm i j))))"

definition mapped :: "memory_manager_t \<Rightarrow> nat \<Rightarrow> bool" where
  "mapped mm fr \<longleftrightarrow> (\<exists>i j. slot mm i j \<and> present (page_at mm i j) \<and> frame (page_at mm i j) = fr)"

text \<open>What no operation on frames or pages changes of a manager.\<close>

definition same_shape :: "memory_manager_t \<Rightarrow> memory_manager_t \<Rightarrow> bool" where
  "same_shape mm mm' \<longleftrightarrow>
     length (mm_entries mm') = length (mm_entries mm) \<and>
     (\<forall>i < length (mm_entries mm). key_at mm' i = key_at mm i \<and>
        page_count (mm_pt mm i) \<le> page_count (mm_pt mm' i)) \<and>
     mm_page_size mm' = mm_page_size mm \<and> frame_count mm' = frame_count mm \<and>
     policy mm' = policy mm \<and> storage_socket mm' = storage_socket mm \<and>
     mm_worker_id mm' = mm_worker_id mm"

lemma cached_Some_iff:
  assumes "mm_ok mm"
  shows "cached mm f t j = Some fr \<longleftrightarrow>
    (\<exists>i. slot mm i j \<and> key_at mm i = (f, t) \<and> present (page_at mm i j) \<and> frame (page_at mm i j) = fr)"
proof -
  have "cached mm f t j = Some fr \<longleftrightarrow>
    (\<exists>i. mm_find_page_table mm f t = Some i \<and> j < page_count (mm_pt mm i) \<and>
       present (page_at mm i j) \<and> frame (page_at mm i j) = fr)"
    by (auto simp: cached_def split: option.splits if_splits)
  then show ?thesis
    unfolding mm_find_page_table_eq [OF assms] slot_def by blast
qed

lemma same_shape_refl [simp]: "same_shape mm mm"
  by (simp add: same_shape_def)

lemma same_shapeD:
  assumes "same_shape mm mm'"
  shows "length (mm_entries mm') = length (mm_entries mm)"
    and "mm_page_size mm' = mm_page_size mm" and "frame_count mm' = frame_count mm"
    and "policy mm' = policy mm" and "storage_socket mm' = storage_socket mm"
    and "mm_worker_id mm' = mm_worker_id mm"
    and "i < length (mm_entries mm) \<Longrightarrow> key_at mm' i = key_at mm i"
    and "i < length (mm_entries mm) \<Longrightarrow> page_count (mm_pt mm i) \<le> page_count (mm_pt mm' i)"
  using assms unfolding same_shape_def by blast+

lemma same_shape_trans:
  assumes ab: "same_shape a b" and bc: "same_shape b c"
  shows "same_shape a c"
  unfolding same_shape_def
proof (intro conjI allI impI)
  fix i assume i: "i < length (mm_entries a)"
  then have i': "i < length (mm_entries b)" by (simp add: same_shapeD(1) [OF ab])
  show "key_at c i = key_at a i"
    using same_shapeD(7) [OF ab i] same_shapeD(7) [OF bc i'] by simp
  show "page_count (mm_pt a i) \<le> page_count (mm_pt c i)"
    using same_shapeD(8) [OF ab i] same_shapeD(8) [OF bc i'] by simp
qed (simp_all add: same_shapeD(1-6) [OF ab] same_shapeD(1-6) [OF bc])

lemma mm_eqv_same_shape: "mm_eqv mm mm' \<Longrightarrow> same_shape mm mm'"
  unfolding mm_eqv_def same_shape_def by simp

text \<open>The page maps of two managers agree when their present pages do.\<close>

lemma cached_eqI:
  assumes "mm_ok mm" and "mm_ok mm'"
    and "\<And>i. i < length (mm_entries mm) \<Longrightarrow> key_at mm' i = key_at mm i"
    and "length (mm_entries mm') = length (mm_entries mm)"
    and "\<And>i j fr. slot mm i j \<and> present (page_at mm i j) \<and> frame (page_at mm i j) = fr \<longleftrightarrow>
           slot mm' i j \<and> present (page_at mm' i j) \<and> frame (page_at mm' i j) = fr"
  shows "cached mm' f t j = cached mm f t j"
proof -
  have "cached mm' f t j = Some fr \<longleftrightarrow> cached mm f t j = Some fr" for fr
    unfolding cached_Some_iff [OF assms(1)] cached_Some_iff [OF assms(2)]
    using assms(3-5) slotD(1) by metis
  then show ?thesis by (metis option.exhaust)
qed

lemma mm_eqv_cached:
  assumes e: "mm_eqv mm mm'" and ok: "mm_ok mm"
  shows "cached mm' f t j = cached mm f t j"
  by (rule cached_eqI [OF ok mm_eqv_ok [OF e ok]])
    (use mm_eqvD [OF e] mm_eqv_page [OF e ok] mm_eqv_slot [OF e] in auto)

lemma mm_eqv_view:
  assumes e: "mm_eqv mm mm'" and ok: "mm_ok mm"
  shows "vcontent content mm' s f t j = vcontent content mm s f t j"
    and "coherent content mm s \<Longrightarrow> coherent content mm' s"
    and "mapped mm' fr = mapped mm fr"
proof -
  have fb: "frame_bytes mm' = frame_bytes mm"
    using mm_eqvD(4,5) [OF e] by (simp add: frame_bytes_def fun_eq_iff)
  show "vcontent content mm' s f t j = vcontent content mm s f t j"
    by (simp add: vcontent_def mm_eqv_cached [OF e ok] fb split: option.split)
  show "coherent content mm' s" if "coherent content mm s"
    using that mm_eqv_page [OF e ok] mm_eqv_slot [OF e] mm_eqvD(10) [OF e] slotD(1)
    unfolding coherent_def fb by metis
  show "mapped mm' fr = mapped mm fr"
    using mm_eqv_page [OF e ok] mm_eqv_slot [OF e] unfolding mapped_def by metis
qed

subsection \<open>One page at a time\<close>

abbreviation upd_page :: "memory_manager_t \<Rightarrow> nat \<Rightarrow> nat \<Rightarrow> (pt_entry_t \<Rightarrow> pt_entry_t) \<Rightarrow> memory_manager_t" where
  "upd_page mm i j g \<equiv> set_pt mm i (pt_update (mm_pt mm i) j g)"

lemma slot_upd_page [simp]: "slot (upd_page mm i j g) i' j' = slot mm i' j'"
proof (cases "i < length (mm_entries mm)")
  case False
  then show ?thesis by (simp add: set_pt_def slot_def list_update_beyond)
qed (auto simp: slot_def mm_pt_set_pt)

lemma page_at_upd_page:
  assumes "mm_ok mm" and "slot mm i j" and "slot mm i' j'"
  shows "page_at (upd_page mm i j g) i' j' = (if i' = i \<and> j' = j then g (page_at mm i j) else page_at mm i' j')"
  using assms slot_nth [OF assms(1,3)]
  by (auto simp: page_at_def mm_pt_set_pt slotD(1) nth_pt_update)

lemma frame_bytes_upd_page [simp]: "frame_bytes (set_pt mm i pt) = frame_bytes mm"
  by (simp add: frame_bytes_def fun_eq_iff)

lemma pt_ok_upd_page:
  assumes ok: "mm_ok mm" and ij: "slot mm i j" and g: "\<And>e. page_number (g e) = page_number e"
    and k: "k < length (mm_entries mm)"
  shows "pt_ok (mm_pt (upd_page mm i j g) k)"
  using mm_okD(6) [OF ok k] by (auto simp: mm_pt_set_pt slotD(1) [OF ij] g intro: pt_update_ok)

lemma same_shape_upd_page: "i < length (mm_entries mm) \<Longrightarrow> same_shape mm (upd_page mm i j g)"
  by (simp add: same_shape_def mm_pt_set_pt)

lemma pt_unmap_slot:
  "slot mm i j \<Longrightarrow> snd (pt_unmap (mm_pt mm i) j) =
     pt_update (mm_pt mm i) j (\<lambda>e. e\<lparr>frame := 0, present := False, dirty := False\<rparr>)"
  by (simp add: pt_unmap_def pt_get_entry_def slot_def)

text \<open>Evicting a page: the frame is free and unmapped, nothing else moves.\<close>

lemma evict_fields:
  assumes "mm_ok mm" and "slot mm i j"
  shows "slot (evict mm i j fr) i' j' = slot mm i' j'"
    and "key_at (evict mm i j fr) = key_at mm"
    and "slot mm i' j' \<Longrightarrow> page_at (evict mm i j fr) i' j' =
       (if i' = i \<and> j' = j then (page_at mm i j)\<lparr>frame := 0, present := False, dirty := False\<rparr>
        else page_at mm i' j')"
    and "frames (evict mm i j fr) = (frames mm)[fr := False]"
    and "frame_bytes (evict mm i j fr) = frame_bytes mm"
    and "same_shape mm (evict mm i j fr)"
    and "clock_pointer (evict mm i j fr) = clock_pointer mm"
    and "physical_memory (evict mm i j fr) = physical_memory mm"
    and "k < length (mm_entries mm) \<Longrightarrow> pt_ok (mm_pt (evict mm i j fr) k)"
proof -
  let ?u = "upd_page mm i j (\<lambda>e. e\<lparr>frame := 0, present := False, dirty := False\<rparr>)"
  have e: "mm_entries (evict mm i j fr) = mm_entries ?u"
    by (simp add: evict_def Let_def pt_unmap_slot [OF assms(2)])
  have v: "mm_pt (evict mm i j fr) = mm_pt ?u" "page_at (evict mm i j fr) = page_at ?u"
    "key_at (evict mm i j fr) = key_at ?u" "slot (evict mm i j fr) = slot ?u"
    by (simp_all add: fun_eq_iff mm_pt_def page_at_def key_at_def slot_def e)
  show "slot (evict mm i j fr) i' j' = slot mm i' j'" by (simp add: v)
  show "key_at (evict mm i j fr) = key_at mm" by (simp add: v fun_eq_iff)
  show "slot mm i' j' \<Longrightarrow> page_at (evict mm i j fr) i' j' =
       (if i' = i \<and> j' = j then (page_at mm i j)\<lparr>frame := 0, present := False, dirty := False\<rparr>
        else page_at mm i' j')"
    by (simp add: v page_at_upd_page [OF assms])
  show "frames (evict mm i j fr) = (frames mm)[fr := False]"
    "frame_bytes (evict mm i j fr) = frame_bytes mm" "clock_pointer (evict mm i j fr) = clock_pointer mm"
    "physical_memory (evict mm i j fr) = physical_memory mm"
    by (simp_all add: evict_def Let_def frame_bytes_def fun_eq_iff)
  show "same_shape mm (evict mm i j fr)"
    using same_shape_upd_page [OF slotD(1) [OF assms(2)]]
    by (simp add: same_shape_def v e) (simp add: evict_def Let_def)
  show "k < length (mm_entries mm) \<Longrightarrow> pt_ok (mm_pt (evict mm i j fr) k)"
    by (simp add: v pt_ok_upd_page [OF assms])
qed

lemma evict_ok:
  assumes ok: "mm_ok mm" and ij: "slot mm i j" and pr: "present (page_at mm i j)"
    and fr: "frame (page_at mm i j) = fr"
  shows "mm_ok (evict mm i j fr)" and "\<not> mapped (evict mm i j fr) fr"
proof -
  note e = evict_fields [OF ok ij] and s = same_shapeD [OF evict_fields(6) [OF ok ij, of fr]]
  have other: "frame (page_at mm i' j') \<noteq> fr"
    if "slot mm i' j'" "present (page_at mm i' j')" "\<not> (i' = i \<and> j' = j)" for i' j'
    using mm_okD(9) [OF ok that(1) ij that(2) pr] fr that(3) by metis
  show "mm_ok (evict mm i j fr)"
  proof (rule mm_okI)
    show "inj_on (key_at (evict mm i j fr)) {..<length (mm_entries (evict mm i j fr))}"
      using mm_okD(5) [OF ok] by (simp add: e(2) s(1))
    show "pt_ok (mm_pt (evict mm i j fr) k)" if "k < length (mm_entries (evict mm i j fr))" for k
      using that e(9) s(1) by simp
    show "frame (page_at (evict mm i j fr) i' j') < frame_count (evict mm i j fr) \<and>
        frames (evict mm i j fr) ! frame (page_at (evict mm i j fr) i' j')"
      if "slot (evict mm i j fr) i' j'" "present (page_at (evict mm i j fr) i' j')" for i' j'
    proof -
      from that have *: "slot mm i' j'" "present (page_at mm i' j')" "\<not> (i' = i \<and> j' = j)"
        "page_at (evict mm i j fr) i' j' = page_at mm i' j'"
        by (auto simp: e(1,3) split: if_splits)
      show ?thesis using mm_okD(7,8) [OF ok *(1,2)] other [OF *(1-3)] by (simp add: * e(4) s(3))
    qed
    show "i1 = i2 \<and> j1 = j2" if "slot (evict mm i j fr) i1 j1" "slot (evict mm i j fr) i2 j2"
      "present (page_at (evict mm i j fr) i1 j1)" "present (page_at (evict mm i j fr) i2 j2)"
      "frame (page_at (evict mm i j fr) i1 j1) = frame (page_at (evict mm i j fr) i2 j2)" for i1 j1 i2 j2
      using that mm_okD(9) [OF ok, of i1 j1 i2 j2] by (simp add: e(1,3) split: if_splits)
  qed (use mm_okD(1-4) [OF ok] in \<open>simp_all add: s(2,3) e(4,7,8)\<close>)
  show "\<not> mapped (evict mm i j fr) fr"
  proof
    assume "mapped (evict mm i j fr) fr"
    then obtain i' j' where "slot mm i' j'" "present (page_at (evict mm i j fr) i' j')"
      "frame (page_at (evict mm i j fr) i' j') = fr"
      unfolding mapped_def e(1) by blast
    with other [of i' j'] show False by (simp add: e(3) split: if_splits)
  qed
qed


lemma evict_cached:
  assumes ok: "mm_ok mm" and ij: "slot mm i j" and pr: "present (page_at mm i j)"
    and fr: "frame (page_at mm i j) = fr"
  shows "cached (evict mm i j fr) f t b = (if (f, t) = key_at mm i \<and> b = j then None else cached mm f t b)"
proof -
  note e = evict_fields [OF ok ij]
  note ok' = evict_ok(1) [OF ok ij pr fr]
  have key: "key_at mm i' \<noteq> key_at mm i \<or> i' = i" if "i' < length (mm_entries mm)" for i'
    using mm_okD(5) [OF ok] that slotD(1) [OF ij] by (auto simp: inj_on_def)
  have "cached (evict mm i j fr) f t b = Some x \<longleftrightarrow>
    \<not> ((f, t) = key_at mm i \<and> b = j) \<and> cached mm f t b = Some x" for x
  proof -
    have "slot mm i' b \<and> key_at mm i' = (f, t) \<and> present (page_at (evict mm i j fr) i' b) \<and>
        frame (page_at (evict mm i j fr) i' b) = x \<longleftrightarrow>
      \<not> ((f, t) = key_at mm i \<and> b = j) \<and> slot mm i' b \<and> key_at mm i' = (f, t) \<and>
        present (page_at mm i' b) \<and> frame (page_at mm i' b) = x" for i'
      using key [of i'] slotD(1) [of mm i' b] by (cases "slot mm i' b") (auto simp: e(3))
    then show ?thesis
      unfolding cached_Some_iff [OF ok] cached_Some_iff [OF ok'] e(1,2) by blast
  qed
  then show ?thesis by (metis option.exhaust)
qed

text \<open>
  The eviction is invisible when the store holds the page's bytes by then: because they were
  just written, or because the page was clean.
\<close>

lemma evict_view:
  assumes ok: "mm_ok mm" and ij: "slot mm i j" and pr: "present (page_at mm i j)"
    and fr: "frame (page_at mm i j) = fr" and co: "coherent content mm s"
    and st: "\<And>f t b. content s1 f t b =
      (if (f, t) = key_at mm i \<and> b = j then Some (frame_bytes mm fr) else content s f t b)"
  shows "coherent content (evict mm i j fr) s1"
    and "vcontent content (evict mm i j fr) s1 f t b = vcontent content mm s f t b"
proof -
  note e = evict_fields [OF ok ij]
  note ok' = evict_ok(1) [OF ok ij pr fr]
  have key: "key_at mm i' \<noteq> key_at mm i \<or> i' = i" if "i' < length (mm_entries mm)" for i'
    using mm_okD(5) [OF ok] that slotD(1) [OF ij] by (auto simp: inj_on_def)
  show "coherent content (evict mm i j fr) s1"
    unfolding coherent_def
  proof (intro allI impI)
    fix i' j'
    assume a: "slot (evict mm i j fr) i' j'" "present (page_at (evict mm i j fr) i' j')"
      "\<not> dirty (page_at (evict mm i j fr) i' j')"
    then have b: "slot mm i' j'" "\<not> (i' = i \<and> j' = j)" "page_at (evict mm i j fr) i' j' = page_at mm i' j'"
      by (auto simp: e(1,3) split: if_splits)
    with a co have "content s (fst (key_at mm i')) (snd (key_at mm i')) j' =
        Some (frame_bytes mm (frame (page_at mm i' j')))"
      by (simp add: coherent_def)
    with b key [OF slotD(1) [OF b(1)]]
    show "content s1 (fst (key_at (evict mm i j fr) i')) (snd (key_at (evict mm i j fr) i')) j' =
        Some (frame_bytes (evict mm i j fr) (frame (page_at (evict mm i j fr) i' j')))"
      by (auto simp: st e(2,5))
  qed
  note c = evict_cached [OF ok ij pr fr]
  have "cached mm f t b = Some fr" if "(f, t) = key_at mm i \<and> b = j"
    using that ij pr fr by (auto simp: cached_Some_iff [OF ok])
  then show "vcontent content (evict mm i j fr) s1 f t b = vcontent content mm s f t b"
    by (simp add: vcontent_def c st e(5) split: option.split)
qed

text \<open>Frames that no page uses.\<close>

lemma free_view:
  assumes ok: "mm_ok mm" and fr: "v \<or> \<not> mapped mm fr"
  shows "mm_ok (mm\<lparr>frames := (frames mm)[fr := v]\<rparr>)"
    and "vcontent content (mm\<lparr>frames := (frames mm)[fr := v]\<rparr>) = vcontent content mm"
    and "coherent content (mm\<lparr>frames := (frames mm)[fr := v]\<rparr>) = coherent content mm"
    and "mapped (mm\<lparr>frames := (frames mm)[fr := v]\<rparr>) = mapped mm"
    and "same_shape mm (mm\<lparr>frames := (frames mm)[fr := v]\<rparr>)"
proof -
  let ?m = "mm\<lparr>frames := (frames mm)[fr := v]\<rparr>"
  have s: "slot ?m = slot mm" by (simp add: fun_eq_iff slot_def)
  show "mm_ok ?m"
  proof (rule mm_okI)
    show "frame (page_at ?m i j) < frame_count ?m \<and> frames ?m ! frame (page_at ?m i j)"
      if "slot ?m i j" "present (page_at ?m i j)" for i j
      using that mm_okD(2) [OF ok] mm_okD(7,8) [OF ok, of i j] fr
      by (cases "fr = frame (page_at mm i j)") (auto simp: s mapped_def)
    show "i = i' \<and> j = j'" if "slot ?m i j" "slot ?m i' j'" "present (page_at ?m i j)"
      "present (page_at ?m i' j')" "frame (page_at ?m i j) = frame (page_at ?m i' j')" for i j i' j'
      using that mm_okD(9) [OF ok, of i j i' j'] by (simp add: s)
  qed (use mm_okD(1-6) [OF ok] in simp_all)
  have fb: "frame_bytes ?m = frame_bytes mm" by (simp add: fun_eq_iff frame_bytes_def)
  show "vcontent content ?m = vcontent content mm"
    by (simp add: fun_eq_iff vcontent_def fb split: option.split)
  show "coherent content ?m = coherent content mm" by (simp add: fun_eq_iff coherent_def s fb)
  show "mapped ?m = mapped mm" by (simp add: fun_eq_iff mapped_def s)
  show "same_shape mm ?m" by (simp add: same_shape_def)
qed

lemma region_frames_disjoint:
  assumes "(a::nat) \<noteq> b"
  shows "a * n + n \<le> b * n \<or> b * n + n \<le> a * n"
proof (cases "a < b")
  case True
  then have "Suc a * n \<le> b * n" by (intro mult_le_mono1) simp
  then show ?thesis by simp
next
  case False
  with assms have "Suc b * n \<le> a * n" by (intro mult_le_mono1) simp
  then show ?thesis by simp
qed

lemma frame_fits: "mm_ok mm \<Longrightarrow> fr < frame_count mm \<Longrightarrow>
  fr * mm_page_size mm + mm_page_size mm \<le> length (physical_memory mm)"
  using mm_okD(3) [of mm] mult_le_mono1 [of "Suc fr" "frame_count mm" "mm_page_size mm"] by simp

text \<open>Writing inside the frame \<open>fr\<close>, at \<open>off\<close>.\<close>

lemma frame_write:
  assumes ok: "mm_ok mm" and fr: "fr < frame_count mm" and n: "off + length bs \<le> mm_page_size mm"
    and fr': "fr' < frame_count mm"
  shows "frame_bytes (mm\<lparr>physical_memory := store_at (fr * mm_page_size mm + off) bs (physical_memory mm)\<rparr>) fr' =
    (if fr' = fr then store_at off bs (frame_bytes mm fr) else frame_bytes mm fr')"
proof (cases "fr' = fr")
  case False
  with region_frames_disjoint [of fr' fr "mm_page_size mm"] frame_fits [OF ok fr] frame_fits [OF ok fr'] n
  show ?thesis
    by (auto simp: frame_bytes_def intro!: region_store_disjoint)
next
  case True
  with frame_fits [OF ok fr] n show ?thesis
    by (auto simp: frame_bytes_def region_simps nth_store_at intro!: nth_equalityI)
qed


text \<open>Growing a page table adds absent pages only.\<close>

lemma resize_view:
  assumes ok: "mm_ok mm" and i: "i < length (mm_entries mm)" and n: "page_count (mm_pt mm i) \<le> n"
  defines "mm' \<equiv> set_pt mm i (snd (pt_resize (mm_pt mm i) (Suc n)))"
  shows "mm_ok mm'" and "same_shape mm mm'" and "slot mm' i n"
    and "vcontent content mm' = vcontent content mm" and "coherent content mm' = coherent content mm"
    and "mapped mm' = mapped mm"
proof -
  let ?pt = "snd (pt_resize (mm_pt mm i) (Suc n))"
  note pk = mm_okD(6) [OF ok i]
  have pt': "pt_ok ?pt" "page_count ?pt = Suc n"
    using n by (simp_all only: pt_resize_ok [OF pk]) (simp add: pt_resize_def)
  have ent: "entries ?pt ! j = (if j < page_count (mm_pt mm i) then entries (mm_pt mm i) ! j else blank_entry j)"
    if "j < Suc n" for j
    using n that pt_okD(1) [OF pk] by (auto simp: pt_resize_def nth_append simp del: upt_Suc)
  have pg: "slot mm' k j \<and> present (page_at mm' k j) \<longleftrightarrow> slot mm k j \<and> present (page_at mm k j)"
    "slot mm k j \<Longrightarrow> page_at mm' k j = page_at mm k j" for k j
    using n i by (auto simp: mm'_def slot_def page_at_def mm_pt_set_pt pt'(2) ent blank_entry_def split: if_splits)
  have key: "key_at mm' = key_at mm" by (simp add: mm'_def fun_eq_iff)
  have len: "length (mm_entries mm') = length (mm_entries mm)" by (simp add: mm'_def)
  show ok': "mm_ok mm'"
  proof (rule mm_okI)
    show "inj_on (key_at mm') {..<length (mm_entries mm')}" using mm_okD(5) [OF ok] by (simp add: key len)
    show "pt_ok (mm_pt mm' k)" if "k < length (mm_entries mm')" for k
      using that mm_okD(6) [OF ok, of k] pt' i by (simp add: mm'_def mm_pt_set_pt)
    show "frame (page_at mm' k j) < frame_count mm' \<and> frames mm' ! frame (page_at mm' k j)"
      if "slot mm' k j" "present (page_at mm' k j)" for k j
      using that pg [of k j] mm_okD(7,8) [OF ok, of k j] by (auto simp: mm'_def)
    show "k = k' \<and> j = j'" if "slot mm' k j" "slot mm' k' j'" "present (page_at mm' k j)"
      "present (page_at mm' k' j')" "frame (page_at mm' k j) = frame (page_at mm' k' j')" for k j k' j'
      using that pg [of k j] pg [of k' j'] mm_okD(9) [OF ok, of k j k' j'] by auto
  qed (use mm_okD(1-4) [OF ok] in \<open>simp_all add: mm'_def\<close>)
  show "same_shape mm mm'"
    using n i by (simp add: same_shape_def mm'_def mm_pt_set_pt pt'(2))
  show "slot mm' i n" using i by (simp add: slot_def mm'_def mm_pt_set_pt pt'(2))
  have "cached mm' f t b = cached mm f t b" for f t b
  proof (rule cached_eqI [OF ok ok'])
    show "slot mm k j \<and> present (page_at mm k j) \<and> frame (page_at mm k j) = fr \<longleftrightarrow>
        slot mm' k j \<and> present (page_at mm' k j) \<and> frame (page_at mm' k j) = fr" for k j fr
      using pg [of k j] by auto
  qed (simp_all add: key len)
  then show "vcontent content mm' = vcontent content mm"
    by (simp add: fun_eq_iff vcontent_def mm'_def split: option.split)
  show "coherent content mm' = coherent content mm"
    unfolding coherent_def fun_eq_iff key using pg by (simp add: mm'_def) metis
  show "mapped mm' = mapped mm"
    unfolding mapped_def fun_eq_iff using pg by metis
qed

text \<open>Filling a frame that no page uses.\<close>

lemma fill_view:
  assumes ok: "mm_ok mm" and fr: "fr < frame_count mm" "\<not> mapped mm fr" and bs: "length bs = mm_page_size mm"
  defines "mm' \<equiv> mm\<lparr>physical_memory := store_at (fr * mm_page_size mm) bs (physical_memory mm)\<rparr>"
  shows "mm_ok mm'" and "same_shape mm mm'" and "vcontent content mm' s f t b = vcontent content mm s f t b"
    and "coherent content mm s \<Longrightarrow> coherent content mm' s" and "mapped mm' = mapped mm"
    and "frame_bytes mm' fr = bs"
proof -
  have len: "length (physical_memory mm') = length (physical_memory mm)"
    using frame_fits [OF ok fr(1)] bs by (simp add: mm'_def length_store_at)
  have fb: "frame_bytes mm' fr' = (if fr' = fr then bs else frame_bytes mm fr')" if "fr' < frame_count mm" for fr'
    using frame_write [OF ok fr(1), of 0 bs fr'] that bs frame_fits [OF ok fr(1)]
    by (simp add: mm'_def store_at_def frame_bytes_def region_simps)
  show "frame_bytes mm' fr = bs" using fb [OF fr(1)] by simp
  have nf: "frame (page_at mm i j) < frame_count mm \<and> frame (page_at mm i j) \<noteq> fr"
    if "slot mm i j" "present (page_at mm i j)" for i j
    using that mm_okD(7) [OF ok that] fr(2) by (auto simp: mapped_def)
  show "mm_ok mm'"
    using ok len unfolding mm_ok_def by (simp add: mm'_def)
  show "same_shape mm mm'" by (simp add: same_shape_def mm'_def)
  show "mapped mm' = mapped mm" by (simp add: mapped_def fun_eq_iff mm'_def)
  show "coherent content mm' s" if "coherent content mm s"
    using that nf fb unfolding coherent_def by (simp add: mm'_def)
  have "cached mm f t b = Some x \<Longrightarrow> frame_bytes mm' x = frame_bytes mm x" for x
    using nf fb by (auto simp: cached_Some_iff [OF ok])
  then show "vcontent content mm' s f t b = vcontent content mm s f t b"
    by (auto simp: vcontent_def mm'_def split: option.split)
qed


lemma find_page_table_set_pt [simp]: "mm_find_page_table (set_pt mm i pt) = mm_find_page_table mm"
proof (intro ext)
  fix f t
  have "e_file (mm_entries (set_pt mm i pt) ! k) = e_file (mm_entries mm ! k)"
    "e_tag (mm_entries (set_pt mm i pt) ! k) = e_tag (mm_entries mm ! k)" for k
    using key_at_set_pt [of mm i pt k] by (simp_all add: key_at_def)
  then show "mm_find_page_table (set_pt mm i pt) f t = mm_find_page_table mm f t"
    by (simp add: mm_find_page_table_def)
qed

lemma cached_upd_page:
  assumes ok: "mm_ok mm" and ij: "slot mm i j"
  shows "cached (upd_page mm i j g) f t b =
    (if (f, t) = key_at mm i \<and> b = j
     then (if present (g (page_at mm i j)) then Some (frame (g (page_at mm i j))) else None)
     else cached mm f t b)"
proof (cases "mm_find_page_table mm f t")
  case None
  then have "(f, t) \<noteq> key_at mm i"
    using mm_find_page_table_eq [OF ok, of f t i] slotD(1) [OF ij] by auto
  with None show ?thesis by (simp add: cached_def)
next
  case (Some k)
  then have k: "k < length (mm_entries mm)" "key_at mm k = (f, t)"
    using mm_find_page_table_eq [OF ok, of f t k] by auto
  have ki: "k = i \<longleftrightarrow> (f, t) = key_at mm i"
    using mm_okD(5) [OF ok] k slotD(1) [OF ij] by (auto simp: inj_on_def)
  have cnt: "page_count (mm_pt (upd_page mm i j g) k) = page_count (mm_pt mm k)"
    by (simp add: mm_pt_set_pt slotD(1) [OF ij])
  show ?thesis
  proof (cases "b < page_count (mm_pt mm k)")
    case True
    with k(1) have "slot mm k b" by (simp add: slot_def)
    with Some True ki show ?thesis
      by (auto simp: cached_def cnt page_at_upd_page [OF ok ij])
  next
    case False
    with Some ki ij show ?thesis by (auto simp: cached_def cnt slot_def)
  qed
qed

text \<open>Mapping an absent page on a free frame that already holds what the store has.\<close>

lemma map_view:
  assumes ok: "mm_ok mm" and ij: "slot mm i j" and ab: "\<not> present (page_at mm i j)"
    and fr: "fr < frame_count mm" "frames mm ! fr" "\<not> mapped mm fr"
    and c: "content s (fst (key_at mm i)) (snd (key_at mm i)) j = Some (frame_bytes mm fr)"
    and g: "\<And>e. present (g e)" "\<And>e. frame (g e) = fr" "\<And>e. page_number (g e) = page_number e"
  defines "mm' \<equiv> upd_page mm i j g"
  shows "mm_ok mm'" and "same_shape mm mm'" and "vcontent content mm' s f t b = vcontent content mm s f t b"
    and "coherent content mm s \<Longrightarrow> coherent content mm' s"
proof -
  have pg: "slot mm' k l = slot mm k l"
    "slot mm k l \<Longrightarrow> page_at mm' k l = (if k = i \<and> l = j then g (page_at mm i j) else page_at mm k l)" for k l
    by (auto simp: mm'_def page_at_upd_page [OF ok ij])
  have old: "frame (page_at mm k l) \<noteq> fr" if "slot mm k l" "present (page_at mm k l)" for k l
    using fr(3) that by (auto simp: mapped_def)
  show "mm_ok mm'"
  proof (rule mm_okI)
    show "inj_on (key_at mm') {..<length (mm_entries mm')}" using mm_okD(5) [OF ok]
      by (simp add: mm'_def inj_on_def)
    show "pt_ok (mm_pt mm' k)" if "k < length (mm_entries mm')" for k
      using that pt_ok_upd_page [OF ok ij g(3)] by (simp add: mm'_def)
    show "frame (page_at mm' k l) < frame_count mm' \<and> frames mm' ! frame (page_at mm' k l)"
      if "slot mm' k l" "present (page_at mm' k l)" for k l
      using that pg [of k l] mm_okD(7,8) [OF ok, of k l] fr g by (auto simp: mm'_def split: if_splits)
    show "k = k' \<and> l = l'" if "slot mm' k l" "slot mm' k' l'" "present (page_at mm' k l)"
      "present (page_at mm' k' l')" "frame (page_at mm' k l) = frame (page_at mm' k' l')" for k l k' l'
      using that mm_okD(9) [OF ok, of k l k' l'] old [of k l] old [of k' l']
      by (auto simp: pg g split: if_splits)
  qed (use mm_okD(1-4) [OF ok] in \<open>simp_all add: mm'_def\<close>)
  show "same_shape mm mm'" using same_shape_upd_page [OF slotD(1) [OF ij]] by (simp add: mm'_def)
  have nc: "cached mm f t b = None" if "(f, t) = key_at mm i" "b = j"
  proof -
    have "mm_find_page_table mm f t = Some i"
      using that(1) mm_find_page_table_eq [OF ok, of f t i] slotD(1) [OF ij] by auto
    with that(2) ab show ?thesis by (simp add: cached_def)
  qed
  then show "vcontent content mm' s f t b = vcontent content mm s f t b"
    using c by (auto simp: vcontent_def mm'_def cached_upd_page [OF ok ij] g split: option.split dest: sym)
  show "coherent content mm' s" if co: "coherent content mm s"
    unfolding coherent_def
  proof (intro allI impI)
    fix k l assume "slot mm' k l" "present (page_at mm' k l)" "\<not> dirty (page_at mm' k l)"
    with co c show "content s (fst (key_at mm' k)) (snd (key_at mm' k)) l = Some (frame_bytes mm' (frame (page_at mm' k l)))"
      unfolding coherent_def by (auto simp: pg g mm'_def [symmetric] split: if_splits) (auto simp: mm'_def)
  qed
qed


text \<open>Writing into the frame of a present page and marking it dirty.\<close>

definition poke :: "memory_manager_t \<Rightarrow> nat \<Rightarrow> nat \<Rightarrow> nat \<Rightarrow> bytes \<Rightarrow> memory_manager_t" where
  "poke mm i j off bs =
     upd_page (mm\<lparr>physical_memory :=
         store_at (frame (page_at mm i j) * mm_page_size mm + off) bs (physical_memory mm)\<rparr>)
       i j (\<lambda>e. e\<lparr>dirty := True\<rparr>)"

lemma write_view:
  assumes ok: "mm_ok mm" and ij: "slot mm i j" and pr: "present (page_at mm i j)"
    and n: "off + length bs \<le> mm_page_size mm"
  shows "mm_ok (poke mm i j off bs)" and "same_shape mm (poke mm i j off bs)"
    and "vcontent content (poke mm i j off bs) s f t b =
      (if (f, t) = key_at mm i \<and> b = j then map_option (store_at off bs) (vcontent content mm s f t b)
       else vcontent content mm s f t b)"
    and "coherent content mm s \<Longrightarrow> coherent content (poke mm i j off bs) s"
proof -
  let ?fr = "frame (page_at mm i j)"
  let ?m = "mm\<lparr>physical_memory := store_at (?fr * mm_page_size mm + off) bs (physical_memory mm)\<rparr>"
  note fr = mm_okD(7) [OF ok ij pr]
  have len: "length (physical_memory ?m) = length (physical_memory mm)"
    using frame_fits [OF ok fr] n by (simp add: length_store_at)
  have okm: "mm_ok ?m"
    using ok len unfolding mm_ok_def by simp
  have ijm: "slot ?m i j" using ij by simp
  have pg: "slot (poke mm i j off bs) k l = slot mm k l"
    "slot mm k l \<Longrightarrow> page_at (poke mm i j off bs) k l =
      (if k = i \<and> l = j then (page_at mm i j)\<lparr>dirty := True\<rparr> else page_at mm k l)" for k l
    using slot_upd_page [of ?m i j "\<lambda>e. e\<lparr>dirty := True\<rparr>" k l]
      page_at_upd_page [OF okm ijm, of k l "\<lambda>e. e\<lparr>dirty := True\<rparr>"] by (simp_all add: poke_def)
  have fb: "frame_bytes (poke mm i j off bs) x =
      (if x = ?fr then store_at off bs (frame_bytes mm ?fr) else frame_bytes mm x)" if "x < frame_count mm" for x
    using frame_write [OF ok fr n that] by (simp add: poke_def)
  have fl: "frames (poke mm i j off bs) = frames mm" "frame_count (poke mm i j off bs) = frame_count mm"
    by (simp_all add: poke_def)
  show "mm_ok (poke mm i j off bs)"
  proof (rule mm_okI)
    show "inj_on (key_at (poke mm i j off bs)) {..<length (mm_entries (poke mm i j off bs))}"
      using mm_okD(5) [OF ok] by (simp add: poke_def inj_on_def)
    show "pt_ok (mm_pt (poke mm i j off bs) k)" if "k < length (mm_entries (poke mm i j off bs))" for k
      using that pt_ok_upd_page [OF okm ijm, of "\<lambda>e. e\<lparr>dirty := True\<rparr>" k] by (simp add: poke_def)
    show "frame (page_at (poke mm i j off bs) k l) < frame_count (poke mm i j off bs) \<and>
        frames (poke mm i j off bs) ! frame (page_at (poke mm i j off bs) k l)"
      if "slot (poke mm i j off bs) k l" "present (page_at (poke mm i j off bs) k l)" for k l
      using that mm_okD(7,8) [OF ok, of k l] unfolding pg(1)
      by (auto simp: pg(2) fl split: if_splits)
    show "k = k' \<and> l = l'"
      if "slot (poke mm i j off bs) k l" "slot (poke mm i j off bs) k' l'"
        "present (page_at (poke mm i j off bs) k l)" "present (page_at (poke mm i j off bs) k' l')"
        "frame (page_at (poke mm i j off bs) k l) = frame (page_at (poke mm i j off bs) k' l')" for k l k' l'
      using that mm_okD(9) [OF ok, of k l k' l'] unfolding pg(1) by (simp add: pg(2) split: if_splits)
  qed (use mm_okD(1-4) [OF okm] in \<open>simp_all add: poke_def\<close>)
  show "same_shape mm (poke mm i j off bs)"
    using same_shape_upd_page [OF slotD(1) [OF ijm], of j "\<lambda>e. e\<lparr>dirty := True\<rparr>"]
    by (simp add: same_shape_def poke_def)
  have c: "cached (poke mm i j off bs) = cached mm"
  proof (intro ext)
    fix f t b
    have "cached mm f t b = Some ?fr" if "(f, t) = key_at mm i \<and> b = j"
      using that ij pr by (auto simp: cached_Some_iff [OF ok])
    then show "cached (poke mm i j off bs) f t b = cached mm f t b"
      using cached_upd_page [OF okm ijm, of "\<lambda>e. e\<lparr>dirty := True\<rparr>" f t b] pr by (auto simp: poke_def)
  qed
  have cx: "x < frame_count mm \<and> (x = ?fr \<longleftrightarrow> (f, t) = key_at mm i \<and> b = j)" if "cached mm f t b = Some x" for x
  proof -
    from that obtain k where k: "slot mm k b" "key_at mm k = (f, t)" "present (page_at mm k b)"
      "frame (page_at mm k b) = x" by (auto simp: cached_Some_iff [OF ok])
    have "k = i \<longleftrightarrow> key_at mm k = key_at mm i"
      using mm_okD(5) [OF ok] slotD(1) [OF k(1)] slotD(1) [OF ij] by (auto simp: inj_on_def)
    with k mm_okD(7) [OF ok k(1,3)] mm_okD(9) [OF ok k(1) ij k(3) pr] show ?thesis by auto
  qed
  have "cached mm f t b = Some ?fr" if "(f, t) = key_at mm i \<and> b = j"
    using that ij pr by (auto simp: cached_Some_iff [OF ok])
  with cx show "vcontent content (poke mm i j off bs) s f t b =
      (if (f, t) = key_at mm i \<and> b = j then map_option (store_at off bs) (vcontent content mm s f t b)
       else vcontent content mm s f t b)"
    by (auto simp: vcontent_def c fb split: option.split)
  show "coherent content (poke mm i j off bs) s" if co: "coherent content mm s"
    unfolding coherent_def
  proof (intro allI impI)
    fix k l
    assume a: "slot (poke mm i j off bs) k l" "present (page_at (poke mm i j off bs) k l)"
      "\<not> dirty (page_at (poke mm i j off bs) k l)"
    then have *: "slot mm k l" "\<not> (k = i \<and> l = j)" "present (page_at mm k l)" "\<not> dirty (page_at mm k l)"
      "page_at (poke mm i j off bs) k l = page_at mm k l"
      unfolding pg(1) by (auto simp: pg(2) split: if_splits)
    have "frame (page_at mm k l) \<noteq> ?fr" using mm_okD(9) [OF ok *(1) ij *(3) pr] *(2) by blast
    moreover have "key_at (poke mm i j off bs) k = key_at mm k" by (simp add: poke_def)
    ultimately show "content s (fst (key_at (poke mm i j off bs) k)) (snd (key_at (poke mm i j off bs) k)) l =
        Some (frame_bytes (poke mm i j off bs) (frame (page_at (poke mm i j off bs) k l)))"
      using co * mm_okD(7) [OF ok *(1,3)] by (simp add: coherent_def fb)
  qed
qed


lemma poke_no_leak:
  assumes ok: "mm_ok mm" and ij: "slot mm i j" and pr: "present (page_at mm i j)"
    and n: "off + length bs \<le> mm_page_size mm" and nl: "no_leak mm"
  shows "no_leak (poke mm i j off bs)"
  unfolding no_leak_def
proof (intro allI impI)
  let ?m = "mm\<lparr>physical_memory := store_at (frame (page_at mm i j) * mm_page_size mm + off) bs (physical_memory mm)\<rparr>"
  have "length (physical_memory ?m) = length (physical_memory mm)"
    using frame_fits [OF ok mm_okD(7) [OF ok ij pr]] n by (simp add: length_store_at)
  then have okm: "mm_ok ?m" using ok unfolding mm_ok_def by simp
  fix fr assume "fr < frame_count (poke mm i j off bs)" "frames (poke mm i j off bs) ! fr"
  then have "fr < frame_count mm" "frames mm ! fr" by (simp_all add: poke_def)
  with nl obtain k l where m: "slot mm k l" "present (page_at mm k l)" "frame (page_at mm k l) = fr"
    by (auto simp: no_leak_def)
  have "present (page_at (poke mm i j off bs) k l) \<and> frame (page_at (poke mm i j off bs) k l) = fr"
    using m ij page_at_upd_page [OF okm, of i j k l "\<lambda>e. e\<lparr>dirty := True\<rparr>"] by (auto simp: poke_def)
  moreover have "slot (poke mm i j off bs) k l"
    using m slot_upd_page [of ?m i j "\<lambda>e. e\<lparr>dirty := True\<rparr>" k l] by (simp add: poke_def)
  ultimately show "\<exists>i' j'. slot (poke mm i j off bs) i' j' \<and> present (page_at (poke mm i j off bs) i' j') \<and>
      frame (page_at (poke mm i j off bs) i' j') = fr" by blast
qed

end
