(* ===== verification/Worker_Memory.thy ===== *)
theory Worker_Memory
  imports Memory_Correct
begin

text \<open>
  The Worker's memory over a store. The locale \<open>block_store\<close> is the interface the memory
  manager relies on: what a block read and a block write of the Storage process do to the
  blocks of every File:Tag. Inside it, page replacement, page faults, accesses and flushes
  are shown to be invisible in the memory a query sees (\<open>vcontent\<close>), apart from the bytes a
  write changes. The model of the Storage process provides the interface.
\<close>

locale block_store =
  fixes io :: "'s store_io"
    and content :: "'s store_view"
    and invar :: "'s \<Rightarrow> bool"
    and bsize :: nat
  assumes content_size: "invar s \<Longrightarrow> content s f t b = Some d \<Longrightarrow> length d = bsize"
    and read_block: "invar s \<Longrightarrow> io_read io s f t b = ((r, d), s') \<Longrightarrow>
      invar s' \<and> content s' = content s \<and> r \<noteq> -2 \<and> (r = 0 \<longrightarrow> content s f t b = Some d)"
    and write_block: "invar s \<Longrightarrow> length d = bsize \<Longrightarrow> io_write io s f t b d = (r, s') \<Longrightarrow>
      invar s' \<and> (\<forall>f' t' b'. (f', t', b') \<noteq> (f, t, b) \<longrightarrow> content s' f' t' b' = content s f' t' b') \<and>
      (r = 0 \<longrightarrow> content s' f t b = Some d)"
begin

text \<open>The state of the memory and the store together.\<close>

definition inv :: "memory_manager_t \<Rightarrow> 's \<Rightarrow> bool" where
  "inv mm s \<longleftrightarrow> mm_ok mm \<and> coherent content mm s \<and> invar s \<and> mm_page_size mm = bsize"

text \<open>Steps that change nothing a query can see.\<close>

definition silent :: "memory_manager_t \<Rightarrow> 's \<Rightarrow> memory_manager_t \<Rightarrow> 's \<Rightarrow> bool" where
  "silent mm s mm' s' \<longleftrightarrow> inv mm' s' \<and> same_shape mm mm' \<and>
     (\<forall>f t b. vcontent content mm' s' f t b = vcontent content mm s f t b)"

lemma invD: "inv mm s \<Longrightarrow> mm_ok mm" "inv mm s \<Longrightarrow> coherent content mm s" "inv mm s \<Longrightarrow> invar s"
  "inv mm s \<Longrightarrow> mm_page_size mm = bsize"
  by (simp_all add: inv_def)

lemma silentD:
  assumes "silent mm s mm' s'"
  shows "inv mm' s'" and "same_shape mm mm'" and "vcontent content mm' s' f t b = vcontent content mm s f t b"
  using assms by (simp_all add: silent_def)

lemma silent_refl: "inv mm s \<Longrightarrow> silent mm s mm s"
  by (simp add: silent_def)

lemma silent_trans: "silent mm s mm1 s1 \<Longrightarrow> silent mm1 s1 mm2 s2 \<Longrightarrow> silent mm s mm2 s2"
  unfolding silent_def using same_shape_trans by auto

lemma silentI:
  assumes "inv mm s" and "mm_ok mm'" and "same_shape mm mm'" and "coherent content mm' s'" and "invar s'"
    and "\<And>f t b. vcontent content mm' s' f t b = vcontent content mm s f t b"
  shows "silent mm s mm' s'"
  using assms same_shapeD(2) [OF assms(3)] by (simp add: silent_def inv_def)

lemma silent_eqv:
  assumes "inv mm s" and "mm_eqv mm mm'"
  shows "silent mm s mm' s"
  using mm_eqv_ok [OF assms(2)] mm_eqv_view [OF assms(2)] mm_eqv_same_shape [OF assms(2)] invD [OF assms(1)]
  by (intro silentI [OF assms(1)]) auto

lemma frame_bytes_size: "inv mm s \<Longrightarrow> fr < frame_count mm \<Longrightarrow> length (frame_bytes mm fr) = bsize"
  using frame_fits invD(1,4) by (fastforce simp: frame_bytes_def region_simps)

text \<open>A clean page may be dropped; a dirty one once its write succeeded.\<close>

lemma silent_evict_clean:
  assumes i: "inv mm s" and ij: "slot mm i j" and pr: "present (page_at mm i j)"
    and fr: "frame (page_at mm i j) = fr" and cl: "\<not> dirty (page_at mm i j)"
  shows "silent mm s (evict mm i j fr) s"
proof -
  have "content s (fst (key_at mm i)) (snd (key_at mm i)) j = Some (frame_bytes mm fr)"
    using invD(2) [OF i] ij pr cl fr by (auto simp: coherent_def)
  then have "content s f t b =
      (if (f, t) = key_at mm i \<and> b = j then Some (frame_bytes mm fr) else content s f t b)" for f t b
    by (auto dest: sym)
  note v = evict_view [OF invD(1) [OF i] ij pr fr invD(2) [OF i] this]
  show ?thesis
    by (rule silentI [OF i evict_ok(1) [OF invD(1) [OF i] ij pr fr] evict_fields(6) [OF invD(1) [OF i] ij]
          v(1) invD(3) [OF i] v(2)])
qed

lemma write_frame:
  assumes i: "inv mm s" and ij: "slot mm i j" and pr: "present (page_at mm i j)"
    and fr: "frame (page_at mm i j) = fr"
    and w: "io_write io s (e_file (mm_entries mm ! i)) (e_tag (mm_entries mm ! i)) j (frame_bytes mm fr) = (r, s1)"
  shows "r = 0 \<Longrightarrow> silent mm s (evict mm i j fr) s1"
    and "dirty (page_at mm i j) \<Longrightarrow> silent mm s mm s1"
    and "r = 0 \<Longrightarrow> content s1 f t b =
      (if (f, t) = key_at mm i \<and> b = j then Some (frame_bytes mm fr) else content s f t b)"
    and "invar s1" and "(f, t, b) \<noteq> (fst (key_at mm i), snd (key_at mm i), j) \<Longrightarrow> content s1 f t b = content s f t b"
proof -
  note ok = invD(1) [OF i]
  have frc: "fr < frame_count mm" using mm_okD(7) [OF ok ij pr] fr by simp
  note wb = write_block [OF invD(3) [OF i] frame_bytes_size [OF i frc] w]
  show inv1: "invar s1" using wb by blast
  show other: "(f, t, b) \<noteq> (fst (key_at mm i), snd (key_at mm i), j) \<Longrightarrow> content s1 f t b = content s f t b" for f t b
    using wb by (simp add: key_at_def)
  show st: "content s1 f t b =
      (if (f, t) = key_at mm i \<and> b = j then Some (frame_bytes mm fr) else content s f t b)" if "r = 0" for f t b
    using wb that by (auto simp: key_at_def)
  show "silent mm s (evict mm i j fr) s1" if "r = 0"
    using evict_view [OF ok ij pr fr invD(2) [OF i] st [OF that]]
    by (intro silentI [OF i evict_ok(1) [OF ok ij pr fr] evict_fields(6) [OF ok ij] _ inv1])
  show "silent mm s mm s1" if d: "dirty (page_at mm i j)"
  proof (rule silentI [OF i ok same_shape_refl _ inv1])
    have same: "content s1 f t b = content s f t b" if "\<not> ((f, t) = key_at mm i \<and> b = j)" for f t b
      by (rule other) (use that in auto)
    show "coherent content mm s1"
      unfolding coherent_def
    proof (intro allI impI)
      fix k l assume a: "slot mm k l" "present (page_at mm k l)" "\<not> dirty (page_at mm k l)"
      have "\<not> (key_at mm k = key_at mm i \<and> l = j)"
        using mm_okD(5) [OF ok] slotD(1) [OF a(1)] slotD(1) [OF ij] a(3) d by (auto simp: inj_on_def)
      with a invD(2) [OF i] same [of "fst (key_at mm k)" "snd (key_at mm k)" l]
      show "content s1 (fst (key_at mm k)) (snd (key_at mm k)) l = Some (frame_bytes mm (frame (page_at mm k l)))"
        by (simp add: coherent_def)
    qed
    fix f t b
    have "cached mm f t b = Some fr" if "(f, t) = key_at mm i \<and> b = j"
      using that ij pr fr by (auto simp: cached_Some_iff [OF ok])
    then show "vcontent content mm s1 f t b = vcontent content mm s f t b"
      using same by (cases "(f, t) = key_at mm i \<and> b = j") (auto simp: vcontent_def split: option.split)
  qed
qed

end

text \<open>
  The two ways a victim search may leave the manager: as it was up to policy bits, with no
  victim, or with exactly one page evicted.
\<close>

definition victim_form :: "memory_manager_t \<Rightarrow> int \<Rightarrow> memory_manager_t \<Rightarrow> bool" where
  "victim_form mm v mm' \<longleftrightarrow> v = -1 \<and> mm_eqv mm mm' \<or>
     (\<exists>mm0 i j fr. mm_eqv mm mm0 \<and> slot mm0 i j \<and> present (page_at mm0 i j) \<and> frame (page_at mm0 i j) = fr \<and>
        v = int fr \<and> mm_eqv (evict mm0 i j fr) mm')"

lemma victim_form_evict:
  "slot mm i j \<Longrightarrow> present (page_at mm i j) \<Longrightarrow> frame (page_at mm i j) = fr \<Longrightarrow>
   victim_form mm (int fr) (evict mm i j fr)"
  unfolding victim_form_def using mm_eqv_refl by blast

lemma victim_form_before: "mm_eqv mm mm1 \<Longrightarrow> victim_form mm1 v mm' \<Longrightarrow> victim_form mm v mm'"
  unfolding victim_form_def using mm_eqv_trans by blast

lemma victim_form_after: "victim_form mm v mm1 \<Longrightarrow> mm_eqv mm1 mm' \<Longrightarrow> victim_form mm v mm'"
  unfolding victim_form_def using mm_eqv_trans by blast

context block_store
begin

text \<open>What a victim search promises, whatever the policy.\<close>

definition victim_ok :: "memory_manager_t \<Rightarrow> 's \<Rightarrow> int \<Rightarrow> memory_manager_t \<Rightarrow> 's \<Rightarrow> bool" where
  "victim_ok mm s r mm' s' \<longleftrightarrow> silent mm s mm' s' \<and> victim_form mm r mm' \<and>
     (\<forall>f t b. cached mm f t b = None \<longrightarrow> cached mm' f t b = None) \<and>
     (r = -1 \<or> (\<exists>fr < frame_count mm. r = int fr \<and> \<not> mapped mm' fr))"

lemma victim_ok_fail: "inv mm s \<Longrightarrow> victim_ok mm s (-1) mm s"
  by (simp add: victim_ok_def silent_refl victim_form_def mm_eqv_refl)

lemma victim_ok_clock:
  assumes "inv mm s" and "victim_ok mm s r mm' s'" and "clock_pointer mm' < frame_count mm \<Longrightarrow> c < frame_count mm"
  shows "victim_ok mm s r (mm'\<lparr>clock_pointer := c\<rparr>) s'"
proof -
  have k: "silent mm s mm' s'" using assms(2) by (simp add: victim_ok_def)
  have e: "mm_eqv mm' (mm'\<lparr>clock_pointer := c\<rparr>)"
    using assms(3) same_shapeD(3) [OF silentD(2) [OF k]] by (intro mm_eqv_clock) simp
  then have "silent mm s (mm'\<lparr>clock_pointer := c\<rparr>) s'"
    using silent_trans [OF k] silent_eqv [OF silentD(1) [OF k]] by blast
  with assms(2) victim_form_after [OF _ e] show ?thesis by (auto simp: victim_ok_def mapped_def)
qed

lemma victim_ok_evict:
  assumes i: "inv mm s" and ij: "slot mm i j" and pr: "present (page_at mm i j)"
    and fr: "frame (page_at mm i j) = fr" and k: "silent mm s (evict mm i j fr) s1"
  shows "victim_ok mm s (int fr) (evict mm i j fr) s1"
  using k evict_ok(2) [OF invD(1) [OF i] ij pr fr] mm_okD(7) [OF invD(1) [OF i] ij pr] fr
    victim_form_evict [OF ij pr fr]
  by (auto simp: victim_ok_def evict_cached [OF invD(1) [OF i] ij pr fr])

lemma victim_ok_eqv:
  assumes i: "inv mm s" and e: "mm_eqv mm mm1" and v: "victim_ok mm1 s r mm' s'"
  shows "victim_ok mm s r mm' s'"
  using silent_trans [OF silent_eqv [OF i e]] v mm_eqvD(3) [OF e] mm_eqv_cached [OF e invD(1) [OF i]]
    victim_form_before [OF e]
  by (auto simp: victim_ok_def)

end

subsection \<open>LRU\<close>

text \<open>The scan picks a present page with the smallest access time.\<close>

definition oldest_page :: "memory_manager_t \<Rightarrow> nat \<Rightarrow> nat \<Rightarrow> bool" where
  "oldest_page mm i j \<longleftrightarrow> slot mm i j \<and> present (page_at mm i j) \<and>
     (\<forall>i' j'. slot mm i' j' \<longrightarrow> present (page_at mm i' j') \<longrightarrow>
        last_access_time (page_at mm i j) \<le> last_access_time (page_at mm i' j'))"

lemma lru_fold_le: "fst (fold (lru_step mm) ps (t0, v0)) \<le> t0"
proof (induction ps arbitrary: t0 v0)
  case (Cons p ps)
  show ?case
  proof (cases p)
    case (Pair i j)
    then show ?thesis
      using Cons.IH [of "last_access_time (page_at mm i j)" "Some (i, j)"] Cons.IH [of t0 v0] by auto
  qed
qed simp

lemma lru_fold_min:
  "(i, j) \<in> set ps \<Longrightarrow> present (page_at mm i j) \<Longrightarrow>
   fst (fold (lru_step mm) ps (t0, v0)) \<le> last_access_time (page_at mm i j)"
proof (induction ps arbitrary: t0 v0)
  case (Cons p ps)
  obtain i' j' where p: "p = (i', j')" by (cases p)
  show ?case
  proof (cases "(i, j) \<in> set ps")
    case True
    with Cons show ?thesis by (auto simp: p)
  next
    case False
    with Cons.prems p have "(i', j') = (i, j)" by auto
    with p Cons.prems(2) show ?thesis
      using lru_fold_le [of mm ps "last_access_time (page_at mm i j)" "Some (i, j)"]
        lru_fold_le [of mm ps t0 v0] by auto
  qed
qed simp

lemma lru_fold_origin:
  "fold (lru_step mm) ps (t0, v0) = (t, v) \<Longrightarrow> (t, v) = (t0, v0) \<or>
    (\<exists>i j. (i, j) \<in> set ps \<and> present (page_at mm i j) \<and> v = Some (i, j) \<and>
       t = last_access_time (page_at mm i j))"
proof (induction ps arbitrary: t0 v0)
  case (Cons p ps)
  obtain i j where p: "p = (i, j)" by (cases p)
  show ?case
    using Cons.IH [of "last_access_time (page_at mm i j)" "Some (i, j)"] Cons.IH [of t0 v0] Cons.prems
    by (auto simp: p split: if_splits)
qed simp

lemma lru_scan_Some:
  assumes "snd (lru_scan mm) = Some (i, j)"
  shows "oldest_page mm i j"
proof -
  obtain t where t: "lru_scan mm = (t, Some (i, j))" using assms by (metis prod.collapse)
  from lru_fold_origin [OF t [unfolded lru_scan_def]]
  have "slot mm i j" "present (page_at mm i j)" "t = last_access_time (page_at mm i j)"
    by (auto simp: set_page_slots)
  moreover have "t \<le> last_access_time (page_at mm i' j')" if "slot mm i' j'" "present (page_at mm i' j')" for i' j'
    using lru_fold_min [of i' j' "page_slots mm" mm "2 ^ 64 - 1" None] that t
    by (simp add: lru_scan_def set_page_slots)
  ultimately show ?thesis by (simp add: oldest_page_def)
qed

lemma lru_scan_None:
  assumes "snd (lru_scan mm) = None" and "slot mm i j" and "present (page_at mm i j)"
  shows "2 ^ 64 - 1 \<le> last_access_time (page_at mm i j)"
proof -
  obtain t where t: "lru_scan mm = (t, None)" using assms(1) by (metis prod.collapse)
  from lru_fold_origin [OF t [unfolded lru_scan_def]] have "t = 2 ^ 64 - 1" by auto
  with lru_fold_min [of i j "page_slots mm" mm "2 ^ 64 - 1" None] assms(2,3) t show ?thesis
    by (simp add: lru_scan_def set_page_slots)
qed

context block_store
begin

lemma lru_victim_ok:
  assumes i: "inv mm s" and r: "mm_find_lru_victim io mm s = (r, mm', s')"
  shows "victim_ok mm s r mm' s'"
proof (cases "snd (lru_scan mm)")
  case None
  with r i show ?thesis by (auto simp: mm_find_lru_victim_def victim_ok_fail split: if_splits)
next
  case (Some p)
  obtain a j where p: "p = (a, j)" by (cases p)
  from lru_scan_Some [of mm a j] Some p have ij: "slot mm a j" and pr: "present (page_at mm a j)"
    by (auto simp: oldest_page_def)
  let ?fr = "frame (page_at mm a j)"
  have ne: "mm_entries mm \<noteq> []" using slotD(1) [OF ij] by auto
  have addr: "mm_get_frame_address mm ?fr = Some (?fr * mm_page_size mm)"
    using mm_okD(7) [OF invD(1) [OF i] ij pr] by (simp add: mm_get_frame_address_def)
  show ?thesis
  proof (cases "dirty (page_at mm a j)")
    case False
    with r Some p ne have "r = int ?fr" "mm' = evict mm a j ?fr" "s' = s"
      by (auto simp: mm_find_lru_victim_def Let_def)
    then show ?thesis
      using victim_ok_evict [OF i ij pr refl] silent_evict_clean [OF i ij pr refl False] by simp
  next
    case True
    obtain rw s1 where w: "io_write io s (e_file (mm_entries mm ! a)) (e_tag (mm_entries mm ! a)) j
        (frame_bytes mm ?fr) = (rw, s1)" by (metis surj_pair)
    note wf = write_frame [OF i ij pr refl w]
    show ?thesis
    proof (cases "rw = 0")
      case z: True
      with r Some p ne True addr w have "r = int ?fr" "mm' = evict mm a j ?fr" "s' = s1"
        by (auto simp: mm_find_lru_victim_def Let_def frame_bytes_def)
      then show ?thesis using victim_ok_evict [OF i ij pr refl wf(1) [OF z]] by simp
    next
      case nz: False
      with r Some p ne True addr w have "r = -1" "mm' = mm" "s' = s1"
        by (auto simp: mm_find_lru_victim_def Let_def frame_bytes_def)
      then show ?thesis using wf(2) [OF True] by (simp add: victim_ok_def victim_form_def mm_eqv_refl)
    qed
  qed
qed

end


subsection \<open>CLOCK-M\<close>

lemma mm_eqv_find_page:
  assumes e: "mm_eqv mm mm'" and ok: "mm_ok mm"
  shows "mm_find_page_for_frame mm' fr = mm_find_page_for_frame mm fr"
proof -
  have len: "length (mm_entries mm') = length (mm_entries mm)" by (rule mm_eqvD(1) [OF e])
  have sl: "page_slots mm' = page_slots mm"
    unfolding page_slots_def len
    by (intro arg_cong [where f = concat] map_cong refl) (simp add: mm_eqvD(11) [OF e])
  have "(case p of (i, j) \<Rightarrow> present (page_at mm' i j) \<and> frame (page_at mm' i j) = fr) =
      (case p of (i, j) \<Rightarrow> present (page_at mm i j) \<and> frame (page_at mm i j) = fr)"
    if "p \<in> set (page_slots mm)" for p
    using that mm_eqv_page [OF e ok] by (auto simp: set_page_slots)
  then show ?thesis
    unfolding mm_find_page_for_frame_def sl by (rule find_cong [OF refl])
qed

text \<open>The frame the clock hand reaches after \<open>t\<close> steps.\<close>

definition hand :: "memory_manager_t \<Rightarrow> nat \<Rightarrow> nat" where
  "hand mm t = (clock_pointer mm + t) mod frame_count mm"

lemma hand_step:
  "hand (mm\<lparr>clock_pointer := (clock_pointer mm + 1) mod frame_count mm\<rparr>) t = hand mm (Suc t)"
  by (simp add: hand_def mod_add_left_eq)

lemma hand_cover:
  assumes "clock_pointer mm < frame_count mm" and "fr < frame_count mm"
  shows "\<exists>t < frame_count mm. hand mm t = fr"
proof (cases "clock_pointer mm \<le> fr")
  case True
  with assms show ?thesis by (intro exI [of _ "fr - clock_pointer mm"]) (auto simp: hand_def)
next
  case False
  then have "(clock_pointer mm + (frame_count mm - clock_pointer mm + fr)) mod frame_count mm = fr"
    using assms by simp
  with False assms show ?thesis
    by (intro exI [of _ "frame_count mm - clock_pointer mm + fr"]) (simp add: hand_def)
qed

lemma mm_eqv_advance:
  "0 < frame_count mm \<Longrightarrow> mm_eqv mm (mm\<lparr>clock_pointer := (clock_pointer mm + 1) mod frame_count mm\<rparr>)"
  by (intro mm_eqv_clock) simp

lemma hand_0: "clock_pointer mm < frame_count mm \<Longrightarrow> hand mm 0 = clock_pointer mm"
  by (simp add: hand_def)

text \<open>
  A failed first pass met no page with U=0 and M=0; a successful one evicts the first such
  page, and the manager is otherwise as it was.
\<close>

lemma find_page_clock [simp]:
  "mm_find_page_for_frame (mm\<lparr>clock_pointer := c\<rparr>) = mm_find_page_for_frame mm"
  by (simp add: fun_eq_iff mm_find_page_for_frame_def page_slots_def)

definition clean_unused :: "memory_manager_t \<Rightarrow> nat \<Rightarrow> nat \<Rightarrow> bool" where
  "clean_unused mm i j \<longleftrightarrow> \<not> use_bit (page_at mm i j) \<and> \<not> dirty (page_at mm i j)"

lemma clockm_pass1_None:
  assumes "clockm_pass1 k mm = (None, mm')" and "clock_pointer mm < frame_count mm"
  shows "\<exists>c < frame_count mm. mm' = mm\<lparr>clock_pointer := c\<rparr>"
    and "t < k \<Longrightarrow> frames mm ! hand mm t \<Longrightarrow> mm_find_page_for_frame mm (hand mm t) = Some (i, j) \<Longrightarrow>
      \<not> clean_unused mm i j"
proof -
  have "(\<exists>c < frame_count mm. mm' = mm\<lparr>clock_pointer := c\<rparr>) \<and>
    (\<forall>t < k. frames mm ! hand mm t \<longrightarrow> (\<forall>i j. mm_find_page_for_frame mm (hand mm t) = Some (i, j) \<longrightarrow>
      \<not> clean_unused mm i j))"
    using assms
  proof (induction k arbitrary: mm)
    case 0
    then show ?case by (auto intro!: exI [of _ "clock_pointer mm"])
  next
    case (Suc k)
    let ?m = "mm\<lparr>clock_pointer := (clock_pointer mm + 1) mod frame_count mm\<rparr>"
    have c: "clock_pointer ?m < frame_count ?m" using Suc.prems(2) by simp
    have step: "clockm_pass1 k ?m = (None, mm')" and no: "frames mm ! hand mm 0 \<longrightarrow>
        (\<forall>i j. mm_find_page_for_frame mm (hand mm 0) = Some (i, j) \<longrightarrow> \<not> clean_unused mm i j)"
      using Suc.prems(1) hand_0 [OF Suc.prems(2)]
      by (auto simp: Let_def clean_unused_def split: if_splits option.splits)
    from Suc.IH [OF step c] have IH1: "\<exists>c < frame_count mm. mm' = mm\<lparr>clock_pointer := c\<rparr>"
      and IH2: "\<forall>t < k. frames mm ! hand mm (Suc t) \<longrightarrow>
        (\<forall>i j. mm_find_page_for_frame mm (hand mm (Suc t)) = Some (i, j) \<longrightarrow> \<not> clean_unused mm i j)"
      unfolding hand_step by (auto simp: clean_unused_def)
    with no show ?case by (auto simp: less_Suc_eq_0_disj)
  qed
  then show "\<exists>c < frame_count mm. mm' = mm\<lparr>clock_pointer := c\<rparr>"
    and "t < k \<Longrightarrow> frames mm ! hand mm t \<Longrightarrow> mm_find_page_for_frame mm (hand mm t) = Some (i, j) \<Longrightarrow>
      \<not> clean_unused mm i j" by blast+
qed

lemma evict_clock:
  "(evict (mm\<lparr>clock_pointer := x\<rparr>) i j fr)\<lparr>clock_pointer := c\<rparr> = (evict mm i j fr)\<lparr>clock_pointer := c\<rparr>"
  by (simp add: evict_def set_pt_def mm_pt_def Let_def)

lemma clockm_pass1_Some:
  assumes "clockm_pass1 k mm = (Some idx, mm')" and "clock_pointer mm < frame_count mm"
  shows "\<exists>t c i j. t < k \<and> idx = hand mm t \<and> frames mm ! idx \<and> mm_find_page_for_frame mm idx = Some (i, j) \<and>
    clean_unused mm i j \<and> c < frame_count mm \<and>
    mm' = (evict mm i j idx)\<lparr>clock_pointer := c\<rparr> \<and>
    (\<forall>t' < t. frames mm ! hand mm t' \<longrightarrow> (\<forall>i j. mm_find_page_for_frame mm (hand mm t') = Some (i, j) \<longrightarrow>
       \<not> clean_unused mm i j))"
  using assms
proof (induction k arbitrary: mm)
  case (Suc k)
  let ?m = "mm\<lparr>clock_pointer := (clock_pointer mm + 1) mod frame_count mm\<rparr>"
  have c: "clock_pointer ?m < frame_count ?m" using Suc.prems(2) by simp
  show ?case
  proof (cases "frames mm ! hand mm 0 \<and> (\<exists>i j. mm_find_page_for_frame mm (hand mm 0) = Some (i, j) \<and> clean_unused mm i j)")
    case True
    then obtain i j where "frames mm ! hand mm 0" "mm_find_page_for_frame mm (hand mm 0) = Some (i, j)"
      "clean_unused mm i j" by blast
    then have "0 < Suc k \<and> idx = hand mm 0 \<and> frames mm ! idx \<and> mm_find_page_for_frame mm idx = Some (i, j) \<and>
        clean_unused mm i j \<and> (clock_pointer mm + 1) mod frame_count mm < frame_count mm \<and>
        mm' = (evict mm i j idx)\<lparr>clock_pointer := (clock_pointer mm + 1) mod frame_count mm\<rparr>"
      using Suc.prems hand_0 [OF Suc.prems(2)] by (auto simp: Let_def clean_unused_def)
    then show ?thesis by blast
  next
    case False
    then have step: "clockm_pass1 k ?m = (Some idx, mm')"
      using Suc.prems(1) hand_0 [OF Suc.prems(2)]
      by (auto simp: Let_def clean_unused_def split: if_splits option.splits)
    from Suc.IH [OF step c] obtain t c i j where *: "t < k" "idx = hand mm (Suc t)" "frames mm ! idx"
      "mm_find_page_for_frame mm idx = Some (i, j)" "clean_unused mm i j" "c < frame_count mm"
      "mm' = (evict mm i j idx)\<lparr>clock_pointer := c\<rparr>"
      "\<forall>t' < t. frames mm ! hand mm (Suc t') \<longrightarrow> (\<forall>i j. mm_find_page_for_frame mm (hand mm (Suc t')) = Some (i, j) \<longrightarrow>
       \<not> clean_unused mm i j)"
      unfolding hand_step by (auto simp: clean_unused_def evict_clock)
    with False show ?thesis
      by (intro exI [of _ "Suc t"] exI [of _ c] exI [of _ i] exI [of _ j]) (auto simp: less_Suc_eq_0_disj)
  qed
qed simp


text \<open>One step of the second pass, as a step on the manager and one on the candidate.\<close>

definition at_hand :: "memory_manager_t \<Rightarrow> nat \<Rightarrow> nat \<Rightarrow> bool" where
  "at_hand mm i j \<longleftrightarrow> frames mm ! clock_pointer mm \<and>
     mm_find_page_for_frame mm (clock_pointer mm) = Some (i, j)"

definition pass2_mm :: "memory_manager_t \<Rightarrow> memory_manager_t" where
  "pass2_mm mm =
     (case mm_find_page_for_frame mm (clock_pointer mm) of
        Some (i, j) \<Rightarrow>
          if frames mm ! clock_pointer mm \<and> use_bit (page_at mm i j)
          then upd_page mm i j (\<lambda>e. e\<lparr>use_bit := False\<rparr>) else mm
      | None \<Rightarrow> mm)\<lparr>clock_pointer := (clock_pointer mm + 1) mod frame_count mm\<rparr>"

definition pass2_cand :: "memory_manager_t \<Rightarrow> (nat \<times> nat \<times> nat) option \<Rightarrow> (nat \<times> nat \<times> nat) option" where
  "pass2_cand mm cand =
     (case mm_find_page_for_frame mm (clock_pointer mm) of
        Some (i, j) \<Rightarrow>
          if frames mm ! clock_pointer mm \<and> \<not> use_bit (page_at mm i j) \<and> dirty (page_at mm i j) \<and> cand = None
          then Some (clock_pointer mm, i, j) else cand
      | None \<Rightarrow> cand)"

lemma clockm_pass2_Suc: "clockm_pass2 (Suc k) mm cand = clockm_pass2 k (pass2_mm mm) (pass2_cand mm cand)"
  by (simp add: pass2_mm_def pass2_cand_def Let_def split: option.split)

declare clockm_pass2.simps(2) [simp del]

lemma pass2_mm_eqv:
  assumes ok: "mm_ok mm" and c: "clock_pointer mm < frame_count mm"
  shows "mm_eqv mm (pass2_mm mm)" and "clock_pointer (pass2_mm mm) < frame_count mm"
    and "hand (pass2_mm mm) t = hand mm (Suc t)"
    and "slot mm i j \<Longrightarrow> use_bit (page_at (pass2_mm mm) i j) \<longleftrightarrow> use_bit (page_at mm i j) \<and> \<not> at_hand mm i j"
proof -
  have step: "mm_eqv m (m\<lparr>clock_pointer := (clock_pointer m + 1) mod frame_count m\<rparr>)"
    if "0 < frame_count m" for m
    using mm_eqv_advance [OF that] .
  have u: "mm_eqv mm (upd_page mm i j (\<lambda>e. e\<lparr>use_bit := False\<rparr>))" if "slot mm i j" for i j
    using slotD(1) [OF that] by (intro mm_eqv_set_pt_update) auto
  show "mm_eqv mm (pass2_mm mm)"
  proof (cases "mm_find_page_for_frame mm (clock_pointer mm)")
    case None
    then show ?thesis using step [of mm] c by (simp add: pass2_mm_def)
  next
    case (Some p)
    obtain i j where p: "p = (i, j)" by (cases p)
    note ij = find_page_for_frame_Some(1) [OF Some [unfolded p]]
    show ?thesis
    proof (cases "frames mm ! clock_pointer mm \<and> use_bit (page_at mm i j)")
      case True
      have "mm_eqv (upd_page mm i j (\<lambda>e. e\<lparr>use_bit := False\<rparr>)) (pass2_mm mm)"
        using step [of "upd_page mm i j (\<lambda>e. e\<lparr>use_bit := False\<rparr>)"] c True Some p by (simp add: pass2_mm_def)
      then show ?thesis using mm_eqv_trans u [OF ij] by blast
    next
      case False
      then show ?thesis using step [of mm] c Some p by (auto simp: pass2_mm_def)
    qed
  qed
  show "clock_pointer (pass2_mm mm) < frame_count mm" using c by (simp add: pass2_mm_def)
  have "frame_count (pass2_mm mm) = frame_count mm"
    by (simp add: pass2_mm_def split: option.split)
  then show "hand (pass2_mm mm) t = hand mm (Suc t)"
    by (simp add: hand_def) (simp add: pass2_mm_def mod_add_left_eq)
  assume ij: "slot mm i j"
  show "use_bit (page_at (pass2_mm mm) i j) \<longleftrightarrow> use_bit (page_at mm i j) \<and> \<not> at_hand mm i j"
  proof (cases "mm_find_page_for_frame mm (clock_pointer mm)")
    case None
    then show ?thesis by (simp add: pass2_mm_def at_hand_def)
  next
    case (Some p)
    obtain i' j' where p: "p = (i', j')" by (cases p)
    note ij' = find_page_for_frame_Some(1) [OF Some [unfolded p]]
    show ?thesis using Some p by (auto simp: pass2_mm_def at_hand_def page_at_upd_page [OF ok ij' ij])
  qed
qed

definition candidate_ok :: "memory_manager_t \<Rightarrow> (nat \<times> nat \<times> nat) option \<Rightarrow> bool" where
  "candidate_ok mm cand \<longleftrightarrow> (\<forall>fr i j. cand = Some (fr, i, j) \<longrightarrow>
     fr < frame_count mm \<and> frames mm ! fr \<and> mm_find_page_for_frame mm fr = Some (i, j) \<and> dirty (page_at mm i j))"

lemma candidate_ok_eqv:
  assumes e: "mm_eqv mm mm'" and ok: "mm_ok mm"
  shows "candidate_ok mm' cand = candidate_ok mm cand"
  using mm_eqv_find_page [OF e ok] mm_eqvD(2,3) [OF e] mm_eqv_page(3) [OF e ok] find_page_for_frame_Some(1)
  unfolding candidate_ok_def by metis

lemma clockm_pass2_spec:
  assumes "clockm_pass2 k mm cand = (cand', mm')" and "mm_ok mm" and "clock_pointer mm < frame_count mm"
    and "candidate_ok mm cand"
  shows "mm_eqv mm mm' \<and> clock_pointer mm' < frame_count mm \<and> candidate_ok mm cand' \<and>
    (cand \<noteq> None \<longrightarrow> cand' \<noteq> None) \<and>
    (\<forall>i j. slot mm i j \<longrightarrow> use_bit (page_at mm' i j) \<longrightarrow> use_bit (page_at mm i j)) \<and>
    (\<forall>t < k. \<forall>i j. frames mm ! hand mm t \<longrightarrow> mm_find_page_for_frame mm (hand mm t) = Some (i, j) \<longrightarrow>
       \<not> use_bit (page_at mm' i j) \<and>
       (\<not> use_bit (page_at mm i j) \<longrightarrow> dirty (page_at mm i j) \<longrightarrow> cand' \<noteq> None))"
  using assms
proof (induction k arbitrary: mm cand)
  case 0
  then show ?case by (auto simp: mm_eqv_refl)
next
  case (Suc k)
  note p2 = pass2_mm_eqv [OF Suc.prems(2,3)]
  note eqv = p2(1) and ok1 = mm_eqv_ok [OF p2(1) Suc.prems(2)]
  have c1: "clock_pointer (pass2_mm mm) < frame_count (pass2_mm mm)"
    using p2(2) mm_eqvD(3) [OF eqv] by simp
  have cand1: "candidate_ok mm (pass2_cand mm cand)"
    using Suc.prems(3,4) by (auto simp: candidate_ok_def pass2_cand_def split: option.splits if_splits)
  then have cand2: "candidate_ok (pass2_mm mm) (pass2_cand mm cand)"
    using candidate_ok_eqv [OF eqv Suc.prems(2)] by simp
  note IH = Suc.IH [OF Suc.prems(1) [unfolded clockm_pass2_Suc] ok1 c1 cand2]
  have h0: "hand mm 0 = clock_pointer mm" by (rule hand_0 [OF Suc.prems(3)])
  have e1: "mm_eqv mm mm'" by (rule mm_eqv_trans [OF eqv conjunct1 [OF IH]])
  from IH have IH2: "clock_pointer mm' < frame_count (pass2_mm mm)" and IH3: "candidate_ok (pass2_mm mm) cand'"
    and IH4: "pass2_cand mm cand \<noteq> None \<longrightarrow> cand' \<noteq> None"
    and IH5: "\<And>i j. slot (pass2_mm mm) i j \<Longrightarrow> use_bit (page_at mm' i j) \<Longrightarrow> use_bit (page_at (pass2_mm mm) i j)"
    and IH6: "\<And>t i j. t < k \<Longrightarrow> frames (pass2_mm mm) ! hand (pass2_mm mm) t \<Longrightarrow>
        mm_find_page_for_frame (pass2_mm mm) (hand (pass2_mm mm) t) = Some (i, j) \<Longrightarrow>
        \<not> use_bit (page_at mm' i j) \<and>
        (\<not> use_bit (page_at (pass2_mm mm) i j) \<longrightarrow> dirty (page_at (pass2_mm mm) i j) \<longrightarrow> cand' \<noteq> None)"
    by auto
  have cand': "candidate_ok mm cand'" using IH3 candidate_ok_eqv [OF eqv Suc.prems(2)] by simp
  have keep: "cand \<noteq> None \<longrightarrow> cand' \<noteq> None"
    using IH4 by (auto simp: pass2_cand_def split: option.splits if_splits)
  have mono: "use_bit (page_at mm' i j) \<longrightarrow> use_bit (page_at mm i j) \<and> \<not> at_hand mm i j" if "slot mm i j" for i j
    using IH5 [of i j] that p2(4) [OF that] mm_eqv_slot [OF eqv, of i j] by blast
  have visited: "\<not> use_bit (page_at mm' i j) \<and> (\<not> use_bit (page_at mm i j) \<longrightarrow> dirty (page_at mm i j) \<longrightarrow> cand' \<noteq> None)"
    if t: "t < Suc k" and f: "frames mm ! hand mm t" and m: "mm_find_page_for_frame mm (hand mm t) = Some (i, j)" for t i j
  proof (cases t)
    case 0
    with f m h0 have ah: "at_hand mm i j" by (simp add: at_hand_def)
    have "pass2_cand mm cand \<noteq> None" if "\<not> use_bit (page_at mm i j)" "dirty (page_at mm i j)"
      using ah that by (cases cand) (auto simp: pass2_cand_def at_hand_def)
    with IH4 mono [OF find_page_for_frame_Some(1) [OF m]] ah show ?thesis by blast
  next
    case (Suc t')
    note s = find_page_for_frame_Some(1) [OF m]
    have "t' < k" "frames (pass2_mm mm) ! hand (pass2_mm mm) t'"
      "mm_find_page_for_frame (pass2_mm mm) (hand (pass2_mm mm) t') = Some (i, j)"
      using Suc t f m p2(3) mm_eqvD(2) [OF eqv] mm_eqv_find_page [OF eqv Suc.prems(2)] by simp_all
    from IH6 [OF this] have "\<not> use_bit (page_at mm' i j)" "\<not> use_bit (page_at (pass2_mm mm) i j) \<longrightarrow>
        dirty (page_at (pass2_mm mm) i j) \<longrightarrow> cand' \<noteq> None" by auto
    then show ?thesis using p2(4) [OF s] mm_eqv_page(3) [OF eqv Suc.prems(2) s] by blast
  qed
  have "clock_pointer mm' < frame_count mm" using IH2 mm_eqvD(3) [OF eqv] by simp
  with e1 cand' keep mono visited show ?case by auto
qed


text \<open>Every result of the loop is a proper victim.\<close>

context block_store
begin

lemma clockm_body_ok:
  assumes i: "inv mm s" and c: "clock_pointer mm < frame_count mm"
    and p1: "clockm_pass1 (frame_count mm) mm = (None, mm1)"
    and p2: "clockm_pass2 (frame_count mm1) mm1 None = (cand, mm2)"
  shows "mm_eqv mm mm2" and "inv mm2 s" and "clock_pointer mm2 < frame_count mm2" and "candidate_ok mm2 cand"
proof -
  note ok = invD(1) [OF i]
  obtain x where x: "x < frame_count mm" "mm1 = mm\<lparr>clock_pointer := x\<rparr>"
    using clockm_pass1_None(1) [OF p1 c] by blast
  have e1: "mm_eqv mm mm1" using x by (simp add: mm_eqv_clock)
  note s2 = clockm_pass2_spec [OF p2 mm_eqv_ok [OF e1 ok]]
  have e2: "mm_eqv mm1 mm2" "clock_pointer mm2 < frame_count mm1" "candidate_ok mm1 cand"
    using s2 x by (auto simp: candidate_ok_def)
  show e: "mm_eqv mm mm2" by (rule mm_eqv_trans [OF e1 e2(1)])
  show "inv mm2 s" using silent_eqv [OF i e] by (rule silentD(1))
  show "clock_pointer mm2 < frame_count mm2" using e2(2) mm_eqvD(3) [OF e2(1)] by simp
  show "candidate_ok mm2 cand" using candidate_ok_eqv [OF e2(1) mm_eqv_ok [OF e1 ok]] e2(3) by simp
qed

lemma clockm_write_ok:
  assumes i: "inv mm s" and cand: "candidate_ok mm (Some (fr, a, j))"
    and w: "io_write io s (e_file (mm_entries mm ! a)) (e_tag (mm_entries mm ! a)) j
      (region (fr * mm_page_size mm) (mm_page_size mm) (physical_memory mm)) = (r, s1)"
  shows "r \<noteq> 0 \<Longrightarrow> victim_ok mm s (-1) mm s1"
    and "r = 0 \<Longrightarrow> victim_ok mm s (int fr) ((evict mm a j fr)\<lparr>clock_pointer := (fr + 1) mod frame_count mm\<rparr>) s1"
proof -
  from cand have m: "mm_find_page_for_frame mm fr = Some (a, j)" "dirty (page_at mm a j)" "fr < frame_count mm"
    by (auto simp: candidate_ok_def)
  note f = find_page_for_frame_Some [OF m(1)]
  note wf = write_frame [OF i f w [folded frame_bytes_def]]
  show "r \<noteq> 0 \<Longrightarrow> victim_ok mm s (-1) mm s1" using wf(2) [OF m(2)] by (simp add: victim_ok_def victim_form_def mm_eqv_refl)
  assume "r = 0"
  from victim_ok_clock [OF i victim_ok_evict [OF i f wf(1) [OF this]], of "(fr + 1) mod frame_count mm"] m(3)
  show "victim_ok mm s (int fr) ((evict mm a j fr)\<lparr>clock_pointer := (fr + 1) mod frame_count mm\<rparr>) s1"
    by simp
qed

lemma clockm_pass1_ok:
  assumes i: "inv mm s" and c: "clock_pointer mm < frame_count mm"
    and p1: "clockm_pass1 (frame_count mm) mm = (Some idx, mm1)"
  shows "victim_ok mm s (int idx) mm1 s"
proof -
  from clockm_pass1_Some [OF p1 c] obtain x a j where x: "x < frame_count mm"
    and m: "mm_find_page_for_frame mm idx = Some (a, j)" "clean_unused mm a j"
    and mm1: "mm1 = (evict mm a j idx)\<lparr>clock_pointer := x\<rparr>" by blast
  note f = find_page_for_frame_Some [OF m(1)]
  have "silent mm s (evict mm a j idx) s"
    using m(2) by (intro silent_evict_clean [OF i f]) (simp add: clean_unused_def)
  from victim_ok_clock [OF i victim_ok_evict [OF i f this], of x] x mm1 show ?thesis by simp
qed

lemma clockm_loop_ok:
  assumes "clockm_loop io mm s = Some (r, mm', s')" and "inv mm s" and "clock_pointer mm < frame_count mm"
  shows "victim_ok mm s r mm' s'"
proof -
  let ?P = "\<lambda>io' mm s res. io' = io \<longrightarrow> inv mm s \<longrightarrow> clock_pointer mm < frame_count mm \<longrightarrow>
      victim_ok mm s (fst res) (fst (snd res)) (snd (snd res))"
  have "?P io mm s (r, mm', s')"
  proof (rule clockm_loop.raw_induct [where P = ?P, OF _ assms(1)], intro impI)
    fix loop :: "'s store_io \<Rightarrow> memory_manager_t \<Rightarrow> 's \<Rightarrow> (int \<times> memory_manager_t \<times> 's) option"
      and io' mm s res
    assume IH: "\<And>io' mm s res. loop io' mm s = Some res \<Longrightarrow> ?P io' mm s res"
      and body: "(case clockm_pass1 (frame_count mm) mm of
          (None, mm1) \<Rightarrow>
            (case clockm_pass2 (frame_count mm1) mm1 None of
               (None, mm2) \<Rightarrow> loop io' mm2 s
             | (Some (fr, i, j), mm2) \<Rightarrow>
                 (let entry = mm_entries mm2 ! i
                  in case mm_get_frame_address mm2 fr of
                       None \<Rightarrow> Some (-1, mm2, s)
                     | Some addr \<Rightarrow>
                         (let (r, s1) = io_write io' s (e_file entry) (e_tag entry) j
                                (region addr (mm_page_size mm2) (physical_memory mm2))
                          in if r \<noteq> 0 then Some (-1, mm2, s1)
                             else Some (int fr,
                               (evict mm2 i j fr)\<lparr>clock_pointer := (fr + 1) mod frame_count mm2\<rparr>, s1))))
        | (Some idx, mm1) \<Rightarrow> Some (int idx, mm1, s)) = Some res"
      and io': "io' = io" and i: "inv mm s" and c: "clock_pointer mm < frame_count mm"
    show "victim_ok mm s (fst res) (fst (snd res)) (snd (snd res))"
    proof (cases "fst (clockm_pass1 (frame_count mm) mm)")
      case (Some idx)
      then obtain mm1 where p1: "clockm_pass1 (frame_count mm) mm = (Some idx, mm1)" by (metis prod.collapse)
      with body have "res = (int idx, mm1, s)" by simp
      then show ?thesis using clockm_pass1_ok [OF i c p1] by simp
    next
      case None
      then obtain mm1 where p1: "clockm_pass1 (frame_count mm) mm = (None, mm1)" by (metis prod.collapse)
      obtain cand mm2 where p2: "clockm_pass2 (frame_count mm1) mm1 None = (cand, mm2)" by (metis surj_pair)
      note b = clockm_body_ok [OF i c p1 p2]
      show ?thesis
      proof (cases cand)
        case None
        with body p1 p2 have "loop io' mm2 s = Some res" by simp
        with IH [OF this] io' b(2,3) show ?thesis by (intro victim_ok_eqv [OF i b(1)]) simp
      next
        case (Some t)
        obtain fr a j where t: "t = (fr, a, j)" by (cases t)
        obtain rw s1 where w: "io_write io s (e_file (mm_entries mm2 ! a)) (e_tag (mm_entries mm2 ! a)) j
            (region (fr * mm_page_size mm2) (mm_page_size mm2) (physical_memory mm2)) = (rw, s1)"
          by (metis surj_pair)
        have "fr < frame_count mm2" using b(4) Some t by (auto simp: candidate_ok_def)
        with body io' p1 p2 Some t w have "res = (if rw \<noteq> 0 then (-1, mm2, s1) else
            (int fr, (evict mm2 a j fr)\<lparr>clock_pointer := (fr + 1) mod frame_count mm2\<rparr>, s1))"
          by (auto simp: mm_get_frame_address_def Let_def split: if_splits)
        with clockm_write_ok [OF b(2) b(4) [unfolded Some t] w] show ?thesis
          by (intro victim_ok_eqv [OF i b(1)]) (auto split: if_splits)
      qed
    qed
  qed
  with assms show ?thesis by fastforce
qed

end


subsection \<open>When the CLOCK-M search returns\<close>

lemma pass1_finds:
  assumes ok: "mm_ok mm" and c: "clock_pointer mm < frame_count mm" and ij: "slot mm i j"
    and pr: "present (page_at mm i j)" and cu: "clean_unused mm i j"
  shows "\<exists>idx mm'. clockm_pass1 (frame_count mm) mm = (Some idx, mm')"
proof (rule ccontr)
  assume "\<not> ?thesis"
  then obtain mm' where n: "clockm_pass1 (frame_count mm) mm = (None, mm')"
    by (metis option.exhaust surj_pair)
  let ?fr = "frame (page_at mm i j)"
  note fr = mm_okD(7,8) [OF ok ij pr]
  obtain t where t: "t < frame_count mm" "hand mm t = ?fr" using hand_cover [OF c fr(1)] by blast
  obtain i' j' where m: "mm_find_page_for_frame mm ?fr = Some (i', j')"
    using find_page_for_frame_None [OF _ ij pr] by (cases "mm_find_page_for_frame mm ?fr") auto
  note f = find_page_for_frame_Some [OF m]
  have "i' = i \<and> j' = j" using mm_okD(9) [OF ok f(1) ij f(2) pr f(3)] .
  with clockm_pass1_None(2) [OF n c t(1)] t(2) m fr(2) cu show False by auto
qed

lemma pass2_finds:
  assumes ok: "mm_ok mm" and c: "clock_pointer mm < frame_count mm" and ij: "slot mm i j"
    and pr: "present (page_at mm i j)" and "\<not> use_bit (page_at mm i j)" and "dirty (page_at mm i j)"
    and p2: "clockm_pass2 (frame_count mm) mm None = (cand, mm')"
  shows "cand \<noteq> None"
proof -
  let ?fr = "frame (page_at mm i j)"
  note fr = mm_okD(7,8) [OF ok ij pr]
  obtain t where t: "t < frame_count mm" "hand mm t = ?fr" using hand_cover [OF c fr(1)] by blast
  obtain i' j' where m: "mm_find_page_for_frame mm ?fr = Some (i', j')"
    using find_page_for_frame_None [OF _ ij pr] by (cases "mm_find_page_for_frame mm ?fr") auto
  note f = find_page_for_frame_Some [OF m]
  have "i' = i \<and> j' = j" using mm_okD(9) [OF ok f(1) ij f(2) pr f(3)] .
  with clockm_pass2_spec [OF p2 ok c] t m fr(2) assms(5,6) show ?thesis by (auto simp: candidate_ok_def)
qed

lemma pass2_clears:
  assumes ok: "mm_ok mm" and c: "clock_pointer mm < frame_count mm" and ij: "slot mm i j"
    and pr: "present (page_at mm i j)" and p2: "clockm_pass2 (frame_count mm) mm None = (cand, mm')"
  shows "\<not> use_bit (page_at mm' i j)"
proof -
  let ?fr = "frame (page_at mm i j)"
  note fr = mm_okD(7,8) [OF ok ij pr]
  obtain t where t: "t < frame_count mm" "hand mm t = ?fr" using hand_cover [OF c fr(1)] by blast
  obtain i' j' where m: "mm_find_page_for_frame mm ?fr = Some (i', j')"
    using find_page_for_frame_None [OF _ ij pr] by (cases "mm_find_page_for_frame mm ?fr") auto
  note f = find_page_for_frame_Some [OF m]
  have "i' = i \<and> j' = j" using mm_okD(9) [OF ok f(1) ij f(2) pr f(3)] .
  with clockm_pass2_spec [OF p2 ok c] t m fr(2) show ?thesis by (auto simp: candidate_ok_def)
qed

lemma clockm_loop_cand:
  assumes "clockm_pass1 (frame_count mm) mm = (None, mm1)"
    and "clockm_pass2 (frame_count mm1) mm1 None = (Some t, mm2)"
  shows "clockm_loop io mm s \<noteq> None"
  using assms by (cases t) (simp add: clockm_loop.simps Let_def split: option.split prod.split)

lemma clockm_loop_next:
  assumes "clockm_pass1 (frame_count mm) mm = (None, mm1)"
    and "clockm_pass2 (frame_count mm1) mm1 None = (None, mm2)"
  shows "clockm_loop io mm s = clockm_loop io mm2 s"
  using assms by (simp add: clockm_loop.simps [of io mm s])

lemma clockm_loop_first:
  assumes "clockm_pass1 (frame_count mm) mm = (Some idx, mm1)"
  shows "clockm_loop io mm s = Some (int idx, mm1, s)"
  using assms by (simp add: clockm_loop.simps [of io mm s])

text \<open>If a page is unused (U=0), the first round finds a victim.\<close>

lemma clockm_unused_returns:
  assumes ok: "mm_ok mm" and c: "clock_pointer mm < frame_count mm" and ij: "slot mm i j"
    and pr: "present (page_at mm i j)" and u: "\<not> use_bit (page_at mm i j)"
  shows "clockm_loop io mm s \<noteq> None"
proof (cases "clockm_pass1 (frame_count mm) mm")
  case (Pair o1 mm1)
  show ?thesis
  proof (cases o1)
    case (Some idx)
    with Pair show ?thesis by (simp add: clockm_loop_first)
  next
    case None
    then have p1: "clockm_pass1 (frame_count mm) mm = (None, mm1)" using Pair by simp
    obtain x where x: "x < frame_count mm" "mm1 = mm\<lparr>clock_pointer := x\<rparr>"
      using clockm_pass1_None(1) [OF p1 c] by blast
    have d: "dirty (page_at mm i j)"
      using pass1_finds [OF ok c ij pr] p1 u by (auto simp: clean_unused_def)
    obtain cand mm2 where p2: "clockm_pass2 (frame_count mm1) mm1 None = (cand, mm2)" by (metis surj_pair)
    have "cand \<noteq> None"
      using pass2_finds [of mm1 i j cand mm2] mm_eqv_ok [OF mm_eqv_clock ok, of x] x ij pr u d p2 by simp
    then obtain t where "cand = Some t" by blast
    with p2 have "clockm_pass2 (frame_count mm1) mm1 None = (Some t, mm2)" by simp
    then show ?thesis by (rule clockm_loop_cand [OF p1])
  qed
qed

text \<open>Otherwise the first round clears every U and the second one finds a victim.\<close>

lemma clockm_mapped_returns:
  assumes ok: "mm_ok mm" and c: "clock_pointer mm < frame_count mm" and ij: "slot mm i j"
    and pr: "present (page_at mm i j)"
  shows "clockm_loop io mm s \<noteq> None"
proof (cases "clockm_pass1 (frame_count mm) mm")
  case (Pair o1 mm1)
  show ?thesis
  proof (cases o1)
    case (Some idx)
    with Pair show ?thesis by (simp add: clockm_loop_first)
  next
    case None
    then have p1: "clockm_pass1 (frame_count mm) mm = (None, mm1)" using Pair by simp
    obtain x where x: "x < frame_count mm" "mm1 = mm\<lparr>clock_pointer := x\<rparr>"
      using clockm_pass1_None(1) [OF p1 c] by blast
    have e1: "mm_eqv mm mm1" using x by (simp add: mm_eqv_clock)
    note ok1 = mm_eqv_ok [OF e1 ok]
    have c1: "clock_pointer mm1 < frame_count mm1" "slot mm1 i j" "present (page_at mm1 i j)"
      using x ij pr by simp_all
    obtain cand mm2 where p2: "clockm_pass2 (frame_count mm1) mm1 None = (cand, mm2)" by (metis surj_pair)
    show ?thesis
    proof (cases cand)
      case (Some t)
      with p2 have "clockm_pass2 (frame_count mm1) mm1 None = (Some t, mm2)" by simp
      then show ?thesis by (rule clockm_loop_cand [OF p1])
    next
      case None
      have e2: "mm_eqv mm1 mm2" "clock_pointer mm2 < frame_count mm1"
        using clockm_pass2_spec [OF p2 ok1 c1(1)] by (auto simp: candidate_ok_def)
      have "clockm_loop io mm2 s \<noteq> None"
      proof (rule clockm_unused_returns)
        show "mm_ok mm2" by (rule mm_eqv_ok [OF e2(1) ok1])
        show "clock_pointer mm2 < frame_count mm2" using e2 mm_eqvD(3) [OF e2(1)] by simp
        show "slot mm2 i j" using mm_eqv_slot [OF e2(1)] c1 by simp
        show "present (page_at mm2 i j)" using mm_eqv_page(1) [OF e2(1) ok1 c1(2)] c1 by simp
        show "\<not> use_bit (page_at mm2 i j)" by (rule pass2_clears [OF ok1 c1 p2])
      qed
      with clockm_loop_next [OF p1, of mm2 io s] p2 None show ?thesis by simp
    qed
  qed
qed

text \<open>With no page in any frame, a round changes nothing but the hand.\<close>

lemma pass1_nothing:
  assumes "\<And>fr. mm_find_page_for_frame mm fr = None"
  shows "\<exists>c. clockm_pass1 k mm = (None, mm\<lparr>clock_pointer := c\<rparr>)"
  using assms
proof (induction k arbitrary: mm)
  case 0
  then show ?case by (auto intro!: exI [of _ "clock_pointer mm"])
next
  case (Suc k)
  from Suc.IH [of "mm\<lparr>clock_pointer := (clock_pointer mm + 1) mod frame_count mm\<rparr>"] Suc.prems
  show ?case by (auto simp: Let_def)
qed

lemma pass2_nothing:
  assumes "\<And>fr. mm_find_page_for_frame mm fr = None"
  shows "\<exists>c. clockm_pass2 k mm None = (None, mm\<lparr>clock_pointer := c\<rparr>)"
  using assms
proof (induction k arbitrary: mm)
  case 0
  then show ?case by (auto intro!: exI [of _ "clock_pointer mm"])
next
  case (Suc k)
  from Suc.IH [of "mm\<lparr>clock_pointer := (clock_pointer mm + 1) mod frame_count mm\<rparr>"] Suc.prems
  show ?case by (auto simp: clockm_pass2.simps Let_def)
qed

lemma clockm_diverges:
  assumes "\<And>fr. mm_find_page_for_frame mm fr = None"
  shows "clockm_loop io mm s = None"
proof (rule ccontr)
  assume "clockm_loop io mm s \<noteq> None"
  then obtain y where y: "clockm_loop io mm s = Some y" by blast
  let ?P = "\<lambda>(io :: 'a store_io) mm (s :: 'a) (y :: int \<times> memory_manager_t \<times> 'a).
    \<not> (\<forall>fr. mm_find_page_for_frame mm fr = None)"
  have "?P io mm s y"
  proof (rule clockm_loop.raw_induct [where P = ?P, OF _ y], rule notI)
    fix loop :: "'a store_io \<Rightarrow> memory_manager_t \<Rightarrow> 'a \<Rightarrow> (int \<times> memory_manager_t \<times> 'a) option"
      and io mm s res
    assume IH: "\<And>io mm s res. loop io mm s = Some res \<Longrightarrow> \<not> (\<forall>fr. mm_find_page_for_frame mm fr = None)"
      and body: "(case clockm_pass1 (frame_count mm) mm of
          (None, mm1) \<Rightarrow>
            (case clockm_pass2 (frame_count mm1) mm1 None of
               (None, mm2) \<Rightarrow> loop io mm2 s
             | (Some (fr, i, j), mm2) \<Rightarrow>
                 (let entry = mm_entries mm2 ! i
                  in case mm_get_frame_address mm2 fr of
                       None \<Rightarrow> Some (-1, mm2, s)
                     | Some addr \<Rightarrow>
                         (let (r, s1) = io_write io s (e_file entry) (e_tag entry) j
                                (region addr (mm_page_size mm2) (physical_memory mm2))
                          in if r \<noteq> 0 then Some (-1, mm2, s1)
                             else Some (int fr,
                               (evict mm2 i j fr)\<lparr>clock_pointer := (fr + 1) mod frame_count mm2\<rparr>, s1))))
        | (Some idx, mm1) \<Rightarrow> Some (int idx, mm1, s)) = Some res"
      and none: "\<forall>fr. mm_find_page_for_frame mm fr = None"
    obtain c1 where p1: "clockm_pass1 (frame_count mm) mm = (None, mm\<lparr>clock_pointer := c1\<rparr>)"
      using pass1_nothing [of mm "frame_count mm"] none by blast
    obtain c2 where p2: "clockm_pass2 (frame_count mm) (mm\<lparr>clock_pointer := c1\<rparr>) None =
        (None, mm\<lparr>clock_pointer := c2\<rparr>)"
      using pass2_nothing [of "mm\<lparr>clock_pointer := c1\<rparr>" "frame_count mm"] none by auto
    from body p1 p2 have "loop io (mm\<lparr>clock_pointer := c2\<rparr>) s = Some res" by simp
    from IH [OF this] none show False by simp
  qed
  with assms show False by blast
qed


end
