(* ===== verification/Memory_Access.thy ===== *)
theory Memory_Access
  imports Worker_Memory
begin

text \<open>
  Frame allocation, page faults and the memory accesses of a query, over any store that meets
  \<open>block_store\<close>.
\<close>

subsection \<open>Frames that are used but hold no page\<close>

text \<open>At most the frame \<open>x\<close> is used without holding a page.\<close>

definition leak_but :: "memory_manager_t \<Rightarrow> nat \<Rightarrow> bool" where
  "leak_but mm x \<longleftrightarrow> (\<forall>fr < frame_count mm. frames mm ! fr \<longrightarrow> fr = x \<or> mapped mm fr)"

lemma no_leak_mapped: "no_leak mm \<longleftrightarrow> (\<forall>fr < frame_count mm. frames mm ! fr \<longrightarrow> mapped mm fr)"
  by (simp add: no_leak_def mapped_def)

lemma no_leak_evict:
  assumes ok: "mm_ok mm" and ij: "slot mm i j" and pr: "present (page_at mm i j)"
    and fr: "frame (page_at mm i j) = fr" and nl: "no_leak mm"
  shows "no_leak (evict mm i j fr)"
  unfolding no_leak_mapped
proof (intro allI impI)
  note e = evict_fields [OF ok ij]
  fix x assume x: "x < frame_count (evict mm i j fr)" "frames (evict mm i j fr) ! x"
  have len: "length (frames mm) = frame_count mm" "frame_count (evict mm i j fr) = frame_count mm"
    using mm_okD(2) [OF ok] same_shapeD(3) [OF e(6)] by simp_all
  with x have "x \<noteq> fr" "frames mm ! x" "x < frame_count mm" by (auto simp: e(4) nth_upd split: if_splits)
  with nl obtain i' j' where m: "slot mm i' j'" "present (page_at mm i' j')" "frame (page_at mm i' j') = x"
    by (auto simp: no_leak_mapped mapped_def)
  with \<open>x \<noteq> fr\<close> fr have "page_at (evict mm i j fr) i' j' = page_at mm i' j'" by (auto simp: e(3) [OF m(1)])
  with m show "mapped (evict mm i j fr) x" unfolding mapped_def e(1) by metis
qed

lemma no_leak_victim:
  assumes ok: "mm_ok mm" and nl: "no_leak mm" and v: "victim_form mm v mm'"
  shows "no_leak mm'"
  using v unfolding victim_form_def
proof (elim disjE conjE exE)
  assume "mm_eqv mm mm'"
  then show ?thesis by (rule mm_eqv_no_leak [OF _ ok nl])
next
  fix mm0 i j fr
  assume e: "mm_eqv mm mm0" and p: "slot mm0 i j" "present (page_at mm0 i j)" "frame (page_at mm0 i j) = fr"
    and e': "mm_eqv (evict mm0 i j fr) mm'"
  note ok0 = mm_eqv_ok [OF e ok]
  show ?thesis
    by (rule mm_eqv_no_leak [OF e' evict_ok(1) [OF ok0 p] no_leak_evict [OF ok0 p mm_eqv_no_leak [OF e ok nl]]])
qed

lemma no_leak_take:
  "no_leak mm \<Longrightarrow> leak_but (mm\<lparr>frames := (frames mm)[fr := True]\<rparr>) fr"
  by (auto simp: leak_but_def no_leak_mapped mapped_def nth_upd split: if_splits)

lemma leak_but_free: "length (frames mm) = frame_count mm \<Longrightarrow> leak_but mm fr \<Longrightarrow> no_leak (snd (mm_free_frame mm fr))"
  by (auto simp: leak_but_def no_leak_mapped mapped_def mm_free_frame_def nth_upd split: if_splits)

context block_store
begin

lemma silent_frames:
  assumes "inv mm s" and "v \<or> \<not> mapped mm fr"
  shows "silent mm s (mm\<lparr>frames := (frames mm)[fr := v]\<rparr>) s"
proof -
  note v = free_view [OF invD(1) [OF assms(1)] assms(2)]
  show ?thesis
    by (rule silentI [OF assms(1) v(1,5)]) (simp_all only: v(2,3) invD(2,3) [OF assms(1)])
qed

lemma silent_free_frame:
  assumes "inv mm s" and "\<not> mapped mm fr"
  shows "silent mm s (snd (mm_free_frame mm fr)) s"
  using silent_frames [OF assms(1), of False fr] silent_refl [OF assms(1)] assms(2)
  by (simp add: mm_free_frame_def)

definition alloc_ok :: "memory_manager_t \<Rightarrow> 's \<Rightarrow> int \<Rightarrow> memory_manager_t \<Rightarrow> 's \<Rightarrow> bool" where
  "alloc_ok mm s r mm' s' \<longleftrightarrow> silent mm s mm' s' \<and>
     (\<forall>f t b. cached mm f t b = None \<longrightarrow> cached mm' f t b = None) \<and>
     (r = -1 \<or> (\<exists>fr < frame_count mm. r = int fr \<and> \<not> mapped mm' fr \<and> frames mm' ! fr)) \<and>
     (no_leak mm \<longrightarrow> (if r = -1 then no_leak mm' else leak_but mm' (nat r)))"

lemma allocate_ok:
  assumes i: "inv mm s" and a: "mm_allocate_frame io mm s = Some (r, mm', s')"
  shows "alloc_ok mm s r mm' s'"
proof (cases "find (\<lambda>i. \<not> frames mm ! i) [0..<frame_count mm]")
  case (Some fr)
  note ok = invD(1) [OF i]
  from find_upt_Some [OF Some] have fr: "fr < frame_count mm" "\<not> frames mm ! fr" by auto
  have nm: "\<not> mapped mm fr" using mm_okD(8) [OF ok] fr(2) by (auto simp: mapped_def)
  have "r = int fr" "mm' = mm\<lparr>frames := (frames mm)[fr := True]\<rparr>" "s' = s" using a Some by (auto simp: mm_allocate_frame_def)
  then show ?thesis
    using silent_frames [OF i, of True fr] fr nm mm_okD(2) [OF ok] no_leak_take [of mm fr]
    by (simp add: alloc_ok_def mapped_def)
next
  case None
  obtain v mm1 s1 where v: "(case policy mm of LRU \<Rightarrow> Some (mm_find_lru_victim io mm s)
      | CLOCK_M \<Rightarrow> mm_find_clockm_victim io mm s) = Some (v, mm1, s1)"
    and res: "(r, mm', s') = (if v \<noteq> -1 then (v, mm1\<lparr>frames := (frames mm1)[nat v := True]\<rparr>, s1) else (-1, mm1, s1))"
    using a None by (auto simp: mm_allocate_frame_def split: option.splits if_splits prod.splits)
  have vok: "victim_ok mm s v mm1 s1"
  proof (cases "policy mm")
    case LRU
    then show ?thesis using v by (intro lru_victim_ok [OF i]) simp
  next
    case CLOCK_M
    with v mm_okD(4) [OF invD(1) [OF i]] show ?thesis
      using i by (auto simp: mm_find_clockm_victim_def intro: victim_ok_fail clockm_loop_ok split: if_splits)
  qed
  then have s1: "silent mm s mm1 s1" and nl: "no_leak mm \<longrightarrow> no_leak mm1"
    using no_leak_victim [OF invD(1) [OF i]] by (auto simp: victim_ok_def)
  show ?thesis
  proof (cases "v = -1")
    case True
    with res vok nl show ?thesis by (simp add: alloc_ok_def victim_ok_def)
  next
    case False
    with vok obtain fr where fr: "fr < frame_count mm" "v = int fr" "\<not> mapped mm1 fr"
      by (auto simp: victim_ok_def)
    have len: "fr < length (frames mm1)"
      using mm_okD(2) [OF invD(1) [OF silentD(1) [OF s1]]] same_shapeD(3) [OF silentD(2) [OF s1]] fr(1) by simp
    have "silent mm s (mm1\<lparr>frames := (frames mm1)[fr := True]\<rparr>) s1"
      using silent_trans [OF s1 silent_frames [OF silentD(1) [OF s1], of True fr]] by simp
    with res False fr vok len nl no_leak_take [of mm1 fr] show ?thesis
      by (simp add: alloc_ok_def victim_ok_def mapped_def)
  qed
qed

lemma ensure_page_ok:
  assumes i: "inv mm s" and a: "a < length (mm_entries mm)"
  shows "fst (ensure_page mm a n) = 0" and "silent mm s (snd (ensure_page mm a n)) s"
    and "slot (snd (ensure_page mm a n)) a n"
    and "key_at mm a = (f, t) \<Longrightarrow> cached (snd (ensure_page mm a n)) f t n = None \<longleftrightarrow>
      \<not> present (page_at (snd (ensure_page mm a n)) a n)"
    and "slot mm a n \<Longrightarrow> ensure_page mm a n = (0, mm)"
    and "\<not> slot mm a n \<Longrightarrow> \<not> present (page_at (snd (ensure_page mm a n)) a n)"
    and "no_leak (snd (ensure_page mm a n)) = no_leak mm"
proof -
  note ok = invD(1) [OF i]
  have grow: "ensure_page mm a n = (0, set_pt mm a (snd (pt_resize (mm_pt mm a) (Suc n))))"
    if "n \<ge> page_count (mm_pt mm a)"
    using that by (auto simp: ensure_page_def pt_resize_def)
  have stay: "ensure_page mm a n = (0, mm)" if "\<not> n \<ge> page_count (mm_pt mm a)"
    using that by (simp add: ensure_page_def)
  show "slot mm a n \<Longrightarrow> ensure_page mm a n = (0, mm)" using stay by (simp add: slot_def)
  show "fst (ensure_page mm a n) = 0" using grow stay by (cases "n \<ge> page_count (mm_pt mm a)") auto
  show sil: "silent mm s (snd (ensure_page mm a n)) s"
  proof (cases "n \<ge> page_count (mm_pt mm a)")
    case True
    note rv = resize_view [OF ok a True]
    have "silent mm s (set_pt mm a (snd (pt_resize (mm_pt mm a) (Suc n)))) s"
      by (rule silentI [OF i rv(1,2)]) (simp_all only: rv(4,5) invD(2,3) [OF i])
    then show ?thesis using grow [OF True] by simp
  next
    case False
    then show ?thesis using stay silent_refl [OF i] by simp
  qed
  show sl: "slot (snd (ensure_page mm a n)) a n"
  proof (cases "n \<ge> page_count (mm_pt mm a)")
    case True
    then show ?thesis using resize_view(3) [OF ok a True] grow by simp
  next
    case False
    then show ?thesis using stay a by (simp add: slot_def)
  qed
  show "cached (snd (ensure_page mm a n)) f t n = None \<longleftrightarrow> \<not> present (page_at (snd (ensure_page mm a n)) a n)"
    if k: "key_at mm a = (f, t)"
  proof -
    have "mm_find_page_table (snd (ensure_page mm a n)) f t = Some a"
      using mm_find_page_table_eq [OF invD(1) [OF silentD(1) [OF sil]], of f t a] a k same_shapeD(1,7) [OF silentD(2) [OF sil]]
      by simp
    then show ?thesis using sl by (auto simp: cached_def slot_def)
  qed
  show "\<not> present (page_at (snd (ensure_page mm a n)) a n)" if ns: "\<not> slot mm a n"
  proof -
    have n: "n \<ge> page_count (mm_pt mm a)" using ns a by (simp add: slot_def)
    show ?thesis
      using n pt_okD(1) [OF mm_okD(6) [OF ok a]]
      by (simp add: grow page_at_def mm_pt_set_pt a pt_resize_def nth_append blank_entry_def del: upt_Suc)
  qed
  show "no_leak (snd (ensure_page mm a n)) = no_leak mm"
  proof (cases "n \<ge> page_count (mm_pt mm a)")
    case True
    then show ?thesis using resize_view(6) [OF ok a True] grow by (simp add: no_leak_mapped)
  next
    case False
    then show ?thesis using stay by simp
  qed
qed

text \<open>Loading a page into a free frame: fill the frame, map the page, note the access.\<close>

lemma load_ok:
  assumes i: "inv mm s" and sl: "slot mm a n" and k: "key_at mm a = (f, t)" and ab: "cached mm f t n = None"
    and fr: "fr < frame_count mm" "\<not> mapped mm fr" "frames mm ! fr" and d: "content s f t n = Some d"
  defines "mm2 \<equiv> mm\<lparr>physical_memory := store_at (fr * mm_page_size mm) d (physical_memory mm)\<rparr>"
  shows "fst (pt_map (mm_pt mm2 a) n fr) = 0"
    and "silent mm s (mm_update_page_access (set_pt mm2 a (snd (pt_map (mm_pt mm2 a) n fr))) a n) s"
    and "slot (mm_update_page_access (set_pt mm2 a (snd (pt_map (mm_pt mm2 a) n fr))) a n) a n"
    and "present (page_at (mm_update_page_access (set_pt mm2 a (snd (pt_map (mm_pt mm2 a) n fr))) a n) a n)"
    and "leak_but mm fr \<Longrightarrow>
      no_leak (mm_update_page_access (set_pt mm2 a (snd (pt_map (mm_pt mm2 a) n fr))) a n)"
proof -
  note ok = invD(1) [OF i]
  have len: "length d = mm_page_size mm" using content_size [OF invD(3) [OF i] d] invD(4) [OF i] by simp
  note fv = fill_view [OF ok fr(1,2) len, folded mm2_def]
  have s2: "silent mm s mm2 s"
    by (rule silentI [OF i fv(1,2) fv(4) [OF invD(2) [OF i]] invD(3) [OF i] fv(3)])
  have sl2: "slot mm2 a n" and k2: "key_at mm2 a = (f, t)" using sl k by (simp_all add: mm2_def)
  have ab2: "\<not> present (page_at mm2 a n)"
    using ab k sl cached_Some_iff [OF ok, of f t n] by (auto simp: mm2_def)
  let ?g = "\<lambda>e. e\<lparr>frame := fr, present := True, dirty := False\<rparr>"
  have map: "pt_map (mm_pt mm2 a) n fr = (0, pt_update (mm_pt mm2 a) n ?g)"
    using sl2 by (simp add: pt_map_def pt_get_entry_def slot_def)
  then show "fst (pt_map (mm_pt mm2 a) n fr) = 0" by simp
  let ?m3 = "upd_page mm2 a n ?g"
  have fr2: "fr < frame_count mm2" "frames mm2 ! fr" "\<not> mapped mm2 fr"
    using fr fv(5) by (simp_all add: mm2_def)
  have c2: "content s (fst (key_at mm2 a)) (snd (key_at mm2 a)) n = Some (frame_bytes mm2 fr)"
    using d fv(6) k2 by simp
  note mv = map_view [where content = content and s = s, OF fv(1) sl2 ab2 fr2 c2, where g = ?g]
  have s3: "silent mm2 s ?m3 s"
    using silentD(1) [OF s2] by (intro silentI mv) (auto dest: invD)
  have sl3: "slot ?m3 a n" "present (page_at ?m3 a n)"
    using sl2 by (simp_all add: page_at_upd_page [OF fv(1) sl2 sl2])
  have e4: "mm_eqv ?m3 (mm_update_page_access ?m3 a n)"
    by (rule mm_eqv_update_page_access [OF slotD(1) [OF sl3(1)]])
  have s4: "silent ?m3 s (mm_update_page_access ?m3 a n) s" by (rule silent_eqv [OF silentD(1) [OF s3] e4])
  show "silent mm s (mm_update_page_access (set_pt mm2 a (snd (pt_map (mm_pt mm2 a) n fr))) a n) s"
    using silent_trans [OF s2 silent_trans [OF s3 s4]] map by simp
  show "slot (mm_update_page_access (set_pt mm2 a (snd (pt_map (mm_pt mm2 a) n fr))) a n) a n"
    "present (page_at (mm_update_page_access (set_pt mm2 a (snd (pt_map (mm_pt mm2 a) n fr))) a n) a n)"
    using mm_eqv_slot [OF e4] mm_eqv_page(1) [OF e4 invD(1) [OF silentD(1) [OF s3]] sl3(1)] sl3 map by simp_all
  assume lb: "leak_but mm fr"
  have mp: "mapped ?m3 x" if x: "x = fr \<or> mapped mm x" for x
  proof (cases "x = fr")
    case True
    with sl3 show ?thesis
      unfolding mapped_def by (intro exI [of _ a] exI [of _ n]) (simp add: page_at_upd_page [OF fv(1) sl2 sl2])
  next
    case False
    with x obtain i' j' where m: "slot mm2 i' j'" "present (page_at mm2 i' j')" "frame (page_at mm2 i' j') = x"
      by (auto simp: mapped_def mm2_def)
    with ab2 have "page_at ?m3 i' j' = page_at mm2 i' j'" by (auto simp: page_at_upd_page [OF fv(1) sl2 m(1)])
    with m show ?thesis unfolding mapped_def by (intro exI [of _ i'] exI [of _ j']) simp
  qed
  have "no_leak ?m3"
    using lb mp by (auto simp: no_leak_mapped leak_but_def mm2_def)
  from mm_eqv_no_leak [OF e4 invD(1) [OF silentD(1) [OF s3]] this] map
  show "no_leak (mm_update_page_access (set_pt mm2 a (snd (pt_map (mm_pt mm2 a) n fr))) a n)" by simp
qed

text \<open>A fault that succeeds leaves the page present; any fault is invisible.\<close>

lemma fault_ok:
  assumes i: "inv mm s" and a: "a < length (mm_entries mm)" and k: "key_at mm a = (f, t)"
    and ab: "slot mm a n \<Longrightarrow> \<not> present (page_at mm a n)"
    and res: "mm_handle_page_fault io mm s a f t n = Some (r, mm', s')"
  shows "silent mm s mm' s' \<and> (r = 0 \<longrightarrow> slot mm' a n \<and> present (page_at mm' a n)) \<and>
    (no_leak mm \<longrightarrow> no_leak mm')"
proof -
  define mm0 where "mm0 = snd (ensure_page mm a n)"
  note e = ensure_page_ok [OF i a, where n = n, folded mm0_def]
  have ens: "ensure_page mm a n = (0, mm0)" using e(1) by (simp add: mm0_def prod_eq_iff)
  have ab0: "cached mm0 f t n = None"
    using e(4) [OF k] e(5,6) ab ens by (cases "slot mm a n") auto
  note i0 = silentD(1) [OF e(2)] and sh0 = same_shapeD [OF silentD(2) [OF e(2)]]
  show ?thesis
  proof (cases "storage_socket mm0 = -1 \<or> mm_worker_id mm0 = -1")
    case True
    then have "r = -1" "mm' = mm0" "s' = s" using res ens by (auto simp: mm_handle_page_fault_def)
    then show ?thesis using e(2,7) by simp
  next
    case False
    then obtain v mm1 s1 where al: "mm_allocate_frame io mm0 s = Some (v, mm1, s1)"
      using res ens by (cases "mm_allocate_frame io mm0 s") (auto simp: mm_handle_page_fault_def)
    note ao = allocate_ok [OF i0 al]
    have s1: "silent mm s mm1 s1" using ao silent_trans [OF e(2)] by (simp add: alloc_ok_def)
    note i1 = silentD(1) [OF s1] and sh1 = same_shapeD [OF silentD(2) [OF s1]]
    show ?thesis
    proof (cases "v = -1")
      case v: True
      then have "r = -1" "mm' = mm1" "s' = s1" using res ens al False by (auto simp: mm_handle_page_fault_def)
      then show ?thesis using s1 ao v e(7) by (simp add: alloc_ok_def)
    next
      case v: False
      with ao obtain fr where fr: "fr < frame_count mm1" "v = int fr" "\<not> mapped mm1 fr" "frames mm1 ! fr"
        using sh0(3) sh1(3) by (auto simp: alloc_ok_def)
      have addr: "mm_get_frame_address mm1 fr = Some (fr * mm_page_size mm1)"
        using fr(1) by (simp add: mm_get_frame_address_def)
      have lb: "no_leak mm \<longrightarrow> leak_but mm1 fr" using ao v fr(2) e(7) by (simp add: alloc_ok_def)
      obtain rr d s2 where rd: "io_read io s1 f t n = ((rr, d), s2)" by (metis surj_pair)
      note rb = read_block [OF invD(3) [OF i1] rd]
      have i2: "inv mm1 s2" using i1 rb by (simp add: inv_def coherent_def)
      have "vcontent content mm1 s2 f' t' b = vcontent content mm1 s1 f' t' b" for f' t' b
        using rb by (simp add: vcontent_def split: option.split)
      then have s2: "silent mm s mm1 s2" using s1 i2 by (simp add: silent_def)
      show ?thesis
      proof (cases "rr = 0")
        case False
        with rb res ens al \<open>\<not> (storage_socket mm0 = -1 \<or> mm_worker_id mm0 = -1)\<close> v fr(2) addr rd
        have "r = -1" "mm' = snd (mm_free_frame mm1 fr)" "s' = s2" by (auto simp: mm_handle_page_fault_def)
        then show ?thesis
          using silent_trans [OF s2 silent_free_frame [OF i2 fr(3)]] lb leak_but_free [OF mm_okD(2) [OF invD(1) [OF i2]]]
          by simp
      next
        case z: True
        with rb have d: "content s2 f t n = Some d" by simp
        have ld: "length d = mm_page_size mm1" using content_size [OF invD(3) [OF i2] d] invD(4) [OF i2] by simp
        have dne: "d \<noteq> []" and fill: "fill_frame (mm_page_size mm1) d = d"
          using ld mm_okD(1) [OF invD(1) [OF i2]] by (auto simp: fill_frame_def)
        have sl1: "slot mm1 a n"
          using e(3) same_shapeD(1) [of mm0 mm1] same_shapeD(8) [of mm0 mm1 a] ao slotD(2) [OF e(3)] a sh0(1)
          by (auto simp: alloc_ok_def slot_def silent_def)
        have k1: "key_at mm1 a = (f, t)" using sh1(7) [OF a] k by simp
        have ab1: "cached mm1 f t n = None" using ao ab0 by (simp add: alloc_ok_def)
        note ld = load_ok [OF i2 sl1 k1 ab1 fr(1,3,4) d]
        let ?m2 = "mm1\<lparr>physical_memory := store_at (fr * mm_page_size mm1) d (physical_memory mm1)\<rparr>"
        let ?m3 = "mm_update_page_access (set_pt ?m2 a (snd (pt_map (mm_pt ?m2 a) n fr))) a n"
        have "r = 0 \<and> mm' = ?m3\<lparr>last_victim_valid := False\<rparr> \<and> s' = s2"
          using res ens al False v fr(2) addr rd z dne fill ld(1)
          by (simp add: mm_handle_page_fault_def Let_def split: prod.splits)
        moreover have "mm_eqv ?m3 (?m3\<lparr>last_victim_valid := False\<rparr>)" by (simp add: mm_eqv_def)
        moreover have "no_leak mm \<longrightarrow> no_leak (?m3\<lparr>last_victim_valid := False\<rparr>)"
          using ld(5) lb by (simp add: no_leak_def)
        ultimately show ?thesis
          using silent_trans [OF s2 silent_trans [OF ld(2) silent_eqv [OF silentD(1) [OF ld(2)]]]] ld(3,4)
          by simp
      qed
    qed
  qed
qed

end

subsection \<open>Accesses\<close>

text \<open>Byte \<open>x\<close> lies in the part of page \<open>p\<close> from \<open>off\<close> on, \<open>n\<close> bytes long.\<close>

lemma in_page_range:
  fixes ps :: nat
  assumes "0 < ps" and "off + n \<le> ps"
  shows "p * ps + off \<le> x \<and> x < p * ps + off + n \<longleftrightarrow> x div ps = p \<and> off \<le> x mod ps \<and> x mod ps < off + n"
proof (cases "x div ps = p")
  case True
  then have "x = p * ps + x mod ps" by (metis div_mult_mod_eq)
  with True show ?thesis by linarith
next
  case False
  have x: "x < Suc (x div ps) * ps" "x div ps * ps \<le> x"
    using dividend_less_div_times [OF assms(1), of x] by simp_all
  consider "x div ps < p" | "p < x div ps" using False by linarith
  then show ?thesis
  proof cases
    case 1
    then have "Suc (x div ps) * ps \<le> p * ps" by (intro mult_le_mono1) simp
    with x have "x < p * ps" by linarith
    with False show ?thesis by simp
  next
    case 2
    then have "Suc p * ps \<le> x div ps * ps" by (intro mult_le_mono1) simp
    with x(2) have "p * ps + ps \<le> x" by (metis add.commute mult_Suc order_trans)
    with False assms(2) show ?thesis by simp
  qed
qed

context block_store
begin

lemma vcontent_present:
  assumes i: "inv mm s" and ij: "slot mm a p" and pr: "present (page_at mm a p)" and k: "key_at mm a = (f, t)"
  shows "vcontent content mm s f t p = Some (frame_bytes mm (frame (page_at mm a p)))"
proof -
  have "cached mm f t p = Some (frame (page_at mm a p))"
    using cached_Some_iff [OF invD(1) [OF i]] ij pr k by blast
  then show ?thesis by (simp add: vcontent_def)
qed

lemma silent_vbyte: "silent mm s mm' s' \<Longrightarrow> vbyte content mm' s' f t x = vbyte content mm s f t x"
  using silentD(3) same_shapeD(2) [OF silentD(2)] by (simp add: vbyte_def)

lemma poke_vbyte:
  assumes i: "inv mm s" and ij: "slot mm a p" and pr: "present (page_at mm a p)" and k: "key_at mm a = (f, t)"
    and n: "off + length bs \<le> bsize"
  shows "inv (poke mm a p off bs) s" and "same_shape mm (poke mm a p off bs)"
    and "vbyte content (poke mm a p off bs) s f' t' x =
      (if (f', t') = (f, t) \<and> p * bsize + off \<le> x \<and> x < p * bsize + off + length bs
       then Some (bs ! (x - (p * bsize + off))) else vbyte content mm s f' t' x)"
proof -
  note ok = invD(1) [OF i] and ps = invD(4) [OF i]
  have n': "off + length bs \<le> mm_page_size mm" using n ps by simp
  note wv = write_view [OF ok ij pr n']
  have ps': "mm_page_size (poke mm a p off bs) = bsize" using same_shapeD(2) [OF wv(2)] ps by simp
  show "inv (poke mm a p off bs) s"
    using wv(1) wv(4) [OF invD(2) [OF i]] invD(3) [OF i] ps' by (simp add: inv_def)
  show "same_shape mm (poke mm a p off bs)" by (rule wv(2))
  let ?F = "frame_bytes mm (frame (page_at mm a p))"
  have len: "length ?F = bsize" by (rule frame_bytes_size [OF i mm_okD(7) [OF ok ij pr]])
  have b0: "0 < bsize" using mm_okD(1) [OF ok] ps by simp
  have rng: "p * bsize + off \<le> x \<and> x < p * bsize + off + length bs \<longleftrightarrow>
      x div bsize = p \<and> off \<le> x mod bsize \<and> x mod bsize < off + length bs"
    by (rule in_page_range [OF b0 n])
  show "vbyte content (poke mm a p off bs) s f' t' x =
      (if (f', t') = (f, t) \<and> p * bsize + off \<le> x \<and> x < p * bsize + off + length bs
       then Some (bs ! (x - (p * bsize + off))) else vbyte content mm s f' t' x)"
  proof (cases "(f', t') = (f, t) \<and> x div bsize = p")
    case True
    have "x - (p * bsize + off) = x mod bsize - off"
      using True by (metis diff_diff_left minus_div_mult_eq_mod)
    moreover have "vbyte content (poke mm a p off bs) s f' t' x = Some (store_at off bs ?F ! (x mod bsize))"
      "vbyte content mm s f' t' x = Some (?F ! (x mod bsize))"
      using True wv(3) [where content = content and s = s] k vcontent_present [OF i ij pr k]
      by (simp_all add: vbyte_def ps ps')
    ultimately show ?thesis
      using True rng nth_store_at [of off bs ?F "x mod bsize"] n len b0 by auto
  next
    case False
    with wv(3) [where content = content and s = s] k rng show ?thesis by (auto simp: vbyte_def ps ps')
  qed
qed

lemma access_step:
  assumes i: "inv mm s" and a: "a < length (mm_entries mm)" and k: "key_at mm a = (f, t)"
    and rem: "0 < rem" and off: "off < bsize"
    and res: "access_loop io wr a f t mm s p off rem ptr out = Some (r, out', mm', s')"
  defines "n \<equiv> min (bsize - off) rem"
  obtains (stop) "r = -1" "silent mm s mm' s'" "out' = out" "no_leak mm \<longrightarrow> no_leak mm'"
  | (go) mm2 s1 where "silent mm s mm2 s1" "slot mm2 a p" "present (page_at mm2 a p)"
      "Some (r, out', mm', s') =
         (if wr then access_loop io wr a f t (poke mm2 a p off (take n ptr)) s1 (p + 1) 0 (rem - n) (drop n ptr) out
          else access_loop io wr a f t mm2 s1 (p + 1) 0 (rem - n) ptr
                 (out @ region off n (frame_bytes mm2 (frame (page_at mm2 a p)))))"
      "no_leak mm \<longrightarrow> no_leak mm2"
proof -
  define mm0 where "mm0 = snd (ensure_page mm a p)"
  note e = ensure_page_ok [OF i a, where n = p, folded mm0_def]
  have ens: "ensure_page mm a p = (0, mm0)" using e(1) by (simp add: mm0_def prod_eq_iff)
  note i0 = silentD(1) [OF e(2)] and sh0 = same_shapeD [OF silentD(2) [OF e(2)]]
  have a0: "a < length (mm_entries mm0)" and k0: "key_at mm0 a = (f, t)"
    using a k sh0(1) sh0(7) [OF a] by simp_all
  obtain rf mm1 s1 where f: "(if present (page_at mm0 a p) then Some (0, mm0, s)
      else mm_handle_page_fault io mm0 s a f t p) = Some (rf, mm1, s1)"
    using res rem ens by (subst (asm) access_loop.simps) (auto split: option.splits)
  have fo: "silent mm0 s mm1 s1 \<and> (rf = 0 \<longrightarrow> slot mm1 a p \<and> present (page_at mm1 a p)) \<and>
      (no_leak mm0 \<longrightarrow> no_leak mm1)"
  proof (cases "present (page_at mm0 a p)")
    case True
    with f silent_refl [OF i0] e(3) show ?thesis by auto
  next
    case False
    with f show ?thesis by (intro fault_ok [OF i0 a0 k0]) simp_all
  qed
  have s1: "silent mm s mm1 s1" using silent_trans [OF e(2)] fo by blast
  show ?thesis
  proof (cases "rf = 0")
    case False
    have "r = -1" "mm' = mm1" "s' = s1" "out' = out"
      using res rem ens f False by (auto simp: access_loop.simps [of io wr a f t mm])
    then show ?thesis using stop s1 fo e(7) by simp
  next
    case True
    let ?m = "mm_update_page_access mm1 a p"
    have sl1: "slot mm1 a p" "present (page_at mm1 a p)" using fo True by auto
    have e2: "mm_eqv mm1 ?m" by (rule mm_eqv_update_page_access [OF slotD(1) [OF sl1(1)]])
    note ok1 = invD(1) [OF silentD(1) [OF s1]]
    have s2: "silent mm s ?m s1" by (rule silent_trans [OF s1 silent_eqv [OF silentD(1) [OF s1] e2]])
    have sl2: "slot ?m a p" "present (page_at ?m a p)"
      using sl1 mm_eqv_slot [OF e2] mm_eqv_page(1) [OF e2 ok1 sl1(1)] by simp_all
    note ok2 = invD(1) [OF silentD(1) [OF s2]] and ps2 = invD(4) [OF silentD(1) [OF s2]]
    let ?fr = "frame (page_at ?m a p)"
    note fr = mm_okD(7) [OF ok2 sl2]
    have addr: "mm_get_frame_address ?m ?fr = Some (?fr * bsize)"
      using fr ps2 by (simp add: mm_get_frame_address_def)
    have n0: "n \<noteq> 0" "off + n \<le> bsize" using rem off by (auto simp: n_def)
    let ?m3 = "?m\<lparr>physical_memory := store_at (?fr * bsize + off) (take n ptr) (physical_memory ?m)\<rparr>"
    have pk: "set_pt ?m3 a (pt_set_dirty (mm_pt ?m3 a) p True) = poke ?m a p off (take n ptr)"
      using sl2(1) ps2 by (simp add: poke_def pt_set_dirty_def pt_get_entry_def slot_def)
    have rg: "region (?fr * bsize + off) n (physical_memory ?m) = region off n (frame_bytes ?m ?fr)"
      using n0 by (simp add: frame_bytes_def ps2 region_def drop_take take_take min_absorb1 add.commute)
    show ?thesis
    proof (rule go [OF s2 sl2])
      show "Some (r, out', mm', s') =
         (if wr then access_loop io wr a f t (poke ?m a p off (take n ptr)) s1 (p + 1) 0 (rem - n) (drop n ptr) out
          else access_loop io wr a f t ?m s1 (p + 1) 0 (rem - n) ptr (out @ region off n (frame_bytes ?m ?fr)))"
        using res rem ens f True addr n0 pk rg
        by (simp add: access_loop.simps [of io wr a f t mm] Let_def ps2 n_def [symmetric] split: if_splits)
      show "no_leak mm \<longrightarrow> no_leak ?m" using fo e(7) mm_eqv_no_leak [OF e2 ok1] by simp
    qed
  qed
qed

end


context block_store
begin

lemma read_loop_ok:
  assumes "access_loop io False a f t mm s p off rem ptr out = Some (r, out', mm', s')"
    and "inv mm s" and "a < length (mm_entries mm)" and "key_at mm a = (f, t)" and "off < bsize"
  shows "silent mm s mm' s' \<and> (r = 0 \<longrightarrow> (\<exists>bs. out' = out @ bs \<and> length bs = rem \<and>
    (\<forall>k < rem. vbyte content mm s f t (p * bsize + off + k) = Some (bs ! k))))"
  using assms
proof (induction rem arbitrary: mm s p off ptr out rule: less_induct)
  case (less rem)
  note i = less.prems(2) and a = less.prems(3) and k = less.prems(4) and off = less.prems(5)
  show ?case
  proof (cases "rem = 0")
    case True
    then show ?thesis using less.prems silent_refl [OF i] by (simp add: access_loop.simps)
  next
    case False
    then have rem: "0 < rem" by simp
    define n where "n = min (bsize - off) rem"
    have n: "0 < n" "n \<le> rem" "off + n \<le> bsize" using rem off by (auto simp: n_def)
    from i a k rem off less.prems(1) show ?thesis
    proof (cases rule: access_step)
      case stop
      then show ?thesis by simp
    next
      case (go mm2 s1)
      note i2 = silentD(1) [OF go(1)] and sh = same_shapeD [OF silentD(2) [OF go(1)]]
      have a2: "a < length (mm_entries mm2)" and k2: "key_at mm2 a = (f, t)" using sh(1) sh(7) [OF a] a k by auto
      let ?F = "frame_bytes mm2 (frame (page_at mm2 a p))"
      have IH: "silent mm2 s1 mm' s' \<and> (r = 0 \<longrightarrow> (\<exists>bs. out' = (out @ region off n ?F) @ bs \<and> length bs = rem - n \<and>
          (\<forall>k < rem - n. vbyte content mm2 s1 f t ((p + 1) * bsize + 0 + k) = Some (bs ! k))))"
        using go(4) n off i2 a2 k2 unfolding n_def [symmetric] by (intro less.IH) auto
      have len: "length ?F = bsize" by (rule frame_bytes_size [OF i2 mm_okD(7) [OF invD(1) [OF i2] go(2,3)]])
      have here: "vbyte content mm s f t (p * bsize + off + k) = Some (region off n ?F ! k)" if "k < n" for k
      proof -
        have "(p * bsize + off + k) div bsize = p \<and> (p * bsize + off + k) mod bsize = off + k"
          using that n by (simp add: add.assoc)
        then have "vbyte content mm2 s1 f t (p * bsize + off + k) = Some (?F ! (off + k))"
          using vcontent_present [OF i2 go(2,3) k2] by (simp add: vbyte_def invD(4) [OF i2])
        then show ?thesis
          using silent_vbyte [OF go(1)] that n len by (simp add: nth_region)
      qed
      have "\<exists>bs. out' = out @ bs \<and> length bs = rem \<and>
          (\<forall>k < rem. vbyte content mm s f t (p * bsize + off + k) = Some (bs ! k))" if "r = 0"
      proof -
        from IH that obtain bs where bs: "out' = (out @ region off n ?F) @ bs" "length bs = rem - n"
          "\<forall>k < rem - n. vbyte content mm2 s1 f t ((p + 1) * bsize + k) = Some (bs ! k)" by auto
        have lr: "length (region off n ?F) = n" using n len by (simp add: length_region)
        have "vbyte content mm s f t (p * bsize + off + k) = Some ((region off n ?F @ bs) ! k)" if kr: "k < rem" for k
        proof (cases "k < n")
          case True
          then show ?thesis using here lr by (simp add: nth_append)
        next
          case False
          then have "n = bsize - off" using kr by (auto simp: n_def)
          with False off have "p * bsize + off + k = (p + 1) * bsize + (k - n)" by simp
          moreover have "vbyte content mm2 s1 f t ((p + 1) * bsize + (k - n)) = Some (bs ! (k - n))"
            using bs(3) False kr by (metis diff_less_mono not_less)
          ultimately show ?thesis using False lr silent_vbyte [OF go(1)] by (simp only: nth_append if_False)
        qed
        then show ?thesis using bs lr n by (intro exI [of _ "region off n ?F @ bs"]) simp
      qed
      with IH silent_trans [OF go(1)] show ?thesis by blast
    qed
  qed
qed

definition wrote :: "memory_manager_t \<Rightarrow> 's \<Rightarrow> string \<Rightarrow> string \<Rightarrow> nat \<Rightarrow> bytes \<Rightarrow> int \<Rightarrow>
    memory_manager_t \<Rightarrow> 's \<Rightarrow> bool" where
  "wrote mm s f t base data r mm' s' \<longleftrightarrow> inv mm' s' \<and> same_shape mm mm' \<and>
     (\<forall>f' t' x. vbyte content mm' s' f' t' x = vbyte content mm s f' t' x \<or>
        (f', t') = (f, t) \<and> base \<le> x \<and> x < base + length data \<and>
        vbyte content mm' s' f' t' x = Some (data ! (x - base))) \<and>
     (r = 0 \<longrightarrow> (\<forall>x. base \<le> x \<and> x < base + length data \<longrightarrow> vbyte content mm' s' f t x = Some (data ! (x - base))))"

lemma write_loop_ok:
  assumes "access_loop io True a f t mm s p off rem ptr out = Some (r, out', mm', s')"
    and "inv mm s" and "a < length (mm_entries mm)" and "key_at mm a = (f, t)" and "off < bsize"
    and "length ptr = rem"
  shows "wrote mm s f t (p * bsize + off) ptr r mm' s'"
  using assms
proof (induction rem arbitrary: mm s p off ptr out rule: less_induct)
  case (less rem)
  note i = less.prems(2) and a = less.prems(3) and k = less.prems(4) and off = less.prems(5)
  show ?case
  proof (cases "rem = 0")
    case True
    then show ?thesis using less.prems by (auto simp: access_loop.simps wrote_def)
  next
    case False
    then have rem: "0 < rem" by simp
    define n where "n = min (bsize - off) rem"
    have n: "0 < n" "n \<le> rem" "off + n \<le> bsize" using rem off by (auto simp: n_def)
    from i a k rem off less.prems(1) show ?thesis
    proof (cases rule: access_step)
      case stop
      then show ?thesis using silentD [OF stop(2)] silent_vbyte [OF stop(2)] by (simp add: wrote_def)
    next
      case (go mm2 s1)
      note i2 = silentD(1) [OF go(1)] and sh = same_shapeD [OF silentD(2) [OF go(1)]]
      have a2: "a < length (mm_entries mm2)" and k2: "key_at mm2 a = (f, t)" using sh(1) sh(7) [OF a] a k by auto
      let ?P = "poke mm2 a p off (take n ptr)"
      have ln: "length (take n ptr) = n" using n less.prems(6) by simp
      have off_n: "off + length (take n ptr) \<le> bsize" using ln n by simp
      note pv = poke_vbyte [OF i2 go(2,3) k2 off_n]
      have pv3: "vbyte content ?P s1 f' t' x =
          (if (f', t') = (f, t) \<and> p * bsize + off \<le> x \<and> x < p * bsize + off + n
           then Some (ptr ! (x - (p * bsize + off))) else vbyte content mm s f' t' x)" for f' t' x
        using pv(3) [of f' t' x] silent_vbyte [OF go(1)] ln by auto
      have IH: "wrote ?P s1 f t ((p + 1) * bsize + 0) (drop n ptr) r mm' s'"
      proof (rule less.IH)
        show "access_loop io True a f t ?P s1 (p + 1) 0 (rem - n) (drop n ptr) out = Some (r, out', mm', s')"
          using go(4) by (simp add: n_def)
        show "a < length (mm_entries ?P)" "key_at ?P a = (f, t)"
          using same_shapeD(1) [OF pv(2)] same_shapeD(7) [OF pv(2) a2] a2 k2 by simp_all
      qed (use n rem off less.prems(6) pv(1) in auto)
      define B where "B = p * bsize + off"
      have next_base: "(p + 1) * bsize = B + n" if "n < rem"
        using that off by (auto simp: n_def B_def)
      have shift: "drop n ptr ! (x - (B + n)) = ptr ! (x - B)" if "B + n \<le> x" for x
        using that n less.prems(6) by simp
      have IHa: "vbyte content mm' s' f' t' x = vbyte content ?P s1 f' t' x \<or>
          (f', t') = (f, t) \<and> B + n \<le> x \<and> x < B + rem \<and> vbyte content mm' s' f' t' x = Some (ptr ! (x - B))"
        for f' t' x
      proof (cases "n < rem")
        case True
        from IH have "vbyte content mm' s' f' t' x = vbyte content ?P s1 f' t' x \<or>
            (f', t') = (f, t) \<and> B + n \<le> x \<and> x < B + n + length (drop n ptr) \<and>
            vbyte content mm' s' f' t' x = Some (drop n ptr ! (x - (B + n)))"
          unfolding wrote_def next_base [OF True] add_0_right by blast
        with shift less.prems(6) n show ?thesis by auto
      next
        case False
        then have z: "length (drop n ptr) = 0" using less.prems(6) n by simp
        from IH have "vbyte content mm' s' f' t' x = vbyte content ?P s1 f' t' x \<or>
            (p + 1) * bsize + 0 \<le> x \<and> x < (p + 1) * bsize + 0 + length (drop n ptr)"
          unfolding wrote_def by blast
        with z show ?thesis by linarith
      qed
      have IHb: "vbyte content mm' s' f t x = Some (ptr ! (x - B))" if "r = 0" "B + n \<le> x" "x < B + rem" for x
      proof -
        have nr: "n < rem" using that by linarith
        from IH that(1) have "B + n \<le> x \<and> x < B + n + length (drop n ptr) \<longrightarrow>
            vbyte content mm' s' f t x = Some (drop n ptr ! (x - (B + n)))"
          unfolding wrote_def next_base [OF nr] add_0_right by blast
        with that shift less.prems(6) n show ?thesis by auto
      qed
      note pv3 = pv3 [folded B_def]
      have new: "(f', t') = (f, t) \<and> B \<le> x \<and> x < B + rem \<and> vbyte content mm' s' f' t' x = Some (ptr ! (x - B)) \<or>
          vbyte content mm' s' f' t' x = vbyte content mm s f' t' x" for f' t' x
        using IHa [of f' t' x] pv3 [of f' t' x] n by (cases "(f', t') = (f, t) \<and> B \<le> x \<and> x < B + n") auto
      have full: "vbyte content mm' s' f t x = Some (ptr ! (x - B))" if "r = 0" "B \<le> x" "x < B + rem" for x
        using IHa [of f t x] pv3 [of f t x] IHb [OF that(1) _ that(3)] that by (cases "x < B + n") auto
      have "same_shape mm mm'"
        using IH same_shape_trans [OF silentD(2) [OF go(1)] same_shape_trans [OF pv(2)]] by (simp add: wrote_def)
      with IH new full show ?thesis
        unfolding wrote_def B_def [symmetric] less.prems(6) by blast
    qed
  qed
qed

end

subsection \<open>Accesses return\<close>

text \<open>The only search that may not end is CLOCK-M over frames that hold no page.\<close>

definition can_search :: "memory_manager_t \<Rightarrow> bool" where
  "can_search mm \<longleftrightarrow> policy mm = LRU \<or> no_leak mm"

lemma allocate_returns:
  assumes ok: "mm_ok mm" and cs: "can_search mm"
  shows "mm_allocate_frame io mm s \<noteq> None"
proof (cases "find (\<lambda>i. \<not> frames mm ! i) [0..<frame_count mm]")
  case (Some fr)
  then show ?thesis by (simp add: mm_allocate_frame_def)
next
  case None
  show ?thesis
  proof (cases "policy mm")
    case LRU
    with None show ?thesis by (simp add: mm_allocate_frame_def split: prod.splits)
  next
    case CLOCK_M
    have "mm_find_clockm_victim io mm s \<noteq> None"
    proof (cases "frame_count mm = 0")
      case True
      then show ?thesis by (simp add: mm_find_clockm_victim_def)
    next
      case False
      then have "frames mm ! 0" using None by (auto simp: find_None_iff)
      with cs CLOCK_M False obtain i j where "slot mm i j" "present (page_at mm i j)"
        by (auto simp: can_search_def no_leak_def)
      from clockm_mapped_returns [OF ok mm_okD(4) [OF ok] this] False CLOCK_M show ?thesis
        by (simp add: mm_find_clockm_victim_def)
    qed
    with None CLOCK_M show ?thesis by (auto simp: mm_allocate_frame_def split: prod.splits)
  qed
qed

context block_store
begin

lemma can_search_silent: "silent mm s mm' s' \<Longrightarrow> no_leak mm \<longrightarrow> no_leak mm' \<Longrightarrow> can_search mm \<Longrightarrow> can_search mm'"
  using same_shapeD(4) [OF silentD(2)] by (auto simp: can_search_def)

lemma fault_returns:
  assumes i: "inv mm s" and a: "a < length (mm_entries mm)" and cs: "can_search mm"
  shows "mm_handle_page_fault io mm s a f t n \<noteq> None"
proof -
  define mm0 where "mm0 = snd (ensure_page mm a n)"
  note e = ensure_page_ok [OF i a, where n = n, folded mm0_def]
  have ens: "ensure_page mm a n = (0, mm0)" using e(1) by (simp add: mm0_def prod_eq_iff)
  have "can_search mm0" using can_search_silent [OF e(2)] e(7) cs by simp
  from allocate_returns [OF invD(1) [OF silentD(1) [OF e(2)]] this, of io s]
  obtain v mm1 s1 where "mm_allocate_frame io mm0 s = Some (v, mm1, s1)" by auto
  then show ?thesis
    by (simp add: mm_handle_page_fault_def ens Let_def split: option.splits prod.splits)
qed

lemma access_loop_returns:
  assumes "inv mm s" and "a < length (mm_entries mm)" and "key_at mm a = (f, t)" and "off < bsize"
    and "can_search mm" and "wr \<longrightarrow> length ptr = rem"
  shows "\<exists>r out' mm' s'. access_loop io wr a f t mm s p off rem ptr out = Some (r, out', mm', s') \<and> can_search mm'"
  using assms
proof (induction rem arbitrary: mm s p off ptr out rule: less_induct)
  case (less rem)
  note i = less.prems(1) and a = less.prems(2) and k = less.prems(3) and off = less.prems(4) and cs = less.prems(5)
  show ?case
  proof (cases "rem = 0")
    case True
    then show ?thesis using cs by (simp add: access_loop.simps)
  next
    case False
    define n where "n = min (bsize - off) rem"
    have n: "0 < n" "n \<le> rem" "off + n \<le> bsize" using False off by (auto simp: n_def)
    define mm0 where "mm0 = snd (ensure_page mm a p)"
    note e = ensure_page_ok [OF i a, where n = p, folded mm0_def]
    have ens: "ensure_page mm a p = (0, mm0)" using e(1) by (simp add: mm0_def prod_eq_iff)
    note sh0 = same_shapeD [OF silentD(2) [OF e(2)]]
    have a0: "a < length (mm_entries mm0)" using a sh0(1) by simp
    have cs0: "can_search mm0" using can_search_silent [OF e(2)] e(7) cs by simp
    obtain rf mm1 s1 where f: "(if present (page_at mm0 a p) then Some (0, mm0, s)
        else mm_handle_page_fault io mm0 s a f t p) = Some (rf, mm1, s1)"
      using fault_returns [OF silentD(1) [OF e(2)] a0 cs0, of f t p] by (cases "present (page_at mm0 a p)") auto
    have fo: "silent mm0 s mm1 s1 \<and> (rf = 0 \<longrightarrow> slot mm1 a p \<and> present (page_at mm1 a p)) \<and> (no_leak mm0 \<longrightarrow> no_leak mm1)"
      using f fault_ok [OF silentD(1) [OF e(2)] a0 _ _] silent_refl [OF silentD(1) [OF e(2)]] e(3) sh0(7) [OF a] k
      by (cases "present (page_at mm0 a p)") auto
    have cs1: "can_search mm1" using can_search_silent fo cs0 by blast
    show ?thesis
    proof (cases "rf = 0")
      case nz: False
      then show ?thesis using False ens f cs1 by (simp add: access_loop.simps [of io wr a f t mm])
    next
      case True
      let ?m = "mm_update_page_access mm1 a p"
      have s1: "silent mm s mm1 s1" using silent_trans [OF e(2)] fo by blast
      note ok1 = invD(1) [OF silentD(1) [OF s1]]
      have sl1: "slot mm1 a p" "present (page_at mm1 a p)" using fo True by auto
      have e2: "mm_eqv mm1 ?m" by (rule mm_eqv_update_page_access [OF slotD(1) [OF sl1(1)]])
      have s2: "silent mm s ?m s1" by (rule silent_trans [OF s1 silent_eqv [OF silentD(1) [OF s1] e2]])
      note i2 = silentD(1) [OF s2] and sh2 = same_shapeD [OF silentD(2) [OF s2]]
      have sl2: "slot ?m a p" "present (page_at ?m a p)"
        using sl1 mm_eqv_slot [OF e2] mm_eqv_page(1) [OF e2 ok1 sl1(1)] by simp_all
      have k2: "a < length (mm_entries ?m)" "key_at ?m a = (f, t)" using a k sh2(1) sh2(7) [OF a] by auto
      have cs2: "can_search ?m"
        using cs1 mm_eqv_no_leak [OF e2 ok1] mm_eqvD(6) [OF e2] by (auto simp: can_search_def)
      let ?fr = "frame (page_at ?m a p)"
      have addr: "mm_get_frame_address ?m ?fr = Some (?fr * bsize)"
        using mm_okD(7) [OF invD(1) [OF i2] sl2] invD(4) [OF i2] by (simp add: mm_get_frame_address_def)
      let ?m3 = "?m\<lparr>physical_memory := store_at (?fr * bsize + off) (take n ptr) (physical_memory ?m)\<rparr>"
      have pk: "set_pt ?m3 a (pt_set_dirty (mm_pt ?m3 a) p True) = poke ?m a p off (take n ptr)"
        using sl2(1) invD(4) [OF i2] by (simp add: poke_def pt_set_dirty_def pt_get_entry_def slot_def)
      let ?rest = "if wr then access_loop io wr a f t (poke ?m a p off (take n ptr)) s1 (p + 1) 0 (rem - n) (drop n ptr) out
        else access_loop io wr a f t ?m s1 (p + 1) 0 (rem - n) ptr
          (out @ region (?fr * bsize + off) n (physical_memory ?m))"
      have eq: "access_loop io wr a f t mm s p off rem ptr out = ?rest"
        using False ens f True addr n pk
        by (simp add: access_loop.simps [of io wr a f t mm] Let_def invD(4) [OF i2] n_def [symmetric])
      have b0: "0 < bsize" "rem - n < rem" using off n by auto
      show ?thesis
      proof (cases wr)
        case False
        with less.IH [OF b0(2) i2 k2 b0(1) cs2] eq show ?thesis by simp
      next
        case wr: True
        then have ln: "length (take n ptr) = n" using n less.prems(6) by simp
        have off_n: "off + length (take n ptr) \<le> bsize" using ln n by simp
        note pv = poke_vbyte [OF i2 sl2 k2(2) off_n]
        have "can_search (poke ?m a p off (take n ptr))"
          using cs2 poke_no_leak [OF invD(1) [OF i2] sl2] off_n invD(4) [OF i2] same_shapeD(4) [OF pv(2)]
          by (auto simp: can_search_def)
        moreover have "a < length (mm_entries (poke ?m a p off (take n ptr)))"
          "key_at (poke ?m a p off (take n ptr)) a = (f, t)"
          using same_shapeD(1) [OF pv(2)] same_shapeD(7) [OF pv(2) k2(1)] k2 by simp_all
        ultimately show ?thesis
          using less.IH [OF b0(2) pv(1) _ _ b0(1), of "drop n ptr"] wr eq less.prems(6) by simp
      qed
    qed
  qed
qed

end


subsection \<open>Flushing\<close>

context block_store
begin

text \<open>Writing a present page back and marking it clean changes nothing a query sees.\<close>

lemma clean_ok:
  assumes i: "inv mm s" and ij: "slot mm a j" and pr: "present (page_at mm a j)"
    and fr: "frame (page_at mm a j) = fr"
    and w: "io_write io s (e_file (mm_entries mm ! a)) (e_tag (mm_entries mm ! a)) j (frame_bytes mm fr) = (0, s1)"
  defines "mm1 \<equiv> upd_page mm a j (\<lambda>e. e\<lparr>dirty := False\<rparr>)"
  shows "silent mm s mm1 s1" and "no_leak mm1 = no_leak mm"
proof -
  note ok = invD(1) [OF i] and wf = write_frame [OF i ij pr fr w]
  have pg: "slot mm1 k l = slot mm k l"
    "slot mm k l \<Longrightarrow> page_at mm1 k l = (if k = a \<and> l = j then (page_at mm a j)\<lparr>dirty := False\<rparr> else page_at mm k l)" for k l
    by (simp_all add: mm1_def page_at_upd_page [OF ok ij])
  have pf: "slot mm k l \<Longrightarrow> present (page_at mm1 k l) = present (page_at mm k l)"
    "slot mm k l \<Longrightarrow> frame (page_at mm1 k l) = frame (page_at mm k l)" for k l
    using pg(2) [of k l] by (cases "k = a \<and> l = j"; simp)+
  have fl: "frames mm1 = frames mm" "frame_count mm1 = frame_count mm" "length (mm_entries mm1) = length (mm_entries mm)"
    "mm_page_size mm1 = mm_page_size mm" "physical_memory mm1 = physical_memory mm"
    "clock_pointer mm1 = clock_pointer mm" "key_at mm1 = key_at mm"
    by (simp_all add: mm1_def fun_eq_iff)
  have ok1: "mm_ok mm1"
  proof (rule mm_okI)
    show "inj_on (key_at mm1) {..<length (mm_entries mm1)}" using mm_okD(5) [OF ok] by (simp add: fl)
    show "pt_ok (mm_pt mm1 k)" if "k < length (mm_entries mm1)" for k
      using that pt_ok_upd_page [OF ok ij, of "\<lambda>e. e\<lparr>dirty := False\<rparr>" k] by (simp add: mm1_def)
    show "frame (page_at mm1 k l) < frame_count mm1 \<and> frames mm1 ! frame (page_at mm1 k l)"
      if "slot mm1 k l" "present (page_at mm1 k l)" for k l
      using that mm_okD(7,8) [OF ok, of k l] by (simp add: pg(1) pf fl)
    show "k = k' \<and> l = l'" if "slot mm1 k l" "slot mm1 k' l'" "present (page_at mm1 k l)"
      "present (page_at mm1 k' l')" "frame (page_at mm1 k l) = frame (page_at mm1 k' l')" for k l k' l'
      using that mm_okD(9) [OF ok, of k l k' l'] by (simp add: pg(1) pf)
  qed (use mm_okD(1-4) [OF ok] in \<open>simp_all add: fl\<close>)
  have fb: "frame_bytes mm1 = frame_bytes mm" by (simp add: mm1_def)
  have c: "cached mm1 f t b = cached mm f t b" for f t b
    by (rule cached_eqI [OF ok ok1]) (auto simp: fl pg(1) pf)
  have co: "coherent content mm1 s1"
    unfolding coherent_def
  proof (intro allI impI)
    fix k l assume h: "slot mm1 k l" "present (page_at mm1 k l)" "\<not> dirty (page_at mm1 k l)"
    then have sl: "slot mm k l" and prk: "present (page_at mm k l)" by (simp_all add: pg(1) pf)
    show "content s1 (fst (key_at mm1 k)) (snd (key_at mm1 k)) l = Some (frame_bytes mm1 (frame (page_at mm1 k l)))"
    proof (cases "k = a \<and> l = j")
      case True
      then show ?thesis using wf(3) [OF refl] fr pf(2) [OF sl] by (simp add: fl fb)
    next
      case False
      then have "\<not> (key_at mm k = key_at mm a \<and> l = j)"
        using mm_okD(5) [OF ok] slotD(1) [OF sl] slotD(1) [OF ij] by (auto simp: inj_on_def)
      moreover have "\<not> dirty (page_at mm k l)" using h(3) pg(2) [OF sl] False by simp
      ultimately show ?thesis
        using invD(2) [OF i] sl prk pf(2) [OF sl] wf(3) [OF refl]
        by (auto simp: coherent_def fl fb)
    qed
  qed
  show "silent mm s mm1 s1"
  proof (rule silentI [OF i ok1 _ co wf(4)])
    show "same_shape mm mm1" using same_shape_upd_page [OF slotD(1) [OF ij]] by (simp add: mm1_def)
    show "vcontent content mm1 s1 f t b = vcontent content mm s f t b" for f t b
    proof -
      have "cached mm f t b = Some fr" if "(f, t) = key_at mm a \<and> b = j"
        using that ij pr fr by (auto simp: cached_Some_iff [OF ok])
      then show ?thesis
        by (cases "(f, t) = key_at mm a \<and> b = j")
          (auto simp: vcontent_def c fb wf(3) [OF refl] split: option.split)
    qed
  qed
  have "mapped mm1 x = mapped mm x" for x
    unfolding mapped_def pg(1) using pf by metis
  then show "no_leak mm1 = no_leak mm" by (simp add: no_leak_mapped fl)
qed

definition cleaned :: "memory_manager_t \<Rightarrow> nat \<Rightarrow> pt_entry_t list \<Rightarrow> memory_manager_t \<Rightarrow> bool" where
  "cleaned mm a ps mm' \<longleftrightarrow> slot mm' = slot mm \<and>
     (\<forall>k l. slot mm k l \<longrightarrow> present (page_at mm' k l) = present (page_at mm k l) \<and>
        (dirty (page_at mm' k l) \<longrightarrow> dirty (page_at mm k l))) \<and>
     (\<forall>p \<in> set ps. present p \<longrightarrow> \<not> dirty (page_at mm' a (page_number p)))"

lemma flush_pages_ok:
  assumes "flush_pages io f t a ps mm s = (r, mm', s')" and "inv mm s" and "a < length (mm_entries mm)"
    and "key_at mm a = (f, t)"
    and "\<And>p. p \<in> set ps \<Longrightarrow> slot mm a (page_number p) \<and> present p = present (page_at mm a (page_number p)) \<and>
      frame p = frame (page_at mm a (page_number p)) \<and> dirty (page_at mm a (page_number p))"
    and "distinct (map page_number ps)"
  shows "silent mm s mm' s' \<and> (no_leak mm \<longrightarrow> no_leak mm') \<and> (r = 0 \<longrightarrow> cleaned mm a ps mm')"
  using assms
proof (induction ps arbitrary: mm s)
  case Nil
  then show ?case using silent_refl [OF Nil.prems(2)] by (simp add: cleaned_def)
next
  case (Cons p ps)
  note i = Cons.prems(2) and a = Cons.prems(3) and k = Cons.prems(4)
  note ok = invD(1) [OF i]
  have pp: "slot mm a (page_number p)" "present p = present (page_at mm a (page_number p))"
    "frame p = frame (page_at mm a (page_number p))" "dirty (page_at mm a (page_number p))"
    using Cons.prems(5) [of p] by auto
  show ?case
  proof (cases "present p")
    case False
    with Cons.prems(1) have "flush_pages io f t a ps mm s = (r, mm', s')" by simp
    from Cons.IH [OF this i a k] Cons.prems(5,6) False show ?thesis by (auto simp: cleaned_def)
  next
    case True
    have pr: "present (page_at mm a (page_number p))" using True pp by simp
    note fr = mm_okD(7) [OF ok pp(1) pr]
    have addr: "mm_get_frame_address mm (frame p) = Some (frame p * mm_page_size mm)"
      using fr pp(3) by (simp add: mm_get_frame_address_def)
    have key: "f = e_file (mm_entries mm ! a)" "t = e_tag (mm_entries mm ! a)" using k by (auto simp: key_at_def)
    obtain rw s1 where w: "io_write io s f t (page_number p) (frame_bytes mm (frame p)) = (rw, s1)" by (metis surj_pair)
    note wf = write_frame [OF i pp(1) pr pp(3) [symmetric] w [unfolded key]]
    show ?thesis
    proof (cases "rw = 0")
      case False
      with Cons.prems(1) True addr w have "r = -1" "mm' = mm" "s' = s1" by (auto simp: frame_bytes_def Let_def)
      then show ?thesis using wf(2) pp(4) by simp
    next
      case z: True
      let ?mm1 = "upd_page mm a (page_number p) (\<lambda>e. e\<lparr>dirty := False\<rparr>)"
      have sd: "set_pt mm a (pt_set_dirty (mm_pt mm a) (page_number p) False) = ?mm1"
        using pp(1) by (simp add: pt_set_dirty_def pt_get_entry_def slot_def)
      from Cons.prems(1) True addr w z sd have fl: "flush_pages io f t a ps ?mm1 s1 = (r, mm', s')"
        by (simp add: frame_bytes_def Let_def)
      note cl = clean_ok [OF i pp(1) pr pp(3) [symmetric] w [unfolded key z]]
      have IH: "silent ?mm1 s1 mm' s' \<and> (no_leak ?mm1 \<longrightarrow> no_leak mm') \<and> (r = 0 \<longrightarrow> cleaned ?mm1 a ps mm')"
      proof (rule Cons.IH [OF fl silentD(1) [OF cl(1)]])
        show "a < length (mm_entries ?mm1)" "key_at ?mm1 a = (f, t)" using a k by simp_all
        show "distinct (map page_number ps)" using Cons.prems(6) by simp
        fix q assume q: "q \<in> set ps"
        then have "page_number q \<in> set (map page_number ps)" by simp
        then have "page_number q \<noteq> page_number p" using Cons.prems(6) by auto
        then show "slot ?mm1 a (page_number q) \<and> present q = present (page_at ?mm1 a (page_number q)) \<and>
            frame q = frame (page_at ?mm1 a (page_number q)) \<and> dirty (page_at ?mm1 a (page_number q))"
          using Cons.prems(5) [of q] q by (simp add: page_at_upd_page [OF ok pp(1)])
      qed
      have "cleaned mm a (p # ps) mm'" if "r = 0"
      proof -
        from IH that have c: "cleaned ?mm1 a ps mm'" by simp
        have pg: "page_at ?mm1 k l = (if k = a \<and> l = page_number p then (page_at mm k l)\<lparr>dirty := False\<rparr> else page_at mm k l)"
          if "slot mm k l" for k l using page_at_upd_page [OF ok pp(1) that] by simp
        show ?thesis
          unfolding cleaned_def
        proof (intro conjI allI impI ballI)
          show "slot mm' = slot mm" using c by (simp add: cleaned_def fun_eq_iff)
        next
          fix k l assume sl: "slot mm k l"
          with c show "present (page_at mm' k l) = present (page_at mm k l)"
            by (auto simp: cleaned_def pg)
          show "dirty (page_at mm k l)" if "dirty (page_at mm' k l)"
            using c sl that by (auto simp: cleaned_def pg split: if_splits)
        next
          fix q assume q: "q \<in> set (p # ps)" "present q"
          have "dirty (page_at mm' a (page_number p)) \<longrightarrow> dirty (page_at ?mm1 a (page_number p))"
            using c pp(1) unfolding cleaned_def slot_upd_page by blast
          then have "\<not> dirty (page_at mm' a (page_number p))"
            using pg [OF pp(1)] by simp
          with c q show "\<not> dirty (page_at mm' a (page_number q))" by (auto simp: cleaned_def)
        qed
      qed
      with IH cl silent_trans [OF cl(1)] show ?thesis by auto
    qed
  qed
qed

end


lemma dirty_entries:
  assumes ok: "mm_ok mm" and a: "a < length (mm_entries mm)"
  shows "p \<in> set (pt_get_dirty_entries (mm_pt mm a)) \<longleftrightarrow>
      (\<exists>j < page_count (mm_pt mm a). p = page_at mm a j \<and> page_number p = j \<and> dirty p)"
    and "distinct (map page_number (pt_get_dirty_entries (mm_pt mm a)))"
proof -
  note pt = mm_okD(6) [OF ok a]
  note len = pt_okD(1) [OF pt] and num = pt_okD(3) [OF pt]
  show "p \<in> set (pt_get_dirty_entries (mm_pt mm a)) \<longleftrightarrow>
      (\<exists>j < page_count (mm_pt mm a). p = page_at mm a j \<and> page_number p = j \<and> dirty p)"
    using num by (auto simp: pt_get_dirty_entries_def in_set_conv_nth page_at_def len)
  have "map page_number (entries (mm_pt mm a)) = [0..<page_count (mm_pt mm a)]"
    using num by (intro nth_equalityI) (simp_all add: len)
  then have "distinct (map page_number (entries (mm_pt mm a)))" by simp
  then show "distinct (map page_number (pt_get_dirty_entries (mm_pt mm a)))"
    unfolding pt_get_dirty_entries_def by (rule distinct_map_filter)
qed

context block_store
begin

lemma flush_entry_ok:
  assumes i: "inv mm s" and a: "a < length (mm_entries mm)" and k: "key_at mm a = (f, t)"
    and fl: "flush_pages io f t a (pt_get_dirty_entries (mm_pt mm a)) mm s = (r, mm', s')"
  shows "silent mm s mm' s' \<and> (no_leak mm \<longrightarrow> no_leak mm') \<and>
    (r = 0 \<longrightarrow> (\<forall>l. slot mm a l \<longrightarrow> present (page_at mm a l) \<longrightarrow> \<not> dirty (page_at mm' a l)) \<and>
       slot mm' = slot mm \<and>
       (\<forall>k l. slot mm k l \<longrightarrow> present (page_at mm' k l) = present (page_at mm k l) \<and>
          (dirty (page_at mm' k l) \<longrightarrow> dirty (page_at mm k l))))"
proof -
  note ok = invD(1) [OF i]
  note de = dirty_entries [OF ok a]
  have "silent mm s mm' s' \<and> (no_leak mm \<longrightarrow> no_leak mm') \<and>
    (r = 0 \<longrightarrow> cleaned mm a (pt_get_dirty_entries (mm_pt mm a)) mm')"
    by (rule flush_pages_ok [OF fl i a k _ de(2)]) (auto simp: de(1) slot_def a)
  moreover have "\<not> dirty (page_at mm' a l)"
    if c: "cleaned mm a (pt_get_dirty_entries (mm_pt mm a)) mm'" and l: "slot mm a l" "present (page_at mm a l)" for l
  proof (cases "dirty (page_at mm a l)")
    case True
    then have "page_at mm a l \<in> set (pt_get_dirty_entries (mm_pt mm a))" "page_number (page_at mm a l) = l"
      using l(1) pt_okD(3) [OF mm_okD(6) [OF ok a]] by (auto simp: de(1) slot_def page_at_def)
    with c l(2) show ?thesis unfolding cleaned_def by metis
  next
    case False
    with c l(1) show ?thesis unfolding cleaned_def by blast
  qed
  ultimately show ?thesis by (simp add: cleaned_def)
qed

text \<open>Where every present page of a File:Tag is clean, the store holds what the query sees.\<close>

lemma clean_store:
  assumes i: "inv mm s" and c: "\<And>a l. slot mm a l \<Longrightarrow> key_at mm a = (f, t) \<Longrightarrow> present (page_at mm a l) \<Longrightarrow>
    \<not> dirty (page_at mm a l)"
  shows "content s f t b = vcontent content mm s f t b"
proof (cases "cached mm f t b")
  case (Some fr)
  with cached_Some_iff [OF invD(1) [OF i]] obtain a where
    m: "slot mm a b" "key_at mm a = (f, t)" "present (page_at mm a b)" "frame (page_at mm a b) = fr" by blast
  then have "content s (fst (key_at mm a)) (snd (key_at mm a)) b = Some (frame_bytes mm (frame (page_at mm a b)))"
    using c [of a b] invD(2) [OF i] unfolding coherent_def by blast
  with m Some show ?thesis by (simp add: vcontent_def)
qed (simp add: vcontent_def)

lemma flush_query_ok:
  assumes i: "inv mm s" and h: "mm_find_page_table mm f t = Some a"
    and fl: "mm_flush_query io mm s f t = (r, mm', s')"
  shows "silent mm s mm' s' \<and> (no_leak mm \<longrightarrow> no_leak mm') \<and>
    (r = 0 \<longrightarrow> (\<forall>b. content s' f t b = vcontent content mm s f t b))"
proof -
  note ok = invD(1) [OF i]
  have a: "a < length (mm_entries mm)" "key_at mm a = (f, t)" using h mm_find_page_table_eq [OF ok] by auto
  have dp: "mm_get_dirty_pages mm f t = pt_get_dirty_entries (mm_pt mm a)" using h by (simp add: mm_get_dirty_pages_def)
  show ?thesis
  proof (cases "storage_socket mm = -1 \<or> mm_worker_id mm = -1")
    case True
    then show ?thesis using fl silent_refl [OF i] by (auto simp: mm_flush_query_def)
  next
    case False
    then have "flush_pages io f t a (pt_get_dirty_entries (mm_pt mm a)) mm s = (r, mm', s')"
      using fl h dp by (auto simp: mm_flush_query_def split: if_splits)
    note fe = flush_entry_ok [OF i a this]
    have s: "silent mm s mm' s'" using fe by blast
    have "content s' f t b = vcontent content mm s f t b" if r: "r = 0" for b
    proof -
      have "content s' f t b = vcontent content mm' s' f t b"
      proof (rule clean_store [OF silentD(1) [OF s]])
        fix a' l assume sl: "slot mm' a' l" "key_at mm' a' = (f, t)" "present (page_at mm' a' l)"
        note sh = same_shapeD [OF silentD(2) [OF s]]
        have "a' = a" using sl(2) slotD(1) [OF sl(1)] sh(1) sh(7) [of a'] a mm_okD(5) [OF ok] by (auto simp: inj_on_def)
        moreover have "slot mm a' l" using sl(1) fe r by simp
        ultimately show "\<not> dirty (page_at mm' a' l)" using fe r sl(3) by auto
      qed
      then show ?thesis using silentD(3) [OF s] by simp
    qed
    with fe show ?thesis by blast
  qed
qed

end


context block_store
begin

lemma flush_entries_ok:
  assumes "flush_entries io ks mm s = (r, mm', s')" and "inv mm s" and "\<forall>k \<in> set ks. k < length (mm_entries mm)"
  shows "silent mm s mm' s' \<and> (no_leak mm \<longrightarrow> no_leak mm') \<and>
    (r = 0 \<longrightarrow> slot mm' = slot mm \<and>
       (\<forall>k l. slot mm k l \<longrightarrow> present (page_at mm' k l) = present (page_at mm k l) \<and>
          (dirty (page_at mm' k l) \<longrightarrow> dirty (page_at mm k l)) \<and>
          (k \<in> set ks \<longrightarrow> present (page_at mm k l) \<longrightarrow> \<not> dirty (page_at mm' k l))))"
  using assms
proof (induction ks arbitrary: mm s)
  case Nil
  then show ?case using silent_refl [OF Nil.prems(2)] by simp
next
  case (Cons a ks)
  note i = Cons.prems(2)
  have a: "a < length (mm_entries mm)" using Cons.prems(3) by simp
  obtain f t where k: "key_at mm a = (f, t)" by (cases "key_at mm a")
  have ft: "e_file (mm_entries mm ! a) = f" "e_tag (mm_entries mm ! a) = t" using k by (auto simp: key_at_def)
  have "mm_find_page_table mm f t = Some a" using mm_find_page_table_eq [OF invD(1) [OF i]] a k by simp
  then have dp: "mm_get_dirty_pages mm f t = pt_get_dirty_entries (mm_pt mm a)" by (simp add: mm_get_dirty_pages_def)
  obtain r1 mm1 s1 where fl: "flush_pages io f t a (pt_get_dirty_entries (mm_pt mm a)) mm s = (r1, mm1, s1)"
    using prod_cases3 by blast
  note fe = flush_entry_ok [OF i a k fl]
  have s1: "silent mm s mm1 s1" using fe by blast
  show ?case
  proof (cases "r1 = 0")
    case False
    then have "pt_get_dirty_entries (mm_pt mm a) \<noteq> []" using fl by auto
    with False Cons.prems(1) fl dp ft have "r = -1" "mm' = mm1" "s' = s1" by (auto simp: Let_def)
    then show ?thesis using fe by simp
  next
    case True
    have rest: "flush_entries io ks mm1 s1 = (r, mm', s')"
      using Cons.prems(1) fl dp ft True by (cases "pt_get_dirty_entries (mm_pt mm a)") (auto simp: Let_def)
    have "\<forall>k \<in> set ks. k < length (mm_entries mm1)"
      using Cons.prems(3) same_shapeD(1) [OF silentD(2) [OF s1]] by simp
    note IH = Cons.IH [OF rest silentD(1) [OF s1] this]
    from fe True have f1: "slot mm1 = slot mm"
      and f2: "\<And>k l. slot mm k l \<Longrightarrow> present (page_at mm1 k l) = present (page_at mm k l) \<and>
          (dirty (page_at mm1 k l) \<longrightarrow> dirty (page_at mm k l))"
      and f3: "\<And>l. slot mm a l \<Longrightarrow> present (page_at mm a l) \<Longrightarrow> \<not> dirty (page_at mm1 a l)" by auto
    have "slot mm' = slot mm \<and> (\<forall>k l. slot mm k l \<longrightarrow> present (page_at mm' k l) = present (page_at mm k l) \<and>
          (dirty (page_at mm' k l) \<longrightarrow> dirty (page_at mm k l)) \<and>
          (k \<in> set (a # ks) \<longrightarrow> present (page_at mm k l) \<longrightarrow> \<not> dirty (page_at mm' k l)))" if "r = 0"
    proof -
      from IH that have g1: "slot mm' = slot mm1" and g2: "\<And>k l. slot mm k l \<Longrightarrow>
          present (page_at mm' k l) = present (page_at mm1 k l) \<and>
          (dirty (page_at mm' k l) \<longrightarrow> dirty (page_at mm1 k l)) \<and>
          (k \<in> set ks \<longrightarrow> present (page_at mm1 k l) \<longrightarrow> \<not> dirty (page_at mm' k l))"
        using f1 by auto
      show ?thesis
        using f1 g1 f2 g2 f3 by simp blast
    qed
    with IH fe silent_trans [OF s1] show ?thesis by blast
  qed
qed

lemma flush_all_ok:
  assumes i: "inv mm s" and fl: "mm_flush_all_dirty io mm s = (r, mm', s')"
  shows "silent mm s mm' s' \<and> (no_leak mm \<longrightarrow> no_leak mm') \<and>
    (r = 0 \<longrightarrow> (\<forall>f t b. content s' f t b = vcontent content mm s f t b))"
proof (cases "storage_socket mm = -1 \<or> mm_worker_id mm = -1")
  case True
  then show ?thesis using fl silent_refl [OF i] by (auto simp: mm_flush_all_dirty_def)
next
  case False
  with fl have "flush_entries io [0..<length (mm_entries mm)] mm s = (r, mm', s')"
    by (auto simp: mm_flush_all_dirty_def)
  note fe = flush_entries_ok [OF this i]
  have s: "silent mm s mm' s'" using fe by simp
  have "content s' f t b = vcontent content mm s f t b" if r: "r = 0" for f t b
  proof -
    have "content s' f t b = vcontent content mm' s' f t b"
    proof (rule clean_store [OF silentD(1) [OF s]])
      fix a l assume sl: "slot mm' a l" "present (page_at mm' a l)"
      with fe r slotD(1) [of mm a l] show "\<not> dirty (page_at mm' a l)" by auto
    qed
    then show ?thesis using silentD(3) [OF s] by simp
  qed
  with fe show ?thesis by simp
qed

text \<open>The operations a query calls.\<close>

lemma mm_read_ok:
  assumes i: "inv mm s" and h: "mm_find_page_table mm f t = Some a"
    and res: "mm_read_from_memory io mm s a f t base len = Some (r, out, mm', s')"
  shows "silent mm s mm' s' \<and> (r = 0 \<longrightarrow> length out = len \<and>
    (\<forall>k < len. vbyte content mm s f t (base + k) = Some (out ! k)))"
proof -
  have a: "a < length (mm_entries mm)" "key_at mm a = (f, t)"
    using h mm_find_page_table_eq [OF invD(1) [OF i]] by auto
  show ?thesis
  proof (cases "len = 0")
    case True
    then show ?thesis using res silent_refl [OF i] by (auto simp: mm_read_from_memory_def mm_access_memory_def)
  next
    case False
    have ps: "0 < bsize" "mm_page_size mm = bsize" using mm_okD(1) [OF invD(1) [OF i]] invD(4) [OF i] by auto
    from res False have "access_loop io False a f t mm s (base div bsize) (base mod bsize) len [] [] = Some (r, out, mm', s')"
      by (simp add: mm_read_from_memory_def mm_access_memory_def ps)
    from read_loop_ok [OF this i a] ps show ?thesis by simp
  qed
qed

lemma mm_write_ok:
  assumes i: "inv mm s" and h: "mm_find_page_table mm f t = Some a"
    and res: "mm_write_to_memory io mm s a f t base data = Some (r, mm', s')"
  shows "wrote mm s f t base data r mm' s'"
proof -
  have a: "a < length (mm_entries mm)" "key_at mm a = (f, t)"
    using h mm_find_page_table_eq [OF invD(1) [OF i]] by auto
  show ?thesis
  proof (cases "data = []")
    case True
    then show ?thesis using res i by (auto simp: mm_write_to_memory_def mm_access_memory_def wrote_def)
  next
    case False
    have ps: "0 < bsize" "mm_page_size mm = bsize" using mm_okD(1) [OF invD(1) [OF i]] invD(4) [OF i] by auto
    from res False obtain out where
      "access_loop io True a f t mm s (base div bsize) (base mod bsize) (length data) data [] = Some (r, out, mm', s')"
      by (auto simp: mm_write_to_memory_def mm_access_memory_def ps)
    from write_loop_ok [OF this i a _ refl] ps show ?thesis by simp
  qed
qed

lemma mm_access_returns:
  assumes i: "inv mm s" and h: "mm_find_page_table mm f t = Some a" and cs: "can_search mm"
  shows "\<exists>r out mm' s'. mm_read_from_memory io mm s a f t base len = Some (r, out, mm', s') \<and> can_search mm'"
    and "\<exists>r mm' s'. mm_write_to_memory io mm s a f t base data = Some (r, mm', s') \<and> can_search mm'"
proof -
  have a: "a < length (mm_entries mm)" "key_at mm a = (f, t)"
    using h mm_find_page_table_eq [OF invD(1) [OF i]] by auto
  have ps: "0 < bsize" "mm_page_size mm = bsize" using mm_okD(1) [OF invD(1) [OF i]] invD(4) [OF i] by auto
  then have off: "base mod bsize < bsize" by simp
  show "\<exists>r out mm' s'. mm_read_from_memory io mm s a f t base len = Some (r, out, mm', s') \<and> can_search mm'"
    using access_loop_returns [OF i a off cs, of False "[]" len "base div bsize" "[]"] cs
    by (cases "len = 0") (simp_all add: mm_read_from_memory_def mm_access_memory_def ps)
  show "\<exists>r mm' s'. mm_write_to_memory io mm s a f t base data = Some (r, mm', s') \<and> can_search mm'"
    using access_loop_returns [OF i a off cs, of True data "length data" "base div bsize" "[]"] cs
    by (cases "data = []") (auto simp: mm_write_to_memory_def mm_access_memory_def ps)
qed

end


end
