(* ===== verification/Storage_FS.thy ===== *)
theory Storage_FS
  imports Prelude "HOL-Library.Signed_Division"
begin

text \<open>
  The filesystem of the Storage process: \<^verbatim>\<open>storage/src/utils/filesystem_utils.c\<close> and the
  operations of \<^verbatim>\<open>storage/src/operations\<close> and \<^verbatim>\<open>storage/src/fresh_start\<close>.

  The mount point is a record. A tag directory holds the hard links \<^verbatim>\<open>logical_blocks/NNNN.dat\<close>
  (an association list from logical block to the physical block whose file it links) and
  the three properties of its \<^verbatim>\<open>metadata.config\<close>. The files \<^verbatim>\<open>physical_blocks/blockNNNN.dat\<close>
  are a list of contents, each with the link count \<^verbatim>\<open>st_nlink\<close> of its i-node. File and tag
  names are single path components. A call of the operating system succeeds exactly when the
  files it names make it possible.

  The bit array and the MD5 function come from the commons library and are arguments of the
  model, next to the two sizes of the superblock that the global configuration holds. The
  text of a \<^verbatim>\<open>t_config\<close> file is represented by the values of its properties. Calls that the
  sources make under a mutex are atomic here.
\<close>

record storage_env =
  fs_size :: nat
  block_size :: nat
  bitarray_test_bit :: "bytes \<Rightarrow> nat \<Rightarrow> bool"
  bitarray_set_bit :: "bytes \<Rightarrow> nat \<Rightarrow> bytes"
  bitarray_clean_bit :: "bytes \<Rightarrow> nat \<Rightarrow> bytes"
  bitarray_get_max_bit :: "bytes \<Rightarrow> nat"
  crypto_md5 :: "bytes \<Rightarrow> string"

record t_file_metadata =
  md_size :: int
  md_blocks :: "nat list"
  md_state :: string

record tag_dir =
  logical_blocks :: "(nat \<times> nat) list"
  metadata_config :: "t_file_metadata option"

type_synonym file_tag = "string \<times> string"

record fs =
  file_dirs :: "string list"
  tag_dirs :: "file_tag \<Rightarrow> tag_dir option"
  physical_blocks :: "bytes list"
  st_nlink :: "nat list"
  bitmap_bin :: bytes
  blocks_hash_index :: "string \<Rightarrow> string option"

definition FILE_TAG_MISSING :: int where "FILE_TAG_MISSING = -128"
definition FILE_TAG_ALREADY_EXISTS :: int where "FILE_TAG_ALREADY_EXISTS = -127"
definition NOT_ENOUGH_SPACE :: int where "NOT_ENOUGH_SPACE = -126"
definition FILE_ALREADY_COMMITTED :: int where "FILE_ALREADY_COMMITTED = -125"
definition READ_OUT_OF_BOUNDS :: int where "READ_OUT_OF_BOUNDS = -124"

definition storage_error_message :: "int \<Rightarrow> string" where
  "storage_error_message code =
     (if code = 0 then ''SUCCESS''
      else if code = FILE_TAG_MISSING then ''FILE_TAG_MISSING''
      else if code = FILE_TAG_ALREADY_EXISTS then ''FILE_TAG_ALREADY_EXISTS''
      else if code = FILE_ALREADY_COMMITTED then ''FILE_ALREADY_COMMITTED''
      else if code = READ_OUT_OF_BOUNDS then ''OUT_OF_BOUNDS''
      else if code = NOT_ENOUGH_SPACE then ''NOT_ENOUGH_SPACE''
      else ''UNKNOWN_STORAGE_ERROR'')"

definition IN_PROGRESS :: string where "IN_PROGRESS = ''WORK_IN_PROGRESS''"
definition COMMITTED :: string where "COMMITTED = ''COMMITTED''"

subsection \<open>Names of physical blocks\<close>

definition digit :: "nat \<Rightarrow> char" where
  "digit n = char_of (48 + n)"

fun decimal :: "nat \<Rightarrow> string" where
  "decimal n = (if n < 10 then [digit n] else decimal (n div 10) @ [digit (n mod 10)])"

declare decimal.simps [simp del]

text \<open>\<^verbatim>\<open>block%04d\<close>\<close>

definition block_name :: "nat \<Rightarrow> string" where
  "block_name n = ''block'' @ replicate (4 - length (decimal n)) (CHR ''0'') @ decimal n"

definition is_digit :: "char \<Rightarrow> bool" where
  "is_digit c \<longleftrightarrow> 48 \<le> (of_char c :: nat) \<and> (of_char c :: nat) \<le> 57"

definition digits_value :: "string \<Rightarrow> nat" where
  "digits_value cs = fold (\<lambda>c n. n * 10 + (of_char c - 48)) cs 0"

text \<open>\<^verbatim>\<open>sscanf(id, "block%d", &n)\<close> on a name whose number carries no sign.\<close>

definition get_physical_block_number :: "string \<Rightarrow> int" where
  "get_physical_block_number nm =
     (let ds = takeWhile is_digit (drop 5 nm)
      in if take 5 nm = ''block'' \<and> ds \<noteq> [] then int (digits_value ds) else -1)"

definition physical_by_name :: "fs \<Rightarrow> string \<Rightarrow> nat option" where
  "physical_by_name fs nm = find (\<lambda>i. block_name i = nm) [0..<length (physical_blocks fs)]"

subsection \<open>Hard links\<close>

text \<open>The physical block a logical block path links; a negative number names no file.\<close>

definition logical_at :: "fs \<Rightarrow> file_tag \<Rightarrow> int \<Rightarrow> nat option" where
  "logical_at fs k b =
     (case tag_dirs fs k of
        None \<Rightarrow> None
      | Some d \<Rightarrow> if b < 0 then None else map_of (logical_blocks d) (nat b))"

definition set_tag :: "fs \<Rightarrow> file_tag \<Rightarrow> tag_dir \<Rightarrow> fs" where
  "set_tag fs k d = fs\<lparr>tag_dirs := (tag_dirs fs)(k := Some d)\<rparr>"

definition add_nlink :: "fs \<Rightarrow> nat \<Rightarrow> fs" where
  "add_nlink fs i = fs\<lparr>st_nlink := (st_nlink fs)[i := Suc (st_nlink fs ! i)]\<rparr>"

definition drop_nlink :: "fs \<Rightarrow> nat \<Rightarrow> fs" where
  "drop_nlink fs i = fs\<lparr>st_nlink := (st_nlink fs)[i := st_nlink fs ! i - 1]\<rparr>"

text \<open>\<^verbatim>\<open>link(physical_block_path, logical_block_path)\<close>\<close>

definition os_link :: "fs \<Rightarrow> nat \<Rightarrow> file_tag \<Rightarrow> nat \<Rightarrow> fs option" where
  "os_link fs i k b =
     (case tag_dirs fs k of
        None \<Rightarrow> None
      | Some d \<Rightarrow>
          if length (physical_blocks fs) \<le> i \<or> map_of (logical_blocks d) b \<noteq> None then None
          else Some (add_nlink (set_tag fs k (d\<lparr>logical_blocks := (b, i) # logical_blocks d\<rparr>)) i))"

text \<open>\<^verbatim>\<open>remove(logical_block_path)\<close>\<close>

definition os_remove :: "fs \<Rightarrow> file_tag \<Rightarrow> nat \<Rightarrow> fs option" where
  "os_remove fs k b =
     (case tag_dirs fs k of
        None \<Rightarrow> None
      | Some d \<Rightarrow>
          (case map_of (logical_blocks d) b of
             None \<Rightarrow> None
           | Some i \<Rightarrow>
               Some (drop_nlink (set_tag fs k
                 (d\<lparr>logical_blocks := filter (\<lambda>(b', i'). b' \<noteq> b) (logical_blocks d)\<rparr>)) i)))"

text \<open>\<^verbatim>\<open>ph_block_links\<close> on a logical path: the link count of the i-node, or -1.\<close>

definition ph_block_links :: "fs \<Rightarrow> file_tag \<Rightarrow> int \<Rightarrow> int" where
  "ph_block_links fs k b = (case logical_at fs k b of None \<Rightarrow> -1 | Some i \<Rightarrow> int (st_nlink fs ! i))"

subsection \<open>Directories and metadata\<close>

definition file_dir_exists :: "fs \<Rightarrow> string \<Rightarrow> string \<Rightarrow> bool" where
  "file_dir_exists fs name tag \<longleftrightarrow> tag_dirs fs (name, tag) \<noteq> None"

definition logical_block_exists :: "fs \<Rightarrow> string \<Rightarrow> string \<Rightarrow> int \<Rightarrow> bool" where
  "logical_block_exists fs name tag b \<longleftrightarrow> logical_at fs (name, tag) b \<noteq> None"

definition physical_block_exists :: "fs \<Rightarrow> nat \<Rightarrow> bool" where
  "physical_block_exists fs i \<longleftrightarrow> i < length (physical_blocks fs)"

definition create_file_dir_structure :: "fs \<Rightarrow> string \<Rightarrow> string \<Rightarrow> int \<times> fs" where
  "create_file_dir_structure fs name tag =
     (if tag_dirs fs (name, tag) \<noteq> None then (FILE_TAG_ALREADY_EXISTS, fs)
      else (0, set_tag (fs\<lparr>file_dirs := List.insert name (file_dirs fs)\<rparr>) (name, tag)
                 \<lparr>logical_blocks = [], metadata_config = None\<rparr>))"

text \<open>\<^verbatim>\<open>rm -rf\<close> of a tag directory removes its links too.\<close>

definition delete_file_dir_structure :: "fs \<Rightarrow> string \<Rightarrow> string \<Rightarrow> int \<times> fs" where
  "delete_file_dir_structure fs name tag =
     (case tag_dirs fs (name, tag) of
        None \<Rightarrow> (FILE_TAG_MISSING, fs)
      | Some d \<Rightarrow>
          (0, (fold (\<lambda>(b, i) fs. drop_nlink fs i) (logical_blocks d) fs)
                \<lparr>tag_dirs := (tag_dirs fs)((name, tag) := None)\<rparr>))"

definition create_metadata_file ::
  "fs \<Rightarrow> string \<Rightarrow> string \<Rightarrow> t_file_metadata option \<Rightarrow> int \<times> fs" where
  "create_metadata_file fs name tag initial_content =
     (case tag_dirs fs (name, tag) of
        None \<Rightarrow> (-1, fs)
      | Some d \<Rightarrow>
          (0, set_tag fs (name, tag) (d\<lparr>metadata_config :=
                Some (case initial_content of
                        Some m \<Rightarrow> m
                      | None \<Rightarrow> \<lparr>md_size = 0, md_blocks = [], md_state = IN_PROGRESS\<rparr>)\<rparr>)))"

definition read_file_metadata :: "fs \<Rightarrow> string \<Rightarrow> string \<Rightarrow> t_file_metadata option" where
  "read_file_metadata fs name tag =
     (case tag_dirs fs (name, tag) of None \<Rightarrow> None | Some d \<Rightarrow> metadata_config d)"

text \<open>The \<^verbatim>\<open>config\<close> inside the metadata points to the file it was read from.\<close>

definition save_file_metadata :: "fs \<Rightarrow> string \<Rightarrow> string \<Rightarrow> t_file_metadata \<Rightarrow> int \<times> fs" where
  "save_file_metadata fs name tag m =
     (case tag_dirs fs (name, tag) of
        None \<Rightarrow> (0, fs)
      | Some d \<Rightarrow> (0, set_tag fs (name, tag) (d\<lparr>metadata_config := Some m\<rparr>)))"

subsection \<open>The bitmap\<close>

definition total_blocks :: "storage_env \<Rightarrow> nat" where
  "total_blocks g = fs_size g div block_size g"

definition bitmap_size_bytes :: "storage_env \<Rightarrow> nat" where
  "bitmap_size_bytes g = (total_blocks g + 7) div 8"

definition bitmap_load :: "storage_env \<Rightarrow> fs \<Rightarrow> int \<times> bytes" where
  "bitmap_load g fs =
     (if length (bitmap_bin fs) < bitmap_size_bytes g then (-3, [])
      else (0, take (bitmap_size_bytes g) (bitmap_bin fs)))"

definition bitmap_persist :: "storage_env \<Rightarrow> fs \<Rightarrow> bytes \<Rightarrow> int \<times> fs" where
  "bitmap_persist g fs buf = (0, fs\<lparr>bitmap_bin := store_at 0 (take (bitmap_size_bytes g) buf) (bitmap_bin fs)\<rparr>)"

definition set_bitmap_bits :: "storage_env \<Rightarrow> bytes \<Rightarrow> nat \<Rightarrow> nat \<Rightarrow> bool \<Rightarrow> bytes" where
  "set_bitmap_bits g bm start_index count set_bits =
     fold (\<lambda>i bm. if set_bits then bitarray_set_bit g bm (start_index + i)
                   else bitarray_clean_bit g bm (start_index + i)) [0..<count] bm"

definition modify_bitmap_bits :: "storage_env \<Rightarrow> fs \<Rightarrow> nat \<Rightarrow> nat \<Rightarrow> bool \<Rightarrow> int \<times> fs" where
  "modify_bitmap_bits g fs start_index count set_bits =
     (if length (bitmap_bin fs) < bitmap_size_bytes g then (-1, fs)
      else
        let bm = set_bitmap_bits g (take (bitmap_size_bytes g) (bitmap_bin fs)) start_index count set_bits
        in (0, fs\<lparr>bitmap_bin := store_at 0 bm (bitmap_bin fs)\<rparr>))"

definition get_free_bit_index :: "storage_env \<Rightarrow> bytes \<Rightarrow> int" where
  "get_free_bit_index g bm =
     (case find (\<lambda>i. \<not> bitarray_test_bit g bm i) [0..<bitarray_get_max_bit g bm] of
        Some i \<Rightarrow> int i
      | None \<Rightarrow> -1)"

definition delete_logical_block ::
  "storage_env \<Rightarrow> fs \<Rightarrow> string \<Rightarrow> string \<Rightarrow> nat \<Rightarrow> nat \<Rightarrow> int \<times> fs" where
  "delete_logical_block g fs name tag b i =
     (case os_remove fs (name, tag) b of
        None \<Rightarrow> (-1, fs)
      | Some fs1 \<Rightarrow>
          if length (physical_blocks fs1) \<le> i then (-2, fs1)
          else if st_nlink fs1 ! i \<noteq> 1 then (0, fs1)
          else
            let (r, fs2) = modify_bitmap_bits g fs1 i 1 False
            in if r \<noteq> 0 then (-3, fs2) else (0, fs2))"

end
