(* ===== verification/Storage_Ops.thy ===== *)
theory Storage_Ops
  imports Storage_FS
begin

text \<open>
  The operations of the Storage process on its filesystem: \<^verbatim>\<open>storage/src/operations/*.c\<close>
  and \<^verbatim>\<open>storage/src/fresh_start/fresh_start.c\<close>. Each returns the status the source returns
  and the filesystem it leaves, on every branch.
\<close>

subsection \<open>Creating and truncating files\<close>

definition create_file_op :: "fs \<Rightarrow> string \<Rightarrow> string \<Rightarrow> int \<times> fs" where
  "create_file_op fs name tag =
     (let (result, fs1) = create_file_dir_structure fs name tag
      in if result \<noteq> 0 then (result, fs1)
         else
           let (r, fs2) = create_metadata_file fs1 name tag None
           in if r \<noteq> 0 then (-2, snd (delete_file_dir_structure fs2 name tag)) else (0, fs2))"

text \<open>The loop that links new logical blocks to physical block 0; the first failure ends it.\<close>

fun expand_links :: "fs \<Rightarrow> file_tag \<Rightarrow> nat list \<Rightarrow> bool \<times> fs" where
  "expand_links fs k [] = (True, fs)"
| "expand_links fs k (b # bs) =
     (case os_link fs 0 k b of None \<Rightarrow> (False, fs) | Some fs1 \<Rightarrow> expand_links fs1 k bs)"

definition shrink_links :: "storage_env \<Rightarrow> fs \<Rightarrow> string \<Rightarrow> string \<Rightarrow> nat list \<Rightarrow> nat list \<Rightarrow> fs" where
  "shrink_links g fs name tag blocks bs =
     fold (\<lambda>b fs. snd (delete_logical_block g fs name tag b (blocks ! b))) bs fs"

text \<open>
  A negative block count makes \<^verbatim>\<open>malloc\<close> ask for more than the address space and fail.
\<close>

definition truncate_file ::
  "storage_env \<Rightarrow> fs \<Rightarrow> string \<Rightarrow> string \<Rightarrow> int \<Rightarrow> int \<times> fs" where
  "truncate_file g fs name tag new_size_bytes =
     (case read_file_metadata fs name tag of
        None \<Rightarrow> (-1, fs)
      | Some m \<Rightarrow>
          let old = length (md_blocks m);
              cnt = (new_size_bytes + int (block_size g) - 1) sdiv int (block_size g);
              new = nat cnt
          in if cnt = int old then
               (let (r, fs1) = save_file_metadata fs name tag (m\<lparr>md_size := new_size_bytes\<rparr>)
                in if r \<noteq> 0 then (-4, fs1) else (0, fs1))
             else if cnt < 0 then (-3, fs)
             else
               let (ok, fs1) = (if new < old
                                then (True, shrink_links g fs name tag (md_blocks m) [new..<old])
                                else expand_links fs (name, tag) [old..<new])
               in if \<not> ok then (-2, fs1)
                  else
                    let blocks = take new (md_blocks m) @ replicate (new - old) 0;
                        (r, fs2) = save_file_metadata fs1 name tag
                                     (m\<lparr>md_blocks := blocks, md_size := new_size_bytes\<rparr>)
                    in if r \<noteq> 0 then (-4, fs2) else (0, fs2))"

subsection \<open>Tags\<close>

text \<open>
  \<^verbatim>\<open>cp -rl\<close> of one directory of logical blocks into another: every file is linked, and the
  command fails if some name is taken.
\<close>

fun cp_rl :: "fs \<Rightarrow> file_tag \<Rightarrow> (nat \<times> nat) list \<Rightarrow> bool \<times> fs" where
  "cp_rl fs dst [] = (True, fs)"
| "cp_rl fs dst ((b, i) # ls) =
     (case os_link fs i dst b of
        None \<Rightarrow> (False, snd (cp_rl fs dst ls))
      | Some fs1 \<Rightarrow> cp_rl fs1 dst ls)"

definition create_metadata ::
  "fs \<Rightarrow> string \<Rightarrow> string \<Rightarrow> int \<Rightarrow> nat \<Rightarrow> nat list \<Rightarrow> string \<Rightarrow> int \<times> fs" where
  "create_metadata fs name tag sz numb_blocks blocks_array status =
     (if length blocks_array \<noteq> numb_blocks then (-1, fs)
      else case tag_dirs fs (name, tag) of
        None \<Rightarrow> (-2, fs)
      | Some d \<Rightarrow>
          (0, set_tag fs (name, tag)
                (d\<lparr>metadata_config := Some \<lparr>md_size = sz, md_blocks = blocks_array, md_state = status\<rparr>\<rparr>)))"

definition create_tag ::
  "fs \<Rightarrow> string \<Rightarrow> string \<Rightarrow> string \<Rightarrow> string \<Rightarrow> int \<times> fs" where
  "create_tag fs file_src tag_src file_dst tag_dst =
     (if read_file_metadata fs file_dst tag_dst \<noteq> None then (FILE_TAG_ALREADY_EXISTS, fs)
      else case read_file_metadata fs file_src tag_src of
        None \<Rightarrow> (FILE_TAG_MISSING, fs)
      | Some m \<Rightarrow>
          if tag_dirs fs (file_dst, tag_dst) = None \<and> file_dst \<notin> set (file_dirs fs) then (-1, fs)
          else
            let fs1 = (if tag_dirs fs (file_dst, tag_dst) = None
                       then set_tag fs (file_dst, tag_dst) \<lparr>logical_blocks = [], metadata_config = None\<rparr>
                       else fs);
                links = (case tag_dirs fs1 (file_src, tag_src) of None \<Rightarrow> [] | Some d \<Rightarrow> logical_blocks d);
                (ok, fs2) = cp_rl fs1 (file_dst, tag_dst) links
            in if \<not> ok then (-3, fs2)
               else
                 let (r, fs3) = create_metadata fs2 file_dst tag_dst (md_size m) (length (md_blocks m))
                                  (md_blocks m) ''WORK_IN_PROGRESS''
                 in if r < 0 then (-3, fs3) else (0, fs3))"

fun delete_blocks ::
  "storage_env \<Rightarrow> fs \<Rightarrow> string \<Rightarrow> string \<Rightarrow> (nat \<times> nat) list \<Rightarrow> bool \<times> fs" where
  "delete_blocks g fs name tag [] = (True, fs)"
| "delete_blocks g fs name tag ((b, i) # ls) =
     (let (r, fs1) = delete_logical_block g fs name tag b i
      in if r \<noteq> 0 then (False, fs1) else delete_blocks g fs1 name tag ls)"

definition delete_tag :: "storage_env \<Rightarrow> fs \<Rightarrow> string \<Rightarrow> string \<Rightarrow> int \<times> fs" where
  "delete_tag g fs name tag =
     (if name = ''initial_file'' \<and> tag = ''BASE'' then (-1, fs)
      else case read_file_metadata fs name tag of
        None \<Rightarrow> (FILE_TAG_MISSING, fs)
      | Some m \<Rightarrow>
          let (ok, fs1) = delete_blocks g fs name tag (enumerate 0 (md_blocks m))
          in if \<not> ok then (-2, fs1)
             else
               let (r, fs2) = delete_file_dir_structure fs1 name tag
               in if r \<noteq> 0 then (-3, fs2) else (0, fs2))"

subsection \<open>Reading a block\<close>

definition read_from_logical_block :: "storage_env \<Rightarrow> fs \<Rightarrow> file_tag \<Rightarrow> int \<Rightarrow> int \<times> bytes" where
  "read_from_logical_block g fs k b =
     (case logical_at fs k b of
        None \<Rightarrow> (-1, [])
      | Some i \<Rightarrow>
          let data = take (block_size g) (physical_blocks fs ! i)
          in if length data \<noteq> block_size g then (-3, data) else (0, data))"

definition execute_block_read ::
  "storage_env \<Rightarrow> fs \<Rightarrow> string \<Rightarrow> string \<Rightarrow> u32 \<Rightarrow> int \<times> bytes" where
  "execute_block_read g fs name tag block_number =
     (if \<not> file_dir_exists fs name tag then (FILE_TAG_MISSING, [])
      else case read_file_metadata fs name tag of
        None \<Rightarrow> (FILE_TAG_MISSING, [])
      | Some m \<Rightarrow>
          if sint block_number \<ge> int (length (md_blocks m)) then (READ_OUT_OF_BOUNDS, [])
          else
            let (r, data) = read_from_logical_block g fs (name, tag) (sint block_number)
            in if r < 0 then (-1, data) else (0, data))"

subsection \<open>Writing a block\<close>

definition create_new_hardlink :: "storage_env \<Rightarrow> fs \<Rightarrow> file_tag \<Rightarrow> nat \<Rightarrow> int \<Rightarrow> int \<times> fs" where
  "create_new_hardlink g fs k b physical_block_index =
     (if physical_block_index < 0 \<or> physical_block_index \<ge> int (bitmap_size_bytes g * 8) then (-1, fs)
      else case os_link fs (nat physical_block_index) k b of
        None \<Rightarrow> (-1, fs)
      | Some fs1 \<Rightarrow> (0, fs1))"

definition write_to_logical_block ::
  "storage_env \<Rightarrow> fs \<Rightarrow> file_tag \<Rightarrow> int \<Rightarrow> bytes \<Rightarrow> int \<times> fs" where
  "write_to_logical_block g fs k b block_data =
     (case logical_at fs k b of
        None \<Rightarrow> (-1, fs)
      | Some i \<Rightarrow>
          let buffer = take (block_size g) block_data @ replicate (block_size g - length block_data) 0
          in (0, fs\<lparr>physical_blocks := (physical_blocks fs)[i := store_at 0 buffer (physical_blocks fs ! i)]\<rparr>))"

text \<open>The copy-on-write branch, for a logical block that shares its physical block.\<close>

definition break_sharing ::
  "storage_env \<Rightarrow> fs \<Rightarrow> string \<Rightarrow> string \<Rightarrow> nat \<Rightarrow> t_file_metadata \<Rightarrow> int \<times> fs" where
  "break_sharing g fs name tag b m =
     (case os_remove fs (name, tag) b of
        None \<Rightarrow> (-2, fs)
      | Some fs1 \<Rightarrow>
          let (rl, bitmap) = bitmap_load g fs1
          in if rl < 0 then (-3, fs1)
             else
               let idx = get_free_bit_index g bitmap
               in if idx < 0 then (NOT_ENOUGH_SPACE, fs1)
                  else
                    let (rp, fs2) = bitmap_persist g fs1 (bitarray_set_bit g bitmap (nat idx))
                    in if rp < 0 then (-4, fs2)
                       else
                         let (rh, fs3) = create_new_hardlink g fs2 (name, tag) b idx
                         in if rh < 0 then (-5, fs3)
                            else
                              let (rs, fs4) = save_file_metadata fs3 name tag
                                                (m\<lparr>md_blocks := (md_blocks m)[b := nat idx]\<rparr>)
                              in if rs < 0 then (-6, fs4) else (0, fs4))"

definition execute_block_write ::
  "storage_env \<Rightarrow> fs \<Rightarrow> string \<Rightarrow> string \<Rightarrow> u32 \<Rightarrow> bytes \<Rightarrow> int \<times> fs" where
  "execute_block_write g fs name tag block_number block_data =
     (if \<not> file_dir_exists fs name tag then (FILE_TAG_MISSING, fs)
      else case read_file_metadata fs name tag of
        None \<Rightarrow> (FILE_TAG_MISSING, fs)
      | Some m \<Rightarrow>
          if md_state m = COMMITTED then (FILE_ALREADY_COMMITTED, fs)
          else if sint block_number \<ge> int (length (md_blocks m)) then (READ_OUT_OF_BOUNDS, fs)
          else
            let num_hardlinks = ph_block_links fs (name, tag) (sint block_number)
            in if num_hardlinks < 0 then (-1, fs)
               else
                 let (r, fs1) = (if num_hardlinks > 2
                                 then break_sharing g fs name tag (nat (sint block_number)) m
                                 else (0, fs))
                 in if r \<noteq> 0 then (r, fs1)
                    else
                      let (rw, fs2) = write_to_logical_block g fs1 (name, tag) (sint block_number) block_data
                      in if rw < 0 then (-7, fs2) else (0, fs2))"

subsection \<open>Committing a tag\<close>

definition read_block_content :: "storage_env \<Rightarrow> fs \<Rightarrow> file_tag \<Rightarrow> nat \<Rightarrow> int \<times> bytes" where
  "read_block_content g fs k b =
     (case logical_at fs k (int b) of
        None \<Rightarrow> (-1, [])
      | Some i \<Rightarrow>
          let data = take (block_size g) (physical_blocks fs ! i)
          in (0, data @ replicate (block_size g - length data) 0))"

definition get_current_physical_block :: "fs \<Rightarrow> file_tag \<Rightarrow> nat \<Rightarrow> string option" where
  "get_current_physical_block fs k b =
     (case logical_at fs k (int b) of None \<Rightarrow> None | Some i \<Rightarrow> Some (block_name i @ ''.dat''))"

definition update_logical_block_link :: "fs \<Rightarrow> file_tag \<Rightarrow> nat \<Rightarrow> string \<Rightarrow> int \<times> fs" where
  "update_logical_block_link fs k b physical_block_name =
     (case os_remove fs k b of
        None \<Rightarrow> (-1, fs)
      | Some fs1 \<Rightarrow>
          (case physical_by_name fs1 physical_block_name of
             None \<Rightarrow> (-2, fs1)
           | Some i \<Rightarrow>
               (case os_link fs1 i k b of None \<Rightarrow> (-2, fs1) | Some fs2 \<Rightarrow> (0, fs2))))"

definition free_ph_block_if_unused :: "storage_env \<Rightarrow> fs \<Rightarrow> string \<Rightarrow> int \<times> fs" where
  "free_ph_block_if_unused g fs physical_block_name =
     (case physical_by_name fs physical_block_name of
        None \<Rightarrow> (-1, fs)
      | Some i \<Rightarrow>
          if st_nlink fs ! i > 1 then (0, fs)
          else
            let num = get_physical_block_number physical_block_name
            in if num < 0 then (-2, fs)
               else
                 let (rl, bitmap) = bitmap_load g fs
                 in if rl < 0 then (-3, fs)
                    else
                      let (rp, fs1) = bitmap_persist g fs (bitarray_clean_bit g bitmap (nat num))
                      in if rp < 0 then (-4, fs1) else (0, fs1))"

text \<open>
  One turn of the deduplication loop, on the filesystem, the metadata in memory and the hash
  index in memory.
\<close>

definition deduplicate_block ::
  "storage_env \<Rightarrow> file_tag \<Rightarrow> nat \<Rightarrow> fs \<times> t_file_metadata \<times> (string \<Rightarrow> string option) \<Rightarrow>
   int \<times> fs \<times> t_file_metadata \<times> (string \<Rightarrow> string option)" where
  "deduplicate_block g k b st =
     (let (fs, m, index) = st;
          (r, content) = read_block_content g fs k b
      in if r < 0 then (-3, fs, m, index)
         else
           let hash = crypto_md5 g content;
               physical_block_from_logical_path = block_name (md_blocks m ! b)
           in case index hash of
                None \<Rightarrow> (0, fs, m, index(hash \<mapsto> physical_block_from_logical_path))
              | Some physical_block_from_hash \<Rightarrow>
                  if physical_block_from_hash = physical_block_from_logical_path then (0, fs, m, index)
                  else
                    let (ru, fs1) = update_logical_block_link fs k b physical_block_from_hash
                    in if ru < 0 then (-5, fs1, m, index)
                       else
                         let new_physical_id = get_physical_block_number physical_block_from_hash
                         in if new_physical_id < 0 then (-6, fs1, m, index)
                            else
                              let m1 = m\<lparr>md_blocks := (md_blocks m)[b := nat new_physical_id]\<rparr>;
                                  (rf, fs2) = free_ph_block_if_unused g fs1 physical_block_from_logical_path
                              in if rf < 0 then (-7, fs2, m1, index) else (0, fs2, m1, index))"

fun deduplicate_loop ::
  "storage_env \<Rightarrow> file_tag \<Rightarrow> nat list \<Rightarrow> fs \<times> t_file_metadata \<times> (string \<Rightarrow> string option) \<Rightarrow>
   int \<times> fs \<times> t_file_metadata \<times> (string \<Rightarrow> string option)" where
  "deduplicate_loop g k [] st = (0, st)"
| "deduplicate_loop g k (b # bs) st =
     (let (r, st1) = deduplicate_block g k b st
      in if r < 0 then (r, st1) else deduplicate_loop g k bs st1)"

text \<open>The hash index is saved only when the loop ends without error.\<close>

definition deduplicate_blocks ::
  "storage_env \<Rightarrow> fs \<Rightarrow> file_tag \<Rightarrow> t_file_metadata \<Rightarrow> int \<times> fs \<times> t_file_metadata" where
  "deduplicate_blocks g fs k m =
     (if md_blocks m = [] then (0, fs, m)
      else
        let (r, fs1, m1, index) =
              deduplicate_loop g k [0..<length (md_blocks m)] (fs, m, blocks_hash_index fs)
        in if r < 0 then (r, fs1, m1) else (r, fs1\<lparr>blocks_hash_index := index\<rparr>, m1))"

definition execute_tag_commit :: "storage_env \<Rightarrow> fs \<Rightarrow> string \<Rightarrow> string \<Rightarrow> int \<times> fs" where
  "execute_tag_commit g fs name tag =
     (if \<not> file_dir_exists fs name tag then (FILE_TAG_MISSING, fs)
      else case read_file_metadata fs name tag of
        None \<Rightarrow> (FILE_TAG_MISSING, fs)
      | Some m \<Rightarrow>
          if md_state m = COMMITTED then (FILE_ALREADY_COMMITTED, fs)
          else
            let (r, fs1, m1) = deduplicate_blocks g fs (name, tag) m
            in if r < 0 then (-1, fs1)
               else
                 let (rs, fs2) = save_file_metadata fs1 name tag (m1\<lparr>md_state := COMMITTED\<rparr>)
                 in if rs < 0 then (-3, fs2) else (0, fs2))"

subsection \<open>A fresh filesystem\<close>

definition wipe_storage_content :: "fs \<Rightarrow> fs" where
  "wipe_storage_content fs =
     \<lparr>file_dirs = [], tag_dirs = (\<lambda>k. None), physical_blocks = [], st_nlink = [], bitmap_bin = [],
      blocks_hash_index = (\<lambda>h. None)\<rparr>"

definition init_bitmap :: "storage_env \<Rightarrow> fs \<Rightarrow> fs" where
  "init_bitmap g fs =
     fs\<lparr>bitmap_bin := bitarray_set_bit g (replicate ((fs_size g div block_size g + 7) div 8) 0) 0\<rparr>"

definition init_blocks_index :: "fs \<Rightarrow> fs" where
  "init_blocks_index fs = fs\<lparr>blocks_hash_index := (\<lambda>h. None)\<rparr>"

definition init_physical_blocks :: "storage_env \<Rightarrow> fs \<Rightarrow> fs" where
  "init_physical_blocks g fs =
     fs\<lparr>physical_blocks := replicate (fs_size g div block_size g) (replicate (block_size g) 0),
        st_nlink := replicate (fs_size g div block_size g) 1\<rparr>"

definition init_files :: "fs \<Rightarrow> int \<times> fs" where
  "init_files fs =
     (let (r, fs1) = create_file_dir_structure fs ''initial_file'' ''BASE''
      in if r \<noteq> 0 then (-1, fs1)
         else case os_link fs1 0 (''initial_file'', ''BASE'') 0 of
           None \<Rightarrow> (-5, fs1)
         | Some fs2 \<Rightarrow>
             let (rm, fs3) = create_metadata_file fs2 ''initial_file'' ''BASE''
                               (Some \<lparr>md_size = 0, md_blocks = [0], md_state = ''COMMITTED''\<rparr>)
             in if rm \<noteq> 0 then (-6, fs3) else (0, fs3))"

definition init_storage :: "storage_env \<Rightarrow> fs \<Rightarrow> int \<times> fs" where
  "init_storage g fs =
     (let fs1 = wipe_storage_content fs;
          fs2 = init_bitmap g fs1;
          fs3 = init_blocks_index fs2;
          fs4 = init_physical_blocks g fs3;
          (r, fs5) = init_files fs4
      in if r \<noteq> 0 then (-6, fs5) else (0, fs5))"

end
