(* ===== verification/Storage_Links.thy ===== *)
theory Storage_Links
  imports Storage_Ops
begin

text \<open>
  The invariant of the filesystem and how links, metadata and bitmap updates keep it: link
  counts are exact, and a physical block that a logical block links is marked used.
\<close>

declare split_paired_All [simp del] split_paired_Ex [simp del]

subsection \<open>Views\<close>

definition link :: "fs \<Rightarrow> file_tag \<Rightarrow> nat \<Rightarrow> nat option" where
  "link fs k b = (case tag_dirs fs k of None \<Rightarrow> None | Some d \<Rightarrow> map_of (logical_blocks d) b)"

definition links_to :: "fs \<Rightarrow> nat \<Rightarrow> (file_tag \<times> nat) set" where
  "links_to fs i = {(k, b). link fs k b = Some i}"

definition meta :: "fs \<Rightarrow> file_tag \<Rightarrow> t_file_metadata option" where
  "meta fs k = (case tag_dirs fs k of None \<Rightarrow> None | Some d \<Rightarrow> metadata_config d)"

abbreviation used :: "storage_env \<Rightarrow> fs \<Rightarrow> nat \<Rightarrow> bool" where
  "used g fs i \<equiv> bitarray_test_bit g (bitmap_bin fs) i"

lemma logical_at_int [simp]: "logical_at fs k (int b) = link fs k b"
  by (simp add: logical_at_def link_def split: option.split)

lemma logical_at_nonneg: "0 \<le> b \<Longrightarrow> logical_at fs k b = link fs k (nat b)"
  using logical_at_int [of fs k "nat b"] by simp

lemma logical_at_neg: "b < 0 \<Longrightarrow> logical_at fs k b = None"
  by (simp add: logical_at_def split: option.split)

lemma read_file_metadata_meta: "read_file_metadata fs f t = meta fs (f, t)"
  by (simp add: read_file_metadata_def meta_def)

text \<open>What the bit array of the commons library documents.\<close>

definition bitarray_ok :: "storage_env \<Rightarrow> bool" where
  "bitarray_ok g \<longleftrightarrow>
     (\<forall>bm. bitarray_get_max_bit g bm = 8 * length bm) \<and>
     (\<forall>bm i. length (bitarray_set_bit g bm i) = length bm \<and> length (bitarray_clean_bit g bm i) = length bm) \<and>
     (\<forall>bm i j. i < 8 * length bm \<longrightarrow> j < 8 * length bm \<longrightarrow>
        (bitarray_test_bit g (bitarray_set_bit g bm i) j \<longleftrightarrow> j = i \<or> bitarray_test_bit g bm j)) \<and>
     (\<forall>bm i j. i < 8 * length bm \<longrightarrow> j < 8 * length bm \<longrightarrow>
        (bitarray_test_bit g (bitarray_clean_bit g bm i) j \<longleftrightarrow> j \<noteq> i \<and> bitarray_test_bit g bm j))"

lemma bitarray_okD:
  assumes "bitarray_ok g"
  shows "bitarray_get_max_bit g bm = 8 * length bm"
    and "length (bitarray_set_bit g bm i) = length bm" and "length (bitarray_clean_bit g bm i) = length bm"
    and "i < 8 * length bm \<Longrightarrow> j < 8 * length bm \<Longrightarrow>
      bitarray_test_bit g (bitarray_set_bit g bm i) j \<longleftrightarrow> j = i \<or> bitarray_test_bit g bm j"
    and "i < 8 * length bm \<Longrightarrow> j < 8 * length bm \<Longrightarrow>
      bitarray_test_bit g (bitarray_clean_bit g bm i) j \<longleftrightarrow> j \<noteq> i \<and> bitarray_test_bit g bm j"
  using assms unfolding bitarray_ok_def by blast+

definition fs_inv :: "storage_env \<Rightarrow> fs \<Rightarrow> bool" where
  "fs_inv g fs \<longleftrightarrow>
     length (physical_blocks fs) = total_blocks g \<and> (\<forall>p \<in> set (physical_blocks fs). length p = block_size g) \<and>
     length (st_nlink fs) = total_blocks g \<and> length (bitmap_bin fs) = bitmap_size_bytes g \<and>
     finite {(k, b). link fs k b \<noteq> None} \<and>
     (\<forall>i < total_blocks g. st_nlink fs ! i = Suc (card (links_to fs i))) \<and>
     (\<forall>k b i. link fs k b = Some i \<longrightarrow> i < total_blocks g \<and> used g fs i) \<and>
     (\<forall>k d. tag_dirs fs k = Some d \<longrightarrow> distinct (map fst (logical_blocks d))) \<and>
     (\<forall>h nm. blocks_hash_index fs h = Some nm \<longrightarrow> (\<exists>i < total_blocks g. nm = block_name i)) \<and>
     (\<forall>k m. meta fs k = Some m \<longrightarrow> (\<forall>i \<in> set (md_blocks m). i < total_blocks g))"

lemma fs_invD:
  assumes "fs_inv g fs"
  shows "length (physical_blocks fs) = total_blocks g"
    and "i < total_blocks g \<Longrightarrow> length (physical_blocks fs ! i) = block_size g"
    and "length (st_nlink fs) = total_blocks g" and "length (bitmap_bin fs) = bitmap_size_bytes g"
    and "finite {(k, b). link fs k b \<noteq> None}"
    and "i < total_blocks g \<Longrightarrow> st_nlink fs ! i = Suc (card (links_to fs i))"
    and "link fs k b = Some i \<Longrightarrow> i < total_blocks g"
    and "link fs k b = Some i \<Longrightarrow> used g fs i"
    and "tag_dirs fs k = Some d \<Longrightarrow> distinct (map fst (logical_blocks d))"
    and "blocks_hash_index fs h = Some nm \<Longrightarrow> \<exists>i < total_blocks g. nm = block_name i"
    and "meta fs k = Some m \<Longrightarrow> j \<in> set (md_blocks m) \<Longrightarrow> j < total_blocks g"
  using assms unfolding fs_inv_def by auto

lemma fs_invI:
  assumes "length (physical_blocks fs) = total_blocks g"
    and "\<And>p. p \<in> set (physical_blocks fs) \<Longrightarrow> length p = block_size g"
    and "length (st_nlink fs) = total_blocks g" and "length (bitmap_bin fs) = bitmap_size_bytes g"
    and "finite {(k, b). link fs k b \<noteq> None}"
    and "\<And>i. i < total_blocks g \<Longrightarrow> st_nlink fs ! i = Suc (card (links_to fs i))"
    and "\<And>k b i. link fs k b = Some i \<Longrightarrow> i < total_blocks g \<and> used g fs i"
    and "\<And>k d. tag_dirs fs k = Some d \<Longrightarrow> distinct (map fst (logical_blocks d))"
    and "\<And>h nm. blocks_hash_index fs h = Some nm \<Longrightarrow> \<exists>i < total_blocks g. nm = block_name i"
    and "\<And>k m j. meta fs k = Some m \<Longrightarrow> j \<in> set (md_blocks m) \<Longrightarrow> j < total_blocks g"
  shows "fs_inv g fs"
  unfolding fs_inv_def using assms by blast

lemma fs_inv_sizes: "fs_inv g fs \<Longrightarrow> p \<in> set (physical_blocks fs) \<Longrightarrow> length p = block_size g"
  by (simp add: fs_inv_def)

lemma finite_links_to: "fs_inv g fs \<Longrightarrow> finite (links_to fs i)"
  by (rule finite_subset [OF _ fs_invD(5)]) (auto simp: links_to_def)

lemma total_le_bits: "total_blocks g \<le> 8 * bitmap_size_bytes g"
  by (simp add: bitmap_size_bytes_def)

text \<open>Changes to the filesystem that touch neither links nor counts nor block contents.\<close>

lemma fs_inv_cong:
  assumes "fs_inv g fs" and "tag_dirs fs' = tag_dirs fs" and "st_nlink fs' = st_nlink fs"
    and "length (physical_blocks fs') = length (physical_blocks fs)"
    and "\<forall>p \<in> set (physical_blocks fs'). length p = block_size g"
    and "length (bitmap_bin fs') = length (bitmap_bin fs)"
    and "\<And>k b i. link fs k b = Some i \<Longrightarrow> used g fs' i"
    and "\<And>h nm. blocks_hash_index fs' h = Some nm \<Longrightarrow> \<exists>i < total_blocks g. nm = block_name i"
  shows "fs_inv g fs'"
proof -
  have "link fs' = link fs" "links_to fs' = links_to fs" "meta fs' = meta fs"
    using assms(2) by (simp_all add: fun_eq_iff link_def links_to_def meta_def)
  then show ?thesis
    using assms(2-8) fs_invD(3,5) [OF assms(1)] assms(1) unfolding fs_inv_def by simp
qed

subsection \<open>Links\<close>

lemma os_link_Some:
  assumes "os_link fs i k b = Some fs'"
  shows "i < length (physical_blocks fs)" and "link fs k b = None"
    and "link fs' = (link fs)(k := (link fs k)(b := Some i))"
    and "meta fs' = meta fs" and "physical_blocks fs' = physical_blocks fs"
    and "bitmap_bin fs' = bitmap_bin fs" and "blocks_hash_index fs' = blocks_hash_index fs"
    and "file_dirs fs' = file_dirs fs" and "st_nlink fs' = (st_nlink fs)[i := Suc (st_nlink fs ! i)]"
    and "tag_dirs fs' k' = None \<longleftrightarrow> tag_dirs fs k' = None"
    and "tag_dirs fs k \<noteq> None"
    and "\<forall>k d. tag_dirs fs k = Some d \<longrightarrow> distinct (map fst (logical_blocks d)) \<Longrightarrow>
      tag_dirs fs' k' = Some d' \<Longrightarrow> distinct (map fst (logical_blocks d'))"
  using assms
  by (auto simp: os_link_def link_def meta_def add_nlink_def set_tag_def fun_eq_iff map_of_eq_None_iff
      split: option.splits if_splits)

lemma os_remove_Some:
  assumes "os_remove fs k b = Some fs'"
  obtains i where "link fs k b = Some i" and "link fs' = (link fs)(k := (link fs k)(b := None))"
    and "meta fs' = meta fs" and "physical_blocks fs' = physical_blocks fs"
    and "bitmap_bin fs' = bitmap_bin fs" and "blocks_hash_index fs' = blocks_hash_index fs"
    and "file_dirs fs' = file_dirs fs" and "st_nlink fs' = (st_nlink fs)[i := st_nlink fs ! i - 1]"
    and "\<And>k'. tag_dirs fs' k' = None \<longleftrightarrow> tag_dirs fs k' = None"
    and "\<And>k' d'. \<forall>k d. tag_dirs fs k = Some d \<longrightarrow> distinct (map fst (logical_blocks d)) \<Longrightarrow>
      tag_dirs fs' k' = Some d' \<Longrightarrow> distinct (map fst (logical_blocks d'))"
proof -
  obtain d i where d: "tag_dirs fs k = Some d" and i: "map_of (logical_blocks d) b = Some i"
    and fs': "fs' = drop_nlink (set_tag fs k
        (d\<lparr>logical_blocks := filter (\<lambda>(b', i'). b' \<noteq> b) (logical_blocks d)\<rparr>)) i"
    using assms by (auto simp: os_remove_def split: option.splits)
  have m: "map_of (filter (\<lambda>(b', i'). b' \<noteq> b) xs) = (map_of xs)(b := None)" for xs :: "(nat \<times> nat) list"
    by (induction xs) (auto simp: fun_eq_iff)
  show ?thesis
  proof (rule that [of i])
    show "link fs k b = Some i" using d i by (simp add: link_def)
    show "link fs' = (link fs)(k := (link fs k)(b := None))"
      using d m by (auto simp: fs' link_def drop_nlink_def set_tag_def fun_eq_iff)
    fix k' d' assume dis: "\<forall>k d. tag_dirs fs k = Some d \<longrightarrow> distinct (map fst (logical_blocks d))"
      and t: "tag_dirs fs' k' = Some d'"
    show "distinct (map fst (logical_blocks d'))"
    proof (cases "k' = k")
      case True
      with t have "d' = d\<lparr>logical_blocks := filter (\<lambda>(b', i'). b' \<noteq> b) (logical_blocks d)\<rparr>"
        by (simp add: fs' drop_nlink_def set_tag_def)
      with dis d show ?thesis by (simp add: distinct_map_filter)
    next
      case False
      with t dis show ?thesis by (simp add: fs' drop_nlink_def set_tag_def)
    qed
  qed (use d in \<open>auto simp: fs' drop_nlink_def set_tag_def meta_def fun_eq_iff\<close>)
qed

lemma links_to_add:
  assumes "link fs k b = None" and "link fs' = (link fs)(k := (link fs k)(b := Some i))"
  shows "links_to fs' j = (if j = i then insert (k, b) (links_to fs i) else links_to fs j)" and "(k, b) \<notin> links_to fs i"
  using assms by (auto simp: links_to_def split: if_splits)

lemma links_to_remove:
  assumes "link fs k b = Some i" and "link fs' = (link fs)(k := (link fs k)(b := None))"
  shows "links_to fs' j = (if j = i then links_to fs i - {(k, b)} else links_to fs j)" and "(k, b) \<in> links_to fs i"
  using assms by (auto simp: links_to_def split: if_splits)

lemma os_link_inv:
  assumes inv: "fs_inv g fs" and l: "os_link fs i k b = Some fs'" and u: "used g fs i"
  shows "fs_inv g fs'"
proof -
  note L = os_link_Some [OF l] and I = fs_invD [OF inv]
  note A = links_to_add [OF L(2,3)]
  have i: "i < total_blocks g" using L(1) I(1) by simp
  have fin: "finite {(k', b'). link fs' k' b' \<noteq> None}"
    by (rule finite_subset [of _ "insert (k, b) {(k, b). link fs k b \<noteq> None}"]) (use I(5) in \<open>auto simp: L(3) split: if_splits\<close>)
  have nl: "st_nlink fs' ! j = Suc (card (links_to fs' j))" if "j < total_blocks g" for j
    using that I(3,6) finite_links_to [OF inv, of i] A(2) by (cases "j = i") (simp_all add: L(9) nth_upd A(1))
  have lk: "j < total_blocks g \<and> used g fs' j" if "link fs' k' b' = Some j" for k' b' j
    using that I(7,8) [of k' b' j] i u by (auto simp: L(3,6) split: if_splits)
  have dis: "\<forall>k d. tag_dirs fs k = Some d \<longrightarrow> distinct (map fst (logical_blocks d))" using I(9) by blast
  show ?thesis
    unfolding fs_inv_def
    using I(1,3,4,10,11) inv fin nl lk L(12) [OF dis] by (simp add: L(4-7,9) fs_inv_def)
qed

lemma os_remove_inv:
  assumes inv: "fs_inv g fs" and l: "os_remove fs k b = Some fs'"
  shows "fs_inv g fs'"
  using l
proof (rule os_remove_Some)
  fix i
  assume L: "link fs k b = Some i" "link fs' = (link fs)(k := (link fs k)(b := None))" "meta fs' = meta fs"
    "physical_blocks fs' = physical_blocks fs" "bitmap_bin fs' = bitmap_bin fs"
    "blocks_hash_index fs' = blocks_hash_index fs" "st_nlink fs' = (st_nlink fs)[i := st_nlink fs ! i - 1]"
    and D: "\<And>k' d'. \<forall>k d. tag_dirs fs k = Some d \<longrightarrow> distinct (map fst (logical_blocks d)) \<Longrightarrow>
      tag_dirs fs' k' = Some d' \<Longrightarrow> distinct (map fst (logical_blocks d'))"
  note I = fs_invD [OF inv] and A = links_to_remove [OF L(1,2)]
  have fin: "finite {(k', b'). link fs' k' b' \<noteq> None}"
    by (rule finite_subset [OF _ I(5)]) (auto simp: L(2) split: if_splits)
  have nl: "st_nlink fs' ! j = Suc (card (links_to fs' j))" if "j < total_blocks g" for j
  proof (cases "j = i")
    case True
    have "card (links_to fs i) = Suc (card (links_to fs i - {(k, b)}))"
      using card.remove [OF finite_links_to [OF inv] A(2)] .
    with True that I(3) I(6) [of i] show ?thesis by (simp add: L(7) A(1) nth_upd)
  next
    case False
    with that I(6) show ?thesis by (simp add: L(7) A(1) nth_upd)
  qed
  have lk: "j < total_blocks g \<and> used g fs' j" if "link fs' k' b' = Some j" for k' b' j
    using that I(7,8) [of k' b' j] by (auto simp: L(2,5) split: if_splits)
  have dis: "\<forall>k d. tag_dirs fs k = Some d \<longrightarrow> distinct (map fst (logical_blocks d))" using I(9) by blast
  show "fs_inv g fs'"
    unfolding fs_inv_def
    using I(1,3,4,10,11) inv fin nl lk D [OF dis] by (simp add: L(3-7) fs_inv_def)
qed

text \<open>Metadata.\<close>

lemma set_meta_inv:
  assumes inv: "fs_inv g fs" and d: "tag_dirs fs k = Some d"
    and m: "\<And>i. i \<in> set (md_blocks m) \<Longrightarrow> i < total_blocks g"
  defines "fs' \<equiv> set_tag fs k (d\<lparr>metadata_config := Some m\<rparr>)"
  shows "fs_inv g fs'" and "link fs' = link fs" and "meta fs' = (meta fs)(k := Some m)"
proof -
  show l: "link fs' = link fs" and mt: "meta fs' = (meta fs)(k := Some m)"
    using d by (auto simp: fs'_def set_tag_def link_def meta_def fun_eq_iff)
  have lt: "links_to fs' = links_to fs" using l by (simp add: links_to_def fun_eq_iff)
  have same: "physical_blocks fs' = physical_blocks fs" "st_nlink fs' = st_nlink fs"
    "bitmap_bin fs' = bitmap_bin fs" "blocks_hash_index fs' = blocks_hash_index fs"
    by (simp_all add: fs'_def set_tag_def)
  show "fs_inv g fs'"
  proof (rule fs_invI)
    show "distinct (map fst (logical_blocks d'))" if "tag_dirs fs' k' = Some d'" for k' d'
      using that fs_invD(9) [OF inv d] fs_invD(9) [OF inv, of k' d'] by (auto simp: fs'_def set_tag_def split: if_splits)
    show "j < total_blocks g" if "meta fs' k' = Some m'" "j \<in> set (md_blocks m')" for k' m' j
      using that m fs_invD(11) [OF inv, of k' m' j] by (auto simp: mt split: if_splits)
    show "j < total_blocks g \<and> used g fs' j" if "link fs' k' b = Some j" for k' b j
      using that fs_invD(7,8) [OF inv, of k' b j] by (simp add: l same)
    show "\<exists>i<total_blocks g. nm = block_name i" if "blocks_hash_index fs' h = Some nm" for h nm
      using that fs_invD(10) [OF inv, of h nm] by (simp add: same)
  qed (use fs_inv_sizes [OF inv] fs_invD(1,3,4,5,6) [OF inv] in \<open>simp_all add: same l lt\<close>)
qed

end
