(* ===== verification/Storage_Correct.thy ===== *)
theory Storage_Correct
  imports Storage_Links
begin

text \<open>
  Every operation of the Storage process keeps the filesystem invariant, touches only the
  File:Tag it names (\<open>spares\<close>), and does to that one what it promises.
\<close>

subsection \<open>What a File:Tag holds\<close>

definition content :: "fs \<Rightarrow> string \<Rightarrow> string \<Rightarrow> nat \<Rightarrow> bytes option" where
  "content fs f t b =
     (case meta fs (f, t) of
        None \<Rightarrow> None
      | Some m \<Rightarrow>
          if b < length (md_blocks m) \<and> b < 2 ^ 31
          then map_option (\<lambda>i. physical_blocks fs ! i) (link fs (f, t) b) else None)"

definition spares :: "file_tag \<Rightarrow> fs \<Rightarrow> fs \<Rightarrow> bool" where
  "spares k fs fs' \<longleftrightarrow>
     (\<forall>k'. k' \<noteq> k \<longrightarrow> link fs' k' = link fs k' \<and> meta fs' k' = meta fs k' \<and>
        (tag_dirs fs' k' = None \<longleftrightarrow> tag_dirs fs k' = None)) \<and>
     (\<forall>k' b i. k' \<noteq> k \<longrightarrow> link fs k' b = Some i \<longrightarrow> physical_blocks fs' ! i = physical_blocks fs ! i)"

lemma spares_refl [simp]: "spares k fs fs"
  by (simp add: spares_def)

lemma spares_trans: "spares k fs fs1 \<Longrightarrow> spares k fs1 fs2 \<Longrightarrow> spares k fs fs2"
  unfolding spares_def by metis

lemma sparesD:
  assumes "spares k fs fs'" and "k' \<noteq> k"
  shows "link fs' k' = link fs k'" and "meta fs' k' = meta fs k'"
    and "tag_dirs fs' k' = None \<longleftrightarrow> tag_dirs fs k' = None"
    and "link fs k' b = Some i \<Longrightarrow> physical_blocks fs' ! i = physical_blocks fs ! i"
  using assms unfolding spares_def by blast+

lemma spares_content:
  assumes s: "spares k fs fs'" and n: "(f, t) \<noteq> k"
  shows "content fs' f t b = content fs f t b"
proof -
  have "map_option (\<lambda>i. physical_blocks fs' ! i) (link fs' (f, t) b) =
      map_option (\<lambda>i. physical_blocks fs ! i) (link fs (f, t) b)"
    unfolding sparesD(1) [OF s n] using sparesD(4) [OF s n, of b] by (cases "link fs (f, t) b") simp_all
  then show ?thesis unfolding content_def sparesD(2) [OF s n] by (simp split: option.split)
qed

subsection \<open>The bitmap\<close>

lemma store_whole: "length bs = length s \<Longrightarrow> store_at 0 bs s = bs"
  by (simp add: store_at_def)

lemma modify_bitmap_one:
  assumes b: "bitarray_ok g" and inv: "fs_inv g fs"
  shows "modify_bitmap_bits g fs i 1 False = (0, fs\<lparr>bitmap_bin := bitarray_clean_bit g (bitmap_bin fs) i\<rparr>)"
  using fs_invD(4) [OF inv] bitarray_okD(3) [OF b]
  by (simp add: modify_bitmap_bits_def set_bitmap_bits_def store_whole)

lemma clean_bit_inv:
  assumes b: "bitarray_ok g" and inv: "fs_inv g fs" and i: "i < total_blocks g" and n: "st_nlink fs ! i = 1"
  shows "fs_inv g (fs\<lparr>bitmap_bin := bitarray_clean_bit g (bitmap_bin fs) i\<rparr>)"
proof (rule fs_inv_cong [OF inv])
  have "links_to fs i = {}"
    using fs_invD(6) [OF inv i] n finite_links_to [OF inv, of i] by simp
  then have no: "link fs k b \<noteq> Some i" for k b by (auto simp: links_to_def)
  fix k b' j assume l: "link fs k b' = Some j"
  note fs_invD(7,8) [OF inv l]
  moreover have "j \<noteq> i" using l no [of k b'] by auto
  ultimately show "used g (fs\<lparr>bitmap_bin := bitarray_clean_bit g (bitmap_bin fs) i\<rparr>) j"
    using bitarray_okD(5) [OF b, of i "bitmap_bin fs" j] i total_le_bits [of g] fs_invD(4) [OF inv] by simp
qed (use fs_inv_sizes [OF inv] fs_invD(10) [OF inv] bitarray_okD(3) [OF b] in auto)

lemma set_bit_inv:
  assumes b: "bitarray_ok g" and inv: "fs_inv g fs" and i: "i < 8 * bitmap_size_bytes g"
  shows "fs_inv g (fs\<lparr>bitmap_bin := bitarray_set_bit g (bitmap_bin fs) i\<rparr>)"
proof (rule fs_inv_cong [OF inv])
  fix k b' j assume l: "link fs k b' = Some j"
  from fs_invD(7,8) [OF inv l] show "used g (fs\<lparr>bitmap_bin := bitarray_set_bit g (bitmap_bin fs) i\<rparr>) j"
    using bitarray_okD(4) [OF b, of i "bitmap_bin fs" j] i total_le_bits [of g] fs_invD(4) [OF inv] by simp
qed (use fs_inv_sizes [OF inv] fs_invD(10) [OF inv] bitarray_okD(2) [OF b] in auto)

lemma link_bitmap [simp]:
  "link (fs\<lparr>bitmap_bin := bm\<rparr>) = link fs" "meta (fs\<lparr>bitmap_bin := bm\<rparr>) = meta fs"
  "link (fs\<lparr>blocks_hash_index := ix\<rparr>) = link fs" "meta (fs\<lparr>blocks_hash_index := ix\<rparr>) = meta fs"
  "link (fs\<lparr>physical_blocks := ph\<rparr>) = link fs" "meta (fs\<lparr>physical_blocks := ph\<rparr>) = meta fs"
  by (simp_all add: fun_eq_iff link_def meta_def)

lemma spares_bitmap [simp]: "spares k fs (fs\<lparr>bitmap_bin := bm\<rparr>)"
  by (simp add: spares_def)

subsection \<open>Deleting logical blocks\<close>

lemma os_remove_spares:
  assumes "os_remove fs k b = Some fs'"
  shows "spares k fs fs'"
  using assms by (rule os_remove_Some) (auto simp: spares_def)

lemma os_link_spares:
  assumes "os_link fs i k b = Some fs'"
  shows "spares k fs fs'"
  using os_link_Some [OF assms] by (auto simp: spares_def)

lemma os_remove_iff: "os_remove fs k b = None \<longleftrightarrow> link fs k b = None"
  by (simp add: os_remove_def link_def split: option.split)

lemma os_link_iff: "os_link fs i k b = None \<longleftrightarrow>
  tag_dirs fs k = None \<or> length (physical_blocks fs) \<le> i \<or> link fs k b \<noteq> None"
  by (auto simp: os_link_def link_def split: option.split)

lemma delete_logical_block_ok:
  assumes b: "bitarray_ok g" and inv: "fs_inv g fs"
    and d: "delete_logical_block g fs f t lb i = (r, fs')"
  shows "fs_inv g fs'" and "spares (f, t) fs fs'" and "link fs' (f, t) = (link fs (f, t))(lb := None)"
    and "meta fs' = meta fs" and "physical_blocks fs' = physical_blocks fs"
    and "blocks_hash_index fs' = blocks_hash_index fs"
    and "tag_dirs fs' k = None \<longleftrightarrow> tag_dirs fs k = None"
    and "link fs (f, t) lb \<noteq> None \<Longrightarrow> i < total_blocks g \<Longrightarrow> r = 0"
proof -
  have "fs_inv g fs' \<and> spares (f, t) fs fs' \<and> link fs' (f, t) = (link fs (f, t))(lb := None) \<and>
    meta fs' = meta fs \<and> physical_blocks fs' = physical_blocks fs \<and>
    blocks_hash_index fs' = blocks_hash_index fs \<and>
    (tag_dirs fs' k = None \<longleftrightarrow> tag_dirs fs k = None) \<and>
    (link fs (f, t) lb \<noteq> None \<longrightarrow> i < total_blocks g \<longrightarrow> r = 0)"
  proof (cases "os_remove fs (f, t) lb")
    case None
    with d inv os_remove_iff [of fs "(f, t)" lb] show ?thesis
      by (auto simp: delete_logical_block_def fun_upd_idem)
  next
    case (Some fs1)
    note inv1 = os_remove_inv [OF inv Some] and sp = os_remove_spares [OF Some]
    from Some obtain j where R: "link fs1 = (link fs)((f, t) := (link fs (f, t))(lb := None))"
      "meta fs1 = meta fs" "physical_blocks fs1 = physical_blocks fs"
      "blocks_hash_index fs1 = blocks_hash_index fs" "tag_dirs fs1 k = None \<longleftrightarrow> tag_dirs fs k = None"
      by (rule os_remove_Some) blast
    show ?thesis
    proof (cases "i < total_blocks g \<and> st_nlink fs1 ! i = 1")
      case True
      then have "fs' = fs1\<lparr>bitmap_bin := bitarray_clean_bit g (bitmap_bin fs1) i\<rparr> \<and> r = 0"
        using d Some modify_bitmap_one [OF b inv1, of i] fs_invD(1) [OF inv1] by (simp add: delete_logical_block_def)
      then show ?thesis
        using clean_bit_inv [OF b inv1] True sp R spares_trans [OF sp spares_bitmap] by simp
    next
      case False
      then have "fs' = fs1" "i < total_blocks g \<longrightarrow> r = 0"
        using d Some fs_invD(1) [OF inv1] by (auto simp: delete_logical_block_def split: if_splits)
      with inv1 sp R show ?thesis by simp
    qed
  qed
  then show "fs_inv g fs'" and "spares (f, t) fs fs'" and "link fs' (f, t) = (link fs (f, t))(lb := None)"
    and "meta fs' = meta fs" and "physical_blocks fs' = physical_blocks fs"
    and "blocks_hash_index fs' = blocks_hash_index fs"
    and "tag_dirs fs' k = None \<longleftrightarrow> tag_dirs fs k = None"
    and "link fs (f, t) lb \<noteq> None \<Longrightarrow> i < total_blocks g \<Longrightarrow> r = 0" by blast+
qed

lemma shrink_links_ok:
  assumes b: "bitarray_ok g"
  shows "fs_inv g fs \<Longrightarrow> fs_inv g (shrink_links g fs f t blocks bs) \<and>
    spares (f, t) fs (shrink_links g fs f t blocks bs) \<and>
    link (shrink_links g fs f t blocks bs) (f, t) = (\<lambda>b. if b \<in> set bs then None else link fs (f, t) b) \<and>
    meta (shrink_links g fs f t blocks bs) = meta fs \<and>
    physical_blocks (shrink_links g fs f t blocks bs) = physical_blocks fs \<and>
    (\<forall>k. tag_dirs (shrink_links g fs f t blocks bs) k = None \<longleftrightarrow> tag_dirs fs k = None)"
proof (induction bs arbitrary: fs)
  case Nil
  then show ?case by (simp add: shrink_links_def)
next
  case (Cons lb bs)
  obtain r fs1 where d: "delete_logical_block g fs f t lb (blocks ! lb) = (r, fs1)" by (metis surj_pair)
  note D = delete_logical_block_ok [OF b Cons.prems d]
  have eq: "shrink_links g fs f t blocks (lb # bs) = shrink_links g fs1 f t blocks bs"
    using d by (simp add: shrink_links_def)
  from Cons.IH [OF D(1)] show ?case
    unfolding eq using D(2-7) spares_trans [OF D(2)] by (auto simp: fun_eq_iff)
qed

lemma expand_links_ok:
  "fs_inv g fs \<Longrightarrow> used g fs 0 \<Longrightarrow> expand_links fs k bs = (ok, fs') \<Longrightarrow>
   fs_inv g fs' \<and> spares k fs fs' \<and> meta fs' = meta fs \<and> physical_blocks fs' = physical_blocks fs \<and>
   (\<forall>k'. tag_dirs fs' k' = None \<longleftrightarrow> tag_dirs fs k' = None) \<and> used g fs' 0 \<and>
   (ok \<longrightarrow> link fs' k = (\<lambda>b. if b \<in> set bs then Some 0 else link fs k b)) \<and>
   (distinct bs \<longrightarrow> (\<forall>b \<in> set bs. link fs k b = None) \<longrightarrow> tag_dirs fs k \<noteq> None \<longrightarrow> 0 < total_blocks g \<longrightarrow> ok)"
proof (induction bs arbitrary: fs)
  case Nil
  then show ?case by simp
next
  case (Cons b bs)
  show ?case
  proof (cases "os_link fs 0 k b")
    case None
    with Cons.prems fs_invD(1) [OF Cons.prems(1)] show ?thesis by (auto simp: os_link_iff)
  next
    case (Some fs1)
    note L = os_link_Some [OF Some]
    have inv1: "fs_inv g fs1" by (rule os_link_inv [OF Cons.prems(1) Some Cons.prems(2)])
    have u1: "used g fs1 0" using Cons.prems(2) by (simp add: L(6))
    from Cons.prems(3) Some have "expand_links fs1 k bs = (ok, fs')" by simp
    note IH = Cons.IH [OF inv1 u1 this]
    have "tag_dirs fs1 k' = None \<longleftrightarrow> tag_dirs fs k' = None" for k' using L(10) .
    then show ?thesis
      using IH spares_trans [OF os_link_spares [OF Some]] by (auto simp: L(3-5) fun_eq_iff)
  qed
qed

subsection \<open>The initial file and the zero block\<close>

abbreviation base_tag :: file_tag where
  "base_tag \<equiv> (''initial_file'', ''BASE'')"

definition base_ok :: "storage_env \<Rightarrow> fs \<Rightarrow> bool" where
  "base_ok g fs \<longleftrightarrow> link fs base_tag 0 = Some 0 \<and>
     (\<exists>m. meta fs base_tag = Some m \<and> md_state m = COMMITTED) \<and>
     physical_blocks fs ! 0 = replicate (block_size g) 0"

definition fs_ok :: "storage_env \<Rightarrow> fs \<Rightarrow> bool" where
  "fs_ok g fs \<longleftrightarrow> fs_inv g fs \<and> base_ok g fs"

lemma fs_okD: "fs_ok g fs \<Longrightarrow> fs_inv g fs" "fs_ok g fs \<Longrightarrow> base_ok g fs"
  by (simp_all add: fs_ok_def)

lemma base_used: "fs_ok g fs \<Longrightarrow> used g fs 0" "fs_ok g fs \<Longrightarrow> 0 < total_blocks g"
  using fs_invD(7,8) [of g fs base_tag 0 0] by (auto simp: fs_ok_def base_ok_def)

lemma spares_base: "spares k fs fs' \<Longrightarrow> k \<noteq> base_tag \<Longrightarrow> base_ok g fs \<Longrightarrow> base_ok g fs'"
  using sparesD [of k fs fs' base_tag] by (auto simp: base_ok_def)

text \<open>Link for link: the directory has exactly the blocks of its metadata.\<close>

definition whole :: "fs \<Rightarrow> file_tag \<Rightarrow> bool" where
  "whole fs k \<longleftrightarrow> (\<forall>m. meta fs k = Some m \<longrightarrow> (\<forall>b. link fs k b \<noteq> None \<longleftrightarrow> b < length (md_blocks m)))"

lemma meta_dir: "meta fs k = Some m \<Longrightarrow> \<exists>d. tag_dirs fs k = Some d"
  by (auto simp: meta_def split: option.splits)

lemma save_metadata_ok:
  assumes inv: "fs_inv g fs" and d: "tag_dirs fs (f, t) \<noteq> None"
    and m: "\<And>i. i \<in> set (md_blocks m) \<Longrightarrow> i < total_blocks g"
    and s: "save_file_metadata fs f t m = (r, fs')"
  shows "r = 0" and "fs_inv g fs'" and "spares (f, t) fs fs'" and "link fs' = link fs"
    and "meta fs' = (meta fs)((f, t) := Some m)" and "physical_blocks fs' = physical_blocks fs"
    and "tag_dirs fs' k = None \<longleftrightarrow> tag_dirs fs k = None"
    and "bitmap_bin fs' = bitmap_bin fs" and "blocks_hash_index fs' = blocks_hash_index fs"
proof -
  obtain dd where dd: "tag_dirs fs (f, t) = Some dd" using d by blast
  then have e: "r = 0" "fs' = set_tag fs (f, t) (dd\<lparr>metadata_config := Some m\<rparr>)"
    using s by (auto simp: save_file_metadata_def)
  note S = set_meta_inv [OF inv dd m]
  show "r = 0" by (rule e(1))
  show "fs_inv g fs'" "link fs' = link fs" "meta fs' = (meta fs)((f, t) := Some m)"
    using S unfolding e(2) by blast+
  then show "spares (f, t) fs fs'" by (auto simp: spares_def e(2) set_tag_def)
  show "physical_blocks fs' = physical_blocks fs" "tag_dirs fs' k = None \<longleftrightarrow> tag_dirs fs k = None"
    "bitmap_bin fs' = bitmap_bin fs" "blocks_hash_index fs' = blocks_hash_index fs"
    using dd by (auto simp: e(2) set_tag_def)
qed

subsection \<open>Truncating\<close>

lemma truncate_ok:
  assumes b: "bitarray_ok g" and ok: "fs_ok g fs" and n: "(f, t) \<noteq> base_tag"
    and tr: "truncate_file g fs f t sz = (r, fs')"
  shows "fs_ok g fs' \<and> spares (f, t) fs fs'"
proof (cases "meta fs (f, t)")
  case None
  then show ?thesis using tr ok by (auto simp: truncate_file_def read_file_metadata_meta)
next
  case (Some m)
  note inv = fs_okD(1) [OF ok]
  obtain d where d: "tag_dirs fs (f, t) = Some d" using meta_dir [OF Some] by blast
  let ?old = "length (md_blocks m)"
  define cnt where "cnt = (sz + int (block_size g) - 1) sdiv int (block_size g)"
  have mb: "i \<in> set (md_blocks m) \<Longrightarrow> i < total_blocks g" for i using fs_invD(11) [OF inv Some] .
  have fin: "fs_ok g fs' \<and> spares (f, t) fs fs'"
    if s: "spares (f, t) fs fs1" "fs_inv g fs1" "tag_dirs fs1 (f, t) \<noteq> None"
      and sv: "save_file_metadata fs1 f t m1 = (r1, fs')" and m1: "\<And>i. i \<in> set (md_blocks m1) \<Longrightarrow> i < total_blocks g"
    for fs1 m1 r1
  proof -
    note S = save_metadata_ok [OF s(2,3) m1 sv]
    have "spares (f, t) fs fs'" by (rule spares_trans [OF s(1) S(3)])
    with S(2) spares_base [OF _ n fs_okD(2) [OF ok]] show ?thesis by (simp add: fs_ok_def)
  qed
  have eq: "truncate_file g fs f t sz =
      (if cnt = int ?old then
         (let (r, fs1) = save_file_metadata fs f t (m\<lparr>md_size := sz\<rparr>) in if r \<noteq> 0 then (-4, fs1) else (0, fs1))
       else if cnt < 0 then (-3, fs)
       else
         let (ok, fs1) = (if nat cnt < ?old then (True, shrink_links g fs f t (md_blocks m) [nat cnt..<?old])
                          else expand_links fs (f, t) [?old..<nat cnt])
         in if \<not> ok then (-2, fs1)
            else
              let (r, fs2) = save_file_metadata fs1 f t
                    (m\<lparr>md_blocks := take (nat cnt) (md_blocks m) @ replicate (nat cnt - ?old) 0, md_size := sz\<rparr>)
              in if r \<noteq> 0 then (-4, fs2) else (0, fs2))"
    by (simp only: truncate_file_def read_file_metadata_meta Some option.case cnt_def Let_def)
  have new: "\<And>i. i \<in> set (take (nat cnt) (md_blocks m) @ replicate (nat cnt - ?old) 0) \<Longrightarrow> i < total_blocks g"
    using mb base_used(2) [OF ok] by (auto dest: in_set_takeD)
  consider (same) "cnt = int ?old" | (neg) "cnt < 0" | (shrink) "0 \<le> cnt" "nat cnt < ?old" | (grow) "?old < nat cnt"
    by linarith
  then show ?thesis
  proof cases
    case same
    obtain r1 fs1 where sv: "save_file_metadata fs f t (m\<lparr>md_size := sz\<rparr>) = (r1, fs1)" by (metis surj_pair)
    with tr same eq have "fs' = fs1" by (auto split: if_splits)
    with fin [of fs "m\<lparr>md_size := sz\<rparr>" r1] sv inv d mb show ?thesis by simp
  next
    case neg
    with tr eq ok show ?thesis by (auto split: if_splits)
  next
    case shrink
    let ?s = "shrink_links g fs f t (md_blocks m) [nat cnt..<?old]"
    let ?m = "m\<lparr>md_blocks := take (nat cnt) (md_blocks m) @ replicate (nat cnt - ?old) 0, md_size := sz\<rparr>"
    note S = shrink_links_ok [OF b inv, of f t "md_blocks m" "[nat cnt..<?old]"]
    obtain r1 fs1 where sv: "save_file_metadata ?s f t ?m = (r1, fs1)" by (metis surj_pair)
    with tr shrink eq have "fs' = fs1" by (auto simp: Let_def split: if_splits)
    with fin [of ?s ?m r1] sv S new d show ?thesis by simp
  next
    case grow
    obtain k1 s where ex: "expand_links fs (f, t) [?old..<nat cnt] = (k1, s)" by (metis surj_pair)
    note E = expand_links_ok [OF inv base_used(1) [OF ok] ex]
    let ?m = "m\<lparr>md_blocks := take (nat cnt) (md_blocks m) @ replicate (nat cnt - ?old) 0, md_size := sz\<rparr>"
    obtain r1 fs1 where sv: "save_file_metadata s f t ?m = (r1, fs1)" by (metis surj_pair)
    show ?thesis
    proof (cases k1)
      case True
      with tr grow eq ex sv have "fs' = fs1" by (auto simp: Let_def split: if_splits)
      with fin [of s ?m r1] sv E new d show ?thesis by simp
    next
      case False
      with tr grow eq ex have "fs' = s" by (auto simp: Let_def split: if_splits)
      with E spares_base [OF _ n fs_okD(2) [OF ok]] show ?thesis by (simp add: fs_ok_def)
    qed
  qed
qed


subsection \<open>Writing\<close>

lemma logical_write_ok:
  assumes inv: "fs_inv g fs" and l: "link fs k b = Some i" and only: "links_to fs i = {(k, b)}"
    and data: "length data = block_size g"
  defines "fs' \<equiv> fs\<lparr>physical_blocks := (physical_blocks fs)[i := data]\<rparr>"
  shows "fs_inv g fs'" and "spares k fs fs'"
    and "\<And>b' i'. b' \<noteq> b \<Longrightarrow> link fs k b' = Some i' \<Longrightarrow> physical_blocks fs' ! i' = physical_blocks fs ! i'"
    and "physical_blocks fs' ! i = data"
proof -
  have i: "i < length (physical_blocks fs)" using fs_invD(1,7) [OF inv] l by simp
  have other: "(k', b') = (k, b)" if "link fs k' b' = Some i" for k' b'
    using only that by (auto simp: links_to_def)
  show "fs_inv g fs'"
  proof (rule fs_inv_cong [OF inv])
    show "\<forall>p \<in> set (physical_blocks fs'). length p = block_size g"
      using fs_inv_sizes [OF inv] data set_update_subset_insert [of "physical_blocks fs" i data]
      by (auto simp: fs'_def)
  qed (use fs_invD(8,10) [OF inv] in \<open>auto simp: fs'_def\<close>)
  show "spares k fs fs'"
    unfolding spares_def using other by (auto simp: fs'_def nth_upd)
  show "b' \<noteq> b \<Longrightarrow> link fs k b' = Some i' \<Longrightarrow> physical_blocks fs' ! i' = physical_blocks fs ! i'" for b' i'
    using other [of k b'] by (auto simp: fs'_def nth_upd)
  show "physical_blocks fs' ! i = data" using i by (simp add: fs'_def)
qed

definition padded :: "storage_env \<Rightarrow> bytes \<Rightarrow> bytes" where
  "padded g data = take (block_size g) data @ replicate (block_size g - length data) 0"

lemma length_padded [simp]: "length (padded g data) = block_size g"
  by (simp add: padded_def)

lemma write_to_logical_block_eq:
  assumes inv: "fs_inv g fs" and l: "link fs k b = Some i"
  shows "write_to_logical_block g fs k (int b) data =
    (0, fs\<lparr>physical_blocks := (physical_blocks fs)[i := padded g data]\<rparr>)"
  using fs_invD(2) [OF inv fs_invD(7) [OF inv l]] l
  by (simp add: write_to_logical_block_def padded_def [symmetric] store_whole)

text \<open>
  Breaking the sharing of a block: on success the logical block has a physical block of its
  own; on failure it may have lost its link, and nothing else has changed.
\<close>

lemma break_sharing_ok:
  assumes ba: "bitarray_ok g" and inv: "fs_inv g fs" and m: "meta fs (f, t) = Some m"
    and b: "b < length (md_blocks m)" and br: "break_sharing g fs f t b m = (r, fs')"
  shows "fs_inv g fs' \<and> spares (f, t) fs fs' \<and>
    (\<forall>b'. b' \<noteq> b \<longrightarrow> link fs' (f, t) b' = link fs (f, t) b') \<and> physical_blocks fs' = physical_blocks fs \<and>
    (if r = 0 then \<exists>i. link fs' (f, t) b = Some i \<and> links_to fs' i = {((f, t), b)} \<and>
         meta fs' (f, t) = Some (m\<lparr>md_blocks := (md_blocks m)[b := i]\<rparr>)
     else meta fs' = meta fs)"
proof (cases "os_remove fs (f, t) b")
  case None
  with br inv show ?thesis by (auto simp: break_sharing_def)
next
  case (Some fs1)
  note inv1 = os_remove_inv [OF inv Some] and sp1 = os_remove_spares [OF Some]
  from Some obtain R: "link fs1 = (link fs)((f, t) := (link fs (f, t))(b := None))" "meta fs1 = meta fs"
    "physical_blocks fs1 = physical_blocks fs" by (rule os_remove_Some) blast
  have load: "bitmap_load g fs1 = (0, bitmap_bin fs1)" using fs_invD(4) [OF inv1] by (simp add: bitmap_load_def)
  show ?thesis
  proof (cases "find (\<lambda>i. \<not> used g fs1 i) [0..<bitarray_get_max_bit g (bitmap_bin fs1)]")
    case None
    then have "r = NOT_ENOUGH_SPACE" "fs' = fs1"
      using br Some load by (auto simp: break_sharing_def get_free_bit_index_def)
    then show ?thesis using inv1 sp1 R by (simp add: NOT_ENOUGH_SPACE_def)
  next
    case free: (Some i)
    from find_upt_Some [OF free] have i: "i < 8 * bitmap_size_bytes g" "\<not> used g fs1 i"
      using bitarray_okD(1) [OF ba] fs_invD(4) [OF inv1] by auto
    let ?fs2 = "fs1\<lparr>bitmap_bin := bitarray_set_bit g (bitmap_bin fs1) i\<rparr>"
    have idx: "get_free_bit_index g (bitmap_bin fs1) = int i" using free by (simp add: get_free_bit_index_def)
    have per: "bitmap_persist g fs1 (bitarray_set_bit g (bitmap_bin fs1) i) = (0, ?fs2)"
      using fs_invD(4) [OF inv1] bitarray_okD(2) [OF ba] by (simp add: bitmap_persist_def store_whole)
    note inv2 = set_bit_inv [OF ba inv1 i(1)]
    have sp2: "spares (f, t) fs ?fs2" by (rule spares_trans [OF sp1 spares_bitmap])
    show ?thesis
    proof (cases "os_link ?fs2 i (f, t) b")
      case None
      then have "r = -5" "fs' = ?fs2"
        using br Some load idx per i(1) by (auto simp: break_sharing_def create_new_hardlink_def)
      then show ?thesis using inv2 sp2 R by simp
    next
      case lk: (Some fs3)
      note L = os_link_Some [OF lk]
      have tot: "i < total_blocks g" using L(1) fs_invD(1) [OF inv2] by simp
      have u2: "used g ?fs2 i"
        using bitarray_okD(4) [OF ba, of i "bitmap_bin fs1" i] i(1) fs_invD(4) [OF inv1] by simp
      note inv3 = os_link_inv [OF inv2 lk u2]
      have "links_to ?fs2 i = {}" using i(2) fs_invD(8) [OF inv1] by (auto simp: links_to_def)
      then have lt3: "links_to fs3 i = {((f, t), b)}"
        using links_to_add(1) [OF L(2,3), of i] by simp
      let ?m = "m\<lparr>md_blocks := (md_blocks m)[b := i]\<rparr>"
      have mb: "j \<in> set (md_blocks ?m) \<Longrightarrow> j < total_blocks g" for j
        using fs_invD(11) [OF inv m, of j] tot set_update_subset_insert [of "md_blocks m" b i] by auto
      have d3: "tag_dirs fs3 (f, t) \<noteq> None" using L(10,11) by simp
      obtain rs fs4 where sv: "save_file_metadata fs3 f t ?m = (rs, fs4)" by (metis surj_pair)
      note S = save_metadata_ok [OF inv3 d3 mb sv]
      have res: "r = 0" "fs' = fs4"
        using br Some load idx per i(1) lk sv S(1) by (auto simp: break_sharing_def create_new_hardlink_def)
      have "spares (f, t) fs fs4" by (rule spares_trans [OF spares_trans [OF sp2 os_link_spares [OF lk]] S(3)])
      moreover have "links_to fs4 i = {((f, t), b)}" using lt3 S(4) by (simp add: links_to_def)
      ultimately show ?thesis
        using res S(2,4,5,6) R L(3,4,5) by auto
    qed
  qed
qed


lemma content_same:
  assumes "meta fs' (f, t) = Some m'" and "meta fs (f, t) = Some m"
    and "length (md_blocks m') = length (md_blocks m)" and "link fs' (f, t) b = link fs (f, t) b"
    and "\<And>i. link fs (f, t) b = Some i \<Longrightarrow> physical_blocks fs' ! i = physical_blocks fs ! i"
  shows "content fs' f t b = content fs f t b"
  using assms by (cases "link fs (f, t) b") (simp_all add: content_def)

lemma single_link:
  assumes inv: "fs_inv g fs" and l: "link fs k b = Some i" and n: "st_nlink fs ! i \<le> 2"
  shows "links_to fs i = {(k, b)}"
proof -
  have "card (links_to fs i) \<le> Suc 0" using fs_invD(6) [OF inv fs_invD(7) [OF inv l]] n by simp
  then have "\<forall>x \<in> links_to fs i. \<forall>y \<in> links_to fs i. x = y"
    by (simp add: card_le_Suc0_iff_eq [OF finite_links_to [OF inv]])
  moreover have "(k, b) \<in> links_to fs i" using l by (simp add: links_to_def)
  ultimately show ?thesis by blast
qed

text \<open>
  A block write: only the named block changes; on success it holds the data, zero padded to
  the size of a block.
\<close>

lemma block_write_ok:
  assumes ba: "bitarray_ok g" and inv: "fs_inv g fs"
    and w: "execute_block_write g fs f t bn data = (r, fs')"
  shows "fs_inv g fs'" and "spares (f, t) fs fs'"
    and "b' \<noteq> unat bn \<Longrightarrow> content fs' f t b' = content fs f t b'"
    and "r = 0 \<Longrightarrow> content fs' f t (unat bn) = Some (padded g data)"
    and "meta fs (f, t) = Some m \<Longrightarrow> md_state m = COMMITTED \<Longrightarrow> fs' = fs"
proof -
  have fail: "fs_inv g fs' \<and> spares (f, t) fs fs' \<and> (\<forall>b'. b' \<noteq> unat bn \<longrightarrow> content fs' f t b' = content fs f t b') \<and>
      (r = 0 \<longrightarrow> content fs' f t (unat bn) = Some (padded g data))"
    if "fs' = fs" "r \<noteq> 0" using that inv by simp
  have "fs_inv g fs' \<and> spares (f, t) fs fs' \<and> (\<forall>b'. b' \<noteq> unat bn \<longrightarrow> content fs' f t b' = content fs f t b') \<and>
      (r = 0 \<longrightarrow> content fs' f t (unat bn) = Some (padded g data))"
  proof (cases "meta fs (f, t)")
    case None
    then show ?thesis using w by (intro fail) (auto simp: execute_block_write_def read_file_metadata_meta FILE_TAG_MISSING_def split: if_splits)
  next
    case (Some m)
    have dir: "file_dir_exists fs f t" using meta_dir [OF Some] by (auto simp: file_dir_exists_def)
    show ?thesis
    proof (cases "md_state m = COMMITTED \<or> sint bn \<ge> int (length (md_blocks m)) \<or> ph_block_links fs (f, t) (sint bn) < 0")
      case True
      then show ?thesis using w dir Some
        by (intro fail)
          (auto simp: execute_block_write_def read_file_metadata_meta FILE_ALREADY_COMMITTED_def READ_OUT_OF_BOUNDS_def split: if_splits)
    next
      case False
      then have lk: "logical_at fs (f, t) (sint bn) \<noteq> None"
        by (cases "logical_at fs (f, t) (sint bn)") (auto simp: ph_block_links_def)
      then have "0 \<le> sint bn" using logical_at_neg [of "sint bn" fs "(f, t)"] by (meson not_less)
      define b where "b = unat bn"
      note sb = sint32_nat [OF \<open>0 \<le> sint bn\<close>, folded b_def]
      obtain i where l: "link fs (f, t) b = Some i" using lk sb(1) by auto
      have bl: "b < length (md_blocks m)" using False sb(1) by simp
      have nl: "ph_block_links fs (f, t) (sint bn) = int (st_nlink fs ! i)"
        using l sb(1) by (simp add: ph_block_links_def)
      obtain r1 fs1 where br: "(if st_nlink fs ! i > 2 then break_sharing g fs f t b m else (0, fs)) = (r1, fs1)"
        by (metis surj_pair)
      have w': "(if r1 \<noteq> 0 then (r1, fs1)
          else let (rw, fs2) = write_to_logical_block g fs1 (f, t) (int b) data
               in if rw < 0 then (-7, fs2) else (0, fs2)) = (r, fs')"
        using w dir Some False br nl
        unfolding execute_block_write_def read_file_metadata_meta sb(1) nat_int by (simp add: Let_def)
      have B: "fs_inv g fs1 \<and> spares (f, t) fs fs1 \<and>
          (\<forall>b'. b' \<noteq> b \<longrightarrow> link fs1 (f, t) b' = link fs (f, t) b') \<and> physical_blocks fs1 = physical_blocks fs \<and>
          (if r1 = 0 then \<exists>j m'. link fs1 (f, t) b = Some j \<and> links_to fs1 j = {((f, t), b)} \<and>
               meta fs1 (f, t) = Some m' \<and> length (md_blocks m') = length (md_blocks m)
           else meta fs1 = meta fs)"
      proof (cases "st_nlink fs ! i > 2")
        case True
        with br have "break_sharing g fs f t b m = (r1, fs1)" by simp
        note bs = break_sharing_ok [OF ba inv Some bl this]
        then show ?thesis by (cases "r1 = 0") auto
      next
        case False
        with br have "r1 = 0" "fs1 = fs" by auto
        with single_link [OF inv l] False l inv Some show ?thesis by simp
      qed
      show ?thesis
      proof (cases "r1 = 0")
        case nz: False
        with w' have "r = r1" "fs' = fs1" by auto
        with B nz Some content_same [of fs1 f t m fs m] show ?thesis unfolding b_def by auto
      next
        case z: True
        then obtain j m' where j: "link fs1 (f, t) b = Some j" "links_to fs1 j = {((f, t), b)}"
          "meta fs1 (f, t) = Some m'" "length (md_blocks m') = length (md_blocks m)" using B by auto
        have inv1: "fs_inv g fs1" using B by blast
        let ?fs2 = "fs1\<lparr>physical_blocks := (physical_blocks fs1)[j := padded g data]\<rparr>"
        note W = logical_write_ok [where data = "padded g data", OF inv1 j(1,2) length_padded]
        have res: "r = 0" "fs' = ?fs2"
          using w' z write_to_logical_block_eq [OF inv1 j(1), of data] by auto
        have "content fs' f t b' = content fs f t b'" if "b' \<noteq> b" for b'
        proof (rule content_same [OF _ Some j(4)])
          show "meta fs' (f, t) = Some m'" using res j(3) by simp
          show lb: "link fs' (f, t) b' = link fs (f, t) b'" using res B that by simp
          show "physical_blocks fs' ! i' = physical_blocks fs ! i'" if "link fs (f, t) b' = Some i'" for i'
            using W(3) [OF \<open>b' \<noteq> b\<close>, of i'] lb that res B by simp
        qed
        moreover have "content fs' f t b = Some (padded g data)"
          using res j W(4) bl sb(2) by (simp add: content_def)
        moreover have "fs_inv g fs'" "spares (f, t) fs fs'"
          using W(1,2) res B spares_trans by blast+
        ultimately show ?thesis unfolding b_def by blast
      qed
    qed
  qed
  then show "fs_inv g fs'" and "spares (f, t) fs fs'"
    and "b' \<noteq> unat bn \<Longrightarrow> content fs' f t b' = content fs f t b'"
    and "r = 0 \<Longrightarrow> content fs' f t (unat bn) = Some (padded g data)" by blast+
  show "fs' = fs" if "meta fs (f, t) = Some m" "md_state m = COMMITTED"
    using w that meta_dir [OF that(1)]
    by (auto simp: execute_block_write_def read_file_metadata_meta file_dir_exists_def split: if_splits)
qed

text \<open>A block read returns exactly what the File:Tag holds there.\<close>

lemma block_read_ok:
  assumes inv: "fs_inv g fs" and rd: "execute_block_read g fs f t bn = (r, d)"
  shows "r = 0 \<longleftrightarrow> content fs f t (unat bn) \<noteq> None" and "r = 0 \<Longrightarrow> content fs f t (unat bn) = Some d"
proof -
  have "(r = 0 \<longleftrightarrow> content fs f t (unat bn) \<noteq> None) \<and> (r = 0 \<longrightarrow> content fs f t (unat bn) = Some d)"
  proof (cases "meta fs (f, t)")
    case None
    then show ?thesis using rd
      by (auto simp: execute_block_read_def read_file_metadata_meta content_def FILE_TAG_MISSING_def split: if_splits)
  next
    case (Some m)
    have dir: "file_dir_exists fs f t" using meta_dir [OF Some] by (auto simp: file_dir_exists_def)
    show ?thesis
    proof (cases "0 \<le> sint bn")
      case False
      then have big: "\<not> unat bn < 2 ^ 31"
        using sint32_small(2) [of "unat bn"] by auto
      have "r = -1" using rd dir Some False logical_at_neg [of "sint bn" fs "(f, t)"]
        by (auto simp: execute_block_read_def read_file_metadata_meta read_from_logical_block_def split: if_splits)
      with big Some show ?thesis by (simp add: content_def)
    next
      case True
      define b where "b = unat bn"
      note sb = sint32_nat [OF True, folded b_def]
      show ?thesis
      proof (cases "b < length (md_blocks m)")
        case False
        then show ?thesis using rd dir Some sb
          by (auto simp: execute_block_read_def read_file_metadata_meta content_def READ_OUT_OF_BOUNDS_def b_def [symmetric]
              split: if_splits)
      next
        case len: True
        then show ?thesis
          using rd dir Some sb fs_invD(2,7) [OF inv]
          by (cases "link fs (f, t) b")
            (auto simp: execute_block_read_def read_file_metadata_meta content_def read_from_logical_block_def Let_def b_def [symmetric])
      qed
    qed
  qed
  then show "r = 0 \<longleftrightarrow> content fs f t (unat bn) \<noteq> None" and "r = 0 \<Longrightarrow> content fs f t (unat bn) = Some d" by blast+
qed


end
