(* ===== verification/Serialization.thy ===== *)
theory Serialization
  imports Prelude
begin

text \<open>
  The wire format all four processes share: \<^verbatim>\<open>utils/src/connection/serialization.c\<close>.
  A \<^verbatim>\<open>t_buffer\<close> is a record over the bytes of its stream; every writer and reader is one
  definition, with the result flag (or the value read) beside the new buffer, so that what a
  failing call does to the buffer is explicit. \<^verbatim>\<open>size_t\<close> values are natural numbers (they
  measure objects in memory, so sums of two of them do not wrap); \<^verbatim>\<open>uint8_t\<close>,
  \<^verbatim>\<open>uint16_t\<close> and \<^verbatim>\<open>uint32_t\<close> are words. A socket delivers the bytes of its peer in
  fragments of any size, as \<^verbatim>\<open>recv\<close> may.
\<close>

subsection \<open>Buffers\<close>

record t_buffer =
  buf_size :: nat
  stream :: bytes
  offset :: nat
  is_dynamic :: bool

definition MAX_STRING_LENGTH :: nat where
  "MAX_STRING_LENGTH = 1024 * 1024"

definition MAX_DATA_SIZE :: nat where
  "MAX_DATA_SIZE = 10 * 1024 * 1024"

definition MAX_BUFFER_SIZE :: nat where
  "MAX_BUFFER_SIZE = 100 * 1024 * 1024"

definition buffer_create :: "nat \<Rightarrow> t_buffer option" where
  "buffer_create n =
     (if n = 0 then None
      else Some \<lparr>buf_size = n, stream = replicate n 0, offset = 0, is_dynamic = False\<rparr>)"

definition buffer_create_dynamic :: t_buffer where
  "buffer_create_dynamic =
     \<lparr>buf_size = 256, stream = replicate 256 0, offset = 0, is_dynamic = True\<rparr>"

text \<open>
  The doubling loop of \<^verbatim>\<open>buffer_expand\<close>. From size 0 the C loop would not end; no buffer
  has size 0 (\<open>buffer_ok\<close> below), and the function stops there to be total.
\<close>

function expand_size :: "nat \<Rightarrow> nat \<Rightarrow> nat" where
  "expand_size new_size required =
     (if 0 < new_size \<and> new_size < required then expand_size (new_size * 2) required
      else new_size)"
  by pat_completeness auto
termination
  by (relation "measure (\<lambda>(new_size, required). required - new_size)") auto

declare expand_size.simps [simp del]

definition buffer_expand :: "t_buffer \<Rightarrow> nat \<Rightarrow> bool \<times> t_buffer" where
  "buffer_expand b required_size =
     (if \<not> is_dynamic b then (False, b)
      else
        let new_size = expand_size (buf_size b) (offset b + required_size)
        in if new_size > MAX_BUFFER_SIZE then (False, b)
           else (True, b\<lparr>stream := stream b @ replicate (new_size - buf_size b) 0,
                         buf_size := new_size\<rparr>))"

definition buffer_reset_offset :: "t_buffer \<Rightarrow> t_buffer" where
  "buffer_reset_offset b = b\<lparr>offset := 0\<rparr>"

definition buffer_has_capacity :: "t_buffer \<Rightarrow> nat \<Rightarrow> bool \<times> t_buffer" where
  "buffer_has_capacity b required_size =
     (if is_dynamic b \<and> buf_size b - offset b < required_size
      then buffer_expand b required_size
      else (required_size \<le> buf_size b - offset b, b))"

definition buffer_check_capacity :: "t_buffer \<Rightarrow> nat \<Rightarrow> bool" where
  "buffer_check_capacity b required_size \<longleftrightarrow> required_size \<le> buf_size b - offset b"

definition buffer_remaining_capacity :: "t_buffer \<Rightarrow> nat" where
  "buffer_remaining_capacity b = buf_size b - offset b"

definition buffer_used_size :: "t_buffer \<Rightarrow> nat" where
  "buffer_used_size b = offset b"

subsection \<open>Network byte order\<close>

text \<open>
  The bytes \<^verbatim>\<open>htons\<close> and \<^verbatim>\<open>htonl\<close> leave in memory: most significant first, whatever the
  byte order of the host.
\<close>

definition htons_bytes :: "u16 \<Rightarrow> bytes" where
  "htons_bytes v = [ucast (drop_bit 8 v), ucast v]"

definition htonl_bytes :: "u32 \<Rightarrow> bytes" where
  "htonl_bytes v =
     [ucast (drop_bit 24 v), ucast (drop_bit 16 v), ucast (drop_bit 8 v), ucast v]"

definition ntohs_bytes :: "bytes \<Rightarrow> u16" where
  "ntohs_bytes bs = push_bit 8 (ucast (bs ! 0)) OR ucast (bs ! 1)"

definition ntohl_bytes :: "bytes \<Rightarrow> u32" where
  "ntohl_bytes bs =
     push_bit 24 (ucast (bs ! 0)) OR push_bit 16 (ucast (bs ! 1)) OR
     push_bit 8 (ucast (bs ! 2)) OR ucast (bs ! 3)"

lemma length_htons [simp]: "length (htons_bytes v) = 2"
  by (simp add: htons_bytes_def)

lemma length_htonl [simp]: "length (htonl_bytes v) = 4"
  by (simp add: htonl_bytes_def)

lemma ntohs_htons [simp]: "ntohs_bytes (htons_bytes v) = v"
  by (rule bit_word_eqI) (auto simp: ntohs_bytes_def htons_bytes_def bit_simps)

lemma ntohl_htonl [simp]: "ntohl_bytes (htonl_bytes v) = v"
proof (rule bit_word_eqI)
  fix n
  assume "n < LENGTH(32)"
  then consider "n < 8" | "8 \<le> n" "n < 16" | "16 \<le> n" "n < 24" | "24 \<le> n" "n < 32"
    by fastforce
  then show "bit (ntohl_bytes (htonl_bytes v)) n = bit v n"
    by cases (auto simp: ntohl_bytes_def htonl_bytes_def bit_simps)
qed

subsection \<open>Writers\<close>

text \<open>\<^verbatim>\<open>memcpy(stream + offset, bs, n); offset += n\<close>: the tail of every writer.\<close>

definition buffer_put :: "bytes \<Rightarrow> t_buffer \<Rightarrow> t_buffer" where
  "buffer_put bs b =
     b\<lparr>stream := store_at (offset b) bs (stream b), offset := offset b + length bs\<rparr>"

definition buffer_write_uint8 :: "t_buffer \<Rightarrow> u8 \<Rightarrow> bool \<times> t_buffer" where
  "buffer_write_uint8 b v =
     (let (ok, b1) = buffer_has_capacity b 1
      in if \<not> ok then (False, b1) else (True, buffer_put [v] b1))"

definition buffer_write_int8 :: "t_buffer \<Rightarrow> u8 \<Rightarrow> bool \<times> t_buffer" where
  "buffer_write_int8 b v =
     (let (ok, b1) = buffer_has_capacity b 1
      in if \<not> ok then (False, b1) else (True, buffer_put [v] b1))"

definition buffer_write_uint16 :: "t_buffer \<Rightarrow> u16 \<Rightarrow> bool \<times> t_buffer" where
  "buffer_write_uint16 b v =
     (let (ok, b1) = buffer_has_capacity b 2
      in if \<not> ok then (False, b1) else (True, buffer_put (htons_bytes v) b1))"

definition buffer_write_uint32 :: "t_buffer \<Rightarrow> u32 \<Rightarrow> bool \<times> t_buffer" where
  "buffer_write_uint32 b v =
     (let (ok, b1) = buffer_has_capacity b 4
      in if \<not> ok then (False, b1) else (True, buffer_put (htonl_bytes v) b1))"

text \<open>The length is a \<^verbatim>\<open>uint32_t\<close>: it is taken modulo \<open>2 ^ 32\<close>, as in the source.\<close>

definition buffer_write_string :: "t_buffer \<Rightarrow> bytes \<Rightarrow> bool \<times> t_buffer" where
  "buffer_write_string b s =
     (let str_length = (word_of_nat (length (c_string s)) :: u32);
          total_size = 4 + unat str_length;
          (ok, b1) = buffer_has_capacity b total_size
      in if \<not> ok then (False, b1)
         else
           let (ok2, b2) = buffer_write_uint32 b1 str_length
           in if \<not> ok2 then (False, b2)
              else (True, buffer_put (take (unat str_length) s) b2))"

text \<open>
  \<^verbatim>\<open>buffer_write_data\<close>: the capacity test uses the \<^verbatim>\<open>size_t\<close>, the length field the low 32
  bits.
\<close>

definition buffer_write_data :: "t_buffer \<Rightarrow> bytes \<Rightarrow> bool \<times> t_buffer" where
  "buffer_write_data b data =
     (if length data = 0 then (False, b)
      else
        let (ok, b1) = buffer_has_capacity b (4 + length data)
        in if \<not> ok then (False, b1)
           else
             let (ok2, b2) = buffer_write_uint32 b1 (word_of_nat (length data))
             in if \<not> ok2 then (False, b2) else (True, buffer_put data b2))"

subsection \<open>Readers\<close>

text \<open>\<^verbatim>\<open>memcpy(value, stream + offset, n); offset += n\<close>: the tail of every reader.\<close>

definition buffer_get :: "nat \<Rightarrow> t_buffer \<Rightarrow> bytes \<times> t_buffer" where
  "buffer_get n b = (region (offset b) n (stream b), b\<lparr>offset := offset b + n\<rparr>)"

definition buffer_read_uint8 :: "t_buffer \<Rightarrow> u8 option \<times> t_buffer" where
  "buffer_read_uint8 b =
     (if \<not> buffer_check_capacity b 1 then (None, b)
      else let (bs, b1) = buffer_get 1 b in (Some (bs ! 0), b1))"

definition buffer_read_int8 :: "t_buffer \<Rightarrow> u8 option \<times> t_buffer" where
  "buffer_read_int8 b =
     (if \<not> buffer_check_capacity b 1 then (None, b)
      else let (bs, b1) = buffer_get 1 b in (Some (bs ! 0), b1))"

definition buffer_read_uint16 :: "t_buffer \<Rightarrow> u16 option \<times> t_buffer" where
  "buffer_read_uint16 b =
     (if \<not> buffer_check_capacity b 2 then (None, b)
      else let (bs, b1) = buffer_get 2 b in (Some (ntohs_bytes bs), b1))"

definition buffer_read_uint32 :: "t_buffer \<Rightarrow> u32 option \<times> t_buffer" where
  "buffer_read_uint32 b =
     (if \<not> buffer_check_capacity b 4 then (None, b)
      else let (bs, b1) = buffer_get 4 b in (Some (ntohl_bytes bs), b1))"

definition buffer_read_string :: "t_buffer \<Rightarrow> bytes option \<times> t_buffer" where
  "buffer_read_string b =
     (case buffer_read_uint32 b of
        (None, b1) \<Rightarrow> (None, b1)
      | (Some len, b1) \<Rightarrow>
          if unat len > MAX_STRING_LENGTH \<or> \<not> buffer_check_capacity b1 (unat len)
          then (None, b1\<lparr>offset := offset b1 - 4\<rparr>)
          else let (bs, b2) = buffer_get (unat len) b1 in (Some bs, b2))"

text \<open>
  \<^verbatim>\<open>buffer_read_data\<close> tests the capacity with the writers' helper, which grows a dynamic
  buffer.
\<close>

definition buffer_read_data :: "t_buffer \<Rightarrow> bytes option \<times> t_buffer" where
  "buffer_read_data b =
     (case buffer_read_uint32 b of
        (None, b1) \<Rightarrow> (None, b1)
      | (Some len, b1) \<Rightarrow>
          if unat len > MAX_DATA_SIZE then (None, b1\<lparr>offset := offset b1 - 4\<rparr>)
          else
            let (ok, b2) = buffer_has_capacity b1 (unat len)
            in if \<not> ok then (None, b2\<lparr>offset := offset b2 - 4\<rparr>)
               else let (bs, b3) = buffer_get (unat len) b2 in (Some bs, b3))"

subsection \<open>Packages\<close>

record t_package =
  operation_code :: u8
  buffer :: t_buffer

definition package_create :: "u8 \<Rightarrow> t_buffer option \<Rightarrow> t_package option" where
  "package_create op ob =
     (case ob of None \<Rightarrow> None | Some b \<Rightarrow> Some \<lparr>operation_code = op, buffer = b\<rparr>)"

definition package_create_empty :: "u8 \<Rightarrow> t_package" where
  "package_create_empty op = \<lparr>operation_code = op, buffer = buffer_create_dynamic\<rparr>"

definition on_buffer :: "(t_buffer \<Rightarrow> 'r \<times> t_buffer) \<Rightarrow> t_package \<Rightarrow> 'r \<times> t_package" where
  "on_buffer f p = (let (r, b) = f (buffer p) in (r, p\<lparr>buffer := b\<rparr>))"

definition package_add_uint8 :: "t_package \<Rightarrow> u8 \<Rightarrow> bool \<times> t_package" where
  "package_add_uint8 p v = on_buffer (\<lambda>b. buffer_write_uint8 b v) p"

definition package_add_int8 :: "t_package \<Rightarrow> u8 \<Rightarrow> bool \<times> t_package" where
  "package_add_int8 p v = on_buffer (\<lambda>b. buffer_write_int8 b v) p"

definition package_add_uint16 :: "t_package \<Rightarrow> u16 \<Rightarrow> bool \<times> t_package" where
  "package_add_uint16 p v = on_buffer (\<lambda>b. buffer_write_uint16 b v) p"

definition package_add_uint32 :: "t_package \<Rightarrow> u32 \<Rightarrow> bool \<times> t_package" where
  "package_add_uint32 p v = on_buffer (\<lambda>b. buffer_write_uint32 b v) p"

definition package_add_string :: "t_package \<Rightarrow> bytes \<Rightarrow> bool \<times> t_package" where
  "package_add_string p s = on_buffer (\<lambda>b. buffer_write_string b s) p"

definition package_add_data :: "t_package \<Rightarrow> bytes \<Rightarrow> bool \<times> t_package" where
  "package_add_data p data =
     (if length data = 0 then (False, p) else on_buffer (\<lambda>b. buffer_write_data b data) p)"

definition package_read_uint8 :: "t_package \<Rightarrow> u8 option \<times> t_package" where
  "package_read_uint8 p = on_buffer buffer_read_uint8 p"

definition package_read_int8 :: "t_package \<Rightarrow> u8 option \<times> t_package" where
  "package_read_int8 p = on_buffer buffer_read_int8 p"

definition package_read_uint16 :: "t_package \<Rightarrow> u16 option \<times> t_package" where
  "package_read_uint16 p = on_buffer buffer_read_uint16 p"

definition package_read_uint32 :: "t_package \<Rightarrow> u32 option \<times> t_package" where
  "package_read_uint32 p = on_buffer buffer_read_uint32 p"

definition package_read_string :: "t_package \<Rightarrow> bytes option \<times> t_package" where
  "package_read_string p = on_buffer buffer_read_string p"

definition package_read_data :: "t_package \<Rightarrow> bytes option \<times> t_package" where
  "package_read_data p = on_buffer buffer_read_data p"

definition package_reset_read_offset :: "t_package \<Rightarrow> t_package" where
  "package_reset_read_offset p = p\<lparr>buffer := buffer_reset_offset (buffer p)\<rparr>"

definition package_get_data_size :: "t_package \<Rightarrow> nat" where
  "package_get_data_size p = buffer_used_size (buffer p)"

subsection \<open>Sockets\<close>

text \<open>
  The bytes of a package on the wire: opcode, size of the buffer in network order, the whole
  stream (its size, not its offset). \<open>send\<close> is the system call: how many of the bytes
  offered it took. The result is the return value and the bytes that left.
\<close>

definition package_bytes :: "t_package \<Rightarrow> bytes" where
  "package_bytes p =
     (let buffer_size = (word_of_nat (buf_size (buffer p)) :: u32)
      in [operation_code p] @ htonl_bytes buffer_size @ take (unat buffer_size) (stream (buffer p)))"

definition package_send :: "(int \<Rightarrow> bytes \<Rightarrow> int) \<Rightarrow> t_package \<Rightarrow> int \<Rightarrow> int \<times> bytes" where
  "package_send send p socket =
     (if socket < 0 then (-1, [])
      else
        let serialized = package_bytes p;
            bytes_sent = send socket serialized
        in (if bytes_sent \<noteq> int (length serialized) then -1 else 0,
            take (nat bytes_sent) serialized))"

text \<open>
  The receiving end: the bytes still to come before the peer closes, and the largest
  fragment each successive \<^verbatim>\<open>recv\<close> delivers (a fragment has at least one byte; where the
  list runs out a call delivers all it is asked for). At the end of the bytes \<^verbatim>\<open>recv\<close>
  returns 0 for a closed connection and -1 for a broken one.
\<close>

record socket_in =
  inbox :: bytes
  fragments :: "nat list"
  broken :: bool

definition recv :: "socket_in \<Rightarrow> nat \<Rightarrow> (int \<times> bytes) \<times> socket_in" where
  "recv s n =
     (if inbox s = [] then ((if broken s then -1 else 0, []), s)
      else
        let limit = (case fragments s of [] \<Rightarrow> n | f # _ \<Rightarrow> min n (max 1 f));
            got = take limit (inbox s)
        in ((int (length got), got),
            s\<lparr>inbox := drop limit (inbox s), fragments := tl (fragments s)\<rparr>))"

lemma recv_result: "((r, got), s1) = recv s n \<Longrightarrow> r \<le> 0 \<or> r = int (length got)"
  by (simp add: recv_def Let_def split: if_splits)

lemma recv_progress:
  assumes "((r, got), s1) = recv s (n - k)" and "k < n" and "\<not> r \<le> 0"
  shows "n - (k + length got) < n - k"
  using recv_result [OF assms(1)] assms(2,3) by (cases got) auto

text \<open>
  \<^verbatim>\<open>recv_all\<close>: the loop until \<open>length\<close> bytes are in. \<open>acc\<close> holds the bytes received
  so far; the result is the return value, the bytes and the socket.
\<close>

function recv_all :: "socket_in \<Rightarrow> nat \<Rightarrow> bytes \<Rightarrow> (int \<times> bytes) \<times> socket_in" where
  "recv_all s n acc =
     (if length acc < n then
        let ((received, got), s1) = recv s (n - length acc)
        in if received \<le> 0 then ((received, acc), s1)
           else recv_all s1 n (acc @ got)
      else ((int (length acc), acc), s))"
  by pat_completeness auto
termination
  by (relation "measure (\<lambda>(s, n, acc). n - length acc)") (auto intro: recv_progress)

declare recv_all.simps [simp del]

definition package_receive :: "socket_in \<Rightarrow> int \<Rightarrow> t_package option \<times> socket_in" where
  "package_receive s socket =
     (if socket < 0 then (None, s)
      else
        let ((r1, op), s1) = recv_all s 1 []
        in if r1 \<noteq> 1 then (None, s1)
           else
             let ((r2, net_buffer_size), s2) = recv_all s1 4 []
             in if r2 \<noteq> 4 then (None, s2)
                else
                  let buffer_size = unat (ntohl_bytes net_buffer_size)
                  in if buffer_size > MAX_BUFFER_SIZE then (None, s2)
                     else
                       case buffer_create buffer_size of
                         None \<Rightarrow> (None, s2)
                       | Some b \<Rightarrow>
                           let ((r3, data), s3) = recv_all s2 buffer_size []
                           in if r3 \<noteq> int buffer_size then (None, s3)
                              else (Some \<lparr>operation_code = op ! 0, buffer = b\<lparr>stream := data\<rparr>\<rparr>, s3))"

definition calculate_string_size :: "bytes option \<Rightarrow> nat" where
  "calculate_string_size s = 4 + (case s of None \<Rightarrow> 0 | Some v \<Rightarrow> length (c_string v))"

definition calculate_data_size :: "nat \<Rightarrow> nat" where
  "calculate_data_size n = 4 + n"

definition calculate_total_size :: "nat list \<Rightarrow> nat" where
  "calculate_total_size sizes = sum_list sizes"

subsection \<open>Well-formed buffers\<close>

text \<open>
  What every operation keeps: the stream is as long as the recorded size, the offset stays
  inside it, no buffer is empty and none is larger than what \<open>package_receive\<close> accepts.
\<close>

definition buffer_ok :: "t_buffer \<Rightarrow> bool" where
  "buffer_ok b \<longleftrightarrow> length (stream b) = buf_size b \<and> offset b \<le> buf_size b \<and> 0 < buf_size b \<and>
     buf_size b \<le> MAX_BUFFER_SIZE"

text \<open>The bytes written so far.\<close>

definition written :: "t_buffer \<Rightarrow> bytes" where
  "written b = take (offset b) (stream b)"

lemma buffer_create_ok: "buffer_create n = Some b \<Longrightarrow> n \<le> MAX_BUFFER_SIZE \<Longrightarrow> buffer_ok b"
  by (auto simp: buffer_create_def buffer_ok_def split: if_splits)

lemma buffer_create_dynamic_ok [simp]: "buffer_ok buffer_create_dynamic"
  by (simp add: buffer_create_dynamic_def buffer_ok_def MAX_BUFFER_SIZE_def)

lemma written_create_dynamic [simp]: "written buffer_create_dynamic = []"
  by (simp add: buffer_create_dynamic_def written_def)

lemma buffer_reset_ok: "buffer_ok b \<Longrightarrow> buffer_ok (buffer_reset_offset b)"
  by (simp add: buffer_ok_def buffer_reset_offset_def)

lemma expand_size_ge: "0 < n \<Longrightarrow> m \<le> expand_size n m \<and> n \<le> expand_size n m"
proof (induction n m rule: expand_size.induct)
  case (1 n m)
  then show ?case
    by (cases "n < m") (auto simp: expand_size.simps [of n m])
qed

lemma buffer_has_capacity_spec:
  assumes ok: "buffer_ok b" and cap: "buffer_has_capacity b n = (r, b1)"
  shows "buffer_ok b1" and "offset b1 = offset b" and "written b1 = written b"
    and "is_dynamic b1 = is_dynamic b"
    and "r \<Longrightarrow> offset b + n \<le> buf_size b1" and "\<not> r \<Longrightarrow> b1 = b"
proof -
  have ge: "offset b + n \<le> expand_size (buf_size b) (offset b + n)"
    "buf_size b \<le> expand_size (buf_size b) (offset b + n)"
    using ok expand_size_ge by (auto simp: buffer_ok_def)
  note defs = buffer_has_capacity_def buffer_expand_def buffer_ok_def written_def Let_def
  show "buffer_ok b1" "offset b1 = offset b" "written b1 = written b"
    "is_dynamic b1 = is_dynamic b" "r \<Longrightarrow> offset b + n \<le> buf_size b1" "\<not> r \<Longrightarrow> b1 = b"
    using ok cap ge by (auto simp: defs split: if_splits)
qed

lemma buffer_put_spec:
  assumes "buffer_ok b" and "offset b + length bs \<le> buf_size b"
  shows "buffer_ok (buffer_put bs b)" and "written (buffer_put bs b) = written b @ bs"
    and "is_dynamic (buffer_put bs b) = is_dynamic b"
proof -
  have "length (take (offset b) (stream b)) = offset b"
    using assms by (simp add: buffer_ok_def)
  then show "buffer_ok (buffer_put bs b)" "written (buffer_put bs b) = written b @ bs"
    "is_dynamic (buffer_put bs b) = is_dynamic b"
    using assms by (simp_all add: buffer_put_def buffer_ok_def written_def store_at_def)
qed


subsection \<open>The codec contract\<close>

text \<open>
  What a writer and its reader promise each other. \<open>enc\<close> is the encoding on the wire of a
  value, \<open>valid\<close> says which values the reader accepts. A writer that reports success
  has appended the encoding; a reader positioned at the encoding of a valid value returns
  that value and stops behind it.
\<close>

locale wire_codec =
  fixes wr :: "t_buffer \<Rightarrow> 'v \<Rightarrow> bool \<times> t_buffer"
    and rd :: "t_buffer \<Rightarrow> 'v option \<times> t_buffer"
    and enc :: "'v \<Rightarrow> bytes"
    and valid :: "'v \<Rightarrow> bool"
  assumes write_ok: "\<lbrakk>buffer_ok b; valid v; wr b v = (r, b')\<rbrakk> \<Longrightarrow>
      buffer_ok b' \<and> is_dynamic b' = is_dynamic b \<and>
      written b' = (if r then written b @ enc v else written b)"
    and read_ok: "\<lbrakk>buffer_ok b; valid v; drop (offset b) (stream b) = enc v @ rest\<rbrakk> \<Longrightarrow>
      rd b = (Some v, b\<lparr>offset := offset b + length (enc v)\<rparr>)"
begin

text \<open>Written, rewound and read back from the same buffer, a first field comes back.\<close>

lemma write_reset_read:
  assumes "buffer_ok b" and "offset b = 0" and "valid v" and "wr b v = (True, b')"
  shows "fst (rd (buffer_reset_offset b')) = Some v"
proof -
  from write_ok [OF assms(1,3,4)] assms(2)
  have ok: "buffer_ok b'" and w: "written b' = enc v"
    by (auto simp: written_def)
  have "drop 0 (stream b') = enc v @ drop (offset b') (stream b')"
    using w by (simp add: written_def) (metis append_take_drop_id)
  with read_ok [of "buffer_reset_offset b'" v] ok assms(3) show ?thesis
    by (simp add: buffer_reset_ok) (simp add: buffer_reset_offset_def)
qed

end

subsection \<open>Every field kind satisfies the contract\<close>

lemma has_capacity_enough [simp]:
  "offset b + n \<le> buf_size b \<Longrightarrow> buffer_has_capacity b n = (True, b)"
  by (auto simp: buffer_has_capacity_def)

lemma put_with_capacity:
  assumes ok: "buffer_ok b" and n: "n = length bs"
    and eq: "(let (ok, b1) = buffer_has_capacity b n
              in if \<not> ok then (False, b1) else (True, buffer_put bs b1)) = (r, b')"
  shows "buffer_ok b' \<and> is_dynamic b' = is_dynamic b \<and>
    written b' = (if r then written b @ bs else written b)"
proof -
  obtain c b1 where cap: "buffer_has_capacity b n = (c, b1)"
    by fastforce
  note c = buffer_has_capacity_spec [OF ok cap]
  show ?thesis
  proof (cases c)
    case True
    with c n have "offset b1 + length bs \<le> buf_size b1" by simp
    with buffer_put_spec [OF c(1)] c eq cap True show ?thesis by auto
  next
    case False
    with c eq cap ok show ?thesis by auto
  qed
qed

lemma get_at:
  assumes "buffer_ok b" and "drop (offset b) (stream b) = bs @ rest"
  shows "buffer_check_capacity b (length bs)"
    and "buffer_get (length bs) b = (bs, b\<lparr>offset := offset b + length bs\<rparr>)"
proof -
  have "length (stream b) - offset b = length bs + length rest"
    using arg_cong [OF assms(2), of length] by simp
  with assms show "buffer_check_capacity b (length bs)"
    and "buffer_get (length bs) b = (bs, b\<lparr>offset := offset b + length bs\<rparr>)"
    by (auto simp: buffer_check_capacity_def buffer_ok_def buffer_get_def region_def)
qed

interpretation uint8: wire_codec buffer_write_uint8 buffer_read_uint8 "\<lambda>v. [v]" "\<lambda>_. True"
proof unfold_locales
  fix b b' :: t_buffer and v r
  assume "buffer_ok b" "buffer_write_uint8 b v = (r, b')"
  then show "buffer_ok b' \<and> is_dynamic b' = is_dynamic b \<and>
      written b' = (if r then written b @ [v] else written b)"
    by (intro put_with_capacity [of b 1]) (auto simp: buffer_write_uint8_def)
next
  fix b :: t_buffer and v rest
  assume "buffer_ok b" "drop (offset b) (stream b) = [v] @ rest"
  from get_at [OF this] show "buffer_read_uint8 b = (Some v, b\<lparr>offset := offset b + length [v]\<rparr>)"
    by (simp add: buffer_read_uint8_def)
qed

interpretation int8: wire_codec buffer_write_int8 buffer_read_int8 "\<lambda>v. [v]" "\<lambda>_. True"
proof unfold_locales
  fix b b' :: t_buffer and v r
  assume "buffer_ok b" "buffer_write_int8 b v = (r, b')"
  then show "buffer_ok b' \<and> is_dynamic b' = is_dynamic b \<and>
      written b' = (if r then written b @ [v] else written b)"
    by (intro put_with_capacity [of b 1]) (auto simp: buffer_write_int8_def)
next
  fix b :: t_buffer and v rest
  assume "buffer_ok b" "drop (offset b) (stream b) = [v] @ rest"
  from get_at [OF this] show "buffer_read_int8 b = (Some v, b\<lparr>offset := offset b + length [v]\<rparr>)"
    by (simp add: buffer_read_int8_def)
qed

interpretation uint16: wire_codec buffer_write_uint16 buffer_read_uint16 htons_bytes "\<lambda>_. True"
proof unfold_locales
  fix b b' :: t_buffer and v r
  assume "buffer_ok b" "buffer_write_uint16 b v = (r, b')"
  then show "buffer_ok b' \<and> is_dynamic b' = is_dynamic b \<and>
      written b' = (if r then written b @ htons_bytes v else written b)"
    by (intro put_with_capacity [of b 2]) (auto simp: buffer_write_uint16_def)
next
  fix b :: t_buffer and v rest
  assume "buffer_ok b" "drop (offset b) (stream b) = htons_bytes v @ rest"
  from get_at [OF this]
  show "buffer_read_uint16 b = (Some v, b\<lparr>offset := offset b + length (htons_bytes v)\<rparr>)"
    by (simp add: buffer_read_uint16_def)
qed

interpretation uint32: wire_codec buffer_write_uint32 buffer_read_uint32 htonl_bytes "\<lambda>_. True"
proof unfold_locales
  fix b b' :: t_buffer and v r
  assume "buffer_ok b" "buffer_write_uint32 b v = (r, b')"
  then show "buffer_ok b' \<and> is_dynamic b' = is_dynamic b \<and>
      written b' = (if r then written b @ htonl_bytes v else written b)"
    by (intro put_with_capacity [of b 4]) (auto simp: buffer_write_uint32_def)
next
  fix b :: t_buffer and v rest
  assume "buffer_ok b" "drop (offset b) (stream b) = htonl_bytes v @ rest"
  from get_at [OF this]
  show "buffer_read_uint32 b = (Some v, b\<lparr>offset := offset b + length (htonl_bytes v)\<rparr>)"
    by (simp add: buffer_read_uint32_def)
qed

text \<open>Strings and binary data: a length in network order, then the bytes.\<close>

definition enc_sized :: "bytes \<Rightarrow> bytes" where
  "enc_sized s = htonl_bytes (word_of_nat (length s)) @ s"

definition string_valid :: "bytes \<Rightarrow> bool" where
  "string_valid s \<longleftrightarrow> 0 \<notin> set s \<and> length s \<le> MAX_STRING_LENGTH"

definition data_valid :: "bytes \<Rightarrow> bool" where
  "data_valid s \<longleftrightarrow> length s \<le> MAX_DATA_SIZE"

lemma unat_len_field:
  "length s \<le> MAX_DATA_SIZE \<Longrightarrow> unat (word_of_nat (length s) :: u32) = length s"
  by (simp add: unat_of_nat MAX_DATA_SIZE_def)

lemma string_valid_bound: "string_valid s \<Longrightarrow> length s \<le> MAX_DATA_SIZE"
  by (simp add: string_valid_def MAX_STRING_LENGTH_def MAX_DATA_SIZE_def)

text \<open>The two sized writers share their shape: reserve, write the length, write the bytes.\<close>

lemma put_sized:
  assumes ok: "buffer_ok b"
    and eq: "(let (ok, b1) = buffer_has_capacity b (4 + length s)
              in if \<not> ok then (False, b1)
                 else let (ok2, b2) = buffer_write_uint32 b1 (word_of_nat (length s))
                      in if \<not> ok2 then (False, b2) else (True, buffer_put s b2)) = (r, b')"
  shows "buffer_ok b' \<and> is_dynamic b' = is_dynamic b \<and>
    written b' = (if r then written b @ enc_sized s else written b)"
proof -
  obtain c b1 where cap: "buffer_has_capacity b (4 + length s) = (c, b1)"
    by fastforce
  note c = buffer_has_capacity_spec [OF ok cap]
  show ?thesis
  proof (cases c)
    case True
    define b2 where "b2 = buffer_put (htonl_bytes (word_of_nat (length s))) b1"
    have room: "offset b1 + 4 + length s \<le> buf_size b1"
      using c True by simp
    then have w: "buffer_write_uint32 b1 (word_of_nat (length s)) = (True, b2)"
      by (simp add: buffer_write_uint32_def b2_def)
    have b2: "buffer_ok b2" "written b2 = written b1 @ htonl_bytes (word_of_nat (length s))"
      "is_dynamic b2 = is_dynamic b1"
      using buffer_put_spec [OF c(1), of "htonl_bytes (word_of_nat (length s))"] room
      by (simp_all add: b2_def)
    have "offset b2 + length s \<le> buf_size b2"
      using room by (simp add: b2_def buffer_put_def)
    with buffer_put_spec [OF b2(1)] b2 c eq cap True w show ?thesis
      by (auto simp: enc_sized_def)
  next
    case False
    with c eq cap ok show ?thesis by auto
  qed
qed

lemma drop_after: "drop n xs = as @ rest \<Longrightarrow> drop (n + length as) xs = rest"
  by (metis add.commute append_eq_conv_conj drop_drop)

lemma get_sized:
  assumes ok: "buffer_ok b" and at: "drop (offset b) (stream b) = enc_sized s @ rest"
  defines "b1 \<equiv> b\<lparr>offset := offset b + 4\<rparr>"
  shows "buffer_read_uint32 b = (Some (word_of_nat (length s)), b1)"
    and "buffer_check_capacity b1 (length s)"
    and "buffer_get (length s) b1 = (s, b\<lparr>offset := offset b + length (enc_sized s)\<rparr>)"
proof -
  have hd: "drop (offset b) (stream b) = htonl_bytes (word_of_nat (length s)) @ (s @ rest)"
    using at by (simp add: enc_sized_def)
  show "buffer_read_uint32 b = (Some (word_of_nat (length s)), b1)"
    using uint32.read_ok [OF ok _ hd] by (simp add: b1_def)
  have tl: "drop (offset b1) (stream b1) = s @ rest"
    using drop_after [OF hd] by (simp add: b1_def)
  have "length (drop (offset b) (stream b)) = 4 + length s + length rest"
    using hd by simp
  then have ok1: "buffer_ok b1"
    using ok by (auto simp: buffer_ok_def b1_def)
  from get_at [OF ok1 tl] show "buffer_check_capacity b1 (length s)"
    and "buffer_get (length s) b1 = (s, b\<lparr>offset := offset b + length (enc_sized s)\<rparr>)"
    by (simp_all add: b1_def enc_sized_def add.assoc)
qed

interpretation wire_string: wire_codec buffer_write_string buffer_read_string enc_sized string_valid
proof unfold_locales
  fix b b' :: t_buffer and v r
  assume a: "buffer_ok b" "string_valid v" "buffer_write_string b v = (r, b')"
  have len: "unat (word_of_nat (length v) :: u32) = length v"
    using a(2) by (intro unat_len_field string_valid_bound)
  have "c_string v = v"
    using a(2) by (simp add: string_valid_def)
  then show "buffer_ok b' \<and> is_dynamic b' = is_dynamic b \<and>
      written b' = (if r then written b @ enc_sized v else written b)"
    using a(3) put_sized [OF a(1), of v r b']
    unfolding buffer_write_string_def Let_def by (simp only: len take_all order_refl)
next
  fix b :: t_buffer and v rest
  assume a: "buffer_ok b" "string_valid v" "drop (offset b) (stream b) = enc_sized v @ rest"
  have "unat (word_of_nat (length v) :: u32) = length v"
    using a(2) by (intro unat_len_field string_valid_bound)
  with get_sized [OF a(1,3)] a(2)
  show "buffer_read_string b = (Some v, b\<lparr>offset := offset b + length (enc_sized v)\<rparr>)"
    by (simp add: buffer_read_string_def string_valid_def)
qed

interpretation wire_data: wire_codec buffer_write_data buffer_read_data enc_sized data_valid
proof unfold_locales
  fix b b' :: t_buffer and v r
  assume a: "buffer_ok b" "data_valid v" "buffer_write_data b v = (r, b')"
  then show "buffer_ok b' \<and> is_dynamic b' = is_dynamic b \<and>
      written b' = (if r then written b @ enc_sized v else written b)"
  proof (cases "length v = 0")
    case False
    with a show ?thesis
      by (intro put_sized [of b]) (auto simp: buffer_write_data_def)
  qed (auto simp: buffer_write_data_def)
next
  fix b :: t_buffer and v rest
  assume a: "buffer_ok b" "data_valid v" "drop (offset b) (stream b) = enc_sized v @ rest"
  note g = get_sized [OF a(1,3)]
  have "buffer_has_capacity (b\<lparr>offset := offset b + 4\<rparr>) (length v) =
      (True, b\<lparr>offset := offset b + 4\<rparr>)"
    using g(2) by (auto simp: buffer_has_capacity_def buffer_check_capacity_def)
  with g a(2) show "buffer_read_data b = (Some v, b\<lparr>offset := offset b + length (enc_sized v)\<rparr>)"
    by (simp add: buffer_read_data_def data_valid_def unat_len_field)
qed

subsection \<open>Messages: sequences of fields\<close>

text \<open>
  Every message of the protocol is a sequence of fields added to an empty package and read
  back in the same order by the receiver. A field with its kind:
\<close>

datatype wire_field =
  F_uint8 u8 | F_int8 u8 | F_uint16 u16 | F_uint32 u32 | F_string bytes | F_data bytes

datatype field_kind = K_uint8 | K_int8 | K_uint16 | K_uint32 | K_string | K_data

fun kind_of :: "wire_field \<Rightarrow> field_kind" where
  "kind_of (F_uint8 _) = K_uint8"
| "kind_of (F_int8 _) = K_int8"
| "kind_of (F_uint16 _) = K_uint16"
| "kind_of (F_uint32 _) = K_uint32"
| "kind_of (F_string _) = K_string"
| "kind_of (F_data _) = K_data"

fun field_valid :: "wire_field \<Rightarrow> bool" where
  "field_valid (F_string s) = string_valid s"
| "field_valid (F_data d) = data_valid d"
| "field_valid _ = True"

fun enc_field :: "wire_field \<Rightarrow> bytes" where
  "enc_field (F_uint8 v) = [v]"
| "enc_field (F_int8 v) = [v]"
| "enc_field (F_uint16 v) = htons_bytes v"
| "enc_field (F_uint32 v) = htonl_bytes v"
| "enc_field (F_string s) = enc_sized s"
| "enc_field (F_data d) = enc_sized d"

fun add_field :: "t_package \<Rightarrow> wire_field \<Rightarrow> bool \<times> t_package" where
  "add_field p (F_uint8 v) = package_add_uint8 p v"
| "add_field p (F_int8 v) = package_add_int8 p v"
| "add_field p (F_uint16 v) = package_add_uint16 p v"
| "add_field p (F_uint32 v) = package_add_uint32 p v"
| "add_field p (F_string s) = package_add_string p s"
| "add_field p (F_data d) = package_add_data p d"

fun read_field :: "t_package \<Rightarrow> field_kind \<Rightarrow> wire_field option \<times> t_package" where
  "read_field p K_uint8 = map_prod (map_option F_uint8) id (package_read_uint8 p)"
| "read_field p K_int8 = map_prod (map_option F_int8) id (package_read_int8 p)"
| "read_field p K_uint16 = map_prod (map_option F_uint16) id (package_read_uint16 p)"
| "read_field p K_uint32 = map_prod (map_option F_uint32) id (package_read_uint32 p)"
| "read_field p K_string = map_prod (map_option F_string) id (package_read_string p)"
| "read_field p K_data = map_prod (map_option F_data) id (package_read_data p)"

fun add_fields :: "t_package \<Rightarrow> wire_field list \<Rightarrow> bool \<times> t_package" where
  "add_fields p [] = (True, p)"
| "add_fields p (f # fs) =
     (let (ok, p1) = add_field p f in if ok then add_fields p1 fs else (False, p1))"

fun read_fields :: "t_package \<Rightarrow> field_kind list \<Rightarrow> wire_field list option \<times> t_package" where
  "read_fields p [] = (Some [], p)"
| "read_fields p (k # ks) =
     (case read_field p k of
        (None, p1) \<Rightarrow> (None, p1)
      | (Some f, p1) \<Rightarrow>
          (case read_fields p1 ks of
             (None, p2) \<Rightarrow> (None, p2)
           | (Some fs, p2) \<Rightarrow> (Some (f # fs), p2)))"

lemmas add_field_defs = package_add_uint8_def package_add_int8_def package_add_uint16_def
  package_add_uint32_def package_add_string_def package_add_data_def on_buffer_def
lemmas read_field_defs = package_read_uint8_def package_read_int8_def package_read_uint16_def
  package_read_uint32_def package_read_string_def package_read_data_def on_buffer_def
lemmas codec_writes = uint8.write_ok int8.write_ok uint16.write_ok uint32.write_ok
  wire_string.write_ok wire_data.write_ok
lemmas codec_reads = uint8.read_ok int8.read_ok uint16.read_ok uint32.read_ok
  wire_string.read_ok wire_data.read_ok

lemma add_field_ok:
  assumes "buffer_ok (buffer p)" and "field_valid f" and "add_field p f = (r, p')"
  shows "buffer_ok (buffer p') \<and> operation_code p' = operation_code p \<and>
    written (buffer p') = (if r then written (buffer p) @ enc_field f else written (buffer p))"
  using assms
  by (cases f)
    (auto simp: add_field_defs Let_def split: prod.splits if_splits dest: codec_writes)

lemma read_field_ok:
  assumes "buffer_ok (buffer p)" and "field_valid f"
    and "drop (offset (buffer p)) (stream (buffer p)) = enc_field f @ rest"
  shows "read_field p (kind_of f) =
    (Some f, p\<lparr>buffer := (buffer p)\<lparr>offset := offset (buffer p) + length (enc_field f)\<rparr>\<rparr>)"
  using assms by (cases f) (auto simp: read_field_defs Let_def codec_reads)

lemma add_fields_ok:
  assumes "buffer_ok (buffer p)" and "\<forall>f \<in> set fs. field_valid f"
    and "add_fields p fs = (True, p')"
  shows "buffer_ok (buffer p') \<and> operation_code p' = operation_code p \<and>
    written (buffer p') = written (buffer p) @ concat (map enc_field fs)"
  using assms
proof (induction fs arbitrary: p)
  case (Cons f fs)
  obtain r p1 where add: "add_field p f = (r, p1)" by fastforce
  with Cons.prems have r: "r" and rest: "add_fields p1 fs = (True, p')"
    by (auto split: if_splits)
  from add_field_ok [OF Cons.prems(1) _ add] Cons.prems(2) r Cons.IH [OF _ _ rest]
  show ?case by auto
qed simp

lemma read_fields_ok:
  assumes "buffer_ok (buffer p)" and "\<forall>f \<in> set fs. field_valid f"
    and "drop (offset (buffer p)) (stream (buffer p)) = concat (map enc_field fs) @ rest"
  shows "fst (read_fields p (map kind_of fs)) = Some fs"
  using assms
proof (induction fs arbitrary: p)
  case (Cons f fs)
  let ?b = "buffer p"
  let ?p1 = "p\<lparr>buffer := ?b\<lparr>offset := offset ?b + length (enc_field f)\<rparr>\<rparr>"
  have at: "drop (offset ?b) (stream ?b) = enc_field f @ (concat (map enc_field fs) @ rest)"
    using Cons.prems(3) by simp
  have read: "read_field p (kind_of f) = (Some f, ?p1)"
    using read_field_ok [OF Cons.prems(1) _ at] Cons.prems(2) by simp
  have "length (stream ?b) - offset ?b = length (enc_field f) + length (concat (map enc_field fs) @ rest)"
    using arg_cong [OF at, of length] by simp
  then have "buffer_ok (buffer ?p1)"
    using Cons.prems(1) by (auto simp: buffer_ok_def)
  with Cons.IH [of ?p1] Cons.prems(2) drop_after [OF at]
  have "fst (read_fields ?p1 (map kind_of fs)) = Some fs"
    by simp
  with read show ?case
    by (auto split: prod.splits option.splits)
qed simp

subsection \<open>Sending and receiving\<close>

lemma recv_some:
  assumes "inbox s \<noteq> []" and "0 < n"
  obtains k where "0 < k" "k \<le> n" "k \<le> length (inbox s)"
    "recv s n = ((int k, take k (inbox s)), s\<lparr>inbox := drop k (inbox s), fragments := tl (fragments s)\<rparr>)"
proof -
  define limit where "limit = (case fragments s of [] \<Rightarrow> n | f # _ \<Rightarrow> min n (max 1 f))"
  define k where "k = min (length (inbox s)) limit"
  have "0 < limit" "limit \<le> n"
    using assms(2) by (auto simp: limit_def split: list.splits)
  then have "0 < k" "k \<le> n" "k \<le> length (inbox s)"
    using assms(1) by (auto simp: k_def)
  moreover have "take limit (inbox s) = take k (inbox s)" "drop limit (inbox s) = drop k (inbox s)"
    by (auto simp: k_def min_def)
  ultimately show thesis
    using assms(1) by (intro that [of k]) (auto simp: recv_def Let_def limit_def [symmetric] k_def)
qed

lemma recv_all_enough:
  assumes "length acc \<le> n" and "n - length acc \<le> length (inbox s)"
  shows "\<exists>fr. recv_all s n acc =
    ((int n, acc @ take (n - length acc) (inbox s)),
     s\<lparr>inbox := drop (n - length acc) (inbox s), fragments := fr\<rparr>)"
  using assms
proof (induction s n acc rule: recv_all.induct)
  case (1 s n acc)
  show ?case
  proof (cases "length acc < n")
    case True
    then have "inbox s \<noteq> []" "0 < n - length acc"
      using "1.prems" by auto
    then obtain k where k: "0 < k" "k \<le> n - length acc" "k \<le> length (inbox s)"
      and r: "recv s (n - length acc) = ((int k, take k (inbox s)),
        s\<lparr>inbox := drop k (inbox s), fragments := tl (fragments s)\<rparr>)"
      by (rule recv_some)
    let ?s = "s\<lparr>inbox := drop k (inbox s), fragments := tl (fragments s)\<rparr>"
    let ?acc = "acc @ take k (inbox s)"
    define m where "m = n - (length acc + k)"
    have len: "n - length ?acc = m" and nk: "n - length acc = m + k"
      using k by (simp_all add: m_def)
    have "\<exists>fr. recv_all ?s n ?acc =
      ((int n, ?acc @ take (n - length ?acc) (inbox ?s)),
       ?s\<lparr>inbox := drop (n - length ?acc) (inbox ?s), fragments := fr\<rparr>)"
    proof (rule "1.IH" [OF True r [symmetric] refl refl])
      show "\<not> int k \<le> 0" "length ?acc \<le> n" "n - length ?acc \<le> length (inbox ?s)"
        using k "1.prems" True by simp_all
    qed
    then obtain fr where "recv_all ?s n ?acc =
      ((int n, ?acc @ take m (drop k (inbox s))), s\<lparr>inbox := drop (m + k) (inbox s), fragments := fr\<rparr>)"
      unfolding len by auto
    with True r k show ?thesis
      by (subst recv_all.simps)
        (auto simp: nk take_add add.commute [of m k] intro!: exI [of _ fr])
  next
    case False
    with "1.prems" show ?thesis
      by (subst recv_all.simps) (auto intro!: exI [of _ "fragments s"])
  qed
qed

lemma recv_all_short:
  assumes "length acc + length (inbox s) < n"
  shows "fst (fst (recv_all s n acc)) \<le> 0"
  using assms
proof (induction s n acc rule: recv_all.induct)
  case (1 s n acc)
  show ?case
  proof (cases "inbox s = []")
    case True
    with "1.prems" show ?thesis
      by (subst recv_all.simps) (simp add: recv_def)
  next
    case False
    have less: "length acc < n" using "1.prems" by simp
    then have "0 < n - length acc" by simp
    from recv_some [OF False this] obtain k where k: "0 < k" "k \<le> length (inbox s)"
      and r: "recv s (n - length acc) = ((int k, take k (inbox s)),
        s\<lparr>inbox := drop k (inbox s), fragments := tl (fragments s)\<rparr>)"
      by metis
    let ?s = "s\<lparr>inbox := drop k (inbox s), fragments := tl (fragments s)\<rparr>"
    have "fst (fst (recv_all ?s n (acc @ take k (inbox s)))) \<le> 0"
      using k "1.prems" by (intro "1.IH" [OF less r [symmetric] refl refl]) auto
    with less r k show ?thesis
      by (subst recv_all.simps) simp
  qed
qed

lemma package_bytes_simp:
  assumes "buffer_ok (buffer p)"
  shows "package_bytes p =
    operation_code p # htonl_bytes (word_of_nat (buf_size (buffer p))) @ stream (buffer p)"
    and "unat (word_of_nat (buf_size (buffer p)) :: u32) = buf_size (buffer p)"
proof -
  show u: "unat (word_of_nat (buf_size (buffer p)) :: u32) = buf_size (buffer p)"
    using assms by (simp add: unat_of_nat buffer_ok_def MAX_BUFFER_SIZE_def)
  then show "package_bytes p =
    operation_code p # htonl_bytes (word_of_nat (buf_size (buffer p))) @ stream (buffer p)"
    using assms by (simp add: package_bytes_def buffer_ok_def)
qed

lemma package_receive_sent:
  assumes ok: "buffer_ok (buffer p)" and sock: "0 \<le> sock"
    and inb: "inbox s = package_bytes p @ rest"
  shows "\<exists>s'. package_receive s sock =
      (Some (p\<lparr>buffer := (buffer p)\<lparr>offset := 0, is_dynamic := False\<rparr>\<rparr>), s') \<and> inbox s' = rest"
proof -
  let ?n = "buf_size (buffer p)"
  note pb = package_bytes_simp [OF ok]
  obtain f1 where r1: "recv_all s 1 [] = ((1, [operation_code p]),
      s\<lparr>inbox := htonl_bytes (word_of_nat ?n) @ stream (buffer p) @ rest, fragments := f1\<rparr>)"
    using recv_all_enough [of "[]" 1 s] inb pb(1) by auto
  obtain f2 where r2: "recv_all (s\<lparr>inbox := htonl_bytes (word_of_nat ?n) @ stream (buffer p) @ rest,
        fragments := f1\<rparr>) 4 [] = ((4, htonl_bytes (word_of_nat ?n)),
      s\<lparr>inbox := stream (buffer p) @ rest, fragments := f2\<rparr>)"
    using recv_all_enough [of "[]" 4 "s\<lparr>inbox := htonl_bytes (word_of_nat ?n) @ stream (buffer p) @ rest,
        fragments := f1\<rparr>"] by auto
  obtain f3 where r3: "recv_all (s\<lparr>inbox := stream (buffer p) @ rest, fragments := f2\<rparr>) ?n [] =
      ((int ?n, stream (buffer p)), s\<lparr>inbox := rest, fragments := f3\<rparr>)"
    using recv_all_enough [of "[]" ?n "s\<lparr>inbox := stream (buffer p) @ rest, fragments := f2\<rparr>"] ok
    by (auto simp: buffer_ok_def)
  have "buffer_create ?n = Some \<lparr>buf_size = ?n, stream = replicate ?n 0, offset = 0, is_dynamic = False\<rparr>"
    using ok by (simp add: buffer_create_def buffer_ok_def)
  with r1 r2 r3 sock ok pb(2) show ?thesis
    by (simp add: package_receive_def buffer_ok_def)
qed

lemma package_send_all:
  assumes "0 \<le> sock" and "send sock (package_bytes p) = int (length (package_bytes p))"
  shows "package_send send p sock = (0, package_bytes p)"
  using assms by (simp add: package_send_def)

lemma receive_read_back:
  assumes ok: "buffer_ok (buffer p)" and v: "\<forall>f \<in> set fs. field_valid f"
    and w: "written (buffer p) = concat (map enc_field fs)"
  shows "fst (read_fields (p\<lparr>buffer := (buffer p)\<lparr>offset := 0, is_dynamic := False\<rparr>\<rparr>) (map kind_of fs))
    = Some fs"
proof (rule read_fields_ok [OF _ v])
  show "buffer_ok (buffer (p\<lparr>buffer := (buffer p)\<lparr>offset := 0, is_dynamic := False\<rparr>\<rparr>))"
    using ok by (simp add: buffer_ok_def)
  show "drop (offset (buffer (p\<lparr>buffer := (buffer p)\<lparr>offset := 0, is_dynamic := False\<rparr>\<rparr>)))
      (stream (buffer (p\<lparr>buffer := (buffer p)\<lparr>offset := 0, is_dynamic := False\<rparr>\<rparr>))) =
    concat (map enc_field fs) @ drop (offset (buffer p)) (stream (buffer p))"
    using w by (simp add: written_def) (metis append_take_drop_id)
qed

text \<open>
  C7: A message survives the wire. Whatever fields are added to an empty package, if every
  add succeeds and the kernel takes the whole package, then \<open>package_send\<close> returns 0, and
  \<open>package_receive\<close> on the other end, however the bytes are fragmented and whatever
  follows them, delivers a package with the same opcode whose fields, read in the same
  order, are the ones added; the bytes that follow stay in the socket.
\<close>

theorem message_roundtrip:
  assumes "\<forall>f \<in> set fs. field_valid f"
    and "add_fields (package_create_empty op) fs = (True, p)"
    and "0 \<le> sock" and "send sock (package_bytes p) = int (length (package_bytes p))"
    and "0 \<le> sock'" and "inbox s = snd (package_send send p sock) @ rest"
  shows "fst (package_send send p sock) = 0 \<and>
    (\<exists>p' s'. package_receive s sock' = (Some p', s') \<and> operation_code p' = op \<and>
       fst (read_fields p' (map kind_of fs)) = Some fs \<and> inbox s' = rest)"
proof -
  have p: "buffer_ok (buffer p)" "operation_code p = op"
    "written (buffer p) = concat (map enc_field fs)"
    using add_fields_ok [OF _ assms(1,2)] by (simp_all add: package_create_empty_def)
  note sent = package_send_all [of sock send p, OF assms(3,4)]
  with assms(6) have "inbox s = package_bytes p @ rest" by simp
  from package_receive_sent [OF p(1) assms(5) this] receive_read_back [OF p(1) assms(1) p(3)] p(2) sent
  show ?thesis by fastforce
qed

theorem message_roundtrip_witness:
  "\<exists>p. add_fields (package_create_empty 9) [F_uint32 7, F_string [113, 49], F_int8 255] = (True, p) \<and>
     (\<exists>p' s'. package_receive \<lparr>inbox = package_bytes p @ [1, 2], fragments = [1, 3, 100], broken = False\<rparr> 5
        = (Some p', s') \<and> operation_code p' = 9 \<and>
        fst (read_fields p' [K_uint32, K_string, K_int8]) = Some [F_uint32 7, F_string [113, 49], F_int8 255] \<and>
        inbox s' = [1, 2])"
proof -
  let ?fs = "[F_uint32 7, F_string [113, 49], F_int8 255]"
  have v: "\<forall>f \<in> set ?fs. field_valid f"
    by (simp add: string_valid_def MAX_STRING_LENGTH_def)
  obtain p where p: "add_fields (package_create_empty 9) ?fs = (True, p)"
    by (simp add: add_field_defs package_create_empty_def buffer_create_dynamic_def
        buffer_write_uint32_def buffer_write_string_def buffer_write_int8_def c_string_def
        buffer_put_def)
  let ?s = "\<lparr>inbox = package_bytes p @ [1, 2], fragments = [1, 3, 100], broken = False\<rparr>"
  have "inbox ?s = snd (package_send (\<lambda>_ bs. int (length bs)) p 4) @ [1, 2]"
    by (simp add: package_send_all)
  from message_roundtrip [OF v p _ _ _ this, of 5] p show ?thesis
    by auto
qed

text \<open>
  A package is never half received. From any strict prefix of the bytes of a package, in
  any fragmentation, with the connection then closed or broken, \<open>package_receive\<close> gives no
  package.
\<close>

theorem package_receive_truncated:
  assumes "buffer_ok (buffer p)" and "0 \<le> sock" and "k < length (package_bytes p)"
    and "inbox s = take k (package_bytes p)"
  shows "fst (package_receive s sock) = None"
proof -
  let ?n = "buf_size (buffer p)" and ?h = "htonl_bytes (word_of_nat (buf_size (buffer p)))"
  note pb = package_bytes_simp [OF assms(1)]
  have len: "length (package_bytes p) = 5 + ?n"
    using assms(1) by (simp add: pb(1) buffer_ok_def)
  have short: "fst (fst (recv_all t m [])) \<noteq> int m" if "length (inbox t) < m" for t m
    using recv_all_short [of "[]" t m] that by fastforce
  consider "k = 0" | "1 \<le> k" "k < 5" | "5 \<le> k" by linarith
  then show ?thesis
  proof cases
    case 1
    with short [of s 1] assms(2,4) show ?thesis
      by (auto simp: package_receive_def split: prod.splits)
  next
    case 2
    obtain f1 where r1: "recv_all s 1 [] = ((1, [operation_code p]),
        s\<lparr>inbox := take (k - 1) ?h, fragments := f1\<rparr>)"
      using recv_all_enough [of "[]" 1 s] assms(4) 2 pb(1) by (auto simp: take_Cons')
    have "fst (fst (recv_all (s\<lparr>inbox := take (k - 1) ?h, fragments := f1\<rparr>) 4 [])) \<noteq> 4"
      using short [of "s\<lparr>inbox := take (k - 1) ?h, fragments := f1\<rparr>" 4] 2 by simp
    with r1 assms(2) show ?thesis
      by (auto simp: package_receive_def split: prod.splits)
  next
    case 3
    let ?d = "take (k - 5) (stream (buffer p))"
    have tk: "take k (package_bytes p) = operation_code p # ?h @ ?d"
      using 3 by (simp add: pb(1) take_Cons' diff_diff_left)
    obtain f1 where r1: "recv_all s 1 [] = ((1, [operation_code p]),
        s\<lparr>inbox := ?h @ ?d, fragments := f1\<rparr>)"
      using recv_all_enough [of "[]" 1 s] assms(4) tk by auto
    obtain f2 where r2: "recv_all (s\<lparr>inbox := ?h @ ?d, fragments := f1\<rparr>) 4 [] =
        ((4, ?h), s\<lparr>inbox := ?d, fragments := f2\<rparr>)"
      using recv_all_enough [of "[]" 4 "s\<lparr>inbox := ?h @ ?d, fragments := f1\<rparr>"] by auto
    have "length ?d < ?n"
      using 3 assms(1,3) len by (simp add: buffer_ok_def)
    then have "fst (fst (recv_all (s\<lparr>inbox := ?d, fragments := f2\<rparr>) ?n [])) \<noteq> int ?n"
      using short [of "s\<lparr>inbox := ?d, fragments := f2\<rparr>" ?n] by simp
    with r1 r2 assms(1,2) pb(2) show ?thesis
      by (auto simp: package_receive_def buffer_create_def buffer_ok_def Let_def split: prod.splits)
  qed
qed

theorem package_receive_truncated_witness:
  "fst (package_receive \<lparr>inbox = take 100 (package_bytes (package_create_empty 3)),
     fragments = [7, 1], broken = True\<rparr> 4) = None"
  by (rule package_receive_truncated [where p = "package_create_empty 3" and k = 100])
    (simp_all add: package_create_empty_def package_bytes_def buffer_create_dynamic_def
      buffer_ok_def MAX_BUFFER_SIZE_def)

text \<open>Readers stay inside the stream, and on a received (fixed-size) buffer never change it.\<close>

definition keeps_stream :: "t_buffer \<Rightarrow> t_buffer \<Rightarrow> bool" where
  "keeps_stream b b' \<longleftrightarrow> buffer_ok b' \<and> stream b' = stream b \<and> is_dynamic b' = is_dynamic b"

lemma keeps_stream_trans: "keeps_stream a b \<Longrightarrow> keeps_stream b c \<Longrightarrow> keeps_stream a c"
  by (simp add: keeps_stream_def)

lemma keeps_refl: "buffer_ok b \<Longrightarrow> keeps_stream b b"
  by (simp add: keeps_stream_def)

lemma keeps_rewind: "keeps_stream a b \<Longrightarrow> keeps_stream a (b\<lparr>offset := offset b - n\<rparr>)"
  by (auto simp: keeps_stream_def buffer_ok_def)

lemma keeps_get:
  assumes "buffer_ok b" and "buffer_check_capacity b n" and "buffer_get n b = (bs, b')"
  shows "keeps_stream b b'"
  using assms by (auto simp: buffer_ok_def buffer_check_capacity_def buffer_get_def keeps_stream_def)

lemma keeps_uint32:
  assumes "buffer_ok b" and "buffer_read_uint32 b = (r, b')"
  shows "keeps_stream b b'"
  using assms
  by (auto simp: buffer_read_uint32_def intro: keeps_refl keeps_get split: if_splits prod.splits)

lemma has_capacity_fixed:
  "\<not> is_dynamic b \<Longrightarrow> buffer_has_capacity b n = (buffer_check_capacity b n, b)"
  by (simp add: buffer_has_capacity_def buffer_check_capacity_def)

lemma keeps_string:
  assumes "buffer_ok b" and "buffer_read_string b = (r, b')"
  shows "keeps_stream b b'"
proof -
  obtain q b1 where r: "buffer_read_uint32 b = (q, b1)" by fastforce
  note k = keeps_uint32 [OF assms(1) r]
  then have "buffer_ok b1" by (simp add: keeps_stream_def)
  with r k assms show ?thesis
    by (auto simp: buffer_read_string_def split: option.splits prod.splits if_splits
        intro: keeps_rewind keeps_stream_trans [OF k keeps_get])
qed

lemma keeps_data:
  assumes "buffer_ok b" and "\<not> is_dynamic b" and "buffer_read_data b = (r, b')"
  shows "keeps_stream b b'"
proof -
  obtain q b1 where r: "buffer_read_uint32 b = (q, b1)" by fastforce
  note k = keeps_uint32 [OF assms(1) r]
  then have "buffer_ok b1" "\<not> is_dynamic b1"
    using assms(2) by (simp_all add: keeps_stream_def)
  with r k assms show ?thesis
    by (auto simp: buffer_read_data_def has_capacity_fixed split: option.splits prod.splits if_splits
        intro: keeps_rewind keeps_stream_trans [OF k keeps_get])
qed

lemma keeps_small:
  assumes "buffer_ok b"
  shows "buffer_read_uint8 b = (r8, b') \<Longrightarrow> keeps_stream b b'"
    and "buffer_read_int8 b = (ri, b') \<Longrightarrow> keeps_stream b b'"
    and "buffer_read_uint16 b = (r16, b') \<Longrightarrow> keeps_stream b b'"
  using assms
  by (auto simp: buffer_read_uint8_def buffer_read_int8_def buffer_read_uint16_def
      intro: keeps_refl keeps_get split: if_splits prod.splits)

text \<open>
  C35: Reading a received package is memory safe, whatever the bytes a peer sent. On any
  well-formed buffer of fixed size, as \<open>package_receive\<close> builds it, each of the six
  readers, succeeding or failing, leaves the offset inside the stream and the stream
  unchanged, so the reader after it starts inside the stream too.
\<close>

theorem read_field_safe:
  assumes "buffer_ok (buffer p)" and "\<not> is_dynamic (buffer p)"
    and "read_field p k = (r, p')"
  shows "buffer_ok (buffer p') \<and> stream (buffer p') = stream (buffer p) \<and>
    operation_code p' = operation_code p"
proof -
  have "keeps_stream (buffer p) (buffer p')" "operation_code p' = operation_code p"
    using assms keeps_small [OF assms(1)] keeps_uint32 [OF assms(1)] keeps_string [OF assms(1)]
      keeps_data [OF assms(1,2)]
    by (cases k; auto simp: read_field_defs Let_def split: prod.splits)+
  then show ?thesis by (simp add: keeps_stream_def)
qed

theorem read_field_safe_witness:
  "let p = \<lparr>operation_code = 1, buffer = \<lparr>buf_size = 5, stream = [255, 255, 255, 255, 7], offset = 0,
       is_dynamic = False\<rparr>\<rparr>
   in fst (read_field p K_string) = None \<and> buffer_ok (buffer (snd (read_field p K_string)))"
proof -
  let ?p = "\<lparr>operation_code = 1, buffer = \<lparr>buf_size = 5, stream = [255, 255, 255, 255, 7], offset = 0,
       is_dynamic = False\<rparr>\<rparr> :: t_package"
  have "buffer_ok (buffer ?p)" "\<not> is_dynamic (buffer ?p)"
    by (simp_all add: buffer_ok_def MAX_BUFFER_SIZE_def)
  from read_field_safe [OF this, of K_string] have "buffer_ok (buffer (snd (read_field ?p K_string)))"
    by (metis prod.collapse)
  moreover have "fst (read_field ?p K_string) = None"
    by (simp add: read_field_defs buffer_read_string_def buffer_read_uint32_def
        buffer_check_capacity_def buffer_get_def region_def ntohl_bytes_def MAX_STRING_LENGTH_def)
  ultimately show ?thesis by simp
qed

lemma capacity_fail:
  "buffer_ok b \<Longrightarrow> buffer_has_capacity b n = (False, b1) \<Longrightarrow> b1 = b"
  using buffer_has_capacity_spec(6) by blast

lemma small_write_fail:
  assumes "buffer_ok b"
  shows "buffer_write_uint8 b v8 = (False, b') \<Longrightarrow> b' = b"
    and "buffer_write_int8 b vi = (False, b') \<Longrightarrow> b' = b"
    and "buffer_write_uint16 b v16 = (False, b') \<Longrightarrow> b' = b"
    and "buffer_write_uint32 b v32 = (False, b') \<Longrightarrow> b' = b"
  using assms capacity_fail
  by (auto simp: buffer_write_uint8_def buffer_write_int8_def buffer_write_uint16_def
      buffer_write_uint32_def split: prod.splits if_splits)

text \<open>Once the whole sized field is reserved, writing its length cannot fail.\<close>

lemma reserved_length_write:
  assumes "buffer_ok b" and "buffer_has_capacity b (4 + n) = (True, b1)"
  shows "fst (buffer_write_uint32 b1 v)"
  using buffer_has_capacity_spec(2,5) [OF assms] by (simp add: buffer_write_uint32_def)

lemma sized_write_fail:
  assumes ok: "buffer_ok b"
  shows "buffer_write_string b s = (False, b') \<Longrightarrow> b' = b"
    and "buffer_write_data b d = (False, b') \<Longrightarrow> b' = b"
proof -
  have len: "buffer_has_capacity b (4 + n) = (True, b1) \<Longrightarrow> buffer_write_uint32 b1 v \<noteq> (False, b2)"
    for n b1 v b2
    using reserved_length_write [OF ok, of n b1 v] by auto
  show "buffer_write_string b s = (False, b') \<Longrightarrow> b' = b"
    using capacity_fail [OF ok] len
    by (auto simp: buffer_write_string_def Let_def split: prod.splits if_splits)
  show "buffer_write_data b d = (False, b') \<Longrightarrow> b' = b"
    using capacity_fail [OF ok] len
    by (auto simp: buffer_write_data_def Let_def split: prod.splits if_splits)
qed

text \<open>
  A failed add leaves the package as it was. When a field does not fit (the buffer may not
  grow beyond \<open>MAX_BUFFER_SIZE\<close>, or the field is empty binary data), \<open>package_add_*\<close>
  returns false and changes neither the bytes nor the size nor the offset, so a caller can
  still send what it has.
\<close>

theorem add_field_failure_atomic:
  assumes "buffer_ok (buffer p)" and "add_field p f = (False, p')"
  shows "p' = p"
  using assms small_write_fail [OF assms(1)] sized_write_fail [OF assms(1)]
  by (cases f; auto simp: add_field_defs Let_def split: prod.splits if_splits)+

theorem add_field_failure_atomic_witness:
  "add_field (package_create_empty 4) (F_data []) = (False, package_create_empty 4)"
proof -
  have "add_field (package_create_empty 4) (F_data []) =
      (False, snd (add_field (package_create_empty 4) (F_data [])))"
    by (simp add: package_add_data_def)
  then show ?thesis
    using add_field_failure_atomic [of "package_create_empty 4" "F_data []"]
    by (metis package_create_empty_def t_package.select_convs(2) buffer_create_dynamic_ok)
qed

subsection \<open>Messages that fit a buffer\<close>

text \<open>A dynamic buffer takes whatever leaves it at most half of the largest size.\<close>

lemma expand_size_le: "expand_size n m \<le> max n (2 * m)"
proof (induction n m rule: expand_size.induct)
  case (1 n m)
  then show ?case by (subst expand_size.simps) auto
qed

lemma has_capacity_fits:
  assumes "buffer_ok b" and "is_dynamic b" and "2 * (offset b + k) \<le> MAX_BUFFER_SIZE"
  shows "\<exists>b1. buffer_has_capacity b k = (True, b1) \<and> is_dynamic b1 \<and> k \<le> buf_size b1 - offset b1"
proof (cases "buf_size b - offset b < k")
  case True
  let ?n = "expand_size (buf_size b) (offset b + k)"
  have "?n \<le> MAX_BUFFER_SIZE" using expand_size_le [of "buf_size b" "offset b + k"] assms by (auto simp: buffer_ok_def)
  moreover have "offset b + k \<le> ?n" using expand_size_ge [of "buf_size b" "offset b + k"] assms by (auto simp: buffer_ok_def)
  ultimately show ?thesis using True assms(2)
    by (auto simp: buffer_has_capacity_def buffer_expand_def Let_def)
qed (use assms in \<open>auto simp: buffer_has_capacity_def\<close>)

lemma put_dynamic [simp]: "is_dynamic (buffer_put bs b) = is_dynamic b"
  by (simp add: buffer_put_def)

lemma add_field_fits:
  assumes ok: "buffer_ok (buffer p)" and d: "is_dynamic (buffer p)" and v: "field_valid f" and ne: "f \<noteq> F_data []"
    and sz: "2 * (offset (buffer p) + length (enc_field f)) \<le> MAX_BUFFER_SIZE"
  shows "\<exists>p'. add_field p f = (True, p') \<and> is_dynamic (buffer p')"
proof -
  obtain b1 where b1: "buffer_has_capacity (buffer p) (length (enc_field f)) = (True, b1)" "is_dynamic b1"
    "length (enc_field f) \<le> buf_size b1 - offset b1" using has_capacity_fits [OF ok d sz] by blast
  show ?thesis
  proof (cases f)
    case (F_string s)
    then have l: "c_string s = s" "unat (word_of_nat (length s) :: u32) = length s"
      using v unat_len_field [OF string_valid_bound [of s]] by (auto simp: string_valid_def)
    show ?thesis using F_string b1 l
      by (auto simp: add_field_defs buffer_write_string_def buffer_write_uint32_def enc_sized_def Let_def)
  next
    case (F_data s)
    then have l: "unat (word_of_nat (length s) :: u32) = length s" "s \<noteq> []"
      using v ne unat_len_field by (auto simp: data_valid_def)
    show ?thesis using F_data b1 l
      by (auto simp: add_field_defs buffer_write_data_def buffer_write_uint32_def enc_sized_def Let_def)
  qed (use b1 in \<open>auto simp: add_field_defs buffer_write_uint8_def buffer_write_int8_def
        buffer_write_uint16_def buffer_write_uint32_def Let_def\<close>)
qed

lemma add_fields_fit:
  assumes "buffer_ok (buffer p)" and "is_dynamic (buffer p)" and "\<forall>f \<in> set fs. field_valid f"
    and "F_data [] \<notin> set fs"
    and "2 * (offset (buffer p) + length (concat (map enc_field fs))) \<le> MAX_BUFFER_SIZE"
  shows "\<exists>p'. add_fields p fs = (True, p')"
  using assms
proof (induction fs arbitrary: p)
  case (Cons f fs)
  obtain p1 where p1: "add_field p f = (True, p1)" "is_dynamic (buffer p1)"
    using add_field_fits [of p f] Cons.prems by auto
  note A = add_field_ok [OF Cons.prems(1) _ p1(1)]
  have "length (written (buffer q)) = offset (buffer q)" if "buffer_ok (buffer q)" for q :: t_package
    using that by (simp add: written_def buffer_ok_def)
  with A Cons.prems have "offset (buffer p1) = offset (buffer p) + length (enc_field f)"
    by (metis length_append list.set_intros(1))
  then show ?case using Cons.IH [of p1] A Cons.prems p1 by simp
qed simp

text \<open>Every message of the protocols: at most six strings and one block of data.\<close>

lemma message_fits:
  assumes "\<forall>f \<in> set fs. field_valid f" and "F_data [] \<notin> set fs"
    and "length (concat (map enc_field fs)) \<le> 50 * 1024 * 1024"
  obtains p where "add_fields (package_create_empty op) fs = (True, p)"
proof -
  have "buffer (package_create_empty op) = buffer_create_dynamic" by (simp add: package_create_empty_def)
  moreover have "offset buffer_create_dynamic = 0" "is_dynamic buffer_create_dynamic"
    by (simp_all add: buffer_create_dynamic_def)
  ultimately show thesis
    using add_fields_fit [of "package_create_empty op" fs] assms that by (auto simp: MAX_BUFFER_SIZE_def)
qed

end
