(* ===== verification/Protocol.thy ===== *)
theory Protocol
  imports Prelude
begin

text \<open>
  The operation codes of \<^verbatim>\<open>utils/src/connection/protocol.h\<close>: the two enumerations number
  their codes from 0 independently, and a package carries its code in one byte. Codes that no
  source file uses are left out.
\<close>

subsection \<open>Operation codes of the Master\<close>

definition OP_WORKER_HANDSHAKE_REQ :: u8 where "OP_WORKER_HANDSHAKE_REQ = 0"
definition OP_QUERY_HANDSHAKE :: u8 where "OP_QUERY_HANDSHAKE = 2"
definition OP_QUERY_FILE_PATH :: u8 where "OP_QUERY_FILE_PATH = 3"
definition QC_OP_READ_DATA :: u8 where "QC_OP_READ_DATA = 4"
definition QC_OP_MASTER_FIN_DESCONEXION :: u8 where "QC_OP_MASTER_FIN_DESCONEXION = 5"
definition QC_OP_MASTER_CONNECTION_OK :: u8 where "QC_OP_MASTER_CONNECTION_OK = 7"
definition OP_WORKER_ACK :: u8 where "OP_WORKER_ACK = 8"
definition OP_WORKER_START_QUERY :: u8 where "OP_WORKER_START_QUERY = 9"
definition OP_WORKER_READ_MESSAGE_REQ :: u8 where "OP_WORKER_READ_MESSAGE_REQ = 10"
definition OP_WORKER_END_QUERY :: u8 where "OP_WORKER_END_QUERY = 11"
definition OP_WORKER_PREEMPT_REQ :: u8 where "OP_WORKER_PREEMPT_REQ = 12"
definition OP_WORKER_EVICT_RES :: u8 where "OP_WORKER_EVICT_RES = 14"
definition QC_OP_DISCONNECTION :: u8 where "QC_OP_DISCONNECTION = 15"
definition WORKER_OP_DISCONNECTION :: u8 where "WORKER_OP_DISCONNECTION = 16"
definition OP_END_QUERY :: u8 where "OP_END_QUERY = 19"

lemmas master_op_defs =
  OP_WORKER_HANDSHAKE_REQ_def OP_QUERY_HANDSHAKE_def OP_QUERY_FILE_PATH_def
  QC_OP_READ_DATA_def QC_OP_MASTER_FIN_DESCONEXION_def QC_OP_MASTER_CONNECTION_OK_def
  OP_WORKER_ACK_def OP_WORKER_START_QUERY_def OP_WORKER_READ_MESSAGE_REQ_def
  OP_WORKER_END_QUERY_def OP_WORKER_PREEMPT_REQ_def OP_WORKER_EVICT_RES_def
  QC_OP_DISCONNECTION_def WORKER_OP_DISCONNECTION_def OP_END_QUERY_def

subsection \<open>Operation codes of the Storage\<close>

definition STORAGE_OP_BLOCK_READ_REQ :: u8 where "STORAGE_OP_BLOCK_READ_REQ = 0"
definition STORAGE_OP_BLOCK_READ_RES :: u8 where "STORAGE_OP_BLOCK_READ_RES = 1"
definition STORAGE_OP_BLOCK_WRITE_REQ :: u8 where "STORAGE_OP_BLOCK_WRITE_REQ = 2"
definition STORAGE_OP_BLOCK_WRITE_RES :: u8 where "STORAGE_OP_BLOCK_WRITE_RES = 3"
definition STORAGE_OP_FILE_CREATE_REQ :: u8 where "STORAGE_OP_FILE_CREATE_REQ = 4"
definition STORAGE_OP_FILE_CREATE_RES :: u8 where "STORAGE_OP_FILE_CREATE_RES = 5"
definition STORAGE_OP_FILE_TRUNCATE_REQ :: u8 where "STORAGE_OP_FILE_TRUNCATE_REQ = 6"
definition STORAGE_OP_FILE_TRUNCATE_RES :: u8 where "STORAGE_OP_FILE_TRUNCATE_RES = 7"
definition STORAGE_OP_TAG_COMMIT_REQ :: u8 where "STORAGE_OP_TAG_COMMIT_REQ = 8"
definition STORAGE_OP_TAG_COMMIT_RES :: u8 where "STORAGE_OP_TAG_COMMIT_RES = 9"
definition STORAGE_OP_TAG_CREATE_REQ :: u8 where "STORAGE_OP_TAG_CREATE_REQ = 10"
definition STORAGE_OP_TAG_CREATE_RES :: u8 where "STORAGE_OP_TAG_CREATE_RES = 11"
definition STORAGE_OP_TAG_DELETE_REQ :: u8 where "STORAGE_OP_TAG_DELETE_REQ = 12"
definition STORAGE_OP_TAG_DELETE_RES :: u8 where "STORAGE_OP_TAG_DELETE_RES = 13"
definition STORAGE_OP_WORKER_GET_BLOCK_SIZE_REQ :: u8 where "STORAGE_OP_WORKER_GET_BLOCK_SIZE_REQ = 14"
definition STORAGE_OP_WORKER_GET_BLOCK_SIZE_RES :: u8 where "STORAGE_OP_WORKER_GET_BLOCK_SIZE_RES = 15"
definition STORAGE_OP_WORKER_SEND_ID_REQ :: u8 where "STORAGE_OP_WORKER_SEND_ID_REQ = 16"
definition STORAGE_OP_WORKER_SEND_ID_RES :: u8 where "STORAGE_OP_WORKER_SEND_ID_RES = 17"
definition STORAGE_OP_ERROR :: u8 where "STORAGE_OP_ERROR = 19"

lemmas storage_op_defs =
  STORAGE_OP_BLOCK_READ_REQ_def STORAGE_OP_BLOCK_READ_RES_def STORAGE_OP_BLOCK_WRITE_REQ_def
  STORAGE_OP_BLOCK_WRITE_RES_def STORAGE_OP_FILE_CREATE_REQ_def STORAGE_OP_FILE_CREATE_RES_def
  STORAGE_OP_FILE_TRUNCATE_REQ_def STORAGE_OP_FILE_TRUNCATE_RES_def STORAGE_OP_TAG_COMMIT_REQ_def
  STORAGE_OP_TAG_COMMIT_RES_def STORAGE_OP_TAG_CREATE_REQ_def STORAGE_OP_TAG_CREATE_RES_def
  STORAGE_OP_TAG_DELETE_REQ_def STORAGE_OP_TAG_DELETE_RES_def STORAGE_OP_WORKER_GET_BLOCK_SIZE_REQ_def
  STORAGE_OP_WORKER_GET_BLOCK_SIZE_RES_def STORAGE_OP_WORKER_SEND_ID_REQ_def
  STORAGE_OP_WORKER_SEND_ID_RES_def STORAGE_OP_ERROR_def

end
