(* ===== verification/Storage_Server.thy ===== *)
theory Storage_Server
  imports Storage_Correct Serialization Protocol
begin

text \<open>
  The request handlers of the Storage process: the package side of
  \<^verbatim>\<open>storage/src/operations/*.c\<close> and the dispatch of \<^verbatim>\<open>storage/src/server/server.c\<close>. A
  handler takes the request package and the filesystem and returns the response package
  (\<open>None\<close> where the source returns \<^verbatim>\<open>NULL\<close>, which closes the connection) and the
  filesystem it leaves.
\<close>

subsection \<open>Responses\<close>

text \<open>The error package every handler builds; the results of the two \<^verbatim>\<open>add\<close> calls are ignored.\<close>

definition error_response :: "u32 \<Rightarrow> string \<Rightarrow> int \<Rightarrow> t_package" where
  "error_response query_id prefix code =
     (let p1 = snd (package_add_uint32 (package_create_empty STORAGE_OP_ERROR) query_id);
          p2 = snd (package_add_string p1 (to_bytes (prefix @ '' error: '' @ storage_error_message code)))
      in package_reset_read_offset p2)"

text \<open>The success response of the operations that answer with a status byte.\<close>

definition status_response :: "u8 \<Rightarrow> int \<Rightarrow> t_package option" where
  "status_response op status =
     (let (ok, p) = package_add_int8 (package_create_empty op) (word_of_int status)
      in if ok then Some p else None)"

definition prepare_error_response :: "u8 \<Rightarrow> int \<Rightarrow> t_package option" where
  "prepare_error_response op_code op_error_code =
     (let (ok, p) = package_add_int8 (package_create_empty op_code) (word_of_int op_error_code)
      in if ok then Some p else None)"

subsection \<open>Handlers\<close>

definition create_file :: "fs \<Rightarrow> t_package \<Rightarrow> t_package option \<times> fs" where
  "create_file fs package =
     (case package_read_uint32 package of
        (None, _) \<Rightarrow> (None, fs)
      | (Some query_id, p1) \<Rightarrow>
          let (name, p2) = package_read_string p1;
              (tag, p3) = package_read_string p2
          in case (name, tag) of
               (Some n, Some t) \<Rightarrow>
                 let (r, fs1) = create_file_op fs (of_bytes n) (of_bytes t)
                 in if r \<noteq> 0 then (Some (error_response query_id ''CREATE_FILE'' r), fs1)
                    else (status_response STORAGE_OP_FILE_CREATE_RES r, fs1)
             | _ \<Rightarrow> (None, fs))"

definition handle_truncate_file_op_package ::
  "storage_env \<Rightarrow> fs \<Rightarrow> t_package \<Rightarrow> t_package option \<times> fs" where
  "handle_truncate_file_op_package g fs package =
     (case package_read_uint32 package of
        (None, _) \<Rightarrow> (None, fs)
      | (Some query_id, p1) \<Rightarrow>
          let (name, p2) = package_read_string p1;
              (tag, p3) = package_read_string p2
          in case (name, tag) of
               (Some n, Some t) \<Rightarrow>
                 (case package_read_uint32 p3 of
                    (None, _) \<Rightarrow> (None, fs)
                  | (Some new_size_bytes, p4) \<Rightarrow>
                      let (r, fs1) = truncate_file g fs (of_bytes n) (of_bytes t) (sint new_size_bytes)
                      in if r \<noteq> 0 then (Some (error_response query_id ''TRUNCATE_FILE'' r), fs1)
                         else (status_response STORAGE_OP_FILE_TRUNCATE_RES r, fs1))
             | _ \<Rightarrow> (None, fs))"

definition handle_create_tag_op_package :: "fs \<Rightarrow> t_package \<Rightarrow> t_package option \<times> fs" where
  "handle_create_tag_op_package fs package =
     (case package_read_uint32 package of
        (None, _) \<Rightarrow> (None, fs)
      | (Some query_id, p1) \<Rightarrow>
          let (file_src, p2) = package_read_string p1;
              (tag_src, p3) = package_read_string p2;
              (file_dst, p4) = package_read_string p3;
              (tag_dst, p5) = package_read_string p4
          in case (file_src, tag_src, file_dst, tag_dst) of
               (Some f1, Some t1, Some f2, Some t2) \<Rightarrow>
                 let (r, fs1) = create_tag fs (of_bytes f1) (of_bytes t1) (of_bytes f2) (of_bytes t2)
                 in if r \<noteq> 0 then (Some (error_response query_id ''CREATE_TAG'' r), fs1)
                    else (map_option package_reset_read_offset (status_response STORAGE_OP_TAG_CREATE_RES r), fs1)
             | _ \<Rightarrow> (None, fs))"

definition handle_delete_tag_op_package ::
  "storage_env \<Rightarrow> fs \<Rightarrow> t_package \<Rightarrow> t_package option \<times> fs" where
  "handle_delete_tag_op_package g fs package =
     (case package_read_uint32 package of
        (None, _) \<Rightarrow> (None, fs)
      | (Some query_id, p1) \<Rightarrow>
          let (name, p2) = package_read_string p1;
              (tag, p3) = package_read_string p2
          in case (name, tag) of
               (Some n, Some t) \<Rightarrow>
                 let (r, fs1) = delete_tag g fs (of_bytes n) (of_bytes t)
                 in if r \<noteq> 0 then (Some (error_response query_id ''DELETE_TAG'' r), fs1)
                    else (status_response STORAGE_OP_TAG_DELETE_RES r, fs1)
             | _ \<Rightarrow> (None, fs))"

definition deserialize_tag_commit_request ::
  "t_package \<Rightarrow> (u32 \<times> bytes \<times> bytes) option" where
  "deserialize_tag_commit_request package =
     (case package_read_uint32 package of
        (None, _) \<Rightarrow> None
      | (Some query_id, p1) \<Rightarrow>
          (case package_read_string p1 of
             (None, _) \<Rightarrow> None
           | (Some name, p2) \<Rightarrow>
               (case package_read_string p2 of
                  (None, _) \<Rightarrow> None
                | (Some tag, _) \<Rightarrow> Some (query_id, name, tag))))"

definition handle_tag_commit_request ::
  "storage_env \<Rightarrow> fs \<Rightarrow> t_package \<Rightarrow> t_package option \<times> fs" where
  "handle_tag_commit_request g fs package =
     (case deserialize_tag_commit_request package of
        None \<Rightarrow> (None, fs)
      | Some (query_id, name, tag) \<Rightarrow>
          let (r, fs1) = execute_tag_commit g fs (of_bytes name) (of_bytes tag)
          in if r \<noteq> 0 then (Some (error_response query_id ''COMMIT_TAG'' r), fs1)
             else (map_option package_reset_read_offset (status_response STORAGE_OP_TAG_COMMIT_RES r), fs1))"

definition deserialize_block_read_request ::
  "t_package \<Rightarrow> (u32 \<times> bytes \<times> bytes \<times> u32) option" where
  "deserialize_block_read_request package =
     (case package_read_uint32 package of
        (None, _) \<Rightarrow> None
      | (Some query_id, p1) \<Rightarrow>
          (case package_read_string p1 of
             (None, _) \<Rightarrow> None
           | (Some name, p2) \<Rightarrow>
               (case package_read_string p2 of
                  (None, _) \<Rightarrow> None
                | (Some tag, p3) \<Rightarrow>
                    (case package_read_uint32 p3 of
                       (None, _) \<Rightarrow> None
                     | (Some block_number, _) \<Rightarrow> Some (query_id, name, tag, block_number)))))"

definition handle_read_block_request ::
  "storage_env \<Rightarrow> fs \<Rightarrow> t_package \<Rightarrow> t_package option \<times> fs" where
  "handle_read_block_request g fs package =
     (case deserialize_block_read_request package of
        None \<Rightarrow> (None, fs)
      | Some (query_id, name, tag, block_number) \<Rightarrow>
          let (r, read_buffer) = execute_block_read g fs (of_bytes name) (of_bytes tag) block_number
          in if r \<noteq> 0 then (Some (error_response query_id ''READ_BLOCK'' r), fs)
             else
               let data_size_to_send = (word_of_nat (block_size g) :: u32);
                   (ok, p1) = package_add_uint32 (package_create_empty STORAGE_OP_BLOCK_READ_RES) data_size_to_send
               in if \<not> ok then (None, fs)
                  else
                    let (ok2, p2) = (if unat data_size_to_send > 0
                                     then package_add_data p1 (take (unat data_size_to_send) read_buffer)
                                     else (True, p1))
                    in if \<not> ok2 then (None, fs) else (Some (package_reset_read_offset p2), fs))"

definition deserialize_block_write_request ::
  "t_package \<Rightarrow> (u32 \<times> bytes \<times> bytes \<times> u32 \<times> bytes) option" where
  "deserialize_block_write_request package =
     (case package_read_uint32 package of
        (None, _) \<Rightarrow> None
      | (Some query_id, p1) \<Rightarrow>
          (case package_read_string p1 of
             (None, _) \<Rightarrow> None
           | (Some name, p2) \<Rightarrow>
               (case package_read_string p2 of
                  (None, _) \<Rightarrow> None
                | (Some tag, p3) \<Rightarrow>
                    (case package_read_uint32 p3 of
                       (None, _) \<Rightarrow> None
                     | (Some block_number, p4) \<Rightarrow>
                         (case package_read_data p4 of
                            (None, _) \<Rightarrow> None
                          | (Some data, _) \<Rightarrow> Some (query_id, name, tag, block_number, data))))))"

definition handle_write_block_request ::
  "storage_env \<Rightarrow> fs \<Rightarrow> t_package \<Rightarrow> t_package option \<times> fs" where
  "handle_write_block_request g fs package =
     (case deserialize_block_write_request package of
        None \<Rightarrow> (None, fs)
      | Some (query_id, name, tag, block_number, block_data) \<Rightarrow>
          let (r, fs1) = execute_block_write g fs (of_bytes name) (of_bytes tag) block_number block_data
          in if r \<noteq> 0 then (Some (error_response query_id ''WRITE_BLOCK'' r), fs1)
             else (map_option package_reset_read_offset (status_response STORAGE_OP_BLOCK_WRITE_RES r), fs1))"

text \<open>The block size goes out in 16 bits.\<close>

definition send_block_size :: "storage_env \<Rightarrow> t_package option" where
  "send_block_size g =
     (let (ok, p) = package_add_uint16 (package_create_empty STORAGE_OP_WORKER_GET_BLOCK_SIZE_RES)
                      (word_of_nat (block_size g))
      in if ok then Some p else None)"

record t_client_data =
  client_socket :: int
  client_id :: "u32 option"

text \<open>The counter of connected workers grows before the identifier is read.\<close>

definition handle_handshake ::
  "int \<Rightarrow> t_package \<Rightarrow> t_client_data \<Rightarrow> t_package option \<times> int \<times> t_client_data" where
  "handle_handshake worker_counter package client_data =
     (case package_read_uint32 package of
        (None, _) \<Rightarrow> (None, worker_counter + 1, client_data)
      | (Some worker_id, _) \<Rightarrow>
          (Some (package_create_empty STORAGE_OP_WORKER_SEND_ID_RES), worker_counter + 1,
           client_data\<lparr>client_id := Some worker_id\<rparr>))"

record storage_state =
  st_fs :: fs
  g_worker_counter :: int

text \<open>One turn of the loop of \<^verbatim>\<open>handle_client\<close> for a received package.\<close>

definition handle_client_request ::
  "storage_env \<Rightarrow> storage_state \<Rightarrow> t_client_data \<Rightarrow> t_package \<Rightarrow>
   t_package option \<times> storage_state \<times> t_client_data" where
  "handle_client_request g st cd request =
     (let op = operation_code request;
          on_fs = (\<lambda>(response, fs). (response, st\<lparr>st_fs := fs\<rparr>, cd))
      in if op = STORAGE_OP_WORKER_SEND_ID_REQ then
           (let (response, n, cd1) = handle_handshake (g_worker_counter st) request cd
            in (response, st\<lparr>g_worker_counter := n\<rparr>, cd1))
         else if op = STORAGE_OP_WORKER_GET_BLOCK_SIZE_REQ then (send_block_size g, st, cd)
         else if op = STORAGE_OP_FILE_CREATE_REQ then on_fs (create_file (st_fs st) request)
         else if op = STORAGE_OP_FILE_TRUNCATE_REQ then on_fs (handle_truncate_file_op_package g (st_fs st) request)
         else if op = STORAGE_OP_TAG_CREATE_REQ then on_fs (handle_create_tag_op_package (st_fs st) request)
         else if op = STORAGE_OP_TAG_COMMIT_REQ then on_fs (handle_tag_commit_request g (st_fs st) request)
         else if op = STORAGE_OP_BLOCK_WRITE_REQ then on_fs (handle_write_block_request g (st_fs st) request)
         else if op = STORAGE_OP_BLOCK_READ_REQ then on_fs (handle_read_block_request g (st_fs st) request)
         else if op = STORAGE_OP_TAG_DELETE_REQ then on_fs (handle_delete_tag_op_package g (st_fs st) request)
         else (None, st, cd))"

text \<open>The connection is lost: the counter goes down by one.\<close>

definition handle_client_closed :: "storage_state \<Rightarrow> storage_state" where
  "handle_client_closed st = st\<lparr>g_worker_counter := g_worker_counter st - 1\<rparr>"

end
