(* ===== verification/Storage_Client.thy ===== *)
theory Storage_Client
  imports Storage_Server Memory_Manager
begin

text \<open>
  The Worker's side of the protocol with the Storage process:
  \<^verbatim>\<open>worker/src/connections/storage.c\<close> and \<^verbatim>\<open>common.c\<close>. A client function runs over an
  exchange: \<^verbatim>\<open>package_send\<close> of the request and \<^verbatim>\<open>package_receive\<close> of the response on the
  socket to Storage, \<open>None\<close> where one of them fails. Its state is the state of the peer and
  the packages sent to the Master so far.

  \<open>storage_exchange\<close> is the exchange with the modelled Storage process over a connection
  that loses nothing: the request is serialized, received and dispatched there, and the
  response comes back the same way.
\<close>

type_synonym 's exchange = "t_package \<Rightarrow> 's \<Rightarrow> t_package option \<times> 's"
type_synonym 's net = "'s \<times> t_package list"

subsection \<open>Errors reported by Storage\<close>

text \<open>The notice for the Master carries the operation code of the Storage protocol.\<close>

definition handler_error_from_storage :: "t_package \<Rightarrow> t_package list \<Rightarrow> t_package list" where
  "handler_error_from_storage result out =
     (let p0 = result\<lparr>buffer := buffer_reset_offset (buffer result)\<rparr>
      in case package_read_uint32 p0 of
           (None, _) \<Rightarrow> out
         | (Some qid_from_package, p1) \<Rightarrow>
             (case package_read_string p1 of
                (None, _) \<Rightarrow> out
              | (Some error_message, _) \<Rightarrow>
                  let (ok, error_package) =
                        add_fields (package_create_empty STORAGE_OP_ERROR)
                          [F_uint32 qid_from_package, F_string error_message]
                  in if ok then out @ [error_package] else out))"

definition send_request_and_wait_ack_with_error_handling ::
  "'s exchange \<Rightarrow> t_package \<Rightarrow> u8 \<Rightarrow> 's net \<Rightarrow> int \<times> 's net" where
  "send_request_and_wait_ack_with_error_handling ex request expected_response_code st =
     (let (s, out) = st
      in case ex request s of
           (None, s1) \<Rightarrow> (-1, s1, out)
         | (Some storage_response, s1) \<Rightarrow>
             if operation_code storage_response = expected_response_code then (0, s1, out)
             else if operation_code storage_response = STORAGE_OP_ERROR
             then (-1, s1, handler_error_from_storage storage_response out)
             else (-1, s1, out))"

definition send_request_and_wait_ack ::
  "'s exchange \<Rightarrow> t_package \<Rightarrow> u8 \<Rightarrow> 's net \<Rightarrow> int \<times> 's net" where
  "send_request_and_wait_ack ex request expected_response_code st =
     (let (s, out) = st
      in case ex request s of
           (None, s1) \<Rightarrow> (-1, s1, out)
         | (Some response, s1) \<Rightarrow>
             if operation_code response \<noteq> expected_response_code then (-1, s1, out) else (0, s1, out))"

subsection \<open>Handshake and block size\<close>

text \<open>\<open>connected\<close> is the descriptor that \<^verbatim>\<open>client_connect\<close> returns.\<close>

definition handshake_with_server ::
  "int \<Rightarrow> 's exchange \<Rightarrow> u8 \<Rightarrow> u8 \<Rightarrow> int \<Rightarrow> 's \<Rightarrow> int \<times> 's" where
  "handshake_with_server connected ex request_op expected_response_op worker_id s =
     (if connected < 0 then (-1, s)
      else
        let (ok, request) = package_add_uint32 (package_create_empty request_op) (word_of_int worker_id)
        in if \<not> ok then (-1, s)
           else case ex request s of
             (None, s1) \<Rightarrow> (-1, s1)
           | (Some response, s1) \<Rightarrow>
               if operation_code response \<noteq> expected_response_op then (-1, s1) else (connected, s1))"

definition handshake_with_storage :: "int \<Rightarrow> 's exchange \<Rightarrow> int \<Rightarrow> 's \<Rightarrow> int \<times> 's" where
  "handshake_with_storage connected ex worker_id s =
     handshake_with_server connected ex STORAGE_OP_WORKER_SEND_ID_REQ STORAGE_OP_WORKER_SEND_ID_RES worker_id s"

definition get_block_size :: "'s exchange \<Rightarrow> int \<Rightarrow> 's \<Rightarrow> (int \<times> u16 option) \<times> 's" where
  "get_block_size ex worker_id s =
     (let (ok, request) = package_add_uint32 (package_create_empty STORAGE_OP_WORKER_GET_BLOCK_SIZE_REQ)
                            (word_of_int worker_id)
      in if \<not> ok then ((-1, None), s)
         else case ex request s of
           (None, s1) \<Rightarrow> ((-1, None), s1)
         | (Some response, s1) \<Rightarrow>
             if operation_code response \<noteq> STORAGE_OP_WORKER_GET_BLOCK_SIZE_RES then ((-1, None), s1)
             else case package_read_uint16 response of
               (None, _) \<Rightarrow> ((-1, None), s1)
             | (Some v, _) \<Rightarrow> ((0, Some v), s1))"

subsection \<open>Blocks\<close>

definition read_block_from_storage ::
  "'s exchange \<Rightarrow> string \<Rightarrow> string \<Rightarrow> u32 \<Rightarrow> int \<Rightarrow> 's net \<Rightarrow> (int \<times> bytes) \<times> 's net" where
  "read_block_from_storage ex file tag block_number query_id st =
     (let (s, out) = st;
          (ok, request) = add_fields (package_create_empty STORAGE_OP_BLOCK_READ_REQ)
             [F_uint32 (word_of_int query_id), F_string (to_bytes file), F_string (to_bytes tag), F_uint32 block_number]
      in if \<not> ok then ((-1, []), st)
         else case ex request s of
           (None, s1) \<Rightarrow> ((-1, []), s1, out)
         | (Some storage_response, s1) \<Rightarrow>
             if operation_code storage_response = STORAGE_OP_BLOCK_READ_RES then
               (case package_read_uint32 storage_response of
                  (None, _) \<Rightarrow> ((-1, []), s1, out)
                | (Some data_size, p1) \<Rightarrow>
                    (case package_read_data p1 of
                       (None, _) \<Rightarrow> ((-1, []), s1, out)
                     | (Some received_data, _) \<Rightarrow>
                         if length received_data \<noteq> unat data_size then ((-1, []), s1, out)
                         else ((0, received_data), s1, out)))
             else if operation_code storage_response = STORAGE_OP_ERROR
             then ((-1, []), s1, handler_error_from_storage storage_response out)
             else ((-1, []), s1, out))"

definition write_block_to_storage ::
  "'s exchange \<Rightarrow> string \<Rightarrow> string \<Rightarrow> u32 \<Rightarrow> bytes \<Rightarrow> int \<Rightarrow> 's net \<Rightarrow> int \<times> 's net" where
  "write_block_to_storage ex file tag block_number data worker_id st =
     (let (s, out) = st;
          (ok, request) = add_fields (package_create_empty STORAGE_OP_BLOCK_WRITE_REQ)
             [F_uint32 (word_of_int worker_id), F_string (to_bytes file), F_string (to_bytes tag),
              F_uint32 block_number, F_data data]
      in if \<not> ok then (-1, st)
         else case ex request s of
           (None, s1) \<Rightarrow> (-1, s1, out)
         | (Some response, s1) \<Rightarrow>
             if operation_code response = STORAGE_OP_ERROR
             then (-1, s1, handler_error_from_storage response out)
             else if operation_code response \<noteq> STORAGE_OP_BLOCK_WRITE_RES then (-1, s1, out)
             else (0, s1, out))"

subsection \<open>Files and tags\<close>

definition create_file_in_storage ::
  "'s exchange \<Rightarrow> int \<Rightarrow> string \<Rightarrow> string \<Rightarrow> 's net \<Rightarrow> int \<times> 's net" where
  "create_file_in_storage ex worker_id file tag st =
     (let (ok, request) = add_fields (package_create_empty STORAGE_OP_FILE_CREATE_REQ)
             [F_uint32 (word_of_int worker_id), F_string (to_bytes file), F_string (to_bytes tag)]
      in if ok then send_request_and_wait_ack_with_error_handling ex request STORAGE_OP_FILE_CREATE_RES st
         else (-1, st))"

definition truncate_file_in_storage ::
  "'s exchange \<Rightarrow> string \<Rightarrow> string \<Rightarrow> nat \<Rightarrow> int \<Rightarrow> 's net \<Rightarrow> int \<times> 's net" where
  "truncate_file_in_storage ex file tag sz query_id st =
     (let (ok, request) = add_fields (package_create_empty STORAGE_OP_FILE_TRUNCATE_REQ)
             [F_uint32 (word_of_int query_id), F_string (to_bytes file), F_string (to_bytes tag),
              F_uint32 (word_of_nat sz)]
      in if ok then send_request_and_wait_ack_with_error_handling ex request STORAGE_OP_FILE_TRUNCATE_RES st
         else (-1, st))"

definition fork_file_in_storage ::
  "'s exchange \<Rightarrow> string \<Rightarrow> string \<Rightarrow> string \<Rightarrow> string \<Rightarrow> int \<Rightarrow> 's net \<Rightarrow> int \<times> 's net" where
  "fork_file_in_storage ex file_src tag_src file_dst tag_dst query_id st =
     (let (ok, request) = add_fields (package_create_empty STORAGE_OP_TAG_CREATE_REQ)
             [F_uint32 (word_of_int query_id), F_string (to_bytes file_src), F_string (to_bytes tag_src),
              F_string (to_bytes file_dst), F_string (to_bytes tag_dst)]
      in if ok then send_request_and_wait_ack_with_error_handling ex request STORAGE_OP_TAG_CREATE_RES st
         else (-1, st))"

definition commit_file_in_storage ::
  "'s exchange \<Rightarrow> string \<Rightarrow> string \<Rightarrow> int \<Rightarrow> 's net \<Rightarrow> int \<times> 's net" where
  "commit_file_in_storage ex file tag worker_id st =
     (let (ok, request) = add_fields (package_create_empty STORAGE_OP_TAG_COMMIT_REQ)
             [F_uint32 (word_of_int worker_id), F_string (to_bytes file), F_string (to_bytes tag)]
      in if ok then send_request_and_wait_ack_with_error_handling ex request STORAGE_OP_TAG_COMMIT_RES st
         else (-1, st))"

definition delete_file_in_storage ::
  "'s exchange \<Rightarrow> string \<Rightarrow> string \<Rightarrow> int \<Rightarrow> 's net \<Rightarrow> int \<times> 's net" where
  "delete_file_in_storage ex file tag worker_id st =
     (let (ok, request) = add_fields (package_create_empty STORAGE_OP_TAG_DELETE_REQ)
             [F_uint32 (word_of_int worker_id), F_string (to_bytes file), F_string (to_bytes tag)]
      in if ok then send_request_and_wait_ack ex request STORAGE_OP_TAG_DELETE_RES st
         else (-1, st))"

subsection \<open>The exchange with the modelled Storage process\<close>

definition transmit :: "t_package \<Rightarrow> t_package option" where
  "transmit p =
     (let (r, sent) = package_send (\<lambda>sock bs. int (length bs)) p 0
      in if r \<noteq> 0 then None
         else fst (package_receive \<lparr>inbox = sent, fragments = [], broken = False\<rparr> 0))"

definition storage_exchange :: "storage_env \<Rightarrow> t_client_data \<Rightarrow> storage_state exchange" where
  "storage_exchange g cd request st =
     (case transmit request of
        None \<Rightarrow> (None, st)
      | Some received \<Rightarrow>
          let (response, st1, cd1) = handle_client_request g st cd received
          in case response of
               None \<Rightarrow> (None, st1)
             | Some p \<Rightarrow> (transmit p, st1))"

text \<open>
  The two calls of the memory manager. Names are C strings short enough for the protocol and
  page numbers are \<^verbatim>\<open>uint32_t\<close> in the source; outside of that no call is made.
\<close>

definition wire_name :: "string \<Rightarrow> bool" where
  "wire_name s \<longleftrightarrow> string_valid (to_bytes s)"

definition storage_io :: "storage_env \<Rightarrow> t_client_data \<Rightarrow> int \<Rightarrow> storage_state net store_io" where
  "storage_io g cd query_id =
     \<lparr>io_read = (\<lambda>st f t b.
        if wire_name f \<and> wire_name t \<and> b < 2 ^ 32
        then read_block_from_storage (storage_exchange g cd) f t (word_of_nat b) query_id st
        else ((-1, []), st)),
      io_write = (\<lambda>st f t b d.
        if wire_name f \<and> wire_name t \<and> b < 2 ^ 32
        then write_block_to_storage (storage_exchange g cd) f t (word_of_nat b) d query_id st
        else (-1, st))\<rparr>"


subsection \<open>What the wire delivers\<close>

lemma transmit_ok:
  assumes "buffer_ok (buffer p)"
  shows "transmit p = Some (p\<lparr>buffer := (buffer p)\<lparr>offset := 0, is_dynamic := False\<rparr>\<rparr>)"
proof -
  have "package_send (\<lambda>sock bs. int (length bs)) p 0 = (0, package_bytes p)"
    by (rule package_send_all) simp_all
  moreover obtain s' where "package_receive \<lparr>inbox = package_bytes p, fragments = [], broken = False\<rparr> 0 =
      (Some (p\<lparr>buffer := (buffer p)\<lparr>offset := 0, is_dynamic := False\<rparr>\<rparr>), s')"
    using package_receive_sent [OF assms, of 0 "\<lparr>inbox = package_bytes p, fragments = [], broken = False\<rparr>" "[]"] by auto
  ultimately show ?thesis by (simp add: transmit_def)
qed

lemma transmit_reset:
  "buffer_ok (buffer p) \<Longrightarrow> transmit (package_reset_read_offset p) = transmit p"
  using transmit_ok [of p] transmit_ok [of "package_reset_read_offset p"] buffer_reset_ok [of "buffer p"]
  by (simp add: package_reset_read_offset_def buffer_reset_offset_def)

lemma built_ok:
  assumes "add_fields (package_create_empty op) fs = (True, p)" and "\<forall>f \<in> set fs. field_valid f"
  shows "buffer_ok (buffer p)" and "operation_code p = op"
    and "written (buffer p) = concat (map enc_field fs)"
  using add_fields_ok [OF _ assms(2,1)] by (simp_all add: package_create_empty_def)

lemma transmit_fields:
  assumes "add_fields (package_create_empty op) fs = (True, p)" and "\<forall>f \<in> set fs. field_valid f"
  obtains q where "transmit p = Some q" and "operation_code q = op"
    and "fst (read_fields q (map kind_of fs)) = Some fs"
proof -
  note B = built_ok [OF assms]
  from transmit_ok [OF B(1)] receive_read_back [OF B(1) assms(2) B(3)] B(2) show thesis
    by (intro that) auto
qed

text \<open>Small messages always fit, so some package delivers them.\<close>

lemma arrived_package:
  assumes "\<forall>f \<in> set fs. field_valid f" and "F_data [] \<notin> set fs" and "length (concat (map enc_field fs)) \<le> 50 * 1024 * 1024"
  obtains p where "operation_code p = op" and "fst (read_fields p (map kind_of fs)) = Some fs"
proof -
  obtain r where r: "add_fields (package_create_empty op) fs = (True, r)"
    by (rule message_fits [OF assms, of op])
  from transmit_fields [OF r assms(1)] show thesis using that by metis
qed

lemma read_fields_ConsD:
  assumes "fst (read_fields p (k # ks)) = Some (f # fs)"
  shows "\<exists>p'. read_field p k = (Some f, p') \<and> fst (read_fields p' ks) = Some fs"
  using assms by (auto split: prod.splits option.splits)

lemma add_int8_ok:
  assumes "package_add_int8 (package_create_empty op) v = (ok, p)"
  shows "ok \<Longrightarrow> operation_code p = op \<and> buffer_ok (buffer p)"
  using built_ok [of op "[F_int8 v]" p] assms by simp

lemma status_response_code:
  assumes "status_response op r = Some p"
  shows "operation_code p = op \<and> buffer_ok (buffer p)"
  using assms add_int8_ok [of op] by (auto simp: status_response_def split: prod.splits if_splits)


lemma deserialize_read:
  assumes "fst (read_fields p [K_uint32, K_string, K_string, K_uint32]) =
    Some [F_uint32 q, F_string n, F_string t, F_uint32 b]"
  shows "deserialize_block_read_request p = Some (q, n, t, b)"
  using assms
  by (auto simp: deserialize_block_read_request_def map_prod_def split: prod.splits option.splits)

lemma deserialize_write:
  assumes "fst (read_fields p [K_uint32, K_string, K_string, K_uint32, K_data]) =
    Some [F_uint32 q, F_string n, F_string t, F_uint32 b, F_data d]"
  shows "deserialize_block_write_request p = Some (q, n, t, b, d)"
  using assms
  by (auto simp: deserialize_block_write_request_def map_prod_def split: prod.splits option.splits)

lemma to_bytes_nul: "0 \<in> set (to_bytes s) \<longleftrightarrow> CHR 0x00 \<in> set s"
proof -
  have "c = CHR 0x00" if "0 = (of_char c :: u8)" for c
  proof -
    have "char_of (unat (of_char c :: u8)) = c" using of_to_bytes [of "[c]"] by (simp add: of_bytes_def to_bytes_def)
    then show ?thesis using that [symmetric] by (simp add: char_of_def)
  qed
  then show ?thesis by (force simp: to_bytes_def)
qed

lemma error_message_valid:
  assumes "CHR 0x00 \<notin> set prefix" and "length prefix \<le> 100"
  shows "string_valid (to_bytes (prefix @ '' error: '' @ storage_error_message code))"
proof -
  have "CHR 0x00 \<notin> set (storage_error_message code) \<and> length (storage_error_message code) \<le> 100"
    by (simp add: storage_error_message_def)
  then have "CHR 0x00 \<notin> set (prefix @ '' error: '' @ storage_error_message code)"
    "length (prefix @ '' error: '' @ storage_error_message code) \<le> 300" using assms by simp_all
  then show ?thesis
    unfolding string_valid_def to_bytes_nul by (simp add: to_bytes_def MAX_STRING_LENGTH_def)
qed

lemma error_response_ok:
  assumes "CHR 0x00 \<notin> set prefix" and "length prefix \<le> 100"
  shows "buffer_ok (buffer (error_response q prefix code)) \<and>
    operation_code (error_response q prefix code) = STORAGE_OP_ERROR"
proof -
  let ?s = "to_bytes (prefix @ '' error: '' @ storage_error_message code)"
  obtain r1 p1 where a1: "add_field (package_create_empty STORAGE_OP_ERROR) (F_uint32 q) = (r1, p1)" by fastforce
  obtain r2 p2 where a2: "add_field p1 (F_string ?s) = (r2, p2)" by fastforce
  have p1: "buffer_ok (buffer p1) \<and> operation_code p1 = STORAGE_OP_ERROR"
    using add_field_ok [OF _ _ a1] by (simp add: package_create_empty_def)
  have "buffer_ok (buffer p2) \<and> operation_code p2 = STORAGE_OP_ERROR"
    using add_field_ok [OF _ _ a2] p1 error_message_valid [OF assms] by simp
  moreover have "error_response q prefix code = package_reset_read_offset p2"
    using a1 a2 by (simp add: error_response_def)
  ultimately show ?thesis
    by (simp add: package_reset_read_offset_def buffer_reset_ok)
qed


lemma read_handler_state: "snd (handle_read_block_request g fs p) = fs"
  by (auto simp: handle_read_block_request_def Let_def split: option.splits prod.splits)

lemma read_handler_response:
  assumes bs: "block_size g < 2 ^ 16" and inv: "fs_inv g fs"
    and d: "deserialize_block_read_request p = Some (q, to_bytes f, to_bytes t, bn)"
    and h: "handle_read_block_request g fs p = (Some resp, fs')"
  shows "buffer_ok (buffer resp)"
    and "operation_code resp = STORAGE_OP_BLOCK_READ_RES \<or> operation_code resp = STORAGE_OP_ERROR"
    and "operation_code resp = STORAGE_OP_BLOCK_READ_RES \<Longrightarrow> transmit resp = Some rq \<Longrightarrow>
      package_read_uint32 rq = (Some sz, p1) \<Longrightarrow> package_read_data p1 = (Some data, p2) \<Longrightarrow>
      content fs f t (unat bn) = Some data"
proof -
  obtain r buf where x: "execute_block_read g fs f t bn = (r, buf)" by (metis surj_pair)
  let ?w = "word_of_nat (block_size g) :: u32"
  have w: "unat ?w = block_size g" using bs by (simp add: unat_of_nat)
  have P: "buffer_ok (buffer resp) \<and>
    (operation_code resp = STORAGE_OP_BLOCK_READ_RES \<or> operation_code resp = STORAGE_OP_ERROR) \<and>
    (operation_code resp = STORAGE_OP_BLOCK_READ_RES \<longrightarrow> transmit resp = Some rq \<longrightarrow>
      package_read_uint32 rq = (Some sz, p1) \<longrightarrow> package_read_data p1 = (Some data, p2) \<longrightarrow>
      content fs f t (unat bn) = Some data)"
  proof (cases "r = 0")
    case False
    with h d x have "resp = error_response q ''READ_BLOCK'' r"
      by (auto simp: handle_read_block_request_def)
    with error_response_ok [of "''READ_BLOCK''" q r] show ?thesis by (simp add: storage_op_defs)
  next
    case True
    note c = block_read_ok(2) [OF inv x True]
    have lb: "length buf = block_size g" if "0 < block_size g"
    proof -
      from c obtain i where "link fs (f, t) (unat bn) = Some i" "buf = physical_blocks fs ! i"
        by (auto simp: content_def split: option.splits if_splits)
      with fs_invD(2,7) [OF inv] show ?thesis by blast
    qed
    show ?thesis
    proof (cases "block_size g = 0")
      case z: True
      from c obtain i where i: "link fs (f, t) (unat bn) = Some i"
        by (auto simp: content_def split: option.splits if_splits)
      with fs_invD(7) [OF inv i] z have False by (simp add: total_blocks_def)
      then show ?thesis ..
    next
      case nz: False
      obtain ok1 r1 where a1: "package_add_uint32 (package_create_empty STORAGE_OP_BLOCK_READ_RES) ?w = (ok1, r1)"
        by fastforce
      obtain ok2 r2 where a2: "package_add_data r1 buf = (ok2, r2)" by fastforce
      have res: "ok1 \<and> ok2 \<and> resp = package_reset_read_offset r2"
        using h d x True a1 a2 nz w lb
        by (auto simp: handle_read_block_request_def Let_def split: if_splits)
      then have b: "add_fields (package_create_empty STORAGE_OP_BLOCK_READ_RES) [F_uint32 ?w, F_data buf] = (True, r2)"
        using a1 a2 by simp
      have v: "\<forall>x \<in> set [F_uint32 ?w, F_data buf]. field_valid x"
        using lb nz bs by (simp add: data_valid_def MAX_DATA_SIZE_def)
      note B = built_ok [OF b v]
      from transmit_fields [OF b v] obtain rq' where R: "transmit r2 = Some rq'"
        "fst (read_fields rq' (map kind_of [F_uint32 ?w, F_data buf])) = Some [F_uint32 ?w, F_data buf]" by blast
      have t: "transmit resp = Some rq'" using R(1) res transmit_reset [OF B(1)] by simp
      have "data = buf" if "package_read_uint32 rq' = (Some sz, p1)" "package_read_data p1 = (Some data, p2)"
        using R(2) that by (auto simp: map_prod_def split: prod.splits option.splits)
      with c t res B show ?thesis
        by (auto simp: package_reset_read_offset_def buffer_reset_ok)
    qed
  qed
  then show "buffer_ok (buffer resp)"
    and "operation_code resp = STORAGE_OP_BLOCK_READ_RES \<or> operation_code resp = STORAGE_OP_ERROR"
    and "operation_code resp = STORAGE_OP_BLOCK_READ_RES \<Longrightarrow> transmit resp = Some rq \<Longrightarrow>
      package_read_uint32 rq = (Some sz, p1) \<Longrightarrow> package_read_data p1 = (Some data, p2) \<Longrightarrow>
      content fs f t (unat bn) = Some data" by blast+
qed

lemma transmit_code: "transmit p = Some q \<Longrightarrow> buffer_ok (buffer p) \<Longrightarrow> operation_code q = operation_code p"
  by (auto simp: transmit_ok)

lemma exchange_read:
  assumes req: "transmit request = Some p" and op: "operation_code p = STORAGE_OP_BLOCK_READ_REQ"
    and e: "storage_exchange g cd request st = (resp, st')"
  shows "st' = st" and "resp = None \<or> (\<exists>r. handle_read_block_request g (st_fs st) p = (Some r, st_fs st) \<and> resp = transmit r)"
proof -
  obtain r fs1 where h: "handle_read_block_request g (st_fs st) p = (r, fs1)" by (metis surj_pair)
  with read_handler_state [of g "st_fs st" p] have "fs1 = st_fs st" by simp
  moreover have "handle_client_request g st cd p = (r, st\<lparr>st_fs := fs1\<rparr>, cd)"
    using h op by (simp add: handle_client_request_def storage_op_defs)
  ultimately show "st' = st"
    "resp = None \<or> (\<exists>r. handle_read_block_request g (st_fs st) p = (Some r, st_fs st) \<and> resp = transmit r)"
    using e req h by (auto simp: storage_exchange_def split: option.splits)
qed

lemma read_client:
  assumes nm: "wire_name f" "wire_name t" and bs: "block_size g < 2 ^ 16" and inv: "fs_inv g (st_fs st)"
    and rd: "read_block_from_storage (storage_exchange g cd) f t bn q (st, out) = ((r, d), st', out')"
  shows "st' = st \<and> (r = 0 \<or> r = -1) \<and> (r = 0 \<longrightarrow> content (st_fs st) f t (unat bn) = Some d)"
proof -
  let ?fields = "[F_uint32 (word_of_int q), F_string (to_bytes f), F_string (to_bytes t), F_uint32 bn]"
  obtain ok req where a: "add_fields (package_create_empty STORAGE_OP_BLOCK_READ_REQ) ?fields = (ok, req)" by fastforce
  show ?thesis
  proof (cases ok)
    case False
    with rd a show ?thesis by (simp add: read_block_from_storage_def del: add_fields.simps)
  next
    case True
    have v: "\<forall>x \<in> set ?fields. field_valid x" using nm by (simp add: wire_name_def)
    from transmit_fields [OF a [unfolded True [THEN eqTrueI]] v] obtain p where p: "transmit req = Some p"
      "operation_code p = STORAGE_OP_BLOCK_READ_REQ"
      "fst (read_fields p (map kind_of ?fields)) = Some ?fields" by blast
    have d: "deserialize_block_read_request p = Some (word_of_int q, to_bytes f, to_bytes t, bn)"
      using p(3) by (intro deserialize_read) simp
    obtain resp st1 where e: "storage_exchange g cd req st = (resp, st1)" by (metis surj_pair)
    note E = exchange_read [OF p(1,2) e]
    have rd': "(case (resp, st1) of
        (None, s1) \<Rightarrow> ((-1, []), s1, out)
      | (Some storage_response, s1) \<Rightarrow>
          if operation_code storage_response = STORAGE_OP_BLOCK_READ_RES then
            (case package_read_uint32 storage_response of
               (None, _) \<Rightarrow> ((-1, []), s1, out)
             | (Some data_size, p1) \<Rightarrow>
                 (case package_read_data p1 of
                    (None, _) \<Rightarrow> ((-1, []), s1, out)
                  | (Some received_data, _) \<Rightarrow>
                      if length received_data \<noteq> unat data_size then ((-1, []), s1, out)
                      else ((0, received_data), s1, out)))
          else if operation_code storage_response = STORAGE_OP_ERROR
          then ((-1, []), s1, handler_error_from_storage storage_response out)
          else ((-1, []), s1, out)) = ((r, d), st', out')"
      using rd a True e by (simp add: read_block_from_storage_def Let_def del: add_fields.simps)
    have "st' = st \<and> (r = 0 \<or> r = -1)"
      using rd' E(1) by (auto split: option.splits if_splits prod.splits)
    moreover have "content (st_fs st) f t (unat bn) = Some d" if "r = 0"
    proof -
      from rd' that obtain rs sz p1 p2 where rs: "resp = Some rs" "operation_code rs = STORAGE_OP_BLOCK_READ_RES"
        "package_read_uint32 rs = (Some sz, p1)" "package_read_data p1 = (Some d, p2)"
        by (auto split: option.splits if_splits prod.splits)
      from E(2) rs(1) obtain h where h: "handle_read_block_request g (st_fs st) p = (Some h, st_fs st)"
        "transmit h = Some rs" by auto
      note H = read_handler_response [OF bs inv d h(1)]
      have "operation_code h = STORAGE_OP_BLOCK_READ_RES" using transmit_code [OF h(2) H(1)] rs(2) by simp
      from H(3) [OF this h(2) rs(3,4)] show ?thesis .
    qed
    ultimately show ?thesis by blast
  qed
qed


lemma write_client:
  assumes ba: "bitarray_ok g" and nm: "wire_name f" "wire_name t" and inv: "fs_inv g (st_fs st)"
    and dv: "data_valid data"
    and wr: "write_block_to_storage (storage_exchange g cd) f t bn data q (st, out) = (r, st', out')"
  shows "(\<exists>r'. execute_block_write g (st_fs st) f t bn data = (r', st_fs st') \<and> (r = 0 \<longrightarrow> r' = 0)) \<or>
    (r \<noteq> 0 \<and> st' = st)"
proof -
  let ?fields = "[F_uint32 (word_of_int q), F_string (to_bytes f), F_string (to_bytes t), F_uint32 bn, F_data data]"
  obtain ok req where a: "add_fields (package_create_empty STORAGE_OP_BLOCK_WRITE_REQ) ?fields = (ok, req)" by fastforce
  show ?thesis
  proof (cases ok)
    case False
    with wr a show ?thesis by (simp add: write_block_to_storage_def del: add_fields.simps)
  next
    case True
    have v: "\<forall>x \<in> set ?fields. field_valid x" using nm dv by (simp add: wire_name_def)
    from transmit_fields [OF a [unfolded True [THEN eqTrueI]] v] obtain p where p: "transmit req = Some p"
      "operation_code p = STORAGE_OP_BLOCK_WRITE_REQ"
      "fst (read_fields p (map kind_of ?fields)) = Some ?fields" by blast
    have d: "deserialize_block_write_request p = Some (word_of_int q, to_bytes f, to_bytes t, bn, data)"
      using p(3) by (intro deserialize_write) simp
    obtain r' fs1 where x: "execute_block_write g (st_fs st) f t bn data = (r', fs1)" by (metis surj_pair)
    obtain rs where h: "handle_write_block_request g (st_fs st) p = (rs, fs1)"
      and bad: "r' \<noteq> 0 \<Longrightarrow> rs = Some (error_response (word_of_int q) ''WRITE_BLOCK'' r')"
      using d x by (cases "r' = 0") (auto simp: handle_write_block_request_def)
    have e: "storage_exchange g cd req st = (Option.bind rs transmit, st\<lparr>st_fs := fs1\<rparr>)"
      using p h by (auto simp: storage_exchange_def handle_client_request_def storage_op_defs split: option.splits)
    have st': "st' = st\<lparr>st_fs := fs1\<rparr>"
      using wr a True e
      by (auto simp: write_block_to_storage_def Let_def simp del: add_fields.simps split: option.splits if_splits)
    have "r' = 0" if "r = 0"
    proof (rule ccontr)
      assume "r' \<noteq> 0"
      note E = error_response_ok [of "''WRITE_BLOCK''" "word_of_int q" r']
      from bad [OF \<open>r' \<noteq> 0\<close>] E obtain q' where q': "Option.bind rs transmit = Some q'"
        "operation_code q' = STORAGE_OP_ERROR" by (simp add: transmit_ok)
      with wr a True e that show False
        by (auto simp: write_block_to_storage_def Let_def storage_op_defs simp del: add_fields.simps split: if_splits)
    qed
    with x st' show ?thesis by simp
  qed
qed

subsection \<open>The Storage process as a store of blocks\<close>

text \<open>
  The Worker learns the block size in 16 bits; this is the range in which the two processes
  agree on it.
\<close>

definition net_ok :: "storage_env \<Rightarrow> storage_state net \<Rightarrow> bool" where
  "net_ok g st \<longleftrightarrow> bitarray_ok g \<and> block_size g < 2 ^ 16 \<and> fs_ok g (st_fs (fst st))"

lemma block_write_fs_ok:
  assumes ba: "bitarray_ok g" and ok: "fs_ok g fs" and w: "execute_block_write g fs f t bn data = (r, fs')"
  shows "fs_ok g fs'"
proof (cases "(f, t) = base_tag")
  case True
  then obtain m where "meta fs (f, t) = Some m" "md_state m = COMMITTED"
    using fs_okD(2) [OF ok] by (auto simp: base_ok_def)
  from block_write_ok(5) [OF ba fs_okD(1) [OF ok] w this] ok show ?thesis by simp
next
  case False
  note W = block_write_ok [OF ba fs_okD(1) [OF ok] w]
  show ?thesis using W(1) spares_base [OF W(2) False fs_okD(2) [OF ok]] by (simp add: fs_ok_def)
qed

definition net_content :: "storage_state net \<Rightarrow> string \<Rightarrow> string \<Rightarrow> nat \<Rightarrow> bytes option" where
  "net_content st = content (st_fs (fst st))"

lemma padded_whole: "length d = block_size g \<Longrightarrow> padded g d = d"
  by (simp add: padded_def)

lemma net_content_size:
  assumes "net_ok g s" and "net_content s f t b = Some d"
  shows "length d = block_size g"
proof -
  have inv: "fs_inv g (st_fs (fst s))" using assms(1) by (simp add: net_ok_def fs_ok_def)
  from assms(2) obtain i where "link (st_fs (fst s)) (f, t) b = Some i" "d = physical_blocks (st_fs (fst s)) ! i"
    by (auto simp: net_content_def content_def split: option.splits if_splits)
  with fs_invD(2,7) [OF inv] show ?thesis by blast
qed

lemma net_read:
  assumes ok: "net_ok g s" and io: "io_read (storage_io g cd q) s f t b = ((r, d), s')"
  shows "net_ok g s' \<and> net_content s' = net_content s \<and> r \<noteq> -2 \<and> (r = 0 \<longrightarrow> net_content s f t b = Some d)"
proof (cases "wire_name f \<and> wire_name t \<and> b < 2 ^ 32")
  case False
  with io ok show ?thesis by (auto simp: storage_io_def split: if_splits)
next
  case True
  obtain st out st' out' where s: "s = (st, out)" "s' = (st', out')" by (metis surj_pair)
  have bn: "unat (word_of_nat b :: u32) = b" using True by (simp add: unat_of_nat)
  have "read_block_from_storage (storage_exchange g cd) f t (word_of_nat b) q (st, out) = ((r, d), st', out')"
    using io True s by (simp add: storage_io_def)
  from read_client [OF _ _ _ _ this] True ok s bn show ?thesis
    by (auto simp: net_ok_def net_content_def dest: fs_okD(1))
qed

lemma net_write:
  assumes ok: "net_ok g s" and d: "length d = block_size g"
    and io: "io_write (storage_io g cd q) s f t b d = (r, s')"
  shows "net_ok g s' \<and>
    (\<forall>f' t' b'. (f', t', b') \<noteq> (f, t, b) \<longrightarrow> net_content s' f' t' b' = net_content s f' t' b') \<and>
    (r = 0 \<longrightarrow> net_content s' f t b = Some d)"
proof (cases "wire_name f \<and> wire_name t \<and> b < 2 ^ 32")
  case False
  with io ok show ?thesis by (auto simp: storage_io_def split: if_splits)
next
  case True
  obtain st out st' out' where s: "s = (st, out)" "s' = (st', out')" by (metis surj_pair)
  have bn: "unat (word_of_nat b :: u32) = b" using True by (simp add: unat_of_nat)
  have ba: "bitarray_ok g" and fok: "fs_ok g (st_fs st)" and bs: "block_size g < 2 ^ 16"
    using ok s by (simp_all add: net_ok_def)
  note inv = fs_okD(1) [OF fok]
  have dv: "data_valid d" using d bs by (simp add: data_valid_def MAX_DATA_SIZE_def)
  have w: "write_block_to_storage (storage_exchange g cd) f t (word_of_nat b) d q (st, out) = (r, st', out')"
    using io True s by (simp add: storage_io_def)
  consider r' where "execute_block_write g (st_fs st) f t (word_of_nat b) d = (r', st_fs st')" "r = 0 \<longrightarrow> r' = 0"
    | "r \<noteq> 0" "st' = st"
    using write_client [OF ba _ _ inv dv w] True by blast
  then show ?thesis
  proof cases
    case 1
    note W = block_write_ok [OF ba inv 1(1), unfolded bn]
    have "content (st_fs st') f' t' b' = content (st_fs st) f' t' b'" if "(f', t', b') \<noteq> (f, t, b)" for f' t' b'
      using that W(3) [of b'] spares_content [OF W(2), of f' t' b'] by (cases "(f', t') = (f, t)") auto
    moreover have "r = 0 \<longrightarrow> content (st_fs st') f t b = Some d" using 1(2) W(4) padded_whole [OF d] by simp
    ultimately show ?thesis using ba bs block_write_fs_ok [OF ba fok 1(1)] s by (simp add: net_ok_def net_content_def)
  next
    case 2
    with ok s show ?thesis by (simp add: net_ok_def net_content_def)
  qed
qed

end
