(* ===== verification/Storage_Files.thy ===== *)
theory Storage_Files
  imports Storage_Correct
begin

text \<open>
  The life of a File:Tag in Storage: a fresh filesystem, creating a file, truncating it,
  taking a tag of it and deleting it.
\<close>

subsection \<open>A fresh filesystem\<close>

lemma empty_inv:
  assumes "length bm = bitmap_size_bytes g"
  shows "fs_inv g \<lparr>file_dirs = ds, tag_dirs = (\<lambda>k. None),
    physical_blocks = replicate (total_blocks g) (replicate (block_size g) 0),
    st_nlink = replicate (total_blocks g) 1, bitmap_bin = bm, blocks_hash_index = (\<lambda>h. None)\<rparr>"
    (is "fs_inv g ?fs")
proof -
  have "link ?fs k b = None" "meta ?fs k = None" for k b by (simp_all add: link_def meta_def)
  then show ?thesis
    by (intro fs_invI) (simp_all add: links_to_def assms)
qed

lemma create_dir_inv:
  fixes ds :: "string list" and m :: "t_file_metadata option"
  assumes inv: "fs_inv g fs" and n: "tag_dirs fs (f, t) = None"
  defines "fs' \<equiv> set_tag (fs\<lparr>file_dirs := ds\<rparr>) (f, t) \<lparr>logical_blocks = [], metadata_config = m\<rparr>"
  assumes m: "\<And>x i. m = Some x \<Longrightarrow> i \<in> set (md_blocks x) \<Longrightarrow> i < total_blocks g"
  shows "fs_inv g fs'" and "link fs' = link fs" and "meta fs' = (meta fs)((f, t) := m)"
    and "spares (f, t) fs fs'"
proof -
  show l: "link fs' = link fs" and mt: "meta fs' = (meta fs)((f, t) := m)"
    using n by (auto simp: fs'_def set_tag_def link_def meta_def fun_eq_iff)
  then have lt: "links_to fs' = links_to fs" by (simp add: links_to_def fun_eq_iff)
  have same: "physical_blocks fs' = physical_blocks fs" "st_nlink fs' = st_nlink fs"
    "bitmap_bin fs' = bitmap_bin fs" "blocks_hash_index fs' = blocks_hash_index fs"
    by (simp_all add: fs'_def set_tag_def)
  show "spares (f, t) fs fs'" by (auto simp: spares_def l mt same) (auto simp: fs'_def set_tag_def)
  show "fs_inv g fs'"
  proof (rule fs_invI)
    show "distinct (map fst (logical_blocks d))" if "tag_dirs fs' k = Some d" for k d
      using that fs_invD(9) [OF inv, of k d] by (auto simp: fs'_def set_tag_def split: if_splits)
    show "j < total_blocks g" if "meta fs' k = Some m'" "j \<in> set (md_blocks m')" for k m' j
      using that m fs_invD(11) [OF inv, of k m' j] by (auto simp: mt split: if_splits)
    show "j < total_blocks g \<and> used g fs' j" if "link fs' k b = Some j" for k b j
      using that fs_invD(7,8) [OF inv, of k b j] by (simp add: l same)
    show "\<exists>i<total_blocks g. nm = block_name i" if "blocks_hash_index fs' h = Some nm" for h nm
      using that fs_invD(10) [OF inv, of h nm] by (simp add: same)
  qed (use fs_inv_sizes [OF inv] fs_invD(1,3,4,5,6) [OF inv] in \<open>simp_all add: same l lt\<close>)
qed

lemma create_file_ok:
  assumes inv: "fs_inv g fs" and c: "create_file_op fs f t = (r, fs')"
  shows "fs_inv g fs'" and "spares (f, t) fs fs'"
    and "r = 0 \<longleftrightarrow> tag_dirs fs (f, t) = None" and "r \<noteq> 0 \<Longrightarrow> r = FILE_TAG_ALREADY_EXISTS \<and> fs' = fs"
    and "r = 0 \<Longrightarrow> meta fs' (f, t) = Some \<lparr>md_size = 0, md_blocks = [], md_state = IN_PROGRESS\<rparr> \<and>
      link fs' (f, t) = (\<lambda>b. None)"
proof -
  have "fs_inv g fs' \<and> spares (f, t) fs fs' \<and> (r = 0 \<longleftrightarrow> tag_dirs fs (f, t) = None) \<and>
    (r \<noteq> 0 \<longrightarrow> r = FILE_TAG_ALREADY_EXISTS \<and> fs' = fs) \<and>
    (r = 0 \<longrightarrow> meta fs' (f, t) = Some \<lparr>md_size = 0, md_blocks = [], md_state = IN_PROGRESS\<rparr> \<and>
      link fs' (f, t) = (\<lambda>b. None))"
  proof (cases "tag_dirs fs (f, t)")
    case (Some d)
    with c inv show ?thesis by (auto simp: create_file_op_def create_file_dir_structure_def FILE_TAG_ALREADY_EXISTS_def)
  next
    case None
    let ?m = "\<lparr>md_size = 0, md_blocks = [], md_state = IN_PROGRESS\<rparr>"
    have "r = 0" "fs' = set_tag (fs\<lparr>file_dirs := List.insert f (file_dirs fs)\<rparr>) (f, t)
        \<lparr>logical_blocks = [], metadata_config = Some ?m\<rparr>"
      using c None by (auto simp: create_file_op_def create_file_dir_structure_def create_metadata_file_def set_tag_def)
    moreover have "link fs (f, t) = (\<lambda>b. None)" using None by (simp add: link_def fun_eq_iff)
    moreover have "\<And>x i. Some ?m = Some x \<Longrightarrow> i \<in> set (md_blocks x) \<Longrightarrow> i < total_blocks g" by auto
    note D = create_dir_inv [where m = "Some ?m" and ds = "List.insert f (file_dirs fs)", OF inv None this]
    ultimately show ?thesis using None D by simp
  qed
  then show "fs_inv g fs'" and "spares (f, t) fs fs'"
    and "r = 0 \<longleftrightarrow> tag_dirs fs (f, t) = None" and "r \<noteq> 0 \<Longrightarrow> r = FILE_TAG_ALREADY_EXISTS \<and> fs' = fs"
    and "r = 0 \<Longrightarrow> meta fs' (f, t) = Some \<lparr>md_size = 0, md_blocks = [], md_state = IN_PROGRESS\<rparr> \<and>
      link fs' (f, t) = (\<lambda>b. None)" by blast+
qed

lemma init_storage_ok:
  assumes ba: "bitarray_ok g" and n: "0 < total_blocks g"
  obtains fs' where "init_storage g fs = (0, fs')" and "fs_ok g fs'"
    and "tag_dirs fs' k \<noteq> None \<longleftrightarrow> k = base_tag"
    and "meta fs' base_tag = Some \<lparr>md_size = 0, md_blocks = [0], md_state = COMMITTED\<rparr>"
proof -
  let ?bm = "bitarray_set_bit g (replicate (bitmap_size_bytes g) 0) 0"
  let ?fs4 = "\<lparr>file_dirs = [], tag_dirs = (\<lambda>k. None),
    physical_blocks = replicate (total_blocks g) (replicate (block_size g) 0),
    st_nlink = replicate (total_blocks g) 1, bitmap_bin = ?bm, blocks_hash_index = (\<lambda>h. None)\<rparr>"
  have len: "length ?bm = bitmap_size_bytes g" using bitarray_okD(2) [OF ba] by simp
  have bits: "0 < 8 * bitmap_size_bytes g" using n total_le_bits [of g] by linarith
  have used0: "used g ?fs4 0" using bitarray_okD(4) [OF ba, of 0 "replicate (bitmap_size_bytes g) 0" 0] bits by simp
  note inv4 = empty_inv [OF len, of "[]"]
  let ?fs5 = "set_tag (?fs4\<lparr>file_dirs := [''initial_file'']\<rparr>) base_tag \<lparr>logical_blocks = [], metadata_config = None\<rparr>"
  have "tag_dirs ?fs4 base_tag = None" by simp
  note D = create_dir_inv [where m = None and ds = "[''initial_file'']", OF inv4 this]
  have inv5: "fs_inv g ?fs5" and l5: "link ?fs5 base_tag 0 = None"
    using D(1,2) by (simp_all add: link_def)
  obtain fs6 where lk: "os_link ?fs5 0 base_tag 0 = Some fs6"
    using os_link_iff [of ?fs5 0 base_tag 0] l5 n by (auto simp: set_tag_def)
  note L = os_link_Some [OF lk]
  have inv6: "fs_inv g fs6" by (rule os_link_inv [OF inv5 lk]) (use used0 in \<open>simp add: set_tag_def\<close>)
  obtain d where d: "tag_dirs fs6 base_tag = Some d" using L(10) [of base_tag] L(11) by blast
  let ?m = "\<lparr>md_size = 0, md_blocks = [0], md_state = ''COMMITTED''\<rparr>"
  let ?fs7 = "set_tag fs6 base_tag (d\<lparr>metadata_config := Some ?m\<rparr>)"
  have m: "i \<in> set (md_blocks ?m) \<Longrightarrow> i < total_blocks g" for i using n by simp
  note S = set_meta_inv [where m = ?m, OF inv6 d m]
  have "link ?fs7 base_tag 0 = Some 0" using S(2) L(3) by simp
  moreover have m7: "meta ?fs7 base_tag = Some ?m" using S(3) by simp
  moreover have "physical_blocks ?fs7 ! 0 = replicate (block_size g) 0" using L(5) n by (simp add: set_tag_def)
  ultimately have "base_ok g ?fs7" by (simp add: base_ok_def COMMITTED_def)
  then have ok: "fs_ok g ?fs7" using S(1) by (simp add: fs_ok_def)
  have "init_files ?fs4 = (0, ?fs7)"
    using lk d by (simp add: init_files_def create_file_dir_structure_def create_metadata_file_def)
  then have "init_storage g fs = (0, ?fs7)"
    unfolding init_storage_def Let_def wipe_storage_content_def init_bitmap_def init_blocks_index_def
      init_physical_blocks_def total_blocks_def [symmetric] bitmap_size_bytes_def [symmetric] by simp
  moreover have "tag_dirs ?fs7 k \<noteq> None \<longleftrightarrow> k = base_tag"
    using L(10) [of k] d by (auto simp: set_tag_def)
  ultimately show thesis using ok m7 that by (simp add: COMMITTED_def)
qed


subsection \<open>Truncating\<close>

lemma sdiv_nonneg: "0 \<le> a \<Longrightarrow> 0 < b \<Longrightarrow> a sdiv b = a div (b :: int)"
  by (cases "a = 0") (simp_all add: signed_divide_int_def)

definition blocks_for :: "storage_env \<Rightarrow> int \<Rightarrow> nat" where
  "blocks_for g sz = nat ((sz + int (block_size g) - 1) div int (block_size g))"

lemma base_block_size: "fs_ok g fs \<Longrightarrow> 0 < block_size g"
  using base_used(2) [of g fs] by (cases "block_size g = 0") (simp_all add: total_blocks_def)

definition truncated :: "storage_env \<Rightarrow> fs \<Rightarrow> string \<Rightarrow> string \<Rightarrow> int \<Rightarrow> fs \<Rightarrow> bool" where
  "truncated g fs f t sz fs' \<longleftrightarrow>
     (\<forall>m. meta fs (f, t) = Some m \<longrightarrow>
        (\<exists>m'. meta fs' (f, t) = Some m' \<and> md_size m' = sz \<and> md_state m' = md_state m \<and>
           length (md_blocks m') = blocks_for g sz) \<and>
        (\<forall>b. content fs' f t b =
           (if b < blocks_for g sz \<and> b < 2 ^ 31
            then if b < length (md_blocks m) then content fs f t b else Some (replicate (block_size g) 0)
            else None)))"

lemma truncatedI:
  assumes "meta fs (f, t) = Some m" and "meta fs' (f, t) = Some m'" and "md_size m' = sz"
    and "md_state m' = md_state m" and "length (md_blocks m') = blocks_for g sz"
    and "\<And>b. b < blocks_for g sz \<Longrightarrow> b < length (md_blocks m) \<Longrightarrow> link fs' (f, t) b = link fs (f, t) b"
    and "\<And>b. b < blocks_for g sz \<Longrightarrow> \<not> b < length (md_blocks m) \<Longrightarrow> link fs' (f, t) b = Some 0"
    and "physical_blocks fs' = physical_blocks fs" and "physical_blocks fs ! 0 = replicate (block_size g) 0"
  shows "truncated g fs f t sz fs'"
  using assms by (auto simp: truncated_def content_def)

lemma truncate_eq:
  assumes m: "meta fs (f, t) = Some m" and bs: "0 < block_size g" and sz: "0 \<le> sz"
  shows "truncate_file g fs f t sz =
      (let old = length (md_blocks m); new = blocks_for g sz in
       if new = old then
         (let (r, fs1) = save_file_metadata fs f t (m\<lparr>md_size := sz\<rparr>) in if r \<noteq> 0 then (-4, fs1) else (0, fs1))
       else
         let (ok, fs1) = (if new < old then (True, shrink_links g fs f t (md_blocks m) [new..<old])
                          else expand_links fs (f, t) [old..<new])
         in if \<not> ok then (-2, fs1)
            else
              let (r, fs2) = save_file_metadata fs1 f t
                    (m\<lparr>md_blocks := take new (md_blocks m) @ replicate (new - old) 0, md_size := sz\<rparr>)
              in if r \<noteq> 0 then (-4, fs2) else (0, fs2))"
proof -
  have nn: "0 \<le> sz + int (block_size g) - 1" using bs sz by linarith
  have c: "(sz + int (block_size g) - 1) sdiv int (block_size g) = int (blocks_for g sz)"
    unfolding blocks_for_def using sdiv_nonneg [OF nn, of "int (block_size g)"] bs nn
    by (simp add: pos_imp_zdiv_nonneg_iff)
  show ?thesis
    unfolding truncate_file_def read_file_metadata_meta m option.case c nat_int Let_def of_nat_eq_iff by simp
qed

lemma truncate_spec:
  assumes b: "bitarray_ok g" and ok: "fs_ok g fs" and n: "(f, t) \<noteq> base_tag"
    and m: "meta fs (f, t) = Some m" and wh: "whole fs (f, t)" and sz: "0 \<le> sz"
  shows "\<exists>fs'. truncate_file g fs f t sz = (0, fs') \<and> fs_ok g fs' \<and> spares (f, t) fs fs' \<and>
    whole fs' (f, t) \<and> truncated g fs f t sz fs'"
proof -
  note inv = fs_okD(1) [OF ok] and bs = base_block_size [OF ok]
  note eq = truncate_eq [OF m bs sz]
  let ?old = "length (md_blocks m)" and ?new = "blocks_for g sz"
  let ?m = "m\<lparr>md_blocks := take ?new (md_blocks m) @ replicate (?new - ?old) 0, md_size := sz\<rparr>"
  have mb: "\<And>i. i \<in> set (md_blocks ?m) \<Longrightarrow> i < total_blocks g"
    using fs_invD(11) [OF inv m] base_used(2) [OF ok] by (auto dest: in_set_takeD)
  have zero: "physical_blocks fs ! 0 = replicate (block_size g) 0" using fs_okD(2) [OF ok] by (simp add: base_ok_def)
  have lk: "link fs (f, t) x \<noteq> None \<longleftrightarrow> x < ?old" for x using wh m by (simp add: whole_def)
  have fin: ?thesis
    if s: "fs_inv g fs1" "tag_dirs fs1 (f, t) \<noteq> None" "physical_blocks fs1 = physical_blocks fs"
      and l: "\<And>x. link fs1 (f, t) x = (if x < ?new then if x < ?old then link fs (f, t) x else Some 0 else None)"
      and tr: "truncate_file g fs f t sz = save_file_metadata fs1 f t ?m" for fs1
  proof -
    obtain r fs2 where sv: "save_file_metadata fs1 f t ?m = (r, fs2)" by (metis surj_pair)
    note S = save_metadata_ok [OF s(1,2) mb sv]
    have res: "truncate_file g fs f t sz = (0, fs2)" using tr sv S(1) by simp
    have ok2: "fs_ok g fs2 \<and> spares (f, t) fs fs2" by (rule truncate_ok [OF b ok n res])
    have "whole fs2 (f, t)" using S(4,5) l lk by (auto simp: whole_def)
    moreover have "truncated g fs f t sz fs2"
      by (rule truncatedI [OF m, of fs2 ?m]) (use S(4,5,6) l s(3) zero in auto)
    ultimately show ?thesis using res ok2 by blast
  qed
  have dir: "tag_dirs fs (f, t) \<noteq> None" using meta_dir [OF m] by auto
  have ret: "(case save_file_metadata fs1 f t m1 of (r, fs2) \<Rightarrow> if r \<noteq> 0 then (-4, fs2) else (0, fs2)) =
      save_file_metadata fs1 f t m1" for fs1 m1
    by (simp add: save_file_metadata_def split: option.split)
  consider (same) "?new = ?old" | (shrink) "?new < ?old" | (grow) "?old < ?new" by linarith
  then show ?thesis
  proof cases
    case same
    show ?thesis
    proof (rule fin [OF inv dir refl])
      show "link fs (f, t) x = (if x < ?new then if x < ?old then link fs (f, t) x else Some 0 else None)" for x
        using lk [of x] same by auto
      show "truncate_file g fs f t sz = save_file_metadata fs f t ?m" using eq same by (simp add: ret)
    qed
  next
    case shrink
    let ?s = "shrink_links g fs f t (md_blocks m) [?new..<?old]"
    note S = shrink_links_ok [OF b inv, of f t "md_blocks m" "[?new..<?old]"]
    show ?thesis
    proof (rule fin [of ?s])
      show "truncate_file g fs f t sz = save_file_metadata ?s f t ?m" using eq shrink by (simp add: ret Let_def)
      show "link ?s (f, t) x = (if x < ?new then if x < ?old then link fs (f, t) x else Some 0 else None)" for x
        using lk [of x] shrink S by auto
    qed (use S dir in auto)
  next
    case grow
    obtain k1 s where ex: "expand_links fs (f, t) [?old..<?new] = (k1, s)" by (metis surj_pair)
    note E = expand_links_ok [OF inv base_used(1) [OF ok] ex]
    have "\<forall>x \<in> set [?old..<?new]. link fs (f, t) x = None"
    proof
      fix x assume "x \<in> set [?old..<?new]"
      with lk [of x] show "link fs (f, t) x = None" by (cases "link fs (f, t) x") auto
    qed
    then have k: "k1" using E dir base_used(2) [OF ok] by simp
    show ?thesis
    proof (rule fin [of s])
      show "truncate_file g fs f t sz = save_file_metadata s f t ?m" using eq grow ex k by (simp add: ret Let_def)
      show "link s (f, t) x = (if x < ?new then if x < ?old then link fs (f, t) x else Some 0 else None)" for x
        using lk [of x] grow E k by auto
    qed (use E dir in auto)
  qed
qed


subsection \<open>Tags of a file\<close>

lemma cp_rl_ok:
  "fs_inv g fs \<Longrightarrow> \<forall>(b, i) \<in> set ls. used g fs i \<Longrightarrow> cp_rl fs k ls = (ok, fs') \<Longrightarrow>
   fs_inv g fs' \<and> spares k fs fs' \<and> meta fs' = meta fs \<and> physical_blocks fs' = physical_blocks fs \<and>
   (\<forall>k'. tag_dirs fs' k' = None \<longleftrightarrow> tag_dirs fs k' = None) \<and>
   (ok \<longrightarrow> (\<forall>b \<in> fst ` set ls. link fs k b = None) \<and> link fs' k = link fs k ++ map_of ls) \<and>
   (distinct (map fst ls) \<longrightarrow> (\<forall>(b, i) \<in> set ls. link fs k b = None \<and> i < total_blocks g) \<longrightarrow>
    tag_dirs fs k \<noteq> None \<longrightarrow> ok)"
proof (induction ls arbitrary: fs ok fs')
  case Nil
  then show ?case by auto
next
  case (Cons x ls)
  obtain b i where x: "x = (b, i)" by fastforce
  have u: "\<forall>(b, i) \<in> set ls. used g fs i" using Cons.prems(2) by simp
  show ?case
  proof (cases "os_link fs i k b")
    case None
    obtain ok1 fs1 where c: "cp_rl fs k ls = (ok1, fs1)" by (metis surj_pair)
    from Cons.prems(3) None c x have "\<not> ok" "fs' = fs1" by auto
    moreover have "\<not> (link fs k b = None \<and> i < total_blocks g \<and> tag_dirs fs k \<noteq> None)"
      using None os_link_iff [of fs i k b] fs_invD(1) [OF Cons.prems(1)] by auto
    ultimately show ?thesis using Cons.IH [OF Cons.prems(1) u c] x by auto
  next
    case (Some fs1)
    note L = os_link_Some [OF Some]
    have inv1: "fs_inv g fs1" by (rule os_link_inv [OF Cons.prems(1) Some]) (use Cons.prems(2) x in simp)
    have u1: "\<forall>(b, i) \<in> set ls. used g fs1 i" using u by (simp add: L(6))
    have c1: "cp_rl fs1 k ls = (ok, fs')" using Cons.prems(3) Some x by simp
    note IH = Cons.IH [OF inv1 u1 c1]
    have sp: "spares k fs fs'" using IH os_link_spares [OF Some] spares_trans by blast
    have same: "fs_inv g fs'" "meta fs' = meta fs" "physical_blocks fs' = physical_blocks fs"
      "\<forall>k'. tag_dirs fs' k' = None \<longleftrightarrow> tag_dirs fs k' = None"
      using IH L(4,5,10) by auto
    have lk: "(\<forall>b \<in> fst ` set (x # ls). link fs k b = None) \<and> link fs' k = link fs k ++ map_of (x # ls)" if ok
    proof -
      from IH that have fr: "\<forall>b' \<in> fst ` set ls. link fs1 k b' = None"
        and l: "link fs' k = link fs1 k ++ map_of ls" by auto
      have nb: "b \<notin> fst ` set ls" using fr L(3) by auto
      have "\<forall>b' \<in> fst ` set ls. link fs k b' = None" using fr L(3) nb by (auto split: if_splits)
      moreover have "link fs' k = link fs k ++ map_of (x # ls)"
        using l L(3) nb x by (auto simp: fun_eq_iff map_add_def map_of_eq_None_iff split: option.splits)
      ultimately show ?thesis using x L(2) by simp
    qed
    have "ok" if "distinct (map fst (x # ls))" "\<forall>(b, i) \<in> set (x # ls). link fs k b = None \<and> i < total_blocks g"
      "tag_dirs fs k \<noteq> None"
    proof -
      have "\<forall>(b', i') \<in> set ls. link fs1 k b' = None \<and> i' < total_blocks g"
        using that(1,2) x L(3) by force
      then show ?thesis using IH that(1,3) x L(10) [of k] by auto
    qed
    with sp same lk show ?thesis by blast
  qed
qed

lemma create_tag_ok:
  assumes ok: "fs_ok g fs" and c: "create_tag fs f1 t1 f2 t2 = (r, fs')"
  shows "fs_ok g fs' \<and> spares (f2, t2) fs fs'"
    and "meta fs (f1, t1) = Some m \<Longrightarrow> tag_dirs fs (f2, t2) = None \<Longrightarrow> f2 \<in> set (file_dirs fs) \<Longrightarrow>
      r = 0 \<and> link fs' (f2, t2) = link fs (f1, t1) \<and> physical_blocks fs' = physical_blocks fs \<and>
      meta fs' (f2, t2) = Some (m\<lparr>md_state := IN_PROGRESS\<rparr>)"
proof -
  note inv = fs_okD(1) [OF ok]
  have P: "fs_ok g fs' \<and> spares (f2, t2) fs fs' \<and>
    (meta fs (f1, t1) = Some m \<longrightarrow> tag_dirs fs (f2, t2) = None \<longrightarrow> f2 \<in> set (file_dirs fs) \<longrightarrow>
      r = 0 \<and> link fs' (f2, t2) = link fs (f1, t1) \<and> physical_blocks fs' = physical_blocks fs \<and>
      meta fs' (f2, t2) = Some (m\<lparr>md_state := IN_PROGRESS\<rparr>))"
  proof (cases "meta fs (f2, t2) \<noteq> None \<or> meta fs (f1, t1) = None \<or>
      (tag_dirs fs (f2, t2) = None \<and> f2 \<notin> set (file_dirs fs))")
    case True
    then have "fs' = fs" using c
      by (auto simp: create_tag_def read_file_metadata_meta split: if_splits option.splits)
    with True ok show ?thesis by (auto simp: meta_def)
  next
    case False
    then obtain m0 where m0: "meta fs (f1, t1) = Some m0" by auto
    have n2: "meta fs (f2, t2) = None" using False by simp
    then have ne: "(f1, t1) \<noteq> (f2, t2)" and nb: "(f2, t2) \<noteq> base_tag"
      using m0 fs_okD(2) [OF ok] by (auto simp: base_ok_def)
    define fs1 where "fs1 = (if tag_dirs fs (f2, t2) = None
      then set_tag fs (f2, t2) \<lparr>logical_blocks = [], metadata_config = None\<rparr> else fs)"
    have F1: "fs_inv g fs1" "spares (f2, t2) fs fs1" "link fs1 = link fs" "meta fs1 = meta fs"
      "tag_dirs fs1 (f2, t2) \<noteq> None" "physical_blocks fs1 = physical_blocks fs" "bitmap_bin fs1 = bitmap_bin fs"
      "tag_dirs fs1 (f1, t1) = tag_dirs fs (f1, t1)"
    proof -
      have "fs\<lparr>file_dirs := file_dirs fs\<rparr> = fs" by simp
      then show "fs_inv g fs1" "spares (f2, t2) fs fs1" "link fs1 = link fs" "meta fs1 = meta fs"
        using create_dir_inv [where m = None and ds = "file_dirs fs", OF inv, of f2 t2] n2 inv
        by (auto simp: fs1_def)
    qed (use ne in \<open>auto simp: set_tag_def fs1_def\<close>)
    obtain d where d: "tag_dirs fs (f1, t1) = Some d" using meta_dir [OF m0] by blast
    have lsrc: "link fs (f1, t1) = map_of (logical_blocks d)" using d by (simp add: link_def fun_eq_iff)
    have mem: "link fs (f1, t1) b = Some i" if "(b, i) \<in> set (logical_blocks d)" for b i
      using map_of_is_SomeI [OF fs_invD(9) [OF inv d] that] lsrc by simp
    have u: "\<forall>(b, i) \<in> set (logical_blocks d). used g fs1 i"
      using fs_invD(8) [OF inv mem] F1(7) by auto
    obtain k2 fs2 where cp: "cp_rl fs1 (f2, t2) (logical_blocks d) = (k2, fs2)" by (metis surj_pair)
    note C = cp_rl_ok [OF F1(1) u cp]
    let ?m = "\<lparr>md_size = md_size m0, md_blocks = md_blocks m0, md_state = ''WORK_IN_PROGRESS''\<rparr>"
    have sp2: "spares (f2, t2) fs fs2" using spares_trans [OF F1(2)] C by blast
    have body: "create_tag fs f1 t1 f2 t2 = (if \<not> k2 then (-3, fs2)
        else let (r, fs3) = create_metadata fs2 f2 t2 (md_size m0) (length (md_blocks m0)) (md_blocks m0) ''WORK_IN_PROGRESS''
             in if r < 0 then (-3, fs3) else (0, fs3))"
      unfolding create_tag_def read_file_metadata_meta n2 m0 Let_def fs1_def [symmetric] F1(8) d option.case cp split
      using False by auto
    show ?thesis
    proof (cases k2)
      case True
      obtain d2 where d2: "tag_dirs fs2 (f2, t2) = Some d2"
        using C F1(5) by (cases "tag_dirs fs2 (f2, t2)") auto
      have mb: "i \<in> set (md_blocks ?m) \<Longrightarrow> i < total_blocks g" for i using fs_invD(11) [OF inv m0] by simp
      let ?fs3 = "set_tag fs2 (f2, t2) (d2\<lparr>metadata_config := Some ?m\<rparr>)"
      have i2: "fs_inv g fs2" using C by blast
      have S: "fs_inv g ?fs3" "link ?fs3 = link fs2" "meta ?fs3 = (meta fs2)((f2, t2) := Some ?m)"
        by (rule set_meta_inv [OF i2 d2], erule mb)+
      have res: "r = 0" "fs' = ?fs3" using c body True d2 by (auto simp: create_metadata_def)
      have sp3: "spares (f2, t2) fs2 ?fs3" 
      proof -
        have "tag_dirs ?fs3 k' = None \<longleftrightarrow> tag_dirs fs2 k' = None" for k' using d2 by (auto simp: set_tag_def)
        moreover have "physical_blocks ?fs3 = physical_blocks fs2" by (simp add: set_tag_def)
        ultimately show ?thesis unfolding spares_def S(2,3) by simp
      qed
      have sp: "spares (f2, t2) fs ?fs3" by (rule spares_trans [OF sp2 sp3])
      have fin: "fs_ok g ?fs3" using S(1) spares_base [OF sp nb fs_okD(2) [OF ok]] by (simp add: fs_ok_def)
      have "link ?fs3 (f2, t2) = link fs (f1, t1)" if "tag_dirs fs (f2, t2) = None"
      proof -
        have "link fs (f2, t2) = Map.empty" using that by (simp add: link_def fun_eq_iff)
        moreover have "link fs2 (f2, t2) = link fs1 (f2, t2) ++ map_of (logical_blocks d)" using C True by blast
        ultimately show ?thesis using F1(3) S(2) lsrc by simp
      qed
      moreover have "physical_blocks ?fs3 = physical_blocks fs" using C F1(6) by (simp add: set_tag_def)
      moreover have "meta ?fs3 (f2, t2) = Some ?m" using S(3) by simp
      ultimately show ?thesis using res sp fin m0 by (auto simp: IN_PROGRESS_def)
    next
      case False
      have "fs_ok g fs2" using C spares_base [OF sp2 nb fs_okD(2) [OF ok]] by (simp add: fs_ok_def)
      moreover have "k2" if "tag_dirs fs (f2, t2) = None"
      proof -
        have "link fs1 (f2, t2) = Map.empty" using that F1(3) by (simp add: link_def fun_eq_iff)
        moreover have "\<forall>(b, i) \<in> set (logical_blocks d). i < total_blocks g" using fs_invD(7) [OF inv mem] by auto
        ultimately show ?thesis using C F1(5) fs_invD(9) [OF inv d] by auto
      qed
      ultimately show ?thesis using c body False sp2 by auto
    qed
  qed
  then show "fs_ok g fs' \<and> spares (f2, t2) fs fs'"
    and "meta fs (f1, t1) = Some m \<Longrightarrow> tag_dirs fs (f2, t2) = None \<Longrightarrow> f2 \<in> set (file_dirs fs) \<Longrightarrow>
      r = 0 \<and> link fs' (f2, t2) = link fs (f1, t1) \<and> physical_blocks fs' = physical_blocks fs \<and>
      meta fs' (f2, t2) = Some (m\<lparr>md_state := IN_PROGRESS\<rparr>)" by blast+
qed


subsection \<open>Deleting a tag\<close>

lemma fold_drop_set_tag:
  "fold (\<lambda>(b, i) fs. drop_nlink fs i) ls (fs\<lparr>tag_dirs := ds\<rparr>) =
   (fold (\<lambda>(b, i) fs. drop_nlink fs i) ls fs)\<lparr>tag_dirs := ds\<rparr>"
proof (induction ls arbitrary: fs)
  case (Cons x ls)
  have "drop_nlink (fs\<lparr>tag_dirs := ds\<rparr>) i = (drop_nlink fs i)\<lparr>tag_dirs := ds\<rparr>" for i
    by (simp add: drop_nlink_def)
  with Cons.IH show ?case by (simp add: case_prod_unfold)
qed simp

lemma fold_drop_fields:
  "tag_dirs (fold (\<lambda>(b, i) fs. drop_nlink fs i) ls fs) = tag_dirs fs"
  "physical_blocks (fold (\<lambda>(b, i) fs. drop_nlink fs i) ls fs) = physical_blocks fs"
  "bitmap_bin (fold (\<lambda>(b, i) fs. drop_nlink fs i) ls fs) = bitmap_bin fs"
  by (induction ls arbitrary: fs) (simp_all add: drop_nlink_def case_prod_unfold)

lemma drop_dir_inv:
  assumes "fs_inv g fs" and "tag_dirs fs k = Some d"
  shows "fs_inv g ((fold (\<lambda>(b, i) fs. drop_nlink fs i) (logical_blocks d) fs)\<lparr>tag_dirs := (tag_dirs fs)(k := None)\<rparr>)"
  using assms
proof (induction "logical_blocks d" arbitrary: fs d)
  case Nil
  let ?fs' = "fs\<lparr>tag_dirs := (tag_dirs fs)(k := None)\<rparr>"
  have l: "link ?fs' = link fs" using Nil by (auto simp: link_def fun_eq_iff)
  then have lt: "links_to ?fs' = links_to fs" by (simp add: links_to_def fun_eq_iff)
  have mt: "meta ?fs' = (meta fs)(k := None)" by (auto simp: meta_def fun_eq_iff)
  have "fs_inv g ?fs'"
  proof (rule fs_invI)
    show "distinct (map fst (logical_blocks d'))" if "tag_dirs ?fs' k' = Some d'" for k' d'
      using that fs_invD(9) [OF Nil(2), of k' d'] by (auto split: if_splits)
    show "j < total_blocks g" if "meta ?fs' k' = Some m" "j \<in> set (md_blocks m)" for k' m j
      using that fs_invD(11) [OF Nil(2), of k' m j] by (auto simp: mt split: if_splits)
    show "j < total_blocks g \<and> used g ?fs' j" if "link ?fs' k' b = Some j" for k' b j
      using that fs_invD(7,8) [OF Nil(2), of k' b j] by (simp add: l)
    show "\<exists>i<total_blocks g. nm = block_name i" if "blocks_hash_index ?fs' h = Some nm" for h nm
      using that fs_invD(10) [OF Nil(2), of h nm] by simp
  qed (use fs_inv_sizes [OF Nil(2)] fs_invD(1,3,4,5,6) [OF Nil(2)] in \<open>simp_all add: l lt\<close>)
  with Nil(1) [symmetric] show ?case by (simp add: fun_upd_def)
next
  case (Cons x ls)
  obtain b i where x: "x = (b, i)" by fastforce
  note d = Cons.prems(2) and eq = Cons.hyps(2) [symmetric, unfolded x]
  have nb: "b \<notin> fst ` set ls" using fs_invD(9) [OF Cons.prems(1) d] eq by auto
  have "filter (\<lambda>(b', i'). b' \<noteq> b) ls = ls"
  proof (rule filter_True, rule ballI)
    fix y assume "y \<in> set ls"
    with nb show "case y of (b', i') \<Rightarrow> b' \<noteq> b" by (cases y) force
  qed
  then have fl: "filter (\<lambda>(b', i'). b' \<noteq> b) (logical_blocks d) = ls"
    unfolding eq by simp
  let ?d1 = "d\<lparr>logical_blocks := ls\<rparr>"
  let ?fs1 = "drop_nlink (set_tag fs k ?d1) i"
  have rm: "os_remove fs k b = Some ?fs1" using d eq fl by (simp add: os_remove_def)
  have inv1: "fs_inv g ?fs1" by (rule os_remove_inv [OF Cons.prems(1) rm])
  have td: "tag_dirs ?fs1 = (tag_dirs fs)(k := Some ?d1)" by (simp add: drop_nlink_def set_tag_def)
  have "fs_inv g ((fold (\<lambda>(b, i) fs. drop_nlink fs i) (logical_blocks ?d1) ?fs1)\<lparr>tag_dirs := (tag_dirs ?fs1)(k := None)\<rparr>)"
    by (rule Cons.hyps(1)) (use inv1 td in simp_all)
  moreover have "(fold (\<lambda>(b, i) fs. drop_nlink fs i) ls ?fs1)\<lparr>tag_dirs := (tag_dirs fs)(k := None)\<rparr> =
      (fold (\<lambda>(b, i) fs. drop_nlink fs i) ls (drop_nlink fs i))\<lparr>tag_dirs := (tag_dirs fs)(k := None)\<rparr>"
  proof -
    have "?fs1 = (drop_nlink fs i)\<lparr>tag_dirs := (tag_dirs fs)(k \<mapsto> ?d1)\<rparr>"
      by (simp add: drop_nlink_def set_tag_def)
    then show ?thesis by (simp add: fold_drop_set_tag)
  qed
  ultimately show ?case using eq td by simp
qed

lemma delete_blocks_ok:
  assumes b: "bitarray_ok g"
  shows "fs_inv g fs \<Longrightarrow> delete_blocks g fs f t ls = (ok, fs') \<Longrightarrow>
    fs_inv g fs' \<and> spares (f, t) fs fs' \<and> meta fs' = meta fs \<and> physical_blocks fs' = physical_blocks fs \<and>
    (\<forall>k. tag_dirs fs' k = None \<longleftrightarrow> tag_dirs fs k = None) \<and>
    (distinct (map fst ls) \<longrightarrow> (\<forall>(x, i) \<in> set ls. link fs (f, t) x \<noteq> None \<and> i < total_blocks g) \<longrightarrow> ok)"
proof (induction ls arbitrary: fs)
  case Nil
  then show ?case by simp
next
  case (Cons y ls)
  obtain x i where y: "y = (x, i)" by fastforce
  obtain r fs1 where d: "delete_logical_block g fs f t x i = (r, fs1)" by (metis surj_pair)
  note D = delete_logical_block_ok [OF b Cons.prems(1) d]
  show ?case
  proof (cases "r = 0")
    case False
    with Cons.prems(2) y d have "\<not> ok" "fs' = fs1" by auto
    then show ?thesis using D y False by auto
  next
    case True
    with Cons.prems(2) y d have "delete_blocks g fs1 f t ls = (ok, fs')" by simp
    note IH = Cons.IH [OF D(1) this]
    have "ok" if "distinct (map fst (y # ls))" "\<forall>(x, i) \<in> set (y # ls). link fs (f, t) x \<noteq> None \<and> i < total_blocks g"
    proof -
      have "\<forall>(x', i') \<in> set ls. link fs1 (f, t) x' \<noteq> None \<and> i' < total_blocks g"
        using that y D(3) by force
      then show ?thesis using IH that(1) by simp
    qed
    moreover have "spares (f, t) fs fs'" using IH D(2) spares_trans by blast
    ultimately show ?thesis using IH D(4,5,7) by auto
  qed
qed

lemma delete_tag_ok:
  assumes b: "bitarray_ok g" and ok: "fs_ok g fs" and dl: "delete_tag g fs f t = (r, fs')"
  shows "fs_ok g fs' \<and> spares (f, t) fs fs'"
    and "r = 0 \<Longrightarrow> tag_dirs fs' (f, t) = None"
    and "(f, t) \<noteq> base_tag \<Longrightarrow> meta fs (f, t) = Some m \<Longrightarrow> whole fs (f, t) \<Longrightarrow> r = 0"
proof -
  note inv = fs_okD(1) [OF ok]
  have "(fs_ok g fs' \<and> spares (f, t) fs fs') \<and> (r = 0 \<longrightarrow> tag_dirs fs' (f, t) = None) \<and>
    ((f, t) \<noteq> base_tag \<longrightarrow> meta fs (f, t) = Some m \<longrightarrow> whole fs (f, t) \<longrightarrow> r = 0)"
  proof (cases "(f, t) = base_tag \<or> meta fs (f, t) = None")
    case True
    then have "fs' = fs \<and> r \<noteq> 0" using dl
      by (auto simp: delete_tag_def read_file_metadata_meta FILE_TAG_MISSING_def split: if_splits)
    with ok True show ?thesis by auto
  next
    case False
    then obtain m0 where m0: "meta fs (f, t) = Some m0" and nb: "(f, t) \<noteq> base_tag" by auto
    obtain k1 fs1 where db: "delete_blocks g fs f t (enumerate 0 (md_blocks m0)) = (k1, fs1)" by (metis surj_pair)
    note D = delete_blocks_ok [OF b inv db]
    have inv1: "fs_inv g fs1" and sp1: "spares (f, t) fs fs1" using D by blast+
    have succ: k1 if "whole fs (f, t)"
    proof -
      have "\<forall>(x, i) \<in> set (enumerate 0 (md_blocks m0)). link fs (f, t) x \<noteq> None \<and> i < total_blocks g"
        using that m0 fs_invD(11) [OF inv m0] by (auto simp: whole_def in_set_enumerate_eq)
      with D show ?thesis by simp
    qed
    have body: "delete_tag g fs f t = (if \<not> k1 then (-2, fs1)
        else let (r, fs2) = delete_file_dir_structure fs1 f t in if r \<noteq> 0 then (-3, fs2) else (0, fs2))"
      using nb db unfolding delete_tag_def read_file_metadata_meta m0 by auto
    show ?thesis
    proof (cases k1)
      case False
      then have "fs' = fs1" "r \<noteq> 0" using dl body by auto
      moreover have "fs_ok g fs1" using inv1 spares_base [OF sp1 nb fs_okD(2) [OF ok]] by (simp add: fs_ok_def)
      ultimately show ?thesis using sp1 succ False by auto
    next
      case True
      obtain d where d: "tag_dirs fs1 (f, t) = Some d" using D meta_dir [OF m0] by (cases "tag_dirs fs1 (f, t)") auto
      let ?fs2 = "(fold (\<lambda>(b, i) fs. drop_nlink fs i) (logical_blocks d) fs1)\<lparr>tag_dirs := (tag_dirs fs1)((f, t) := None)\<rparr>"
      have res: "r = 0" "fs' = ?fs2" using dl body True d by (auto simp: delete_file_dir_structure_def)
      note i2 = drop_dir_inv [OF inv1 d]
      have "link ?fs2 k' = link fs1 k'" "meta ?fs2 k' = meta fs1 k'" if "k' \<noteq> (f, t)" for k'
        using that by (auto simp: link_def meta_def fun_eq_iff)
      then have "spares (f, t) fs1 ?fs2"
        unfolding spares_def using fold_drop_fields(2) [of "logical_blocks d" fs1] by simp
      then have sp: "spares (f, t) fs ?fs2" by (rule spares_trans [OF sp1])
      have "fs_ok g ?fs2" using i2 spares_base [OF sp nb fs_okD(2) [OF ok]] by (simp add: fs_ok_def)
      with res sp show ?thesis by simp
    qed
  qed
  then show "fs_ok g fs' \<and> spares (f, t) fs fs'"
    and "r = 0 \<Longrightarrow> tag_dirs fs' (f, t) = None"
    and "(f, t) \<noteq> base_tag \<Longrightarrow> meta fs (f, t) = Some m \<Longrightarrow> whole fs (f, t) \<Longrightarrow> r = 0" by blast+
qed

end
