(* ===== verification/Storage_Commit.thy ===== *)
theory Storage_Commit
  imports Storage_Files
begin

text \<open>
  Committing a tag: the names of physical blocks, the hash index, and the deduplication of
  \<^verbatim>\<open>storage/src/operations/commit_tag.c\<close>.
\<close>

subsection \<open>Names of physical blocks\<close>

lemma of_char_digit: "k < 10 \<Longrightarrow> (of_char (digit k) :: nat) = 48 + k"
  by (simp add: digit_def)

lemma is_digit_digit: "k < 10 \<Longrightarrow> is_digit (digit k)"
  by (simp add: is_digit_def of_char_digit)

lemma digits_value_snoc: "digits_value (cs @ [c]) = digits_value cs * 10 + (of_char c - 48)"
  by (simp add: digits_value_def)

lemma decimal_spec: "list_all is_digit (decimal n) \<and> digits_value (decimal n) = n \<and> decimal n \<noteq> []"
proof (induction n rule: decimal.induct)
  case (1 n)
  show ?case
  proof (cases "n < 10")
    case True
    then show ?thesis
      by (subst (1 2 3) decimal.simps) (simp add: is_digit_digit digits_value_def of_char_digit)
  next
    case False
    from 1 [OF False] have ih: "list_all is_digit (decimal (n div 10))" "digits_value (decimal (n div 10)) = n div 10"
      by auto
    have m: "n mod 10 < 10" by simp
    show ?thesis
      using False ih is_digit_digit [OF m] of_char_digit [OF m]
      by (subst (1 2 3) decimal.simps) (simp add: digits_value_snoc)
  qed
qed

lemma digits_value_zeros: "digits_value (replicate k (CHR ''0'') @ cs) = digits_value cs"
  by (induction k) (simp_all add: digits_value_def)

lemma block_number_of_name: "get_physical_block_number (block_name n) = int n"
proof -
  let ?ds = "replicate (4 - length (decimal n)) (CHR ''0'') @ decimal n"
  have zero: "is_digit (CHR ''0'')" by (simp add: is_digit_def)
  have "\<forall>c \<in> set ?ds. is_digit c"
    using decimal_spec [of n] zero by (auto simp: list_all_iff)
  then have tw: "takeWhile is_digit ?ds = ?ds" by (simp only: takeWhile_eq_all_conv)
  have parts: "drop 5 (block_name n) = ?ds" "take 5 (block_name n) = ''block''" by (simp_all add: block_name_def)
  show ?thesis
    unfolding get_physical_block_number_def Let_def parts tw using decimal_spec [of n] by (simp add: digits_value_zeros)
qed

lemma block_name_eq [simp]: "block_name i = block_name j \<longleftrightarrow> i = j"
proof
  assume "block_name i = block_name j"
  then have "get_physical_block_number (block_name i) = get_physical_block_number (block_name j)" by simp
  then show "i = j" unfolding block_number_of_name by simp
qed simp

lemma physical_by_name_block:
  assumes "i < length (physical_blocks fs)"
  shows "physical_by_name fs (block_name i) = Some i"
proof (cases "physical_by_name fs (block_name i)")
  case None
  with assms show ?thesis by (auto simp: physical_by_name_def find_None_iff)
next
  case (Some j)
  then show ?thesis using find_upt_Some [of _ _ j] by (auto simp: physical_by_name_def)
qed

subsection \<open>The index of hashes\<close>

text \<open>Every entry names a block in use that has the hash it is filed under.\<close>

definition index_ok :: "storage_env \<Rightarrow> fs \<Rightarrow> (string \<Rightarrow> string option) \<Rightarrow> bool" where
  "index_ok g fs index \<longleftrightarrow>
     (\<forall>h nm. index h = Some nm \<longrightarrow>
        (\<exists>i < total_blocks g. nm = block_name i \<and> used g fs i \<and> crypto_md5 g (physical_blocks fs ! i) = h))"

text \<open>The metadata of a tag lists exactly the physical blocks its directory links.\<close>

definition synced :: "fs \<Rightarrow> file_tag \<Rightarrow> t_file_metadata \<Rightarrow> bool" where
  "synced fs k m \<longleftrightarrow> (\<forall>b < length (md_blocks m). link fs k b = Some (md_blocks m ! b))"

text \<open>No two blocks of the filesystem have the same hash and different contents.\<close>

definition no_collision :: "storage_env \<Rightarrow> fs \<Rightarrow> bool" where
  "no_collision g fs \<longleftrightarrow>
     (\<forall>x \<in> set (physical_blocks fs). \<forall>y \<in> set (physical_blocks fs). crypto_md5 g x = crypto_md5 g y \<longrightarrow> x = y)"


subsection \<open>Deduplication\<close>

definition dedup_inv ::
  "storage_env \<Rightarrow> file_tag \<Rightarrow> fs \<Rightarrow> t_file_metadata \<Rightarrow> fs \<times> t_file_metadata \<times> (string \<Rightarrow> string option) \<Rightarrow> bool" where
  "dedup_inv g k fs0 m0 st \<longleftrightarrow> (case st of (fs, m, index) \<Rightarrow>
     fs_inv g fs \<and> spares k fs0 fs \<and> physical_blocks fs = physical_blocks fs0 \<and> meta fs = meta fs0 \<and>
     index_ok g fs index \<and> synced fs k m \<and> length (md_blocks m) = length (md_blocks m0) \<and>
     md_size m = md_size m0 \<and> md_state m = md_state m0 \<and>
     (\<forall>b. \<not> b < length (md_blocks m0) \<longrightarrow> link fs k b = link fs0 k b) \<and>
     (\<forall>b < length (md_blocks m0). crypto_md5 g (physical_blocks fs0 ! (md_blocks m ! b)) =
        crypto_md5 g (physical_blocks fs0 ! (md_blocks m0 ! b))))"

text \<open>The block is the one filed under its hash.\<close>

definition filed :: "storage_env \<Rightarrow> fs \<Rightarrow> t_file_metadata \<Rightarrow> (string \<Rightarrow> string option) \<Rightarrow> nat \<Rightarrow> bool" where
  "filed g fs m index b \<longleftrightarrow>
     index (crypto_md5 g (physical_blocks fs ! (md_blocks m ! b))) = Some (block_name (md_blocks m ! b))"

lemma relink_ok:
  assumes inv: "fs_inv g fs" and l: "link fs k b = Some j" and i: "i < total_blocks g" "used g fs i"
  obtains fs2 where "update_logical_block_link fs k b (block_name i) = (0, fs2)" and "fs_inv g fs2"
    and "spares k fs fs2" and "link fs2 = (link fs)(k := (link fs k)(b := Some i))" and "meta fs2 = meta fs"
    and "physical_blocks fs2 = physical_blocks fs" and "bitmap_bin fs2 = bitmap_bin fs"
    and "tag_dirs fs2 k \<noteq> None"
proof -
  obtain fs1 where rm: "os_remove fs k b = Some fs1" using l os_remove_iff [of fs k b] by auto
  from rm obtain R: "link fs1 = (link fs)(k := (link fs k)(b := None))" "meta fs1 = meta fs"
    "physical_blocks fs1 = physical_blocks fs" "bitmap_bin fs1 = bitmap_bin fs"
    "\<And>k'. tag_dirs fs1 k' = None \<longleftrightarrow> tag_dirs fs k' = None" by (rule os_remove_Some) blast
  note inv1 = os_remove_inv [OF inv rm]
  have len: "i < length (physical_blocks fs1)" using i fs_invD(1) [OF inv1] by simp
  have dir: "tag_dirs fs1 k \<noteq> None" using l R(5) [of k] by (auto simp: link_def split: option.splits)
  obtain fs2 where lk: "os_link fs1 i k b = Some fs2" using os_link_iff [of fs1 i k b] dir len R(1) by auto
  note L = os_link_Some [OF lk]
  show thesis
  proof (rule that [of fs2])
    show "update_logical_block_link fs k b (block_name i) = (0, fs2)"
      using rm lk physical_by_name_block [OF len] by (simp add: update_logical_block_link_def)
    show "fs_inv g fs2" by (rule os_link_inv [OF inv1 lk]) (use i R(4) in simp)
    show "spares k fs fs2" by (rule spares_trans [OF os_remove_spares [OF rm] os_link_spares [OF lk]])
    show "tag_dirs fs2 k \<noteq> None" using L(10) [of k] dir by simp
  qed (use L R in auto)
qed

lemma free_unused_ok:
  assumes ba: "bitarray_ok g" and inv: "fs_inv g fs" and j: "j < total_blocks g"
  obtains fs' where "free_ph_block_if_unused g fs (block_name j) = (0, fs')" and "fs_inv g fs'"
    and "fs' = fs \<or> fs' = fs\<lparr>bitmap_bin := bitarray_clean_bit g (bitmap_bin fs) j\<rparr>"
proof -
  have nm: "physical_by_name fs (block_name j) = Some j"
    by (rule physical_by_name_block) (use j fs_invD(1) [OF inv] in simp)
  show thesis
  proof (cases "st_nlink fs ! j > 1")
    case True
    with nm inv show thesis by (intro that [of fs]) (simp_all add: free_ph_block_if_unused_def)
  next
    case False
    then have one: "st_nlink fs ! j = 1" using fs_invD(6) [OF inv j] by simp
    let ?fs' = "fs\<lparr>bitmap_bin := bitarray_clean_bit g (bitmap_bin fs) j\<rparr>"
    have "free_ph_block_if_unused g fs (block_name j) = (0, ?fs')"
      using nm one fs_invD(4) [OF inv] bitarray_okD(3) [OF ba]
      by (simp add: free_ph_block_if_unused_def block_number_of_name bitmap_load_def bitmap_persist_def store_whole)
    with clean_bit_inv [OF ba inv j one] show thesis by (intro that [of ?fs']) simp_all
  qed
qed

lemma deduplicate_block_ok:
  assumes ba: "bitarray_ok g" and d: "dedup_inv g k fs0 m0 (fs, m, index)" and b: "b < length (md_blocks m0)"
  shows "\<exists>fs' m' index'. deduplicate_block g k b (fs, m, index) = (0, fs', m', index') \<and>
    dedup_inv g k fs0 m0 (fs', m', index') \<and> filed g fs0 m' index' b \<and>
    (\<forall>b'. b' \<noteq> b \<longrightarrow> md_blocks m' ! b' = md_blocks m ! b') \<and> index \<subseteq>\<^sub>m index'"
proof -
  have D: "fs_inv g fs" "spares k fs0 fs" "physical_blocks fs = physical_blocks fs0" "meta fs = meta fs0"
    "index_ok g fs index" "synced fs k m" "length (md_blocks m) = length (md_blocks m0)"
    "md_size m = md_size m0" "md_state m = md_state m0"
    "\<And>b. \<not> b < length (md_blocks m0) \<Longrightarrow> link fs k b = link fs0 k b"
    "\<And>b. b < length (md_blocks m0) \<Longrightarrow> crypto_md5 g (physical_blocks fs0 ! (md_blocks m ! b)) =
        crypto_md5 g (physical_blocks fs0 ! (md_blocks m0 ! b))"
    using d by (simp_all add: dedup_inv_def)
  define j where "j = md_blocks m ! b"
  have l: "link fs k b = Some j" using D(6,7) b by (simp add: synced_def j_def)
  have j: "j < total_blocks g" "used g fs j" using fs_invD(7,8) [OF D(1) l] .
  let ?h = "crypto_md5 g (physical_blocks fs ! j)"
  have rd: "read_block_content g fs k b = (0, physical_blocks fs ! j)"
    using l fs_invD(2) [OF D(1) j(1)] by (simp add: read_block_content_def)
  show ?thesis
  proof (cases "index ?h")
    case None
    have "index_ok g fs (index(?h \<mapsto> block_name j))" using D(5) j by (auto simp: index_ok_def)
    with d have "dedup_inv g k fs0 m0 (fs, m, index(?h \<mapsto> block_name j))" by (simp add: dedup_inv_def)
    moreover have "deduplicate_block g k b (fs, m, index) = (0, fs, m, index(?h \<mapsto> block_name j))"
      using rd None by (simp add: deduplicate_block_def j_def)
    moreover have "filed g fs0 m (index(?h \<mapsto> block_name j)) b" using D(3) by (simp add: filed_def j_def)
    moreover have "index \<subseteq>\<^sub>m index(?h \<mapsto> block_name j)" using None by (auto simp: map_le_def dom_def)
    ultimately show ?thesis by blast
  next
    case (Some nm)
    then obtain i where i: "i < total_blocks g" "nm = block_name i" "used g fs i"
      "crypto_md5 g (physical_blocks fs ! i) = ?h" using D(5) unfolding index_ok_def by blast
    show ?thesis
    proof (cases "i = j")
      case True
      then have "deduplicate_block g k b (fs, m, index) = (0, fs, m, index)"
        using rd Some i by (simp add: deduplicate_block_def j_def)
      moreover have "filed g fs0 m index b" using D(3) Some True i(2) by (simp add: filed_def j_def)
      ultimately show ?thesis using d map_le_refl by blast
    next
      case False
      obtain fs2 where up: "update_logical_block_link fs k b (block_name i) = (0, fs2)" and inv2: "fs_inv g fs2"
        and U: "spares k fs fs2" "link fs2 = (link fs)(k := (link fs k)(b := Some i))" "meta fs2 = meta fs"
        "physical_blocks fs2 = physical_blocks fs" "bitmap_bin fs2 = bitmap_bin fs"
        using relink_ok [OF D(1) l i(1,3)] by metis
      obtain fs3 where fr: "free_ph_block_if_unused g fs2 (block_name j) = (0, fs3)" and inv3: "fs_inv g fs3"
        and c: "fs3 = fs2 \<or> fs3 = fs2\<lparr>bitmap_bin := bitarray_clean_bit g (bitmap_bin fs2) j\<rparr>"
        by (rule free_unused_ok [OF ba inv2 j(1)])
      let ?m = "m\<lparr>md_blocks := (md_blocks m)[b := i]\<rparr>"
      have run: "deduplicate_block g k b (fs, m, index) = (0, fs3, ?m, index)"
        using rd Some i False up fr by (simp add: deduplicate_block_def j_def [symmetric] block_number_of_name)
      have same: "link fs3 = link fs2" "meta fs3 = meta fs2" "physical_blocks fs3 = physical_blocks fs2"
        "spares k fs2 fs3" using c by auto
      have ix: "index_ok g fs3 index"
        unfolding index_ok_def
      proof (intro allI impI)
        fix h' nm' assume e: "index h' = Some nm'"
        then obtain i' where i': "i' < total_blocks g" "nm' = block_name i'" "used g fs i'"
          "crypto_md5 g (physical_blocks fs ! i') = h'" using D(5) unfolding index_ok_def by blast
        have "i' \<noteq> j" using e i' Some i(2) False by auto
        then have "used g fs3 i'"
          using c i'(1,3) U(5) bitarray_okD(5) [OF ba, of j "bitmap_bin fs" i'] j(1) fs_invD(4) [OF D(1)]
            total_le_bits [of g] by auto
        then show "\<exists>i<total_blocks g. nm' = block_name i \<and> used g fs3 i \<and> crypto_md5 g (physical_blocks fs3 ! i) = h'"
          using i' same(3) U(4) by auto
      qed
      have "spares k fs0 fs3" by (rule spares_trans [OF spares_trans [OF D(2) U(1)] same(4)])
      moreover have "synced fs3 k ?m" using D(6) by (auto simp: synced_def same(1) U(2) nth_upd)
      moreover have "crypto_md5 g (physical_blocks fs0 ! (md_blocks ?m ! x)) =
          crypto_md5 g (physical_blocks fs0 ! (md_blocks m0 ! x))" if "x < length (md_blocks m0)" for x
        using D(11) [OF that] i(4) D(3,7) that by (auto simp: nth_upd j_def)
      ultimately have "dedup_inv g k fs0 m0 (fs3, ?m, index)"
        using inv3 ix same U D(3,4,7,8,9,10) b by (simp add: dedup_inv_def)
      moreover have "filed g fs0 ?m index b" using D(3,7) Some i(2,4) b by (simp add: filed_def)
      moreover have "\<forall>b'. b' \<noteq> b \<longrightarrow> md_blocks ?m ! b' = md_blocks m ! b'" by simp
      ultimately show ?thesis using run map_le_refl by blast
    qed
  qed
qed

lemma filed_mono:
  assumes "filed g fs m index x" and "md_blocks m' ! x = md_blocks m ! x" and "index \<subseteq>\<^sub>m index'"
  shows "filed g fs m' index' x"
proof -
  from assms(1) have e: "index (crypto_md5 g (physical_blocks fs ! (md_blocks m ! x))) = Some (block_name (md_blocks m ! x))"
    by (simp add: filed_def)
  then have "crypto_md5 g (physical_blocks fs ! (md_blocks m ! x)) \<in> dom index" by blast
  with assms(3) e have "index' (crypto_md5 g (physical_blocks fs ! (md_blocks m ! x))) = Some (block_name (md_blocks m ! x))"
    unfolding map_le_def by metis
  with assms(2) show ?thesis by (simp add: filed_def)
qed

lemma deduplicate_loop_ok:
  assumes ba: "bitarray_ok g"
  shows "dedup_inv g k fs0 m0 (fs, m, index) \<Longrightarrow> distinct bs \<Longrightarrow> \<forall>b \<in> set bs. b < length (md_blocks m0) \<Longrightarrow>
    \<exists>fs' m' index'. deduplicate_loop g k bs (fs, m, index) = (0, fs', m', index') \<and>
      dedup_inv g k fs0 m0 (fs', m', index') \<and> (\<forall>b \<in> set bs. filed g fs0 m' index' b) \<and>
      (\<forall>b. b \<notin> set bs \<longrightarrow> md_blocks m' ! b = md_blocks m ! b) \<and> index \<subseteq>\<^sub>m index'"
proof (induction bs arbitrary: fs m index)
  case Nil
  then show ?case by simp
next
  case (Cons b bs)
  obtain fs1 m1 index1 where s: "deduplicate_block g k b (fs, m, index) = (0, fs1, m1, index1)"
    "dedup_inv g k fs0 m0 (fs1, m1, index1)" "filed g fs0 m1 index1 b"
    "\<forall>b'. b' \<noteq> b \<longrightarrow> md_blocks m1 ! b' = md_blocks m ! b'" "index \<subseteq>\<^sub>m index1"
    using deduplicate_block_ok [OF ba Cons.prems(1), of b] Cons.prems(3) by auto
  obtain fs2 m2 index2 where r: "deduplicate_loop g k bs (fs1, m1, index1) = (0, fs2, m2, index2)"
    "dedup_inv g k fs0 m0 (fs2, m2, index2)" "\<forall>b \<in> set bs. filed g fs0 m2 index2 b"
    "\<forall>b. b \<notin> set bs \<longrightarrow> md_blocks m2 ! b = md_blocks m1 ! b" "index1 \<subseteq>\<^sub>m index2"
    using Cons.IH [OF s(2)] Cons.prems(2,3) by auto
  have "filed g fs0 m2 index2 b" by (rule filed_mono [OF s(3) _ r(5)]) (use r(4) Cons.prems(2) in simp)
  moreover have "index \<subseteq>\<^sub>m index2" by (rule map_le_trans [OF s(5) r(5)])
  ultimately show ?case using s(1,4) r(1-4) by auto
qed

subsection \<open>Commit\<close>

lemma commit_ok:
  assumes ba: "bitarray_ok g" and ok: "fs_ok g fs" and m: "meta fs (f, t) = Some m" and wip: "md_state m \<noteq> COMMITTED"
    and sy: "synced fs (f, t) m" and ix: "index_ok g fs (blocks_hash_index fs)" and nc: "no_collision g fs"
  shows "\<exists>fs' m'. execute_tag_commit g fs f t = (0, fs') \<and> fs_ok g fs' \<and> spares (f, t) fs fs' \<and>
    meta fs' (f, t) = Some m' \<and> md_state m' = COMMITTED \<and> md_size m' = md_size m \<and>
    length (md_blocks m') = length (md_blocks m) \<and> synced fs' (f, t) m' \<and>
    (\<forall>b. content fs' f t b = content fs f t b) \<and> index_ok g fs' (blocks_hash_index fs') \<and>
    (\<forall>b < length (md_blocks m'). filed g fs' m' (blocks_hash_index fs') b)"
proof -
  note inv = fs_okD(1) [OF ok]
  have nb: "(f, t) \<noteq> base_tag" using fs_okD(2) [OF ok] m wip by (auto simp: base_ok_def)
  have dir: "file_dir_exists fs f t" using meta_dir [OF m] by (auto simp: file_dir_exists_def)
  have start: "dedup_inv g (f, t) fs m (fs, m, blocks_hash_index fs)" using inv ix sy by (simp add: dedup_inv_def)
  obtain fs1 m1 index1 where L: "deduplicate_loop g (f, t) [0..<length (md_blocks m)] (fs, m, blocks_hash_index fs) = (0, fs1, m1, index1)"
    "dedup_inv g (f, t) fs m (fs1, m1, index1)" "\<forall>b \<in> set [0..<length (md_blocks m)]. filed g fs m1 index1 b"
    using deduplicate_loop_ok [OF ba start, of "[0..<length (md_blocks m)]"] by auto
  have D: "fs_inv g fs1" "spares (f, t) fs fs1" "physical_blocks fs1 = physical_blocks fs" "meta fs1 = meta fs"
    "index_ok g fs1 index1" "synced fs1 (f, t) m1" "length (md_blocks m1) = length (md_blocks m)" "md_size m1 = md_size m"
    "\<And>b. b < length (md_blocks m) \<Longrightarrow> crypto_md5 g (physical_blocks fs ! (md_blocks m1 ! b)) =
        crypto_md5 g (physical_blocks fs ! (md_blocks m ! b))"
    using L(2) by (simp_all add: dedup_inv_def)
  let ?fs1 = "fs1\<lparr>blocks_hash_index := index1\<rparr>" and ?m = "m1\<lparr>md_state := COMMITTED\<rparr>"
  have dd: "deduplicate_blocks g fs (f, t) m = (0, ?fs1, m1)"
  proof (cases "md_blocks m = []")
    case True
    then have "fs1 = fs" "m1 = m" "index1 = blocks_hash_index fs" using L(1) by auto
    with True show ?thesis by (simp add: deduplicate_blocks_def)
  next
    case False
    with L(1) show ?thesis by (simp add: deduplicate_blocks_def)
  qed
  have named: "\<exists>i<total_blocks g. nm = block_name i" if "index1 h = Some nm" for h nm
    using D(5) that unfolding index_ok_def by blast
  have inv1: "fs_inv g ?fs1"
    by (rule fs_inv_cong [OF D(1)]) (use fs_inv_sizes [OF D(1)] fs_invD(8) [OF D(1)] named in auto)
  have lk: "b < length (md_blocks m) \<Longrightarrow> link fs1 (f, t) b = Some (md_blocks m1 ! b)" for b
    using D(6,7) by (simp add: synced_def)
  have mb: "i \<in> set (md_blocks ?m) \<Longrightarrow> i < total_blocks g" for i
    using fs_invD(7) [OF D(1) lk] D(7) by (auto simp: in_set_conv_nth)
  have d1: "tag_dirs ?fs1 (f, t) \<noteq> None" using sparesD(3) D(4) m meta_dir [of fs1 "(f, t)" m] by auto
  obtain r fs2 where sv: "save_file_metadata ?fs1 f t ?m = (r, fs2)" by (metis surj_pair)
  note S = save_metadata_ok [OF inv1 d1 mb sv]
  have run: "execute_tag_commit g fs f t = (0, fs2)"
    unfolding execute_tag_commit_def read_file_metadata_meta m option.case dd Let_def split sv
    using dir wip S(1) by simp
  have "spares (f, t) fs1 ?fs1" by (simp add: spares_def)
  then have sp: "spares (f, t) fs fs2" using D(2) S(3) spares_trans by blast
  have ok2: "fs_ok g fs2" using S(2) spares_base [OF sp nb fs_okD(2) [OF ok]] by (simp add: fs_ok_def)
  have meta2: "meta fs2 (f, t) = Some ?m" using S(5) by simp
  have l2: "link fs2 = link fs1" using S(4) by simp
  have p2: "physical_blocks fs2 = physical_blocks fs" using S(6) D(3) by simp
  have cont: "content fs2 f t b = content fs f t b" for b
  proof (cases "b < length (md_blocks m)")
    case True
    have l0: "link fs (f, t) b = Some (md_blocks m ! b)" using sy True by (simp add: synced_def)
    have "physical_blocks fs ! (md_blocks m1 ! b) = physical_blocks fs ! (md_blocks m ! b)"
      using nc D(9) [OF True] fs_invD(7) [OF D(1) lk [OF True]] fs_invD(7) [OF inv l0] fs_invD(1) [OF inv]
      by (simp add: no_collision_def)
    then show ?thesis using True l0 lk [OF True] m meta2 D(7) l2 p2 by (simp add: content_def)
  next
    case False
    then show ?thesis using m meta2 D(7) by (simp add: content_def)
  qed
  have "synced fs2 (f, t) ?m" using D(6) l2 by (simp add: synced_def)
  moreover have "index_ok g fs2 (blocks_hash_index fs2)" using D(5) S(8,9) p2 D(3) by (simp add: index_ok_def)
  moreover have "\<forall>b < length (md_blocks ?m). filed g fs2 ?m (blocks_hash_index fs2) b"
    using L(3) D(7) S(9) p2 by (simp add: filed_def)
  moreover have "md_size ?m = md_size m" "length (md_blocks ?m) = length (md_blocks m)" "md_state ?m = COMMITTED"
    using D(7,8) by simp_all
  ultimately show ?thesis using run ok2 sp meta2 cont by blast
qed

end
