(* ===== verification/Storage_Properties.thy ===== *)
theory Storage_Properties
  imports Storage_Commit
begin

text \<open>
  The properties of the filesystem of the Storage process, with a concrete filesystem of
  eight blocks of four bytes on which each of them is applied.
\<close>

subsection \<open>A concrete Storage\<close>

text \<open>A bit array in the order of \<^verbatim>\<open>MSB_FIRST\<close>, and a hash that has no collisions.\<close>

definition msb_test :: "bytes \<Rightarrow> nat \<Rightarrow> bool" where
  "msb_test bm i = bit (bm ! (i div 8)) (7 - i mod 8)"

definition msb_set :: "bytes \<Rightarrow> nat \<Rightarrow> bytes" where
  "msb_set bm i = bm[i div 8 := set_bit (7 - i mod 8) (bm ! (i div 8))]"

definition msb_clean :: "bytes \<Rightarrow> nat \<Rightarrow> bytes" where
  "msb_clean bm i = bm[i div 8 := unset_bit (7 - i mod 8) (bm ! (i div 8))]"

definition demo_env :: storage_env where
  "demo_env = \<lparr>fs_size = 32, block_size = 4, bitarray_test_bit = msb_test, bitarray_set_bit = msb_set,
     bitarray_clean_bit = msb_clean, bitarray_get_max_bit = (\<lambda>bm. 8 * length bm), crypto_md5 = of_bytes\<rparr>"

lemma msb_index: "7 - i mod 8 = 7 - j mod 8 \<Longrightarrow> i div 8 = j div 8 \<Longrightarrow> i = (j :: nat)"
proof -
  assume a: "7 - i mod 8 = 7 - j mod 8" "i div 8 = j div 8"
  have "i mod 8 < 8" "j mod 8 < 8" by simp_all
  with a(1) have "i mod 8 = j mod 8" by linarith
  with a(2) show "i = j" by (metis div_mult_mod_eq)
qed

lemma demo_bitarray: "bitarray_ok demo_env"
proof -
  have s: "msb_test (msb_set bm i) j \<longleftrightarrow> j = i \<or> msb_test bm j"
    if "i < 8 * length bm" "j < 8 * length bm" for bm i j
  proof -
    have "i div 8 < length bm" "j div 8 < length bm" using that by (simp_all add: less_mult_imp_div_less mult.commute)
    then show ?thesis
      using msb_index [of i j] by (auto simp: msb_test_def msb_set_def nth_upd bit_simps)
  qed
  have c: "msb_test (msb_clean bm i) j \<longleftrightarrow> j \<noteq> i \<and> msb_test bm j"
    if "i < 8 * length bm" "j < 8 * length bm" for bm i j
  proof -
    have "i div 8 < length bm" "j div 8 < length bm" using that by (simp_all add: less_mult_imp_div_less mult.commute)
    then show ?thesis
      using msb_index [of i j] by (auto simp: msb_test_def msb_clean_def nth_upd bit_simps)
  qed
  show ?thesis
    using s c by (simp add: bitarray_ok_def demo_env_def) (simp add: msb_set_def msb_clean_def)
qed

definition demo_blank :: fs where
  "demo_blank = \<lparr>file_dirs = [], tag_dirs = (\<lambda>k. None), physical_blocks = [], st_nlink = [], bitmap_bin = [],
     blocks_hash_index = (\<lambda>h. None)\<rparr>"

definition demo_start :: fs where
  "demo_start = snd (init_storage demo_env demo_blank)"

definition demo_created :: fs where
  "demo_created = snd (create_file_op demo_start ''a'' ''v1'')"

definition demo_grown :: fs where
  "demo_grown = snd (truncate_file demo_env demo_created ''a'' ''v1'' 8)"

definition demo_written :: fs where
  "demo_written = snd (execute_block_write demo_env demo_grown ''a'' ''v1'' 0 [1, 2, 3, 4])"

lemma demo_start_ok: "fs_ok demo_env demo_start"
proof -
  have "0 < total_blocks demo_env" by code_simp
  from init_storage_ok [OF demo_bitarray this, of demo_blank] show ?thesis
    unfolding demo_start_def by (metis snd_conv)
qed

lemma create_file_keeps: "fs_ok g fs \<Longrightarrow> fs_ok g (snd (create_file_op fs f t))"
proof -
  assume ok: "fs_ok g fs"
  obtain r fs' where c: "create_file_op fs f t = (r, fs')" by (metis surj_pair)
  note C = create_file_ok [OF fs_okD(1) [OF ok] c]
  have "base_ok g fs'"
  proof (cases "(f, t) = base_tag")
    case True
    have "\<exists>d. tag_dirs fs base_tag = Some d" using fs_okD(2) [OF ok] meta_dir by (auto simp: base_ok_def)
    then have "r \<noteq> 0" using C(3) True by auto
    then show ?thesis using C(4) fs_okD(2) [OF ok] by simp
  next
    case False
    show ?thesis by (rule spares_base [OF C(2) False fs_okD(2) [OF ok]])
  qed
  with C(1) c show ?thesis by (simp add: fs_ok_def)
qed

lemma write_keeps:
  assumes "bitarray_ok g" and ok: "fs_ok g fs"
  shows "fs_ok g (snd (execute_block_write g fs f t bn data))"
proof -
  obtain r fs' where w: "execute_block_write g fs f t bn data = (r, fs')" by (metis surj_pair)
  note W = block_write_ok [OF assms(1) fs_okD(1) [OF ok] w]
  have "base_ok g fs'"
  proof (cases "(f, t) = base_tag")
    case True
    obtain m where "meta fs (f, t) = Some m" "md_state m = COMMITTED"
      using fs_okD(2) [OF ok] unfolding True by (auto simp: base_ok_def)
    then have "fs' = fs" by (rule W(5))
    then show ?thesis using fs_okD(2) [OF ok] by simp
  next
    case False
    show ?thesis by (rule spares_base [OF W(2) False fs_okD(2) [OF ok]])
  qed
  with W(1) w show ?thesis by (simp add: fs_ok_def)
qed

lemma truncate_keeps:
  assumes "bitarray_ok g" and "fs_ok g fs" and "(f, t) \<noteq> base_tag"
  shows "fs_ok g (snd (truncate_file g fs f t sz))"
  using truncate_ok [OF assms, of sz] by (metis prod.collapse)

lemma demo_created_ok: "fs_ok demo_env demo_created"
  unfolding demo_created_def by (rule create_file_keeps [OF demo_start_ok])

lemma demo_grown_ok: "fs_ok demo_env demo_grown"
  unfolding demo_grown_def by (rule truncate_keeps [OF demo_bitarray demo_created_ok]) simp

lemma demo_written_ok: "fs_ok demo_env demo_written"
  unfolding demo_written_def by (rule write_keeps [OF demo_bitarray demo_grown_ok])

lemma demo_write: "execute_block_write demo_env demo_grown ''a'' ''v1'' 0 [1, 2, 3, 4] = (0, demo_written)"
proof (rule prod_eqI)
  show "fst (execute_block_write demo_env demo_grown ''a'' ''v1'' 0 [1, 2, 3, 4]) = fst (0, demo_written)" by code_simp
qed (simp add: demo_written_def)

lemma contentI:
  assumes "meta fs (f, t) = Some m" and "link fs (f, t) b = Some i" and "b < length (md_blocks m)" and "b < 2 ^ 31"
    and "physical_blocks fs ! i = d"
  shows "content fs f t b = Some d"
  using assms by (simp add: content_def)

lemma demo_grown_content: "content demo_grown ''a'' ''v1'' 1 = Some [0, 0, 0, 0]"
proof (rule contentI)
  show "meta demo_grown (''a'', ''v1'') = Some \<lparr>md_size = 8, md_blocks = [0, 0], md_state = IN_PROGRESS\<rparr>" by code_simp
  show "link demo_grown (''a'', ''v1'') 1 = Some 0" by code_simp
  show "physical_blocks demo_grown ! 0 = [0, 0, 0, 0]" by code_simp
qed simp_all

subsection \<open>Properties\<close>

text \<open>
  A fresh start gives a sound filesystem whatever the mount point held before:
  \<open>init_storage\<close> returns 0, the invariant holds, the only File:Tag is the committed
  \<open>initial_file:BASE\<close>, and its block 0 reads as zeros.
\<close>

theorem init_storage_fresh:
  assumes "bitarray_ok g" and "0 < total_blocks g"
  shows "\<exists>fs'. init_storage g fs = (0, fs') \<and> fs_ok g fs' \<and>
    (\<forall>k. tag_dirs fs' k \<noteq> None \<longleftrightarrow> k = base_tag) \<and>
    content fs' ''initial_file'' ''BASE'' 0 = Some (replicate (block_size g) 0)"
proof -
  have tags: "\<exists>fs'. init_storage g fs = (0, fs') \<and> fs_ok g fs' \<and> (tag_dirs fs' k \<noteq> None \<longleftrightarrow> k = base_tag) \<and>
      meta fs' base_tag = Some \<lparr>md_size = 0, md_blocks = [0], md_state = COMMITTED\<rparr>" for k
    by (rule init_storage_ok [OF assms, of fs k]) (intro exI conjI, assumption+)
  obtain fs' where i: "init_storage g fs = (0, fs')" "fs_ok g fs'"
    "meta fs' base_tag = Some \<lparr>md_size = 0, md_blocks = [0], md_state = COMMITTED\<rparr>" using tags [of base_tag] by (elim exE conjE)
  have all: "\<forall>k. tag_dirs fs' k \<noteq> None \<longleftrightarrow> k = base_tag"
  proof
    fix k show "tag_dirs fs' k \<noteq> None \<longleftrightarrow> k = base_tag" using tags [of k] i(1) by auto
  qed
  have "base_ok g fs'" by (rule fs_okD(2) [OF i(2)])
  then have "content fs' ''initial_file'' ''BASE'' 0 = Some (replicate (block_size g) 0)"
    using i(3) by (simp add: base_ok_def content_def)
  with i(1,2) all show ?thesis by (intro exI [of _ fs'] conjI)
qed

theorem init_storage_fresh_witness:
  "\<exists>fs'. init_storage demo_env demo_blank = (0, fs') \<and> fs_ok demo_env fs' \<and>
    (\<forall>k. tag_dirs fs' k \<noteq> None \<longleftrightarrow> k = base_tag) \<and>
    content fs' ''initial_file'' ''BASE'' 0 = Some (replicate (block_size demo_env) 0)"
proof (rule init_storage_fresh [OF demo_bitarray])
  show "0 < total_blocks demo_env" by code_simp
qed

text \<open>
  C8: Writing a block is isolated and copies on write. Whatever the outcome, the invariant
  of links and bitmap holds and no block of any File:Tag changes but the one named, even
  when other tags share its physical block; on success the named block holds the data
  padded with zeros to the size of a block; a committed File:Tag is refused and left as it is.
\<close>

theorem block_write_isolated:
  assumes "bitarray_ok g" and "fs_inv g fs"
    and "execute_block_write g fs f t bn data = (r, fs')"
  shows "fs_inv g fs' \<and>
    (\<forall>f' t' b'. (f', t', b') \<noteq> (f, t, unat bn) \<longrightarrow> content fs' f' t' b' = content fs f' t' b') \<and>
    (r = 0 \<longrightarrow> content fs' f t (unat bn) = Some (take (block_size g) data @ replicate (block_size g - length data) 0)) \<and>
    (\<forall>m. meta fs (f, t) = Some m \<and> md_state m = COMMITTED \<longrightarrow> r = FILE_ALREADY_COMMITTED \<and> fs' = fs)"
proof -
  note W = block_write_ok [OF assms]
  have "content fs' f' t' b' = content fs f' t' b'" if "(f', t', b') \<noteq> (f, t, unat bn)" for f' t' b'
    using that W(3) [of b'] spares_content [OF W(2), of f' t' b'] by (cases "(f', t') = (f, t)") auto
  moreover have "r = FILE_ALREADY_COMMITTED" if "meta fs (f, t) = Some m" "md_state m = COMMITTED" for m
    using assms(3) that meta_dir [OF that(1)]
    by (auto simp: execute_block_write_def read_file_metadata_meta file_dir_exists_def)
  ultimately show ?thesis using W(1,4,5) by (auto simp: padded_def)
qed

theorem block_write_isolated_witness:
  "fs_inv demo_env demo_written \<and> content demo_grown ''a'' ''v1'' 1 = Some [0, 0, 0, 0] \<and>
   content demo_written ''a'' ''v1'' 1 = content demo_grown ''a'' ''v1'' 1 \<and>
   content demo_written ''a'' ''v1'' (unat (0 :: u32)) = Some [1, 2, 3, 4]"
proof -
  note W = block_write_isolated [OF demo_bitarray fs_okD(1) [OF demo_grown_ok] demo_write]
  note demo_grown_content
  moreover have "content demo_written ''a'' ''v1'' 1 = content demo_grown ''a'' ''v1'' 1"
    by (rule W [THEN conjunct2, THEN conjunct1, rule_format]) simp
  moreover have "block_size demo_env = 4" by (simp add: demo_env_def)
  ultimately show ?thesis using W [THEN conjunct1] W [THEN conjunct2, THEN conjunct2, THEN conjunct1] by simp
qed

text \<open>
  A block that was written is read back: after a successful write, a read of the same
  block succeeds and returns the bytes written, padded with zeros to the size of a block.
\<close>

theorem read_after_write:
  assumes "bitarray_ok g" and "fs_inv g fs" and "execute_block_write g fs f t bn data = (0, fs')"
  shows "execute_block_read g fs' f t bn =
    (0, take (block_size g) data @ replicate (block_size g - length data) 0)"
proof -
  note W = block_write_ok [OF assms]
  obtain r d where rd: "execute_block_read g fs' f t bn = (r, d)" by (metis surj_pair)
  note R = block_read_ok [OF W(1) rd]
  have "r = 0" using R(1) W(4) by simp
  with R(2) W(4) rd show ?thesis by (simp add: padded_def)
qed

theorem read_after_write_witness:
  "execute_block_read demo_env demo_written ''a'' ''v1'' 0 = (0, [1, 2, 3, 4])"
proof -
  from read_after_write [OF demo_bitarray fs_okD(1) [OF demo_grown_ok] demo_write] show ?thesis
    by (simp add: demo_env_def)
qed





text \<open>
  C17: A new tag is a snapshot. Given a source that exists, a destination that does not and
  a destination file that does, \<open>create_tag\<close> returns 0; the new tag has the size, the
  blocks and the contents of the source and is in progress; no other File:Tag changes, and
  the invariant holds (every shared physical block counts its new link).
\<close>

theorem create_tag_snapshot:
  assumes ok: "fs_ok g fs" and m: "meta fs (f1, t1) = Some m"
    and n: "tag_dirs fs (f2, t2) = None" and fd: "f2 \<in> set (file_dirs fs)"
  shows "\<exists>fs'. create_tag fs f1 t1 f2 t2 = (0, fs') \<and> fs_ok g fs' \<and>
    meta fs' (f2, t2) = Some (m\<lparr>md_state := IN_PROGRESS\<rparr>) \<and>
    (\<forall>b. content fs' f2 t2 b = content fs f1 t1 b) \<and>
    (\<forall>f t b. (f, t) \<noteq> (f2, t2) \<longrightarrow> content fs' f t b = content fs f t b)"
proof -
  obtain r fs' where c: "create_tag fs f1 t1 f2 t2 = (r, fs')" by (metis surj_pair)
  note C = create_tag_ok(1) [OF ok c] create_tag_ok(2) [OF ok c m n fd]
  have "content fs' f2 t2 b = content fs f1 t1 b" for b using C(2) m by (simp add: content_def)
  moreover have "content fs' f t b = content fs f t b" if "(f, t) \<noteq> (f2, t2)" for f t b
    using spares_content [OF _ that] C(1) by blast
  ultimately show ?thesis using c C by auto
qed

theorem create_tag_snapshot_witness:
  "\<exists>fs'. create_tag demo_written ''a'' ''v1'' ''a'' ''v2'' = (0, fs') \<and> fs_ok demo_env fs' \<and>
     content fs' ''a'' ''v2'' 1 = content demo_written ''a'' ''v1'' 1 \<and>
     content fs' ''a'' ''v1'' 0 = content demo_written ''a'' ''v1'' 0"
proof -
  have m: "meta demo_written (''a'', ''v1'') = Some \<lparr>md_size = 8, md_blocks = [1, 0], md_state = IN_PROGRESS\<rparr>" by code_simp
  have n: "tag_dirs demo_written (''a'', ''v2'') = None" by code_simp
  have f: "''a'' \<in> set (file_dirs demo_written)" by code_simp
  have ne: "(''a'', ''v1'') \<noteq> (''a'', ''v2'')" by simp
  from create_tag_snapshot [OF demo_written_ok m n f] obtain fs' where
    "create_tag demo_written ''a'' ''v1'' ''a'' ''v2'' = (0, fs')" "fs_ok demo_env fs'"
    "\<forall>b. content fs' ''a'' ''v2'' b = content demo_written ''a'' ''v1'' b"
    "\<forall>f t b. (f, t) \<noteq> (''a'', ''v2'') \<longrightarrow> content fs' f t b = content demo_written f t b" by (elim exE conjE)
  then show ?thesis using ne by (intro exI [of _ fs'] conjI) simp_all
qed

text \<open>
  C18: Deleting a tag removes that tag and nothing else. The base tag is refused; a tag whose
  links match its metadata is deleted with status 0; whatever the outcome, the invariant
  holds and no other File:Tag changes, even where physical blocks were shared.
\<close>

theorem delete_tag_isolated:
  assumes ba: "bitarray_ok g" and ok: "fs_ok g fs" and d: "delete_tag g fs f t = (r, fs')"
  shows "fs_ok g fs' \<and> (r = 0 \<longrightarrow> tag_dirs fs' (f, t) = None) \<and>
    ((f, t) = base_tag \<longrightarrow> r \<noteq> 0 \<and> fs' = fs) \<and>
    ((f, t) \<noteq> base_tag \<longrightarrow> meta fs (f, t) \<noteq> None \<longrightarrow> whole fs (f, t) \<longrightarrow> r = 0) \<and>
    (\<forall>f' t' b. (f', t') \<noteq> (f, t) \<longrightarrow> content fs' f' t' b = content fs f' t' b)"
proof -
  note D = delete_tag_ok [OF ba ok d]
  have "r \<noteq> 0 \<and> fs' = fs" if "(f, t) = base_tag" using d that by (auto simp: delete_tag_def)
  moreover have "content fs' f' t' b = content fs f' t' b" if "(f', t') \<noteq> (f, t)" for f' t' b
    using spares_content [OF _ that] D(1) by blast
  ultimately show ?thesis using D by auto
qed

theorem delete_tag_isolated_witness:
  "fs_ok demo_env (snd (delete_tag demo_env demo_written ''a'' ''v1'')) \<and>
   tag_dirs (snd (delete_tag demo_env demo_written ''a'' ''v1'')) (''a'', ''v1'') = None \<and>
   content (snd (delete_tag demo_env demo_written ''a'' ''v1'')) ''initial_file'' ''BASE'' 0 =
     content demo_written ''initial_file'' ''BASE'' 0"
proof -
  let ?fs' = "snd (delete_tag demo_env demo_written ''a'' ''v1'')"
  have r: "delete_tag demo_env demo_written ''a'' ''v1'' = (0, ?fs')"
  proof (rule prod_eqI)
    show "fst (delete_tag demo_env demo_written ''a'' ''v1'') = fst (0, ?fs')" by code_simp
  qed simp
  note D = delete_tag_isolated [OF demo_bitarray demo_written_ok r]
  have "base_tag \<noteq> (''a'', ''v1'')" by simp
  with D have c: "content ?fs' ''initial_file'' ''BASE'' 0 = content demo_written ''initial_file'' ''BASE'' 0"
    by (elim conjE) (drule spec, drule spec, drule spec, erule mp)
  show ?thesis
  proof (intro conjI c)
    show "fs_ok demo_env ?fs'" by (rule D [THEN conjunct1])
    show "tag_dirs ?fs' (''a'', ''v1'') = None" by (rule D [THEN conjunct2, THEN conjunct1, THEN mp]) (rule refl)
  qed
qed

text \<open>
  C10: Committing deduplicates and keeps the data. When every entry of the hash index names a
  block in use with that hash, the metadata lists the linked blocks, and no two blocks with
  equal hashes differ, a tag in progress is committed with status 0: its contents and size
  are unchanged, its state is committed, each of its blocks is the one the index files under
  its hash, the index is still right, no other File:Tag changes and the invariant holds.
\<close>

theorem commit_keeps_content:
  assumes "bitarray_ok g" and "fs_ok g fs" and "meta fs (f, t) = Some m" and "md_state m \<noteq> COMMITTED"
    and "synced fs (f, t) m" and "index_ok g fs (blocks_hash_index fs)" and "no_collision g fs"
  shows "\<exists>fs' m'. execute_tag_commit g fs f t = (0, fs') \<and> fs_ok g fs' \<and>
    meta fs' (f, t) = Some m' \<and> md_state m' = COMMITTED \<and> md_size m' = md_size m \<and> synced fs' (f, t) m' \<and>
    (\<forall>f' t' b. content fs' f' t' b = content fs f' t' b) \<and>
    (\<forall>b < length (md_blocks m'). blocks_hash_index fs' (crypto_md5 g (physical_blocks fs' ! (md_blocks m' ! b))) =
       Some (block_name (md_blocks m' ! b))) \<and>
    index_ok g fs' (blocks_hash_index fs')"
proof -
  obtain fs' m' where C: "execute_tag_commit g fs f t = (0, fs')" "fs_ok g fs'" "spares (f, t) fs fs'"
    "meta fs' (f, t) = Some m'" "md_state m' = COMMITTED" "md_size m' = md_size m" "synced fs' (f, t) m'"
    "\<forall>b. content fs' f t b = content fs f t b" "index_ok g fs' (blocks_hash_index fs')"
    "\<forall>b < length (md_blocks m'). filed g fs' m' (blocks_hash_index fs') b"
    using commit_ok [OF assms] by blast
  have "content fs' f' t' b = content fs f' t' b" for f' t' b
    using C(8) spares_content [OF C(3), of f' t' b] by (cases "(f', t') = (f, t)") auto
  with C show ?thesis by (auto simp: filed_def)
qed

theorem commit_keeps_content_witness:
  "\<exists>fs'. execute_tag_commit demo_env demo_written ''a'' ''v1'' = (0, fs') \<and> fs_ok demo_env fs' \<and>
     content fs' ''a'' ''v1'' 1 = content demo_written ''a'' ''v1'' 1"
proof -
  let ?m = "\<lparr>md_size = 8, md_blocks = [1, 0], md_state = IN_PROGRESS\<rparr>"
  have m: "meta demo_written (''a'', ''v1'') = Some ?m" by code_simp
  have st: "md_state ?m \<noteq> COMMITTED" by code_simp
  have s: "synced demo_written (''a'', ''v1'') ?m" unfolding synced_def by code_simp
  have "blocks_hash_index demo_written h = None" for h by code_simp
  then have i: "index_ok demo_env demo_written (blocks_hash_index demo_written)" by (simp add: index_ok_def)
  have n: "no_collision demo_env demo_written" by code_simp
  from commit_keeps_content [OF demo_bitarray demo_written_ok m st s i n] show ?thesis by blast
qed


text \<open>
  The number in the name of a physical block survives formatting and parsing, so the
  deduplication finds the block a name of the index stands for.
\<close>

theorem block_name_roundtrip:
  "get_physical_block_number (block_name n) = int n \<and>
   (n < length (physical_blocks fs) \<longrightarrow> physical_by_name fs (block_name n) = Some n)"
  using block_number_of_name physical_by_name_block by blast

theorem block_name_roundtrip_witness:
  "get_physical_block_number (block_name 12345) = 12345 \<and> physical_by_name demo_start (block_name 7) = Some 7"
proof -
  have "7 < length (physical_blocks demo_start)" by code_simp
  then show ?thesis
    using block_name_roundtrip [of 12345 demo_start] block_name_roundtrip [of 7 demo_start] by simp
qed

subsection \<open>Where the filesystem loses data\<close>

text \<open>A tag that was committed and deleted leaves its hashes in the index.\<close>

definition demo_new :: "fs \<Rightarrow> string \<Rightarrow> int \<Rightarrow> fs" where
  "demo_new fs f sz = snd (truncate_file demo_env (snd (create_file_op fs f ''v1'')) f ''v1'' sz)"

definition demo_put :: "fs \<Rightarrow> string \<Rightarrow> u32 \<Rightarrow> bytes \<Rightarrow> fs" where
  "demo_put fs f b d = snd (execute_block_write demo_env fs f ''v1'' b d)"



text \<open>
  Truncating does not look at the state of a tag: a committed File:Tag is cut to nothing
  with status 0.
\<close>

theorem truncate_ignores_commit:
  assumes "bitarray_ok g" and "fs_ok g fs" and "(f, t) \<noteq> base_tag" and "meta fs (f, t) = Some m"
    and "whole fs (f, t)" and "md_state m = COMMITTED"
  shows "\<exists>fs'. truncate_file g fs f t 0 = (0, fs') \<and> (\<forall>b. content fs' f t b = None)"
proof -
  have z: "0 \<le> (0 :: int)" by simp
  have "blocks_for g 0 = 0" using base_block_size [OF assms(2)] by (simp add: blocks_for_def)
  with truncate_spec [OF assms(1-5) z] assms(4) show ?thesis unfolding truncated_def by auto
qed

lemma demo_commit_meta: "meta (snd (execute_tag_commit demo_env demo_written ''a'' ''v1'')) (''a'', ''v1'') =
    Some \<lparr>md_size = 8, md_blocks = [1, 0], md_state = COMMITTED\<rparr>"
  by code_simp

lemma demo_commit_links: "map_option logical_blocks
    (tag_dirs (snd (execute_tag_commit demo_env demo_written ''a'' ''v1'')) (''a'', ''v1'')) = Some [(0, 1), (1, 0)]"
  by code_simp

theorem truncate_ignores_commit_witness:
  "md_state \<lparr>md_size = 8, md_blocks = [1, 0], md_state = COMMITTED\<rparr> = COMMITTED \<and>
   (\<exists>fs'. truncate_file demo_env (snd (execute_tag_commit demo_env demo_written ''a'' ''v1'')) ''a'' ''v1'' 0 = (0, fs') \<and>
      (\<forall>b. content fs' ''a'' ''v1'' b = None))"
proof -
  let ?m = "\<lparr>md_size = 8, md_blocks = [1, 0], md_state = COMMITTED\<rparr>"
  let ?wip = "\<lparr>md_size = 8, md_blocks = [1, 0], md_state = IN_PROGRESS\<rparr>"
  define fs where "fs = snd (execute_tag_commit demo_env demo_written ''a'' ''v1'')"
  have m0: "meta demo_written (''a'', ''v1'') = Some ?wip" by code_simp
  have st: "md_state ?wip \<noteq> COMMITTED" by code_simp
  have s: "synced demo_written (''a'', ''v1'') ?wip" unfolding synced_def by code_simp
  have "blocks_hash_index demo_written h = None" for h by code_simp
  then have i: "index_ok demo_env demo_written (blocks_hash_index demo_written)" by (simp add: index_ok_def)
  have n: "no_collision demo_env demo_written" by code_simp
  obtain fs1 where "execute_tag_commit demo_env demo_written ''a'' ''v1'' = (0, fs1)" "fs_ok demo_env fs1"
    using commit_ok [OF demo_bitarray demo_written_ok m0 st s i n] by blast
  then have ok: "fs_ok demo_env fs" by (simp add: fs_def)
  have m: "meta fs (''a'', ''v1'') = Some ?m" unfolding fs_def by (rule demo_commit_meta)
  have "map_option logical_blocks (tag_dirs fs (''a'', ''v1'')) = Some [(0, 1), (1, 0)]"
    unfolding fs_def by (rule demo_commit_links)
  then have "link fs (''a'', ''v1'') b = map_of [(0, 1), (1, 0)] b" for b by (auto simp: link_def)
  then have w: "whole fs (''a'', ''v1'')" using m by (auto simp: whole_def)
  have nb: "(''a'', ''v1'') \<noteq> base_tag" by simp
  have c: "md_state ?m = COMMITTED" by simp
  from truncate_ignores_commit [OF demo_bitarray ok nb m w c] c show ?thesis unfolding fs_def by blast
qed

definition demo_no_base :: fs where
  "demo_no_base =
     (let cut = snd (truncate_file demo_env demo_start ''initial_file'' ''BASE'' 0)
      in demo_new (demo_put (demo_new cut ''x'' 4) ''x'' 0 [7, 7, 7, 7]) ''y'' 4)"

text \<open>
  Even \<open>initial_file:BASE\<close> can be truncated. The zero block then belongs to whoever
  grows first: that file's write goes into it in place, and every file grown later reads
  those bytes instead of zeros.
\<close>

theorem truncated_base_leaks_data:
  "fst (truncate_file demo_env demo_start ''initial_file'' ''BASE'' 0) = 0 \<and>
   execute_block_read demo_env demo_no_base ''y'' ''v1'' 0 = (0, [7, 7, 7, 7])"
proof (intro conjI)
  show "fst (truncate_file demo_env demo_start ''initial_file'' ''BASE'' 0) = 0" by code_simp
  show "execute_block_read demo_env demo_no_base ''y'' ''v1'' 0 = (0, [7, 7, 7, 7])" by code_simp
qed

end
