(* ===== verification/Worker_Storage.thy ===== *)
theory Worker_Storage
  imports Memory_Access Storage_Client Storage_Properties
begin

text \<open>
  The Worker's memory over the Storage process: the interface \<open>block_store\<close> holds of the
  modelled Storage process behind the wire protocol, and with it the properties of the
  memory manager are stated of the whole path, from \<^verbatim>\<open>mm_read_from_memory\<close> down to the
  physical blocks.
\<close>

interpretation disk: block_store "storage_io g cd q" net_content "net_ok g" "block_size g" for g cd q
proof
  show "length d = block_size g" if "net_ok g s" "net_content s f t b = Some d" for s f t b d
    by (rule net_content_size [OF that])
  show "net_ok g s' \<and> net_content s' = net_content s \<and> r \<noteq> -2 \<and> (r = 0 \<longrightarrow> net_content s f t b = Some d)"
    if "net_ok g s" "io_read (storage_io g cd q) s f t b = ((r, d), s')" for s f t b r d s'
    by (rule net_read [OF that])
  show "net_ok g s' \<and>
      (\<forall>f' t' b'. (f', t', b') \<noteq> (f, t, b) \<longrightarrow> net_content s' f' t' b' = net_content s f' t' b') \<and>
      (r = 0 \<longrightarrow> net_content s' f t b = Some d)"
    if "net_ok g s" "length d = block_size g" "io_write (storage_io g cd q) s f t b d = (r, s')" for s d f t b r s'
    by (rule net_write [OF that])
qed


subsection \<open>The invariant of a Worker\<close>

text \<open>
  The memory manager is well formed, every clean page in memory equals its block in Storage,
  the filesystem of Storage is sound, and both processes use the same block size.
\<close>

definition worker_inv :: "storage_env \<Rightarrow> memory_manager_t \<Rightarrow> storage_state net \<Rightarrow> bool" where
  "worker_inv g mm s \<longleftrightarrow>
     mm_ok mm \<and> coherent net_content mm s \<and> net_ok g s \<and> mm_page_size mm = block_size g"

lemma disk_inv: "block_store.inv net_content (net_ok g) (block_size g) mm s \<longleftrightarrow> worker_inv g mm s"
  by (simp add: disk.inv_def worker_inv_def)

text \<open>What a query reads at an address: the page in memory, or else the block in Storage.\<close>

abbreviation seen :: "memory_manager_t \<Rightarrow> storage_state net \<Rightarrow> string \<Rightarrow> string \<Rightarrow> nat \<Rightarrow> u8 option" where
  "seen mm s f t x \<equiv> vbyte net_content mm s f t x"

lemma silent_seen:
  assumes "block_store.silent net_content (net_ok g) (block_size g) mm s mm' s'"
  shows "worker_inv g mm' s'" and "seen mm' s' f t x = seen mm s f t x"
proof -
  note S = disk.silentD [OF assms]
  show "worker_inv g mm' s'" using S(1) by (simp add: disk_inv)
  have "mm_page_size mm' = mm_page_size mm" using same_shapeD(2) [OF S(2)] .
  then show "seen mm' s' f t x = seen mm s f t x" using S(3) by (simp add: vbyte_def)
qed

subsection \<open>Starting up\<close>

lemma mm_create_inv:
  assumes "mm_create garbage n (block_size g) pol d = Some mm" and "net_ok g s"
  shows "worker_inv g mm s" and "no_leak mm"
proof -
  have bs: "0 < block_size g" and mm: "mm_entries mm = []" "mm_page_size mm = block_size g"
    "frames mm = replicate (n div block_size g) False" "frame_count mm = n div block_size g"
    "clock_pointer mm = 0" "length (physical_memory mm) = n"
    using assms(1) by (auto simp: mm_create_def split: if_splits)
  have sl: "\<not> slot mm i j" for i j by (simp add: slot_def mm)
  have "mm_ok mm" using bs sl mm by (intro mm_okI) (simp_all add: mult.commute div_times_less_eq_dividend)
  moreover have "coherent net_content mm s" by (simp add: coherent_def sl)
  ultimately show "worker_inv g mm s" using assms(2) mm by (simp add: worker_inv_def)
  show "no_leak mm" by (simp add: no_leak_def mm)
qed

lemma worker_inv_set [simp]:
  "worker_inv g (mm_set_storage_connection mm sock wid) s = worker_inv g mm s"
  "no_leak (mm_set_storage_connection mm sock wid) = no_leak mm"
proof -
  let ?mm = "mm_set_storage_connection mm sock wid"
  have "slot ?mm = slot mm" "page_at ?mm = page_at mm" "key_at ?mm = key_at mm" "mm_pt ?mm = mm_pt mm"
    by (simp_all add: mm_set_storage_connection_def fun_eq_iff slot_def page_at_def mm_pt_def key_at_def)
  note e = this
  have f: "frame_bytes ?mm = frame_bytes mm"
    by (simp add: fun_eq_iff frame_bytes_def mm_set_storage_connection_def)
  have "mm_ok ?mm = mm_ok mm" unfolding mm_ok_def e by (simp add: mm_set_storage_connection_def)
  moreover have "coherent net_content ?mm s = coherent net_content mm s" unfolding coherent_def e f ..
  ultimately show "worker_inv g ?mm s = worker_inv g mm s"
    unfolding worker_inv_def by (simp add: mm_set_storage_connection_def)
  show "no_leak ?mm = no_leak mm" unfolding no_leak_def e by (simp add: mm_set_storage_connection_def)
qed


lemma create_page_table_inv:
  assumes wi: "worker_inv g mm s" and c: "mm_create_page_table mm f t = (r, mm')"
  shows "worker_inv g mm' s" and "no_leak mm \<Longrightarrow> no_leak mm'"
    and "\<exists>a. r = Some a \<and> mm_find_page_table mm' f t = Some a"
    and "seen mm' s f' t' x = seen mm s f' t' x"
proof -
  have ok: "mm_ok mm" and co: "coherent net_content mm s" using wi by (simp_all add: worker_inv_def)
  have P: "worker_inv g mm' s \<and> (no_leak mm \<longrightarrow> no_leak mm') \<and> (\<exists>a. r = Some a \<and> mm_find_page_table mm' f t = Some a) \<and>
    seen mm' s f' t' x = seen mm s f' t' x"
  proof (cases "mm_find_page_table mm f t")
    case (Some a)
    with c have "mm' = mm" "r = Some a" by (simp_all add: mm_create_page_table_def)
    with Some wi show ?thesis by simp
  next
    case None
    let ?n = "length (mm_entries mm)"
    let ?pt = "\<lparr>entries = [blank_entry 0], page_count = 1, pt_page_size = mm_page_size mm\<rparr>"
    let ?e = "\<lparr>e_file = f, e_tag = t, e_pt = ?pt\<rparr>"
    have ps: "0 < mm_page_size mm" using mm_okD(1) [OF ok] .
    have r: "r = Some ?n" and mm': "mm_entries mm' = mm_entries mm @ [?e]" "mm_page_size mm' = mm_page_size mm"
      "frames mm' = frames mm" "frame_count mm' = frame_count mm" "clock_pointer mm' = clock_pointer mm"
      "physical_memory mm' = physical_memory mm"
      using c None ps by (auto simp: mm_create_page_table_def mm_resize_entries_def pt_create_def Let_def split: if_splits)
    have pt: "mm_pt mm' i = (if i < ?n then mm_pt mm i else ?pt)" if "i \<le> ?n" for i
      using that by (auto simp: mm_pt_def mm'(1) nth_append)
    have key: "key_at mm' i = (if i < ?n then key_at mm i else (f, t))" if "i \<le> ?n" for i
      using that by (auto simp: key_at_def mm'(1) nth_append)
    have old: "slot mm' i j \<and> present (page_at mm' i j) \<longleftrightarrow> slot mm i j \<and> present (page_at mm i j)" for i j
      using pt [of i] by (cases i ?n rule: linorder_cases) (auto simp: slot_def page_at_def mm'(1) blank_entry_def)
    have pg: "page_at mm' i j = page_at mm i j" if "slot mm i j" for i j
      using that pt [of i] by (simp add: slot_def page_at_def)
    have fb: "frame_bytes mm' = frame_bytes mm" by (simp add: fun_eq_iff frame_bytes_def mm')
    have fresh: "key_at mm i \<noteq> (f, t)" if "i < ?n" for i
      using None that mm_find_page_table_eq [OF ok, of f t i] by auto
    have ok': "mm_ok mm'"
    proof (rule mm_okI)
      show "inj_on (key_at mm') {..<length (mm_entries mm')}"
      proof (rule inj_onI)
        fix i i' assume "i \<in> {..<length (mm_entries mm')}" "i' \<in> {..<length (mm_entries mm')}" "key_at mm' i = key_at mm' i'"
        then show "i = i'"
          using key [of i] key [of i'] fresh [of i] fresh [of i'] inj_onD [OF mm_okD(5) [OF ok], of i i']
          by (cases "i < ?n"; cases "i' < ?n") (simp_all add: mm'(1))
      qed
      show "pt_ok (mm_pt mm' i)" if "i < length (mm_entries mm')" for i
        using that pt [of i] mm_okD(6) [OF ok, of i] ps by (auto simp: mm'(1) pt_ok_def blank_entry_def)
      fix i j assume 1: "slot mm' i j" "present (page_at mm' i j)"
      then have s1: "slot mm i j" "present (page_at mm i j)" using old by blast+
      then show "frame (page_at mm' i j) < frame_count mm' \<and> frames mm' ! frame (page_at mm' i j)"
        using mm_okD(7,8) [OF ok s1] pg by (simp add: mm')
      fix i' j' assume 2: "slot mm' i' j'" "present (page_at mm' i' j')" "frame (page_at mm' i j) = frame (page_at mm' i' j')"
      then have s2: "slot mm i' j'" "present (page_at mm i' j')" using old by blast+
      show "i = i' \<and> j = j'"
        using mm_okD(9) [OF ok s1(1) s2(1) s1(2) s2(2)] 2(3) pg [OF s1(1)] pg [OF s2(1)] by simp
    qed (use mm_okD(1-4) [OF ok] mm' in simp_all)
    have "coherent net_content mm' s"
      unfolding coherent_def fb
    proof (intro allI impI)
      fix i j assume "slot mm' i j" "present (page_at mm' i j)" "\<not> dirty (page_at mm' i j)"
      then show "net_content s (fst (key_at mm' i)) (snd (key_at mm' i)) j =
          Some (frame_bytes mm (frame (page_at mm' i j)))"
        using old [of i j] pg [of i j] co key [of i] slotD(1) [of mm i j] by (auto simp: coherent_def)
    qed
    moreover have "no_leak mm'" if "no_leak mm"
    proof -
      have "\<exists>i j. slot mm' i j \<and> present (page_at mm' i j) \<and> frame (page_at mm' i j) = fr"
        if fr: "fr < frame_count mm" "frames mm ! fr" for fr
      proof -
        obtain i j where "slot mm i j" "present (page_at mm i j)" "frame (page_at mm i j) = fr"
          using \<open>no_leak mm\<close> fr unfolding no_leak_def by blast
        with old [of i j] pg [of i j] show ?thesis by (intro exI [of _ i] exI [of _ j]) simp
      qed
      then show ?thesis by (simp add: no_leak_def mm')
    qed
    moreover have "mm_find_page_table mm' f t = Some ?n"
      using mm_find_page_table_eq [OF ok', of f t ?n] key [of ?n] by (simp add: mm'(1))
    moreover have ca: "cached mm' f' t' j = cached mm f' t' j" for j
    proof -
      have "cached mm' f' t' j = Some fr \<longleftrightarrow> cached mm f' t' j = Some fr" for fr
        unfolding cached_Some_iff [OF ok'] cached_Some_iff [OF ok]
      proof (rule arg_cong [where f = Ex], rule ext)
        fix i
        show "(slot mm' i j \<and> key_at mm' i = (f', t') \<and> present (page_at mm' i j) \<and> frame (page_at mm' i j) = fr) =
            (slot mm i j \<and> key_at mm i = (f', t') \<and> present (page_at mm i j) \<and> frame (page_at mm i j) = fr)"
          using old [of i j] pg [of i j] key [of i] slotD(1) [of mm i j]
          by (cases "slot mm i j \<and> present (page_at mm i j)") auto
      qed
      then show ?thesis by (cases "cached mm f' t' j") auto
    qed
    moreover have "seen mm' s f' t' x = seen mm s f' t' x"
      unfolding vbyte_def vcontent_def ca fb mm'(2) ..
    ultimately show ?thesis
      using r ok' wi mm'(2) unfolding worker_inv_def by simp
  qed
  then show "worker_inv g mm' s" and "no_leak mm \<Longrightarrow> no_leak mm'"
    and "\<exists>a. r = Some a \<and> mm_find_page_table mm' f t = Some a"
    and "seen mm' s f' t' x = seen mm s f' t' x" by blast+
qed

end
