(* ===== verification/Worker_Properties.thy ===== *)
theory Worker_Properties
  imports Worker_Storage
begin

text \<open>
  The properties of the Worker's memory over the Storage process, and a concrete Worker with
  two frames on the concrete Storage on which each of them is applied.
\<close>

subsection \<open>A concrete Worker\<close>

definition demo_net :: "storage_state net" where
  "demo_net = (\<lparr>st_fs = demo_written, g_worker_counter = 1\<rparr>, [])"

definition demo_client :: t_client_data where
  "demo_client = \<lparr>client_socket = 5, client_id = Some 1\<rparr>"

definition demo_mm :: "pt_replacement_t \<Rightarrow> memory_manager_t" where
  "demo_mm pol =
     snd (mm_create_page_table
       (mm_set_storage_connection (the (mm_create (\<lambda>i. 0) 8 4 pol 0)) 3 1) ''a'' ''v1'')"

lemma demo_net_ok: "net_ok demo_env demo_net"
  using demo_bitarray demo_written_ok by (simp add: net_ok_def demo_net_def demo_env_def)

lemma demo_mm_ok: "worker_inv demo_env (demo_mm pol) demo_net" "no_leak (demo_mm pol)"
  "mm_find_page_table (demo_mm pol) ''a'' ''v1'' = Some 0"
proof -
  let ?mm = "the (mm_create (\<lambda>i. 0) 8 4 pol 0)"
  have bs: "block_size demo_env = 4" by (simp add: demo_env_def)
  have c: "mm_create (\<lambda>i. 0) 8 (block_size demo_env) pol 0 = Some ?mm" unfolding bs by (simp add: mm_create_def)
  let ?m1 = "mm_set_storage_connection ?mm 3 1"
  have i: "worker_inv demo_env ?m1 demo_net" "no_leak ?m1"
    using mm_create_inv [OF c demo_net_ok] by simp_all
  obtain r where cp: "mm_create_page_table ?m1 ''a'' ''v1'' = (r, demo_mm pol)"
    unfolding demo_mm_def by (metis prod.collapse)
  note C = create_page_table_inv [OF i(1) cp]
  show "worker_inv demo_env (demo_mm pol) demo_net" by (rule C(1))
  show "no_leak (demo_mm pol)" by (rule C(2) [OF i(2)])
  have "r = Some 0"
    using cp by (auto simp: mm_create_page_table_def mm_create_def mm_set_storage_connection_def mm_find_page_table_def
        mm_resize_entries_def pt_create_def)
  with C(3) show "mm_find_page_table (demo_mm pol) ''a'' ''v1'' = Some 0" by simp
qed

text \<open>Both pages of the file in memory, the second one accessed first.\<close>

definition demo_page :: "nat \<Rightarrow> nat \<Rightarrow> bool \<Rightarrow> pt_entry_t" where
  "demo_page n ts u = \<lparr>page_number = n, frame = n, dirty = False, present = True, last_access_time = ts, use_bit = u\<rparr>"

definition demo_loaded :: "pt_replacement_t \<Rightarrow> memory_manager_t" where
  "demo_loaded pol =
     \<lparr>mm_entries = [\<lparr>e_file = ''a'', e_tag = ''v1'',
        e_pt = \<lparr>entries = [demo_page 0 5 True, demo_page 1 3 False], page_count = 2, pt_page_size = 4\<rparr>\<rparr>],
      capacity = 4, mm_page_size = 4, policy = pol, physical_memory = [1, 2, 3, 4, 0, 0, 0, 0],
      memory_retardation = 0, storage_socket = 3, mm_worker_id = 1, mm_query_id = 7, master_socket = 4,
      frames = [True, True], frame_count = 2, clock_pointer = 0, last_victim_file = None,
      last_victim_tag = None, last_victim_page = 0, last_victim_valid = False, global_timestamp = 5\<rparr>"

lemma demo_slot: "slot (demo_loaded pol) i j \<longleftrightarrow> i = 0 \<and> (j = 0 \<or> j = 1)"
  by (auto simp: slot_def mm_pt_def demo_loaded_def less_Suc_eq numeral_2_eq_2)

lemma demo_page_at: "page_at (demo_loaded pol) 0 0 = demo_page 0 5 True" "page_at (demo_loaded pol) 0 1 = demo_page 1 3 False"
  "page_at (demo_loaded pol) 0 (Suc 0) = demo_page 1 3 False"
  by (simp_all add: page_at_def mm_pt_def demo_loaded_def)

lemma demo_key: "key_at (demo_loaded pol) 0 = (''a'', ''v1'')"
  by (simp add: key_at_def demo_loaded_def)

lemma demo_frames: "frame_bytes (demo_loaded pol) 0 = [1, 2, 3, 4]" "frame_bytes (demo_loaded pol) 1 = [0, 0, 0, 0]"
  by (simp_all add: frame_bytes_def demo_loaded_def region_def numeral_eq_Suc)

lemma demo_written_content: "content demo_written ''a'' ''v1'' 0 = Some [1, 2, 3, 4]" "content demo_written ''a'' ''v1'' 1 = Some [0, 0, 0, 0]"
proof -
  have m: "meta demo_written (''a'', ''v1'') = Some \<lparr>md_size = 8, md_blocks = [1, 0], md_state = IN_PROGRESS\<rparr>" by code_simp
  have l: "link demo_written (''a'', ''v1'') 0 = Some 1" "link demo_written (''a'', ''v1'') 1 = Some 0" by code_simp+
  have p: "physical_blocks demo_written ! 1 = [1, 2, 3, 4]" "physical_blocks demo_written ! 0 = [0, 0, 0, 0]" by code_simp+
  show "content demo_written ''a'' ''v1'' 0 = Some [1, 2, 3, 4]" by (rule contentI [OF m l(1) _ _ p(1)]) simp_all
  show "content demo_written ''a'' ''v1'' 1 = Some [0, 0, 0, 0]" by (rule contentI [OF m l(2) _ _ p(2)]) simp_all
qed

lemma demo_loaded_ok: "worker_inv demo_env (demo_loaded pol) demo_net"
proof -
  let ?mm = "demo_loaded pol"
  have f: "frame_count ?mm = 2" "frames ?mm = [True, True]" "mm_page_size ?mm = 4" "clock_pointer ?mm = 0"
    "length (mm_entries ?mm) = 1" "length (physical_memory ?mm) = 8" by (simp_all add: demo_loaded_def)
  have "mm_ok ?mm"
  proof (rule mm_okI)
    show "inj_on (key_at ?mm) {..<length (mm_entries ?mm)}" by (simp add: f inj_on_def)
    show "pt_ok (mm_pt ?mm i)" if "i < length (mm_entries ?mm)" for i
      using that by (auto simp: f pt_ok_def mm_pt_def demo_loaded_def demo_page_def less_Suc_eq numeral_2_eq_2)
    show "frame (page_at ?mm i j) < frame_count ?mm \<and> frames ?mm ! frame (page_at ?mm i j)"
      if "slot ?mm i j" "present (page_at ?mm i j)" for i j
      using that by (auto simp: demo_slot demo_page_at f demo_page_def)
    show "i = i' \<and> j = j'" if "slot ?mm i j" "slot ?mm i' j'" "frame (page_at ?mm i j) = frame (page_at ?mm i' j')" for i j i' j'
      using that by (auto simp: demo_slot demo_page_at demo_page_def)
  qed (simp_all add: f)
  moreover have "coherent net_content ?mm demo_net"
    unfolding coherent_def
    using demo_written_content demo_frames [of pol]
    by (auto simp: demo_slot demo_page_at demo_key demo_page_def net_content_def demo_net_def)
  ultimately show ?thesis using demo_net_ok f by (simp add: worker_inv_def demo_env_def)
qed

subsection \<open>Properties\<close>

text \<open>
  C3: A read through the Worker's memory returns what the query should see, and changes
  nothing. From a sound state, as long as LRU is the policy or every used frame holds a
  page, the call returns; page faults, evictions with their writes to Storage and table
  growth leave every byte of every File:Tag as it was; on success the bytes returned are
  the bytes at the addresses read. The same conditions hold afterwards.
\<close>

theorem memory_read_correct:
  assumes "worker_inv g mm s" and "mm_find_page_table mm f t = Some a"
    and "policy mm = LRU \<or> no_leak mm"
  shows "\<exists>r out mm' s'. mm_read_from_memory (storage_io g cd q) mm s a f t base len = Some (r, out, mm', s') \<and>
    worker_inv g mm' s' \<and> (policy mm' = LRU \<or> no_leak mm') \<and>
    (\<forall>f' t' x. seen mm' s' f' t' x = seen mm s f' t' x) \<and>
    (r = 0 \<longrightarrow> length out = len \<and> (\<forall>k < len. seen mm s f t (base + k) = Some (out ! k)))"
proof -
  have i: "block_store.inv net_content (net_ok g) (block_size g) mm s" using assms(1) by (simp add: disk_inv)
  have cs: "can_search mm" using assms(3) by (simp add: can_search_def)
  obtain r out mm' s' where R: "mm_read_from_memory (storage_io g cd q) mm s a f t base len = Some (r, out, mm', s')"
    "can_search mm'" using disk.mm_access_returns(1) [OF i assms(2) cs] by blast
  note C = disk.mm_read_ok [OF i assms(2) R(1)]
  note S = silent_seen [OF C [THEN conjunct1]]
  have cs': "policy mm' = LRU \<or> no_leak mm'" using R(2) by (simp add: can_search_def)
  have "\<forall>f' t' x. seen mm' s' f' t' x = seen mm s f' t' x" by (intro allI S(2))
  then show ?thesis
    by (intro exI [of _ r] exI [of _ out] exI [of _ mm'] exI [of _ s'] conjI R(1) S(1) cs' C [THEN conjunct2])
qed

theorem memory_read_correct_witness:
  "\<exists>r out mm' s'. mm_read_from_memory (storage_io demo_env demo_client 7) (demo_mm LRU) demo_net 0 ''a'' ''v1'' 2 4
      = Some (r, out, mm', s') \<and> worker_inv demo_env mm' s' \<and>
    (r = 0 \<longrightarrow> seen (demo_mm LRU) demo_net ''a'' ''v1'' 2 = Some (out ! 0))"
proof -
  have p: "policy (demo_mm LRU) = LRU \<or> no_leak (demo_mm LRU)" using demo_mm_ok(2) by simp
  from memory_read_correct [OF demo_mm_ok(1,3) p, of demo_client 7 2 4]
  obtain r out mm' s' where R: "mm_read_from_memory (storage_io demo_env demo_client 7) (demo_mm LRU) demo_net 0
      ''a'' ''v1'' 2 4 = Some (r, out, mm', s')" "worker_inv demo_env mm' s'"
    "r = 0 \<longrightarrow> length out = 4 \<and> (\<forall>k < 4. seen (demo_mm LRU) demo_net ''a'' ''v1'' (2 + k) = Some (out ! k))"
    by (elim exE conjE)
  have "seen (demo_mm LRU) demo_net ''a'' ''v1'' 2 = Some (out ! 0)" if "r = 0"
    using R(3) [rule_format, OF that, THEN conjunct2, rule_format, of 0] by simp
  with R(1,2) show ?thesis by (intro exI conjI impI)
qed

text \<open>
  C4: A write through the Worker's memory changes exactly the bytes it names. From a sound
  state, as long as LRU is the policy or every used frame holds a page, the call returns;
  every byte of every File:Tag is the old one, or lies in the range of the write and has its
  new value; on success the whole range has its new value. The same conditions hold
  afterwards.
\<close>

theorem memory_write_correct:
  assumes "worker_inv g mm s" and "mm_find_page_table mm f t = Some a"
    and "policy mm = LRU \<or> no_leak mm"
  shows "\<exists>r mm' s'. mm_write_to_memory (storage_io g cd q) mm s a f t base data = Some (r, mm', s') \<and>
    worker_inv g mm' s' \<and> (policy mm' = LRU \<or> no_leak mm') \<and>
    (\<forall>f' t' x. seen mm' s' f' t' x = seen mm s f' t' x \<or>
       (f', t') = (f, t) \<and> base \<le> x \<and> x < base + length data \<and>
       seen mm' s' f' t' x = Some (data ! (x - base))) \<and>
    (r = 0 \<longrightarrow> (\<forall>x. base \<le> x \<and> x < base + length data \<longrightarrow> seen mm' s' f t x = Some (data ! (x - base))))"
proof -
  have i: "block_store.inv net_content (net_ok g) (block_size g) mm s" using assms(1) by (simp add: disk_inv)
  have cs: "can_search mm" using assms(3) by (simp add: can_search_def)
  obtain r mm' s' where R: "mm_write_to_memory (storage_io g cd q) mm s a f t base data = Some (r, mm', s')"
    "can_search mm'" using disk.mm_access_returns(2) [OF i assms(2) cs] by blast
  have cs': "policy mm' = LRU \<or> no_leak mm'" using R(2) by (simp add: can_search_def)
  note W = disk.mm_write_ok [OF i assms(2) R(1), unfolded disk.wrote_def disk_inv]
  show ?thesis
    by (intro exI [of _ r] exI [of _ mm'] exI [of _ s'] conjI R(1) cs' W [THEN conjunct1]
        W [THEN conjunct2, THEN conjunct2, THEN conjunct1] W [THEN conjunct2, THEN conjunct2, THEN conjunct2])
qed

theorem memory_write_correct_witness:
  "\<exists>r mm' s'. mm_write_to_memory (storage_io demo_env demo_client 7) (demo_mm CLOCK_M) demo_net 0 ''a'' ''v1'' 2 [8, 9]
      = Some (r, mm', s') \<and> worker_inv demo_env mm' s' \<and>
    seen mm' s' ''a'' ''v1'' 5 = seen (demo_mm CLOCK_M) demo_net ''a'' ''v1'' 5"
proof -
  have p: "policy (demo_mm CLOCK_M) = LRU \<or> no_leak (demo_mm CLOCK_M)" using demo_mm_ok(2) by simp
  from memory_write_correct [OF demo_mm_ok(1,3) p, of demo_client 7 2 "[8, 9]"]
  obtain r mm' s' where R: "mm_write_to_memory (storage_io demo_env demo_client 7) (demo_mm CLOCK_M) demo_net 0
      ''a'' ''v1'' 2 [8, 9] = Some (r, mm', s')" "worker_inv demo_env mm' s'"
    "\<forall>f' t' x. seen mm' s' f' t' x = seen (demo_mm CLOCK_M) demo_net f' t' x \<or>
       (f', t') = (''a'', ''v1'') \<and> 2 \<le> x \<and> x < 2 + length [8 :: u8, 9] \<and>
       seen mm' s' f' t' x = Some ([8, 9] ! (x - 2))"
    by (elim exE conjE)
  have "seen mm' s' ''a'' ''v1'' 5 = seen (demo_mm CLOCK_M) demo_net ''a'' ''v1'' 5"
    using R(3) [rule_format, of "''a''" "''v1''" 5] by simp
  with R(1,2) show ?thesis by (intro exI conjI)
qed

text \<open>
  C12: Flushing makes Storage hold what the query sees. A flush of one File:Tag, or of all of
  them, keeps the invariant and every byte a query sees, and when it reports success the
  blocks in Storage are the virtual contents, for the File:Tag flushed or for every one.
\<close>

theorem flush_makes_durable:
  assumes "worker_inv g mm s"
  shows "(\<forall>r mm' s'. mm_flush_all_dirty (storage_io g cd q) mm s = (r, mm', s') \<longrightarrow>
      worker_inv g mm' s' \<and> (\<forall>f t x. seen mm' s' f t x = seen mm s f t x) \<and>
      (r = 0 \<longrightarrow> (\<forall>f t b. content (st_fs (fst s')) f t b = vcontent net_content mm s f t b))) \<and>
    (\<forall>f t a r mm' s'. mm_find_page_table mm f t = Some a \<longrightarrow>
      mm_flush_query (storage_io g cd q) mm s f t = (r, mm', s') \<longrightarrow>
      worker_inv g mm' s' \<and> (\<forall>f t x. seen mm' s' f t x = seen mm s f t x) \<and>
      (r = 0 \<longrightarrow> (\<forall>b. content (st_fs (fst s')) f t b = vcontent net_content mm s f t b)))"
proof -
  have i: "block_store.inv net_content (net_ok g) (block_size g) mm s" using assms by (simp add: disk_inv)
  have A: "worker_inv g mm' s' \<and> (\<forall>f t x. seen mm' s' f t x = seen mm s f t x) \<and>
      (r = 0 \<longrightarrow> (\<forall>f t b. content (st_fs (fst s')) f t b = vcontent net_content mm s f t b))"
    if "mm_flush_all_dirty (storage_io g cd q) mm s = (r, mm', s')" for r mm' s'
  proof -
    note F = disk.flush_all_ok [OF i that]
    note S = silent_seen [OF F [THEN conjunct1]]
    from F S show ?thesis by (simp add: net_content_def)
  qed
  have Q: "worker_inv g mm' s' \<and> (\<forall>f t x. seen mm' s' f t x = seen mm s f t x) \<and>
      (r = 0 \<longrightarrow> (\<forall>b. content (st_fs (fst s')) f t b = vcontent net_content mm s f t b))"
    if "mm_find_page_table mm f t = Some a" "mm_flush_query (storage_io g cd q) mm s f t = (r, mm', s')" for f t a r mm' s'
  proof -
    note F = disk.flush_query_ok [OF i that]
    note S = silent_seen [OF F [THEN conjunct1]]
    from F S show ?thesis by (simp add: net_content_def)
  qed
  from A Q show ?thesis by blast
qed

theorem flush_makes_durable_witness:
  "\<exists>mm1 s1 r mm' s'. mm_write_to_memory (storage_io demo_env demo_client 7) (demo_mm LRU) demo_net 0 ''a'' ''v1'' 2 [8, 9]
      = Some mm1 \<and> s1 = snd (snd mm1) \<and>
    mm_flush_all_dirty (storage_io demo_env demo_client 7) (fst (snd mm1)) s1 = (r, mm', s') \<and>
    worker_inv demo_env mm' s' \<and>
    (r = 0 \<longrightarrow> content (st_fs (fst s')) ''a'' ''v1'' 0 = vcontent net_content (fst (snd mm1)) s1 ''a'' ''v1'' 0)"
proof -
  have p: "can_search (demo_mm LRU)" using demo_mm_ok(2) by (simp add: can_search_def)
  have i: "block_store.inv net_content (net_ok demo_env) (block_size demo_env) (demo_mm LRU) demo_net"
    using demo_mm_ok(1) by (simp add: disk_inv)
  obtain r0 mm1 s1 where W: "mm_write_to_memory (storage_io demo_env demo_client 7) (demo_mm LRU) demo_net 0
      ''a'' ''v1'' 2 [8, 9] = Some (r0, mm1, s1)"
    using disk.mm_access_returns(2) [OF i demo_mm_ok(3) p] by blast
  have w: "worker_inv demo_env mm1 s1"
    using disk.mm_write_ok [OF i demo_mm_ok(3) W] by (simp add: disk.wrote_def disk_inv)
  obtain r mm' s' where F: "mm_flush_all_dirty (storage_io demo_env demo_client 7) mm1 s1 = (r, mm', s')"
    by (metis surj_pair)
  note D = flush_makes_durable [OF w, THEN conjunct1, rule_format, OF F]
  from W F D show ?thesis by (intro exI [of _ "(r0, mm1, s1)"] exI [of _ s1] exI [of _ r] exI [of _ mm'] exI [of _ s']) simp
qed

text \<open>
  C33: LRU replaces the least recently used page. When the search succeeds, the frame is that
  of a present page whose last access is the oldest of all present pages; the page is
  unmapped and its frame freed, nothing a query sees changes, and if the page was dirty its
  contents are in Storage. The search fails only when no page is present (timestamps below
  \<^verbatim>\<open>UINT64_MAX\<close>) or the write of a dirty victim fails.
\<close>

theorem lru_replaces_oldest:
  assumes wi: "worker_inv g mm s" and v: "mm_find_lru_victim (storage_io g cd q) mm s = (r, mm', s')"
  shows "worker_inv g mm' s' \<and> (\<forall>f t x. seen mm' s' f t x = seen mm s f t x) \<and>
    (r \<noteq> -1 \<longrightarrow> (\<exists>i j. oldest_page mm i j \<and> r = int (frame (page_at mm i j)) \<and>
       mm' = evict mm i j (frame (page_at mm i j)) \<and>
       (dirty (page_at mm i j) \<longrightarrow> content (st_fs (fst s')) (fst (key_at mm i)) (snd (key_at mm i)) j =
          Some (frame_bytes mm (frame (page_at mm i j)))) \<and>
       (\<not> dirty (page_at mm i j) \<longrightarrow> s' = s))) \<and>
    (r = -1 \<longrightarrow> mm' = mm \<and>
       ((\<forall>i j. slot mm i j \<longrightarrow> present (page_at mm i j) \<longrightarrow> 2 ^ 64 - 1 \<le> last_access_time (page_at mm i j)) \<or>
        (\<exists>i j. oldest_page mm i j \<and> dirty (page_at mm i j))))"
proof -
  have i: "block_store.inv net_content (net_ok g) (block_size g) mm s" using wi by (simp add: disk_inv)
  note V = disk.lru_victim_ok [OF i v, unfolded disk.victim_ok_def]
  note S = silent_seen [OF V [THEN conjunct1]]
  have same: "worker_inv g mm' s' \<and> (\<forall>f t x. seen mm' s' f t x = seen mm s f t x)" using S by blast
  show ?thesis
  proof (cases "snd (lru_scan mm)")
    case None
    then have "r = -1" "mm' = mm" using v by (auto simp: mm_find_lru_victim_def split: if_splits)
    moreover have "2 ^ 64 - 1 \<le> last_access_time (page_at mm i j)" if "slot mm i j" "present (page_at mm i j)" for i j
      using lru_scan_None [OF None] that by (auto simp: not_less)
    ultimately show ?thesis using same by blast
  next
    case (Some p)
    obtain a j where p: "p = (a, j)" by (cases p)
    have old: "oldest_page mm a j" using lru_scan_Some Some p by simp
    then have ij: "slot mm a j" and pr: "present (page_at mm a j)" by (auto simp: oldest_page_def)
    let ?fr = "frame (page_at mm a j)"
    have ne: "mm_entries mm \<noteq> []" using slotD(1) [OF ij] by auto
    have ok: "mm_ok mm" using wi by (simp add: worker_inv_def)
    have addr: "mm_get_frame_address mm ?fr = Some (?fr * mm_page_size mm)"
      using mm_okD(7) [OF ok ij pr] by (simp add: mm_get_frame_address_def)
    show ?thesis
    proof (cases "dirty (page_at mm a j)")
      case False
      then have "r = int ?fr" "mm' = evict mm a j ?fr" "s' = s"
        using v Some p ne by (auto simp: mm_find_lru_victim_def Let_def)
      with old same False show ?thesis by auto
    next
      case True
      obtain wr s1 where w: "io_write (storage_io g cd q) s (e_file (mm_entries mm ! a)) (e_tag (mm_entries mm ! a)) j
          (frame_bytes mm ?fr) = (wr, s1)" by (metis surj_pair)
      have res: "(r, mm', s') = (if wr \<noteq> 0 then (-1, mm, s1) else (int ?fr, evict mm a j ?fr, s1))"
        using v Some p ne True addr w by (auto simp: mm_find_lru_victim_def Let_def frame_bytes_def)
      note W = disk.write_frame(3) [OF i ij pr refl w]
      show ?thesis
      proof (cases "wr = 0")
        case True
        with res have e: "r = int ?fr" "mm' = evict mm a j ?fr" "s' = s1" by auto
        have "content (st_fs (fst s')) (fst (key_at mm a)) (snd (key_at mm a)) j = Some (frame_bytes mm ?fr)"
          using W [OF True, of "fst (key_at mm a)" "snd (key_at mm a)" j] e(3) by (simp add: net_content_def)
        with e old same \<open>dirty (page_at mm a j)\<close> show ?thesis by auto
      next
        case False
        with res same old True show ?thesis by auto
      qed
    qed
  qed
qed

theorem lru_replaces_oldest_witness:
  "\<exists>mm' s'. mm_find_lru_victim (storage_io demo_env demo_client 7) (demo_loaded LRU) demo_net = (1, mm', s') \<and>
     worker_inv demo_env mm' s' \<and> oldest_page (demo_loaded LRU) 0 1 \<and>
     (\<exists>i j. oldest_page (demo_loaded LRU) i j \<and> 1 = int (frame (page_at (demo_loaded LRU) i j)))"
proof -
  have ps: "page_slots (demo_loaded LRU) = [(0, 0), (0, 1)]"
    by (simp add: page_slots_def mm_pt_def demo_loaded_def upt_rec)
  have "snd (lru_scan (demo_loaded LRU)) = Some (0, 1)"
    by (simp add: lru_scan_def ps demo_page_at demo_page_def)
  then have old: "oldest_page (demo_loaded LRU) 0 1" by (rule lru_scan_Some)
  obtain mm' s' where v: "mm_find_lru_victim (storage_io demo_env demo_client 7) (demo_loaded LRU) demo_net = (1, mm', s')"
    using \<open>snd (lru_scan (demo_loaded LRU)) = Some (0, 1)\<close> demo_page_at [of LRU]
    by (simp add: mm_find_lru_victim_def demo_page_def) (simp add: demo_loaded_def)
  note L = lru_replaces_oldest [OF demo_loaded_ok v]
  have one: "(1 :: int) \<noteq> -1" by simp
  from L [THEN conjunct2, THEN conjunct2, THEN conjunct1, rule_format, OF one] L [THEN conjunct1] v old
  show ?thesis by blast
qed

text \<open>
  C34: CLOCK-M prefers a page that is neither used nor modified. If one is in memory, the search
  returns without writing to Storage; its victim is the first such page in the order of the
  clock hand, which moves on behind it.
\<close>

theorem clockm_prefers_clean:
  assumes ok: "mm_ok mm" and pol: "policy mm = CLOCK_M" and ij: "slot mm i j" and pr: "present (page_at mm i j)"
    and cu: "\<not> use_bit (page_at mm i j)" "\<not> dirty (page_at mm i j)"
  shows "\<exists>t i' j' mm'. t < frame_count mm \<and> hand mm t = frame (page_at mm i' j') \<and>
    slot mm i' j' \<and> present (page_at mm i' j') \<and> \<not> use_bit (page_at mm i' j') \<and> \<not> dirty (page_at mm i' j') \<and>
    (\<forall>t' < t. \<forall>k l. slot mm k l \<and> present (page_at mm k l) \<and> frame (page_at mm k l) = hand mm t' \<longrightarrow>
       use_bit (page_at mm k l) \<or> dirty (page_at mm k l)) \<and>
    mm_find_clockm_victim io mm s = Some (int (hand mm t), mm', s) \<and>
    (\<exists>c. mm' = (evict mm i' j' (hand mm t))\<lparr>clock_pointer := c\<rparr>)"
proof -
  have fc: "0 < frame_count mm" using mm_okD(7) [OF ok ij pr] by simp
  note c = mm_okD(4) [OF ok fc]
  have "clean_unused mm i j" using cu by (simp add: clean_unused_def)
  then obtain idx mm' where p1: "clockm_pass1 (frame_count mm) mm = (Some idx, mm')"
    using pass1_finds [OF ok c ij pr] by blast
  obtain t c' i' j' where T: "t < frame_count mm" "idx = hand mm t" "mm_find_page_for_frame mm idx = Some (i', j')"
    "clean_unused mm i' j'" "mm' = (evict mm i' j' idx)\<lparr>clock_pointer := c'\<rparr>"
    "\<forall>t' < t. frames mm ! hand mm t' \<longrightarrow> (\<forall>i j. mm_find_page_for_frame mm (hand mm t') = Some (i, j) \<longrightarrow>
       \<not> clean_unused mm i j)"
    using clockm_pass1_Some [OF p1 c] by blast
  note f = find_page_for_frame_Some [OF T(3)]
  have v: "mm_find_clockm_victim io mm s = Some (int (hand mm t), mm', s)"
    using clockm_loop_first [OF p1, of io s] pol fc T(2) by (simp add: mm_find_clockm_victim_def)
  have skip: "use_bit (page_at mm k l) \<or> dirty (page_at mm k l)"
    if e: "t' < t" "slot mm k l" "present (page_at mm k l)" "frame (page_at mm k l) = hand mm t'" for t' k l
  proof -
    obtain k' l' where m: "mm_find_page_for_frame mm (hand mm t') = Some (k', l')"
      using find_page_for_frame_None [OF _ e(2,3), of "hand mm t'"] e(4)
      by (cases "mm_find_page_for_frame mm (hand mm t')") auto
    note g = find_page_for_frame_Some [OF m]
    have "k' = k \<and> l' = l" using mm_okD(9) [OF ok g(1) e(2) g(2) e(3)] g(3) e(4) by simp
    moreover have "frames mm ! hand mm t'" using mm_okD(8) [OF ok e(2,3)] e(4) by simp
    ultimately show ?thesis using T(6) e(1) m by (auto simp: clean_unused_def)
  qed
  show ?thesis
    by (rule exI [of _ t], rule exI [of _ i'], rule exI [of _ j'], rule exI [of _ mm'], intro conjI)
      (use T f v skip in \<open>auto simp: clean_unused_def\<close>)
qed

theorem clockm_prefers_clean_witness:
  "\<exists>mm'. mm_find_clockm_victim (storage_io demo_env demo_client 7) (demo_loaded CLOCK_M) demo_net = Some (1, mm', demo_net)"
proof -
  let ?mm = "demo_loaded CLOCK_M"
  have ok: "mm_ok ?mm" using demo_loaded_ok by (simp add: worker_inv_def)
  have pol: "policy ?mm = CLOCK_M" by (simp add: demo_loaded_def)
  have s: "slot ?mm 0 1" by (simp add: demo_slot)
  have p: "present (page_at ?mm 0 1)" "\<not> use_bit (page_at ?mm 0 1)" "\<not> dirty (page_at ?mm 0 1)"
    unfolding demo_page_at by (simp_all add: demo_page_def)
  obtain t i' j' mm' where v: "hand ?mm t = frame (page_at ?mm i' j')" "slot ?mm i' j'" "\<not> use_bit (page_at ?mm i' j')"
    "mm_find_clockm_victim (storage_io demo_env demo_client 7) ?mm demo_net = Some (int (hand ?mm t), mm', demo_net)"
    using clockm_prefers_clean [OF ok pol s p, of "storage_io demo_env demo_client 7" demo_net] by blast
  have "hand ?mm t = 1" using v(1-3) by (auto simp: demo_slot demo_page_at demo_page_def)
  with v(4) show ?thesis by auto
qed

text \<open>
  C36: CLOCK-M can hang. When every frame is marked used and no page of any table is present,
  the loop over the two passes runs for ever. Deleting a File:Tag makes such a state:
  removing a page table leaves the frames of its pages marked used.
\<close>

theorem clockm_hangs_without_pages:
  assumes "policy mm = CLOCK_M" and "0 < frame_count mm" and "\<forall>fr < frame_count mm. frames mm ! fr"
    and "\<forall>i j. slot mm i j \<longrightarrow> \<not> present (page_at mm i j)"
  shows "mm_allocate_frame io mm s = None"
proof -
  have "mm_find_page_for_frame mm fr = None" for fr
    using assms(4) find_page_for_frame_Some [of mm fr] by (cases "mm_find_page_for_frame mm fr") auto
  then have "clockm_loop io mm s = None" by (rule clockm_diverges)
  moreover have "find (\<lambda>i. \<not> frames mm ! i) [0..<frame_count mm] = None"
    using assms(3) by (auto simp: find_None_iff)
  ultimately show ?thesis using assms(1,2) by (simp add: mm_allocate_frame_def mm_find_clockm_victim_def)
qed

theorem clockm_hangs_without_pages_witness:
  "mm_allocate_frame (storage_io demo_env demo_client 7) (mm_remove_page_table (demo_loaded CLOCK_M) ''a'' ''v1'')
     demo_net = None"
proof (rule clockm_hangs_without_pages)
  let ?mm = "mm_remove_page_table (demo_loaded CLOCK_M) ''a'' ''v1''"
  have e: "mm_entries ?mm = []" by (simp add: mm_remove_page_table_def mm_find_page_table_def demo_loaded_def upt_rec)
  show "\<forall>i j. slot ?mm i j \<longrightarrow> \<not> present (page_at ?mm i j)" by (simp add: slot_def e)
  show "policy ?mm = CLOCK_M" "0 < frame_count ?mm" "\<forall>fr < frame_count ?mm. frames ?mm ! fr"
    by (auto simp: mm_remove_page_table_def mm_find_page_table_def demo_loaded_def upt_rec less_Suc_eq numeral_2_eq_2)
qed

end
