(* ===== verification/Query_Interpreter.thy ===== *)
theory Query_Interpreter
  imports Storage_Client
begin

text \<open>
  The instructions of a query: \<^verbatim>\<open>worker/src/query_interpreter/query_interpreter.c\<close> and the
  calls of \<^verbatim>\<open>worker/src/connections/master.c\<close> that executing them makes.

  A script is a text; \<open>fetch_instruction\<close> finds a line of it, \<open>decode_instruction\<close> turns
  the line into an \<^verbatim>\<open>instruction_t\<close> and \<open>execute_instruction\<close> runs it over the memory
  manager, the connection to Storage (an exchange, as for the client functions) and the
  packages sent to the Master. The members of the C union are the constructors of
  \<open>instruction_params\<close>: reading a member that was not the one written is undefined, the
  value \<open>None\<close>, which also stands for a call of the memory manager that does not return.

  \<^verbatim>\<open>string_split\<close> and \<^verbatim>\<open>string_equals_ignore_case\<close> belong to the commons library and are an
  argument of the model.
\<close>

record commons =
  string_split :: "string \<Rightarrow> string \<Rightarrow> string list"
  string_equals_ignore_case :: "string \<Rightarrow> string \<Rightarrow> bool"

subsection \<open>Instructions\<close>

datatype operation_t = CREATE | TRUNCATE | WRITE | READ | TAG | COMMIT | FLUSH | DELETE | END | UNKNOWN

record file_tag_t =
  ft_file :: string
  ft_tag :: string

record truncate_params_t =
  tr_file :: string
  tr_tag :: string
  tr_size :: u64

record write_params_t =
  wr_file :: string
  wr_tag :: string
  wr_base :: u32
  wr_data :: string

record read_params_t =
  rd_file :: string
  rd_tag :: string
  rd_base :: u32
  rd_size :: u64

record tag_params_t =
  file_src :: string
  tag_src :: string
  file_dst :: string
  tag_dst :: string

datatype instruction_params =
  P_unset
| P_file_tag file_tag_t
| P_truncate truncate_params_t
| P_write write_params_t
| P_read read_params_t
| P_tag tag_params_t

record instruction_t =
  operation :: operation_t
  params :: instruction_params

subsection \<open>Fetching a line\<close>

abbreviation newline :: char where "newline \<equiv> CHR 0x0A"

text \<open>\<^verbatim>\<open>fgets(line, n, file)\<close>: what is read and what is left of the file.\<close>

definition fgets :: "nat \<Rightarrow> string \<Rightarrow> (string \<times> string) option" where
  "fgets n s =
     (if s = [] then None
      else
        let to_newline = takeWhile (\<lambda>c. c \<noteq> newline) s @ take 1 (dropWhile (\<lambda>c. c \<noteq> newline) s);
            line = take (n - 1) to_newline
        in Some (line, drop (length line) s))"

lemma fgets_shorter: "fgets n s = Some (line, rest) \<Longrightarrow> 1 < n \<Longrightarrow> length rest < length s"
  by (cases s) (auto simp: fgets_def Let_def)

text \<open>The loop over the lines; the chosen one loses its newline and ends at its terminator.\<close>

function fetch_loop :: "string \<Rightarrow> u32 \<Rightarrow> u32 \<Rightarrow> string option" where
  "fetch_loop file current_line program_counter =
     (case fgets 256 file of
        None \<Rightarrow> None
      | Some (line, rest) \<Rightarrow>
          if current_line = program_counter
          then Some (takeWhile (\<lambda>c. c \<noteq> newline \<and> c \<noteq> CHR 0x00) line)
          else fetch_loop rest (current_line + 1) program_counter)"
  by pat_completeness auto
termination
  by (relation "measure (\<lambda>(file, c, p). length file)") (auto dest: fgets_shorter)

declare fetch_loop.simps [simp del]

text \<open>\<open>files\<close> gives the text of a script by its path, \<open>None\<close> where \<^verbatim>\<open>fopen\<close> fails.\<close>

definition fetch_instruction :: "(string \<Rightarrow> string option) \<Rightarrow> string \<Rightarrow> u32 \<Rightarrow> string option" where
  "fetch_instruction files instructions_path program_counter =
     (case files instructions_path of
        None \<Rightarrow> None
      | Some file \<Rightarrow> fetch_loop file 0 program_counter)"

subsection \<open>Decoding\<close>

text \<open>\<^verbatim>\<open>atoi\<close> as the C library has it: \<^verbatim>\<open>strtol\<close>, which saturates, cut to an \<^verbatim>\<open>int\<close>.\<close>

definition is_space :: "char \<Rightarrow> bool" where
  "is_space c \<longleftrightarrow> (of_char c :: nat) = 32 \<or> 9 \<le> (of_char c :: nat) \<and> (of_char c :: nat) \<le> 13"

definition strtol :: "string \<Rightarrow> int" where
  "strtol s =
     (let s1 = dropWhile is_space s;
          neg = (take 1 s1 = ''-'');
          s2 = (if neg \<or> take 1 s1 = ''+'' then drop 1 s1 else s1);
          v = int (digits_value (takeWhile is_digit s2))
      in if neg then max (- (2 ^ 63)) (- v) else min (2 ^ 63 - 1) v)"

definition atoi :: "string \<Rightarrow> int" where
  "atoi s = sint (word_of_int (strtol s) :: u32)"

text \<open>\<^verbatim>\<open>toupper\<close> on the letters of ASCII.\<close>

definition to_upper :: "char \<Rightarrow> char" where
  "to_upper c = (if 97 \<le> (of_char c :: nat) \<and> (of_char c :: nat) \<le> 122 then char_of ((of_char c :: nat) - 32) else c)"

definition get_operation_type :: "commons \<Rightarrow> string \<Rightarrow> operation_t" where
  "get_operation_type lib operation_str =
     (if string_equals_ignore_case lib operation_str ''CREATE'' then CREATE
      else if string_equals_ignore_case lib operation_str ''TRUNCATE'' then TRUNCATE
      else if string_equals_ignore_case lib operation_str ''WRITE'' then WRITE
      else if string_equals_ignore_case lib operation_str ''READ'' then READ
      else if string_equals_ignore_case lib operation_str ''TAG'' then TAG
      else if string_equals_ignore_case lib operation_str ''COMMIT'' then COMMIT
      else if string_equals_ignore_case lib operation_str ''FLUSH'' then FLUSH
      else if string_equals_ignore_case lib operation_str ''DELETE'' then DELETE
      else if string_equals_ignore_case lib operation_str ''END'' then END
      else UNKNOWN)"

text \<open>The split and the tests of its first two pieces, which every use makes.\<close>

definition get_file_tag :: "commons \<Rightarrow> string \<Rightarrow> (string \<times> string) option" where
  "get_file_tag lib file_tag_str =
     (case string_split lib file_tag_str '':'' of
        f # t # _ \<Rightarrow> Some (f, t)
      | _ \<Rightarrow> None)"

text \<open>The shared branch of the operations on one File:Tag.\<close>

definition decode_file_tag :: "commons \<Rightarrow> operation_t \<Rightarrow> string list \<Rightarrow> instruction_t option" where
  "decode_file_tag lib op args =
     (case args of
        [] \<Rightarrow> None
      | a1 # _ \<Rightarrow>
          map_option (\<lambda>(f, t). \<lparr>operation = op, params = P_file_tag \<lparr>ft_file = f, ft_tag = t\<rparr>\<rparr>)
            (get_file_tag lib a1))"

definition decode_instruction :: "commons \<Rightarrow> string \<Rightarrow> instruction_t option" where
  "decode_instruction lib raw_instruction =
     (case string_split lib raw_instruction '' '' of
        [] \<Rightarrow> None
      | w # args \<Rightarrow>
          (case get_operation_type lib w of
             CREATE \<Rightarrow> decode_file_tag lib CREATE args
           | COMMIT \<Rightarrow> decode_file_tag lib COMMIT args
           | FLUSH \<Rightarrow> decode_file_tag lib FLUSH args
           | DELETE \<Rightarrow> decode_file_tag lib DELETE args
           | TRUNCATE \<Rightarrow>
               (case args of
                  a1 # a2 # _ \<Rightarrow>
                    map_option (\<lambda>(f, t). \<lparr>operation = TRUNCATE,
                      params = P_truncate \<lparr>tr_file = f, tr_tag = t, tr_size = word_of_int (atoi a2)\<rparr>\<rparr>)
                      (get_file_tag lib a1)
                | _ \<Rightarrow> None)
           | WRITE \<Rightarrow>
               (case args of
                  a1 # a2 # a3 # _ \<Rightarrow>
                    map_option (\<lambda>(f, t). \<lparr>operation = WRITE,
                      params = P_write \<lparr>wr_file = f, wr_tag = t, wr_base = word_of_int (atoi a2), wr_data = a3\<rparr>\<rparr>)
                      (get_file_tag lib a1)
                | _ \<Rightarrow> None)
           | READ \<Rightarrow>
               (case args of
                  a1 # a2 # a3 # _ \<Rightarrow>
                    map_option (\<lambda>(f, t). \<lparr>operation = READ,
                      params = P_read \<lparr>rd_file = f, rd_tag = t, rd_base = word_of_int (atoi a2),
                                       rd_size = word_of_int (atoi a3)\<rparr>\<rparr>)
                      (get_file_tag lib a1)
                | _ \<Rightarrow> None)
           | TAG \<Rightarrow>
               (case args of
                  a1 # a2 # _ \<Rightarrow>
                    (case (get_file_tag lib a1, get_file_tag lib a2) of
                       (Some (f1, t1), Some (f2, t2)) \<Rightarrow>
                         Some \<lparr>operation = TAG,
                           params = P_tag \<lparr>file_src = f1, tag_src = t1, file_dst = f2, tag_dst = t2\<rparr>\<rparr>
                     | _ \<Rightarrow> None)
                | _ \<Rightarrow> None)
           | END \<Rightarrow> Some \<lparr>operation = END, params = P_unset\<rparr>
           | UNKNOWN \<Rightarrow> None))"

text \<open>
  \<^verbatim>\<open>free_instruction\<close>: the strings it frees, in order; \<open>None\<close> where it reads a member of the
  union that does not hold them.
\<close>

definition free_instruction :: "instruction_t \<Rightarrow> string list option" where
  "free_instruction instruction =
     (case (operation instruction, params instruction) of
        (CREATE, P_file_tag p) \<Rightarrow> Some [ft_file p, ft_tag p]
      | (COMMIT, P_file_tag p) \<Rightarrow> Some [ft_file p, ft_tag p]
      | (FLUSH, P_file_tag p) \<Rightarrow> Some [ft_file p, ft_tag p]
      | (DELETE, P_file_tag p) \<Rightarrow> Some [ft_file p, ft_tag p]
      | (TRUNCATE, P_truncate p) \<Rightarrow> Some [tr_file p, tr_tag p]
      | (WRITE, P_write p) \<Rightarrow> Some [wr_file p, wr_tag p, wr_data p]
      | (READ, P_read p) \<Rightarrow> Some [rd_file p, rd_tag p]
      | (TAG, P_tag p) \<Rightarrow> Some [file_src p, tag_src p, file_dst p, tag_dst p]
      | (END, _) \<Rightarrow> Some []
      | (UNKNOWN, _) \<Rightarrow> Some []
      | _ \<Rightarrow> None)"

subsection \<open>Messages for the Master\<close>

text \<open>
  The connections of a Worker: the exchange with Storage, the descriptor of the socket to the
  Master and whether sending a package there succeeds.
\<close>

record 's conn =
  storage_ex :: "'s exchange"
  socket_master :: int
  master_accepts :: "t_package \<Rightarrow> bool"

text \<open>\<^verbatim>\<open>package_send\<close> on the socket to the Master: the packages that left so far.\<close>

definition send_to_master :: "'s conn \<Rightarrow> t_package \<Rightarrow> t_package list \<Rightarrow> int \<times> t_package list" where
  "send_to_master c p out = (if master_accepts c p then (0, out @ [p]) else (-1, out))"

text \<open>The request function of \<^verbatim>\<open>master.c\<close>; the call of it there is commented out.\<close>

definition master_request_and_wait_ack ::
  "'m exchange \<Rightarrow> t_package \<Rightarrow> u8 \<Rightarrow> 'm \<Rightarrow> int \<times> 'm" where
  "master_request_and_wait_ack ex request expected_response_code m =
     (case ex request m of
        (None, m1) \<Rightarrow> (-1, m1)
      | (Some response, m1) \<Rightarrow>
          if operation_code response \<noteq> expected_response_code then (-1, m1) else (0, m1))"

definition handshake_with_master :: "int \<Rightarrow> 'm exchange \<Rightarrow> int \<Rightarrow> 'm \<Rightarrow> int \<times> 'm" where
  "handshake_with_master connected ex worker_id m =
     handshake_with_server connected ex OP_WORKER_HANDSHAKE_REQ OP_WORKER_ACK worker_id m"

definition end_query_in_master :: "'s conn \<Rightarrow> int \<Rightarrow> int \<Rightarrow> t_package list \<Rightarrow> int \<times> t_package list" where
  "end_query_in_master c worker_id query_id out =
     (if socket_master c < 0 then (-1, out)
      else
        let (ok, request) = add_fields (package_create_empty OP_WORKER_END_QUERY)
              [F_uint32 (word_of_int worker_id), F_uint32 (word_of_int query_id)]
        in if ok then send_to_master c request out else (-1, out))"

definition send_read_content_to_master ::
  "'s conn \<Rightarrow> int \<Rightarrow> bytes \<Rightarrow> string \<Rightarrow> string \<Rightarrow> int \<Rightarrow> t_package list \<Rightarrow> int \<times> t_package list" where
  "send_read_content_to_master c query_id data file tag worker_id out =
     (if socket_master c < 0 then (-1, out)
      else if data = [] then (-1, out)
      else
        let (ok, request) = add_fields (package_create_empty OP_WORKER_READ_MESSAGE_REQ)
              [F_uint32 (word_of_int worker_id), F_uint32 (word_of_int query_id), F_data data,
               F_string (to_bytes file), F_string (to_bytes tag)]
        in if ok then send_to_master c request out else (-1, out))"

subsection \<open>Executing\<close>

text \<open>The two calls of the memory manager on an exchange.\<close>

definition exchange_io :: "'s exchange \<Rightarrow> int \<Rightarrow> 's net store_io" where
  "exchange_io ex query_id =
     \<lparr>io_read = (\<lambda>st f t b.
        if wire_name f \<and> wire_name t \<and> b < 2 ^ 32
        then read_block_from_storage ex f t (word_of_nat b) query_id st
        else ((-1, []), st)),
      io_write = (\<lambda>st f t b d.
        if wire_name f \<and> wire_name t \<and> b < 2 ^ 32
        then write_block_to_storage ex f t (word_of_nat b) d query_id st
        else (-1, st))\<rparr>"

lemma exchange_io_storage: "exchange_io (storage_exchange g cd) q = storage_io g cd q"
  by (simp add: exchange_io_def storage_io_def)

text \<open>No block above \<^verbatim>\<open>PTRDIFF_MAX\<close> bytes can be allocated.\<close>

definition PTRDIFF_MAX :: nat where "PTRDIFF_MAX = 2 ^ 63 - 1"

text \<open>Result code, memory manager, and the state of the connections.\<close>

type_synonym 's executed = "(int \<times> memory_manager_t \<times> 's net) option"

text \<open>The result of a request to Storage as the result of the instruction.\<close>

definition of_request :: "memory_manager_t \<Rightarrow> int \<times> 's net \<Rightarrow> 's executed" where
  "of_request mm res = (let (result, st) = res in Some (if result \<noteq> 0 then -1 else 0, mm, st))"

definition execute_truncate :: "'s conn \<Rightarrow> truncate_params_t \<Rightarrow> memory_manager_t \<Rightarrow> int \<Rightarrow> 's net \<Rightarrow> 's executed" where
  "execute_truncate c p mm query_id st =
     (if unat (tr_size p) mod mm_page_size mm \<noteq> 0 then Some (-1, mm, st)
      else
        let (result, st1) = truncate_file_in_storage (storage_ex c) (tr_file p) (tr_tag p) (unat (tr_size p)) query_id st
        in if result \<noteq> 0 then Some (-1, mm, st1)
           else if mm_find_page_table mm (tr_file p) (tr_tag p) \<noteq> None then
             let new_page_count = unat (word_of_nat (unat (tr_size p) div mm_page_size mm) :: u32)
             in Some (0, snd (mm_resize_page_table mm (tr_file p) (tr_tag p) new_page_count), st1)
           else Some (0, mm, st1))"

definition execute_write :: "'s conn \<Rightarrow> write_params_t \<Rightarrow> memory_manager_t \<Rightarrow> 's net \<Rightarrow> 's executed" where
  "execute_write c p mm st =
     (case mm_create_page_table mm (wr_file p) (wr_tag p) of
        (None, mm1) \<Rightarrow> Some (-1, mm1, st)
      | (Some i, mm1) \<Rightarrow>
          (case mm_write_to_memory (exchange_io (storage_ex c) (mm_query_id mm1)) mm1 st i (wr_file p) (wr_tag p)
                  (unat (wr_base p)) (to_bytes (wr_data p)) of
             None \<Rightarrow> None
           | Some (result, mm2, st1) \<Rightarrow> Some (if result \<noteq> 0 then -1 else 0, mm2, st1)))"

definition execute_read :: "'s conn \<Rightarrow> read_params_t \<Rightarrow> memory_manager_t \<Rightarrow> int \<Rightarrow> int \<Rightarrow> 's net \<Rightarrow> 's executed" where
  "execute_read c p mm query_id worker_id st =
     (case (case mm_find_page_table mm (rd_file p) (rd_tag p) of
              Some i \<Rightarrow> (Some i, mm)
            | None \<Rightarrow> mm_create_page_table mm (rd_file p) (rd_tag p)) of
        (None, mm1) \<Rightarrow> Some (-1, mm1, st)
      | (Some i, mm1) \<Rightarrow>
          if PTRDIFF_MAX < unat (rd_size p) then Some (-1, mm1, st)
          else
            (case mm_read_from_memory (exchange_io (storage_ex c) (mm_query_id mm1)) mm1 st i (rd_file p) (rd_tag p)
                    (unat (rd_base p)) (unat (rd_size p)) of
               None \<Rightarrow> None
             | Some (result, data, mm2, s2, out2) \<Rightarrow>
                 if result \<noteq> 0 then Some (-1, mm2, s2, out2)
                 else
                   let (send_result, out3) =
                         send_read_content_to_master c query_id data (rd_file p) (rd_tag p) worker_id out2
                   in Some (if send_result \<noteq> 0 then -1 else 0, mm2, s2, out3)))"

definition execute_commit :: "'s conn \<Rightarrow> file_tag_t \<Rightarrow> memory_manager_t \<Rightarrow> int \<Rightarrow> 's net \<Rightarrow> 's executed" where
  "execute_commit c p mm query_id st =
     (let (flush_result, mm1, st1) =
            mm_flush_query (exchange_io (storage_ex c) (mm_query_id mm)) mm st (ft_file p) (ft_tag p)
      in if flush_result \<noteq> 0 then Some (-1, mm1, st1)
         else of_request mm1 (commit_file_in_storage (storage_ex c) (ft_file p) (ft_tag p) query_id st1))"

definition execute_flush :: "'s conn \<Rightarrow> file_tag_t \<Rightarrow> memory_manager_t \<Rightarrow> 's net \<Rightarrow> 's executed" where
  "execute_flush c p mm st =
     (let (result, mm1, st1) =
            mm_flush_query (exchange_io (storage_ex c) (mm_query_id mm)) mm st (ft_file p) (ft_tag p)
      in Some (if result \<noteq> 0 then -1 else 0, mm1, st1))"

definition execute_delete :: "'s conn \<Rightarrow> file_tag_t \<Rightarrow> memory_manager_t \<Rightarrow> int \<Rightarrow> 's net \<Rightarrow> 's executed" where
  "execute_delete c p mm query_id st =
     (let mm1 = (if mm_has_page_table mm (ft_file p) (ft_tag p)
                 then mm_remove_page_table mm (ft_file p) (ft_tag p) else mm)
      in of_request mm1 (delete_file_in_storage (storage_ex c) (ft_file p) (ft_tag p) query_id st))"

definition execute_instruction ::
  "'s conn \<Rightarrow> instruction_t \<Rightarrow> memory_manager_t \<Rightarrow> int \<Rightarrow> int \<Rightarrow> 's net \<Rightarrow> 's executed" where
  "execute_instruction c instruction mm query_id worker_id st =
     (case (operation instruction, params instruction) of
        (CREATE, P_file_tag p) \<Rightarrow>
          of_request mm (create_file_in_storage (storage_ex c) query_id (ft_file p) (ft_tag p) st)
      | (TRUNCATE, P_truncate p) \<Rightarrow> execute_truncate c p mm query_id st
      | (WRITE, P_write p) \<Rightarrow> execute_write c p mm st
      | (READ, P_read p) \<Rightarrow> execute_read c p mm query_id worker_id st
      | (TAG, P_tag p) \<Rightarrow>
          of_request mm (fork_file_in_storage (storage_ex c) (file_src p) (tag_src p) (file_dst p) (tag_dst p) query_id st)
      | (COMMIT, P_file_tag p) \<Rightarrow> execute_commit c p mm query_id st
      | (FLUSH, P_file_tag p) \<Rightarrow> execute_flush c p mm st
      | (DELETE, P_file_tag p) \<Rightarrow> execute_delete c p mm query_id st
      | (END, _) \<Rightarrow> Some (0, mm, fst st, snd (end_query_in_master c worker_id query_id (snd st)))
      | (UNKNOWN, _) \<Rightarrow> Some (-1, mm, st)
      | _ \<Rightarrow> None)"

end
