(* ===== verification/Query_Executor.thy ===== *)
theory Query_Executor
  imports Query_Interpreter
begin

text \<open>
  The two threads of a Worker: \<^verbatim>\<open>worker/src/query_executor.c\<close> and
  \<^verbatim>\<open>worker/src/worker_listener.c\<close> over the shared \<^verbatim>\<open>worker_state_t\<close> of \<^verbatim>\<open>worker.h\<close>. What a
  thread does while it holds \<^verbatim>\<open>mux\<close> is one step, and so is each stretch of code between two
  such sections; a step that does not return or runs into undefined behaviour has no
  successor. The listener takes one package per turn. A thread asleep in \<^verbatim>\<open>pthread_cond_wait\<close>
  wakes only when it is signalled. The memory manager and the state of
  the connections (the Storage process, the packages sent to the Master) are part of the
  state.
\<close>

record query_context_t =
  ctx_query_path :: string
  ctx_query_id :: int
  ctx_program_counter :: int

record 's worker_state_t =
  has_query :: bool
  should_stop :: bool
  ejection_requested :: bool
  is_executing :: bool
  current_query :: query_context_t
  memory_manager :: memory_manager_t
  w_net :: "'s net"

text \<open>What does not change while a Worker runs: its connections, the commons library, the scripts on disk, \<^verbatim>\<open>PATH_SCRIPTS\<close> and its identifier.\<close>

record 's worker_env =
  w_conn :: "'s conn"
  w_lib :: commons
  w_files :: "string \<Rightarrow> string option"
  path_scripts :: string
  w_worker_id :: int

datatype query_result_t =
  QUERY_RESULT_OK | QUERY_RESULT_END | QUERY_RESULT_EJECT | QUERY_RESULT_ERROR | QUERY_RESULT_NO_QUERY

subsection \<open>Messages\<close>

text \<open>A package of two \<^verbatim>\<open>uint32\<close> built without looking at the results, as for evictions and errors.\<close>

definition two_uint32 :: "u8 \<Rightarrow> u32 \<Rightarrow> u32 \<Rightarrow> t_package" where
  "two_uint32 op a b = snd (package_add_uint32 (snd (package_add_uint32 (package_create_empty op) a)) b)"

definition post :: "'s worker_env \<Rightarrow> t_package \<Rightarrow> 's worker_state_t \<Rightarrow> 's worker_state_t" where
  "post env p st = st\<lparr>w_net := (fst (w_net st), snd (send_to_master (w_conn env) p (snd (w_net st))))\<rparr>"

definition flush_all :: "'s worker_env \<Rightarrow> 's worker_state_t \<Rightarrow> 's worker_state_t" where
  "flush_all env st =
     (let (_, mm1, net1) = mm_flush_all_dirty
            (exchange_io (storage_ex (w_conn env)) (mm_query_id (memory_manager st))) (memory_manager st) (w_net st)
      in st\<lparr>memory_manager := mm1, w_net := net1\<rparr>)"

text \<open>Write back every dirty page, then tell the Master the query and its program counter.\<close>

definition evict_query :: "'s worker_env \<Rightarrow> int \<Rightarrow> int \<Rightarrow> 's worker_state_t \<Rightarrow> 's worker_state_t" where
  "evict_query env query_id pc st =
     post env (two_uint32 OP_WORKER_EVICT_RES (word_of_int query_id) (word_of_int pc)) (flush_all env st)"

definition notify_master_query_error :: "'s worker_env \<Rightarrow> int \<Rightarrow> 's worker_state_t \<Rightarrow> 's worker_state_t" where
  "notify_master_query_error env query_id st =
     (if socket_master (w_conn env) < 0 then st
      else post env (two_uint32 OP_WORKER_END_QUERY (word_of_int (w_worker_id env)) (word_of_int query_id)) st)"

subsection \<open>The executor\<close>

text \<open>
  Where the executor thread is: about to test the condition of \<^verbatim>\<open>fetch_next_query\<close>; asleep
  in \<^verbatim>\<open>pthread_cond_wait\<close> until it is signalled; with a query taken; before the first
  look at \<^verbatim>\<open>ejection_requested\<close>; about to fetch, decode and execute; about to write back and
  answer an eviction; before the second look; about to store the new program counter; out of
  the inner loop with a result; finished.
\<close>

datatype executor_pc =
  E_fetch_next
| E_wait
| E_start
| E_check query_context_t
| E_run query_context_t
| E_after query_context_t bool
| E_evict query_context_t int
| E_advance query_context_t
| E_finish query_context_t query_result_t
| E_exit

definition fetch_next_query :: "'s worker_state_t \<Rightarrow> executor_pc \<times> 's worker_state_t" where
  "fetch_next_query st =
     (if \<not> has_query st \<and> \<not> should_stop st then (E_wait, st)
      else if should_stop st \<and> \<not> has_query st then (E_exit, st)
      else (E_start, st\<lparr>is_executing := True\<rparr>))"

definition start_query :: "'s worker_state_t \<Rightarrow> executor_pc \<times> 's worker_state_t" where
  "start_query st = (E_check (current_query st), st\<lparr>ejection_requested := False\<rparr>)"

text \<open>
  Fetch, decode and execute. \<^verbatim>\<open>strcpy\<close> and \<^verbatim>\<open>strcat\<close> write the path into 256 bytes; a longer
  one has no defined outcome.
\<close>

definition run_instruction ::
  "'s worker_env \<Rightarrow> query_context_t \<Rightarrow> 's worker_state_t \<Rightarrow> (executor_pc \<times> 's worker_state_t) option" where
  "run_instruction env ctx st =
     (let path = path_scripts env @ ctx_query_path ctx;
          pc = (word_of_int (ctx_program_counter ctx) :: u32)
      in if 256 \<le> length path then None
         else case fetch_instruction (w_files env) path pc of
           None \<Rightarrow> Some (E_finish ctx QUERY_RESULT_ERROR, st)
         | Some raw_instruction \<Rightarrow>
             (case decode_instruction (w_lib env) raw_instruction of
                None \<Rightarrow> Some (E_finish ctx QUERY_RESULT_ERROR, st)
              | Some instruction \<Rightarrow>
                  (case execute_instruction (w_conn env) instruction (memory_manager st)
                          (ctx_query_id ctx) (w_worker_id env) (w_net st) of
                     None \<Rightarrow> None
                   | Some (exec_res, mm1, net1) \<Rightarrow>
                       let st1 = st\<lparr>memory_manager := mm1, w_net := net1\<rparr>
                       in if exec_res < 0 then Some (E_finish ctx QUERY_RESULT_ERROR, st1)
                          else Some (E_after ctx (operation instruction = END), st1))))"

definition after_instruction :: "query_context_t \<Rightarrow> bool \<Rightarrow> 's worker_state_t \<Rightarrow> executor_pc" where
  "after_instruction ctx end_detected st =
     (if ejection_requested st then E_evict ctx (ctx_program_counter ctx + 1)
      else if end_detected then E_finish ctx QUERY_RESULT_END
      else E_advance ctx)"

definition advance :: "query_context_t \<Rightarrow> 's worker_state_t \<Rightarrow> executor_pc \<times> 's worker_state_t" where
  "advance ctx st =
     (let next_pc = ctx_program_counter ctx + 1
      in (E_check (ctx\<lparr>ctx_program_counter := next_pc\<rparr>),
          st\<lparr>current_query := (current_query st)\<lparr>ctx_program_counter := next_pc\<rparr>\<rparr>))"

definition finish_query ::
  "'s worker_env \<Rightarrow> query_context_t \<Rightarrow> query_result_t \<Rightarrow> 's worker_state_t \<Rightarrow> 's worker_state_t" where
  "finish_query env ctx result st =
     (if result = QUERY_RESULT_EJECT then st\<lparr>has_query := False, is_executing := False\<rparr>
      else
        let st1 = (if result = QUERY_RESULT_ERROR
                   then notify_master_query_error env (ctx_query_id ctx) (flush_all env st) else st);
            st2 = (if has_query st1 \<and> ctx_query_id (current_query st1) = ctx_query_id ctx
                   then st1\<lparr>has_query := False\<rparr> else st1)
        in st2\<lparr>is_executing := False\<rparr>)"

text \<open>One step of \<^verbatim>\<open>query_executor_thread\<close>; \<open>None\<close> where it waits, does not return or has exited.\<close>

fun executor_step ::
  "'s worker_env \<Rightarrow> executor_pc \<times> 's worker_state_t \<Rightarrow> (executor_pc \<times> 's worker_state_t) option" where
  "executor_step env (E_fetch_next, st) = Some (fetch_next_query st)"
| "executor_step env (E_wait, st) = None"
| "executor_step env (E_start, st) = Some (start_query st)"
| "executor_step env (E_check ctx, st) =
     Some (if ejection_requested st then E_evict ctx (ctx_program_counter ctx) else E_run ctx, st)"
| "executor_step env (E_run ctx, st) = run_instruction env ctx st"
| "executor_step env (E_after ctx end_detected, st) = Some (after_instruction ctx end_detected st, st)"
| "executor_step env (E_evict ctx pc, st) =
     Some (E_finish ctx QUERY_RESULT_EJECT, evict_query env (ctx_query_id ctx) pc st)"
| "executor_step env (E_advance ctx, st) = Some (advance ctx st)"
| "executor_step env (E_finish ctx result, st) = Some (E_fetch_next, finish_query env ctx result st)"
| "executor_step env (E_exit, st) = None"

subsection \<open>The listener\<close>

datatype listener_pc =
  L_receive
| L_evict int int \<comment> \<open>about to write back and answer for a query that was not running\<close>
| L_exit

text \<open>
  \<^verbatim>\<open>strcpy\<close> into \<^verbatim>\<open>query_path[PATH_MAX]\<close>: a longer path has no defined outcome. The first
  component tells whether the condition variable is signalled.
\<close>

definition PATH_MAX :: nat where "PATH_MAX = 4096"

definition assign_query :: "t_package \<Rightarrow> 's worker_state_t \<Rightarrow> (bool \<times> 's worker_state_t) option" where
  "assign_query pkg st =
     (case package_read_uint32 pkg of
        (None, _) \<Rightarrow> Some (False, st)
      | (Some query_id, p1) \<Rightarrow>
          (case package_read_uint32 p1 of
             (None, _) \<Rightarrow> Some (False, st)
           | (Some program_counter, p2) \<Rightarrow>
               (case package_read_string p2 of
                  (None, _) \<Rightarrow> Some (False, st)
                | (Some path, _) \<Rightarrow>
                    if PATH_MAX \<le> length path then None
                    else Some (True, st\<lparr>current_query :=
                                 \<lparr>ctx_query_path = of_bytes path, ctx_query_id = sint query_id,
                                  ctx_program_counter = sint program_counter\<rparr>,
                               has_query := True, should_stop := False,
                               memory_manager := mm_set_query_id (memory_manager st) (sint query_id)\<rparr>))))"

definition eject_query :: "t_package \<Rightarrow> 's worker_state_t \<Rightarrow> listener_pc \<times> 's worker_state_t" where
  "eject_query pkg st =
     (case package_read_uint32 pkg of
        (None, _) \<Rightarrow> (L_receive, st)
      | (Some query_id, _) \<Rightarrow>
          if has_query st \<and> word_of_int (ctx_query_id (current_query st)) = query_id then
            if is_executing st then (L_receive, st\<lparr>ejection_requested := True\<rparr>)
            else (L_evict (sint query_id) (ctx_program_counter (current_query st)), st\<lparr>has_query := False\<rparr>)
          else (L_receive, st))"

definition end_query :: "'s worker_state_t \<Rightarrow> 's worker_state_t" where
  "end_query st = st\<lparr>should_stop := True, has_query := False\<rparr>"

text \<open>One turn of \<^verbatim>\<open>master_listener_thread\<close> for what \<^verbatim>\<open>package_receive\<close> returned.\<close>

definition listener_receive ::
  "t_package option \<Rightarrow> 's worker_state_t \<Rightarrow> (bool \<times> listener_pc \<times> 's worker_state_t) option" where
  "listener_receive received st =
     (case received of
        None \<Rightarrow> Some (False, L_exit, st)
      | Some pkg \<Rightarrow>
          if operation_code pkg = OP_WORKER_START_QUERY then map_option (\<lambda>(signal, st1). (signal, L_receive, st1)) (assign_query pkg st)
          else if operation_code pkg = OP_WORKER_PREEMPT_REQ then Some (False, eject_query pkg st)
          else if operation_code pkg = OP_END_QUERY then Some (False, L_exit, end_query st)
          else Some (False, L_receive, st))"

subsection \<open>The Worker\<close>

text \<open>\<^verbatim>\<open>pthread_cond_signal\<close> wakes the executor if it sleeps.\<close>

definition wake :: "bool \<Rightarrow> executor_pc \<Rightarrow> executor_pc" where
  "wake signal e = (if signal \<and> e = E_wait then E_fetch_next else e)"

text \<open>Where the two threads are and the state they share.\<close>

type_synonym 's worker = "executor_pc \<times> listener_pc \<times> 's worker_state_t"

inductive worker_step :: "'s worker_env \<Rightarrow> 's worker \<Rightarrow> 's worker \<Rightarrow> bool" for env where
  executor: "executor_step env (e, st) = Some (e', st') \<Longrightarrow> worker_step env (e, l, st) (e', l, st')"
| receive: "listener_receive received st = Some (signal, l', st') \<Longrightarrow>
    worker_step env (e, L_receive, st) (wake signal e, l', st')"
| answer: "worker_step env (e, L_evict query_id pc, st) (e, L_receive, evict_query env query_id pc st)"

text \<open>The state \<^verbatim>\<open>main\<close> creates before it starts the threads.\<close>

definition initial_worker :: "memory_manager_t \<Rightarrow> query_context_t \<Rightarrow> 's net \<Rightarrow> 's worker" where
  "initial_worker mm garbage n =
     (E_fetch_next, L_receive,
      \<lparr>has_query = False, should_stop = False, ejection_requested = False, is_executing = False,
       current_query = garbage, memory_manager = mm, w_net = n\<rparr>)"

subsection \<open>Starting a Worker\<close>

text \<open>\<^verbatim>\<open>worker/src/main.c\<close>: the identifier and the configuration path from the command line.\<close>

definition validate_arguments :: "string list \<Rightarrow> (string \<times> int) option" where
  "validate_arguments argv =
     (case argv of
        [_, config, ident] \<Rightarrow> if atoi ident \<le> 0 then None else Some (config, atoi ident)
      | _ \<Rightarrow> None)"

definition strcasecmp_eq :: "string \<Rightarrow> string \<Rightarrow> bool" where
  "strcasecmp_eq a b \<longleftrightarrow> map to_upper a = map to_upper b"

definition parse_replacement_algorithm :: "string \<Rightarrow> pt_replacement_t" where
  "parse_replacement_algorithm algorithm =
     (if strcasecmp_eq algorithm ''LRU'' then LRU
      else if strcasecmp_eq algorithm ''CLOCK_M'' \<or> strcasecmp_eq algorithm ''CLOCK-M'' then CLOCK_M
      else LRU)"

record t_worker_config =
  wc_master_ip :: string
  wc_master_port :: string
  wc_storage_ip :: string
  wc_storage_port :: string
  memory_size :: int
  memory_retardation_ms :: int
  replacement_algorithm :: string
  wc_path_scripts :: string
  wc_block_size :: int
  wc_log_level :: string

text \<open>
  The connections and the memory that \<^verbatim>\<open>main\<close> sets up before it starts the two threads;
  \<open>None\<close> where it goes to \<^verbatim>\<open>cleanup\<close>. \<open>fd_storage\<close> and \<open>fd_master\<close> are what connecting to the
  two servers returns. The page size is the block size in the 16 bits it arrives in; a
  negative memory size is a \<^verbatim>\<open>size_t\<close> that \<^verbatim>\<open>malloc\<close> refuses.
\<close>

definition start_worker ::
  "'s exchange \<Rightarrow> 'm exchange \<Rightarrow> t_worker_config \<Rightarrow> int \<Rightarrow> int \<Rightarrow> int \<Rightarrow> (nat \<Rightarrow> u8) \<Rightarrow> query_context_t \<Rightarrow> 's \<Rightarrow> 'm \<Rightarrow>
   's worker option \<times> 's \<times> 'm" where
  "start_worker ex ex_master config fd_storage fd_master worker_id garbage ctx s m =
     (let (socket_storage, s1) = handshake_with_storage fd_storage ex worker_id s
      in if socket_storage < 0 then (None, s1, m)
         else case get_block_size ex worker_id s1 of
           ((_, None), s2) \<Rightarrow> (None, s2, m)
         | ((_, Some bs), s2) \<Rightarrow>
             (case (if memory_size config < 0 then None
                    else mm_create garbage (nat (memory_size config)) (unat bs)
                           (parse_replacement_algorithm (replacement_algorithm config)) (memory_retardation_ms config)) of
                None \<Rightarrow> (None, s2, m)
              | Some mm \<Rightarrow>
                  let mm1 = mm_set_storage_connection mm socket_storage worker_id;
                      (socket_master, m1) = handshake_with_master fd_master ex_master worker_id m
                  in if socket_master < 0 then (None, s2, m1)
                     else (Some (initial_worker (mm_set_master_connection mm1 socket_master) ctx (s2, [])), s2, m1)))"

end
