(* ===== verification/Query_Scripts.thy ===== *)
theory Query_Scripts
  imports Query_Interpreter Storage_Commit
begin

text \<open>
  Scripts and their instructions: what \<open>decode_instruction\<close> returns fits the union, and
  fetching and decoding are inverse to printing a script.
\<close>

subsection \<open>What the interpreter relies on from the commons library\<close>

fun join :: "char \<Rightarrow> string list \<Rightarrow> string" where
  "join c [] = []"
| "join c [w] = w"
| "join c (w # ws) = w @ c # join c ws"

text \<open>
  Splitting separates the pieces of a text that has the one-character separator once between
  any two of them and nowhere else; the comparison ignores the case of letters.
\<close>

definition commons_ok :: "commons \<Rightarrow> bool" where
  "commons_ok lib \<longleftrightarrow>
     (\<forall>c ws. ws \<noteq> [] \<longrightarrow> (\<forall>w \<in> set ws. w \<noteq> [] \<and> c \<notin> set w) \<longrightarrow> string_split lib (join c ws) [c] = ws) \<and>
     (\<forall>a b. string_equals_ignore_case lib a b \<longleftrightarrow> map to_upper a = map to_upper b)"

lemma split_join:
  "commons_ok lib \<Longrightarrow> ws \<noteq> [] \<Longrightarrow> \<forall>w \<in> set ws. w \<noteq> [] \<and> c \<notin> set w \<Longrightarrow> string_split lib (join c ws) [c] = ws"
  by (simp add: commons_ok_def)

subsection \<open>Instructions fit their union\<close>

fun params_fit :: "operation_t \<Rightarrow> instruction_params \<Rightarrow> bool" where
  "params_fit CREATE (P_file_tag p) = True"
| "params_fit COMMIT (P_file_tag p) = True"
| "params_fit FLUSH (P_file_tag p) = True"
| "params_fit DELETE (P_file_tag p) = True"
| "params_fit TRUNCATE (P_truncate p) = True"
| "params_fit WRITE (P_write p) = True"
| "params_fit READ (P_read p) = True"
| "params_fit TAG (P_tag p) = True"
| "params_fit END P_unset = True"
| "params_fit op p = False"

text \<open>The strings that the members of the union own.\<close>

fun held_strings :: "instruction_params \<Rightarrow> string list" where
  "held_strings P_unset = []"
| "held_strings (P_file_tag p) = [ft_file p, ft_tag p]"
| "held_strings (P_truncate p) = [tr_file p, tr_tag p]"
| "held_strings (P_write p) = [wr_file p, wr_tag p, wr_data p]"
| "held_strings (P_read p) = [rd_file p, rd_tag p]"
| "held_strings (P_tag p) = [file_src p, tag_src p, file_dst p, tag_dst p]"

lemma decode_fits:
  assumes "decode_instruction lib raw = Some i"
  shows "params_fit (operation i) (params i)"
  using assms
  by (auto simp: decode_instruction_def decode_file_tag_def split: list.splits operation_t.splits option.splits prod.splits)

lemma fit_cases:
  assumes "params_fit (operation i) (params i)"
  obtains (file_tag) p where "operation i \<in> {CREATE, COMMIT, FLUSH, DELETE}" and "params i = P_file_tag p"
  | (truncating) p where "operation i = TRUNCATE" and "params i = P_truncate p"
  | (writing) p where "operation i = WRITE" and "params i = P_write p"
  | (reading) p where "operation i = READ" and "params i = P_read p"
  | (tagging) p where "operation i = TAG" and "params i = P_tag p"
  | (ending) "operation i = END" and "params i = P_unset"
  using assms by (cases "(operation i, params i)" rule: params_fit.cases) auto

lemma free_fits:
  assumes "params_fit (operation i) (params i)"
  shows "free_instruction i = Some (held_strings (params i))"
  using assms by (cases rule: fit_cases) (auto simp: free_instruction_def)

lemma execute_fits:
  assumes "params_fit (operation i) (params i)" and "execute_instruction c i mm q w st = None"
  shows "(\<exists>p. operation i = WRITE \<and> params i = P_write p \<and> execute_write c p mm st = None) \<or>
    (\<exists>p. operation i = READ \<and> params i = P_read p \<and> execute_read c p mm q w st = None)"
  using assms(1)
proof (cases rule: fit_cases)
  case (file_tag p)
  then show ?thesis using assms(2)
    by (auto simp: execute_instruction_def of_request_def execute_commit_def execute_flush_def execute_delete_def
        split: prod.splits if_splits)
next
  case (truncating p)
  then show ?thesis using assms(2)
    by (auto simp: execute_instruction_def execute_truncate_def Let_def split: prod.splits if_splits)
qed (use assms(2) in \<open>auto simp: execute_instruction_def of_request_def split: prod.splits\<close>)

subsection \<open>Printing\<close>

definition operation_name :: "operation_t \<Rightarrow> string" where
  "operation_name op =
     (case op of CREATE \<Rightarrow> ''CREATE'' | TRUNCATE \<Rightarrow> ''TRUNCATE'' | WRITE \<Rightarrow> ''WRITE'' | READ \<Rightarrow> ''READ''
      | TAG \<Rightarrow> ''TAG'' | COMMIT \<Rightarrow> ''COMMIT'' | FLUSH \<Rightarrow> ''FLUSH'' | DELETE \<Rightarrow> ''DELETE'' | END \<Rightarrow> ''END''
      | UNKNOWN \<Rightarrow> ''UNKNOWN'')"

fun operands :: "instruction_params \<Rightarrow> string list" where
  "operands P_unset = []"
| "operands (P_file_tag p) = [join (CHR '':'') [ft_file p, ft_tag p]]"
| "operands (P_truncate p) = [join (CHR '':'') [tr_file p, tr_tag p], decimal (unat (tr_size p))]"
| "operands (P_write p) = [join (CHR '':'') [wr_file p, wr_tag p], decimal (unat (wr_base p)), wr_data p]"
| "operands (P_read p) =
     [join (CHR '':'') [rd_file p, rd_tag p], decimal (unat (rd_base p)), decimal (unat (rd_size p))]"
| "operands (P_tag p) =
     [join (CHR '':'') [file_src p, tag_src p], join (CHR '':'') [file_dst p, tag_dst p]]"

definition print_instruction :: "instruction_t \<Rightarrow> string" where
  "print_instruction i = join (CHR '' '') (operation_name (operation i) # operands (params i))"

text \<open>A word of a script, and a name in it.\<close>

definition word_ok :: "string \<Rightarrow> bool" where
  "word_ok w \<longleftrightarrow> w \<noteq> [] \<and> CHR '' '' \<notin> set w \<and> newline \<notin> set w \<and> CHR 0x00 \<notin> set w"

definition name_ok :: "string \<Rightarrow> bool" where
  "name_ok w \<longleftrightarrow> word_ok w \<and> CHR '':'' \<notin> set w"

fun params_printable :: "instruction_params \<Rightarrow> bool" where
  "params_printable P_unset = True"
| "params_printable (P_file_tag p) \<longleftrightarrow> name_ok (ft_file p) \<and> name_ok (ft_tag p)"
| "params_printable (P_truncate p) \<longleftrightarrow> name_ok (tr_file p) \<and> name_ok (tr_tag p) \<and> unat (tr_size p) < 2 ^ 31"
| "params_printable (P_write p) \<longleftrightarrow>
     name_ok (wr_file p) \<and> name_ok (wr_tag p) \<and> unat (wr_base p) < 2 ^ 31 \<and> word_ok (wr_data p)"
| "params_printable (P_read p) \<longleftrightarrow>
     name_ok (rd_file p) \<and> name_ok (rd_tag p) \<and> unat (rd_base p) < 2 ^ 31 \<and> unat (rd_size p) < 2 ^ 31"
| "params_printable (P_tag p) \<longleftrightarrow>
     name_ok (file_src p) \<and> name_ok (tag_src p) \<and> name_ok (file_dst p) \<and> name_ok (tag_dst p)"

text \<open>An instruction that fits a line of a script: \<^verbatim>\<open>fgets\<close> reads 255 characters, one of them the newline.\<close>

definition printable :: "instruction_t \<Rightarrow> bool" where
  "printable i \<longleftrightarrow> params_fit (operation i) (params i) \<and> params_printable (params i) \<and>
     length (print_instruction i) < 255"

definition script_text :: "string list \<Rightarrow> string" where
  "script_text lines = concat (map (\<lambda>l. l @ [newline]) lines)"

subsection \<open>Fetching from a printed script\<close>

lemma fgets_line:
  assumes "newline \<notin> set l" and "length l < 255"
  shows "fgets 256 (l @ newline # rest) = Some (l @ [newline], rest)"
proof -
  have "takeWhile (\<lambda>c. c \<noteq> newline) (l @ newline # rest) = l" "dropWhile (\<lambda>c. c \<noteq> newline) (l @ newline # rest) = newline # rest"
    using assms(1) by (induction l) auto
  with assms(2) show ?thesis by (simp add: fgets_def)
qed

definition line_ok :: "string \<Rightarrow> bool" where
  "line_ok l \<longleftrightarrow> newline \<notin> set l \<and> CHR 0x00 \<notin> set l \<and> length l < 255"

lemma line_stripped: "line_ok l \<Longrightarrow> takeWhile (\<lambda>c. c \<noteq> newline \<and> c \<noteq> CHR 0x00) (l @ [newline]) = l"
  by (induction l) (auto simp: line_ok_def)

lemma fetch_loop_lines:
  assumes "\<forall>l \<in> set lines. line_ok l" and "k < 2 ^ 32"
  shows "fetch_loop (script_text lines) c (c + word_of_nat k) = (if k < length lines then Some (lines ! k) else None)"
  using assms
proof (induction lines arbitrary: c k)
  case Nil
  then show ?case by (simp add: script_text_def fetch_loop.simps fgets_def)
next
  case (Cons l lines)
  have g: "fgets 256 (script_text (l # lines)) = Some (l @ [newline], script_text lines)"
    using fgets_line [of l] Cons.prems(1) by (simp add: script_text_def line_ok_def)
  show ?case
  proof (cases k)
    case 0
    with g Cons.prems line_stripped [of l] show ?thesis by (subst fetch_loop.simps) simp
  next
    case (Suc j)
    have "unat (word_of_nat k :: u32) = k" using Cons.prems(2) by (simp add: unat_of_nat take_bit_nat_eq_self)
    then have "(word_of_nat k :: u32) \<noteq> 0" using Suc by (metis nat.distinct(1) unat_0)
    then have ne: "c \<noteq> c + word_of_nat k" by simp
    have eq: "c + word_of_nat k = (c + 1) + word_of_nat j" using Suc by simp
    have "fetch_loop (script_text (l # lines)) c (c + word_of_nat k) =
        fetch_loop (script_text lines) (c + 1) ((c + 1) + word_of_nat j)"
      using g ne by (subst fetch_loop.simps) (simp add: eq [symmetric])
    with Cons.IH [of j "c + 1"] Cons.prems Suc show ?thesis by simp
  qed
qed


subsection \<open>Decoding a printed line\<close>

lemma atoi_decimal:
  assumes "n < 2 ^ 31"
  shows "atoi (decimal n) = int n"
proof -
  obtain d ds where d: "decimal n = d # ds" using decimal_spec [of n] by (cases "decimal n") auto
  have dig: "list_all is_digit (decimal n)" and val: "digits_value (decimal n) = n" using decimal_spec [of n] by auto
  have D: "is_digit d" using dig d by simp
  then have "\<not> is_space d" "d \<noteq> CHR ''-''" "d \<noteq> CHR ''+''" by (auto simp: is_digit_def is_space_def)
  moreover have "takeWhile is_digit (decimal n) = decimal n" using dig by (simp add: list_all_iff)
  ultimately have "strtol (decimal n) = min (2 ^ 63 - 1) (int n)" using d val by (simp add: strtol_def)
  also have "\<dots> = int n" using assms by simp
  finally show ?thesis using sint32_small(2) [OF assms] by (simp add: atoi_def)
qed

lemma operation_decodes:
  assumes "commons_ok lib" and "op \<noteq> UNKNOWN"
  shows "get_operation_type lib (operation_name op) = op"
proof -
  have e: "string_equals_ignore_case lib a b \<longleftrightarrow> map to_upper a = map to_upper b" for a b
    using assms(1) by (simp add: commons_ok_def)
  show ?thesis using assms(2)
    by (cases op) (simp_all add: get_operation_type_def operation_name_def e to_upper_def)
qed

lemma file_tag_decodes:
  assumes "commons_ok lib" and "name_ok f" and "name_ok t"
  shows "get_file_tag lib (join (CHR '':'') [f, t]) = Some (f, t)"
  using split_join [OF assms(1), of "[f, t]" "CHR '':''"] assms(2,3)
  by (simp add: get_file_tag_def name_ok_def word_ok_def)

lemma decimal_word: "word_ok (decimal n)"
proof -
  have "list_all is_digit (decimal n)" "decimal n \<noteq> []" using decimal_spec [of n] by auto
  then show ?thesis by (auto simp: word_ok_def list_all_iff is_digit_def)
qed

lemma operation_word: "word_ok (operation_name op)"
  by (cases op) (simp_all add: operation_name_def word_ok_def)

lemma pair_word: "name_ok f \<Longrightarrow> name_ok t \<Longrightarrow> word_ok (join (CHR '':'') [f, t])"
  by (simp add: name_ok_def word_ok_def)

lemma operands_words: "params_printable p \<Longrightarrow> w \<in> set (operands p) \<Longrightarrow> word_ok w"
  using decimal_word pair_word by (cases p) (auto simp del: join.simps)

lemma join_chars: "set (join c ws) \<subseteq> insert c (\<Union> (set ` set ws))"
  by (induction c ws rule: join.induct) auto

lemma print_line_ok:
  assumes "printable i"
  shows "line_ok (print_instruction i)"
proof -
  have "\<forall>w \<in> set (operation_name (operation i) # operands (params i)). word_ok w"
    using assms operands_words operation_word by (auto simp: printable_def)
  with join_chars [of "CHR '' ''" "operation_name (operation i) # operands (params i)"] show ?thesis
    using assms by (auto simp: line_ok_def printable_def print_instruction_def word_ok_def)
qed

lemma word_of_unat_int: "unat (w :: 'a::len word) = n \<Longrightarrow> word_of_int (int n) = w"
  by auto

lemma decode_printed:
  assumes lib: "commons_ok lib" and pr: "printable i"
  shows "decode_instruction lib (print_instruction i) = Some i"
proof -
  have ws: "string_split lib (print_instruction i) '' '' = operation_name (operation i) # operands (params i)"
    unfolding print_instruction_def
    using operands_words operation_word pr by (intro split_join [OF lib]) (auto simp: word_ok_def printable_def)
  have fit: "params_fit (operation i) (params i)" and pp: "params_printable (params i)"
    using pr by (simp_all add: printable_def)
  note D = decode_instruction_def decode_file_tag_def ws operation_decodes [OF lib] file_tag_decodes [OF lib] atoi_decimal
  from fit show ?thesis
    by (cases rule: fit_cases) (use pp in \<open>auto simp: D intro!: instruction_t.equality simp del: join.simps\<close>)
qed

lemma unat_lt_max: "unat (w :: u32) < 2 ^ 32"
  using unsigned_less [of w] by simp

subsection \<open>Properties\<close>

text \<open>
  C32: A decoded instruction fits its union. Whatever the line, an instruction that
  \<open>decode_instruction\<close> returns has a known operation and the member of the union that goes
  with it: \<open>free_instruction\<close> frees exactly the strings that were duplicated, and
  \<open>execute_instruction\<close> reads no other member, so the only way it does not return a result
  is a call of the memory manager that does not return.
\<close>

theorem decoded_instruction_typed:
  assumes "decode_instruction lib raw = Some i"
  shows "operation i \<noteq> UNKNOWN \<and> params_fit (operation i) (params i) \<and>
    free_instruction i = Some (held_strings (params i)) \<and>
    (\<forall>(c :: 's conn) mm q w st. execute_instruction c i mm q w st = None \<longrightarrow>
       (\<exists>p. operation i = WRITE \<and> params i = P_write p \<and> execute_write c p mm st = None) \<or>
       (\<exists>p. operation i = READ \<and> params i = P_read p \<and> execute_read c p mm q w st = None))"
proof -
  have f: "params_fit (operation i) (params i)" by (rule decode_fits [OF assms])
  then have "operation i \<noteq> UNKNOWN" by (cases rule: fit_cases) auto
  with f free_fits [OF f] execute_fits [OF f, where 'a = 's] show ?thesis by blast
qed

text \<open>A commons library for concrete runs.\<close>

function split_on :: "char \<Rightarrow> string \<Rightarrow> string list" where
  "split_on c s =
     (let w = takeWhile (\<lambda>x. x \<noteq> c) s in if length w < length s then w # split_on c (drop (Suc (length w)) s) else [w])"
  by pat_completeness auto
termination
  by (relation "measure (\<lambda>(c, s). length s)") auto

declare split_on.simps [simp del]

definition demo_commons :: commons where
  "demo_commons =
     \<lparr>string_split = (\<lambda>s sep. split_on (hd sep) s),
      string_equals_ignore_case = (\<lambda>a b. map to_upper a = map to_upper b)\<rparr>"

lemma split_on_join: "ws \<noteq> [] \<Longrightarrow> \<forall>w \<in> set ws. w \<noteq> [] \<and> c \<notin> set w \<Longrightarrow> split_on c (join c ws) = ws"
proof (induction c ws rule: join.induct)
  case (2 c w)
  then have "takeWhile (\<lambda>x. x \<noteq> c) w = w" by (auto simp: takeWhile_eq_all_conv)
  then show ?case using split_on.simps [of c w] by (simp only: join.simps Let_def) simp
next
  case (3 c w v vs)
  have "takeWhile (\<lambda>x. x \<noteq> c) (w @ c # join c (v # vs)) = w" using 3 by (subst takeWhile_append) auto
  with 3 show ?case by (subst split_on.simps) simp
qed simp

lemma demo_commons_ok: "commons_ok demo_commons"
  using split_on_join by (simp add: commons_ok_def demo_commons_def)

definition demo_read :: instruction_t where
  "demo_read = \<lparr>operation = READ, params = P_read \<lparr>rd_file = ''a'', rd_tag = ''v1'', rd_base = 1, rd_size = 3\<rparr>\<rparr>"

definition demo_end :: instruction_t where
  "demo_end = \<lparr>operation = END, params = P_unset\<rparr>"

lemma demo_printable: "printable demo_read" "printable demo_end"
  by (simp_all add: printable_def demo_read_def demo_end_def name_ok_def word_ok_def print_instruction_def
      operation_name_def decimal.simps)

theorem decoded_instruction_typed_witness:
  "decode_instruction demo_commons ''READ a:v1 1 3'' = Some demo_read \<and>
   free_instruction demo_read = Some [''a'', ''v1'']"
proof -
  have "print_instruction demo_read = ''READ a:v1 1 3''"
    by code_simp
  with decode_printed [OF demo_commons_ok demo_printable(1)]
  have d: "decode_instruction demo_commons ''READ a:v1 1 3'' = Some demo_read" by simp
  have h: "held_strings (params demo_read) = [''a'', ''v1'']" by (simp add: demo_read_def)
  have "free_instruction demo_read = Some (held_strings (params demo_read))"
    using decoded_instruction_typed [OF d] by (elim conjE)
  with d h show ?thesis by simp
qed

text \<open>
  C25: Fetching and decoding recover a script. For a script of printable instructions, one per
  line, the line at a program counter decodes to the instruction at that index, and there is
  no line beyond the last.
\<close>

theorem script_roundtrip:
  assumes "commons_ok lib" and "\<forall>i \<in> set prog. printable i" and "length prog < 2 ^ 32"
    and "files path = Some (script_text (map print_instruction prog))"
  shows "(\<forall>pc < length prog. \<exists>raw. fetch_instruction files path (word_of_nat pc) = Some raw \<and>
      decode_instruction lib raw = Some (prog ! pc)) \<and>
    (\<forall>pc. length prog \<le> unat pc \<longrightarrow> fetch_instruction files path pc = None)"
proof -
  have L: "\<forall>l \<in> set (map print_instruction prog). line_ok l" using assms(2) print_line_ok by auto
  have F: "fetch_instruction files path (word_of_nat k) =
      (if k < length prog then Some (print_instruction (prog ! k)) else None)" if "k < 2 ^ 32" for k
    using fetch_loop_lines [OF L that, of 0] assms(4) by (simp add: fetch_instruction_def)
  have "fetch_instruction files path (word_of_nat pc) = Some (print_instruction (prog ! pc)) \<and>
      decode_instruction lib (print_instruction (prog ! pc)) = Some (prog ! pc)" if "pc < length prog" for pc
    using F [of pc] assms(3) decode_printed [OF assms(1)] assms(2) that by simp
  moreover have "fetch_instruction files path pc = None" if "length prog \<le> unat pc" for pc
    using F [of "unat pc"] that unat_lt_max [of pc] by simp
  ultimately show ?thesis by blast
qed

theorem script_roundtrip_witness:
  "\<exists>raw. fetch_instruction (\<lambda>p. Some (script_text (map print_instruction [demo_read, demo_end]))) ''q'' 1 = Some raw \<and>
    decode_instruction demo_commons raw = Some demo_end"
proof -
  have p: "\<forall>i \<in> set [demo_read, demo_end]. printable i" using demo_printable by simp
  have l: "length [demo_read, demo_end] < 2 ^ 32" by simp
  from script_roundtrip [OF demo_commons_ok p l, of "\<lambda>p. Some (script_text (map print_instruction [demo_read, demo_end]))" "''q''"]
  have "\<forall>pc < length [demo_read, demo_end]. \<exists>raw.
      fetch_instruction (\<lambda>p. Some (script_text (map print_instruction [demo_read, demo_end]))) ''q'' (word_of_nat pc) = Some raw \<and>
      decode_instruction demo_commons raw = Some ([demo_read, demo_end] ! pc)" by blast
  from this [rule_format, of 1] show ?thesis by simp
qed

end
