(* ===== verification/Storage_Requests.thy ===== *)
theory Storage_Requests
  imports Storage_Client Storage_Commit
begin

text \<open>
  What the Worker's file requests do at the Storage process. Each of them runs exactly one
  operation of the filesystem there, on the File:Tag it names, and the Worker learns whether
  it succeeded.
\<close>

subsection \<open>One request, one operation\<close>

lemma wire_fields_fit:
  assumes "\<forall>s \<in> set ss. wire_name s" and "length ss \<le> 4" and "set ns \<subseteq> range F_uint32" and "length ns \<le> 2"
    and "set fs = set ns \<union> set (map (\<lambda>s. F_string (to_bytes s)) ss)" and "length fs \<le> 6"
  shows "\<forall>f \<in> set fs. field_valid f" and "\<exists>p. add_fields (package_create_empty op) fs = (True, p)"
proof -
  have F: "field_valid f \<and> f \<noteq> F_data [] \<and> length (enc_field f) \<le> 4 + MAX_STRING_LENGTH" if "f \<in> set fs" for f
    using that assms(1,3,5) by (auto simp: wire_name_def string_valid_def enc_sized_def)
  then show v: "\<forall>f \<in> set fs. field_valid f" by blast
  have "length (concat (map enc_field gs)) \<le> length gs * (4 + MAX_STRING_LENGTH)" if "set gs \<subseteq> set fs" for gs
    using that F by (induction gs) fastforce+
  from this [of fs] have "length (concat (map enc_field fs)) \<le> 6 * (4 + MAX_STRING_LENGTH)"
    using assms(6) by (meson le_trans mult_le_mono1 subset_refl)
  then have "length (concat (map enc_field fs)) \<le> 50 * 1024 * 1024" by (simp add: MAX_STRING_LENGTH_def)
  then show "\<exists>p. add_fields (package_create_empty op) fs = (True, p)"
    using message_fits [OF v _ , of op] F by (metis (no_types))
qed

text \<open>The answer of a handler whose operation returned \<open>r\<close>.\<close>

definition answers :: "u8 \<Rightarrow> int \<Rightarrow> t_package option \<Rightarrow> bool" where
  "answers ok_op r resp \<longleftrightarrow>
     (\<exists>p. resp = Some p \<and> buffer_ok (buffer p) \<and> operation_code p = (if r = 0 then ok_op else STORAGE_OP_ERROR))"

lemma status_answers: "\<exists>p. status_response op r = Some p \<and> buffer_ok (buffer p) \<and> operation_code p = op"
proof -
  obtain p where "add_fields (package_create_empty op) [F_int8 (word_of_int r)] = (True, p)"
    by (rule message_fits [of "[F_int8 (word_of_int r)]" op]) simp_all
  then have "package_add_int8 (package_create_empty op) (word_of_int r) = (True, p)" by (auto split: if_splits prod.splits)
  then have "status_response op r = Some p" by (simp add: status_response_def)
  with status_response_code show ?thesis by blast
qed

lemma reset_ok [simp]:
  "operation_code (package_reset_read_offset p) = operation_code p"
  "buffer_ok (buffer p) \<Longrightarrow> buffer_ok (buffer (package_reset_read_offset p))"
  by (simp_all add: package_reset_read_offset_def buffer_reset_ok)

lemma answersI:
  assumes "r \<noteq> 0 \<Longrightarrow> resp = Some (error_response q prefix r)" and "CHR 0x00 \<notin> set prefix" and "length prefix \<le> 100"
    and "r = 0 \<Longrightarrow> resp = status_response op r \<or> resp = map_option package_reset_read_offset (status_response op r)"
  shows "answers op r resp"
proof (cases "r = 0")
  case True
  obtain p where "status_response op r = Some p" "buffer_ok (buffer p)" "operation_code p = op"
    using status_answers by blast
  with True assms(4) show ?thesis by (auto simp: answers_def)
qed (use assms(1) error_response_ok [OF assms(2,3)] in \<open>auto simp: answers_def\<close>)

lemma exchange_answer:
  assumes p: "transmit req = Some p"
    and h: "handle_client_request g st cd p = (resp, st1, cd)" and a: "answers ok_op r resp"
  obtains rq where "storage_exchange g cd req st = (Some rq, st1)"
    and "operation_code rq = (if r = 0 then ok_op else STORAGE_OP_ERROR)"
proof -
  from a obtain x where x: "resp = Some x" "buffer_ok (buffer x)"
    "operation_code x = (if r = 0 then ok_op else STORAGE_OP_ERROR)" by (auto simp: answers_def)
  show thesis
    using x p h transmit_ok [OF x(2)]
    by (intro that [of "x\<lparr>buffer := (buffer x)\<lparr>offset := 0, is_dynamic := False\<rparr>\<rparr>"]) (auto simp: storage_exchange_def)
qed

lemma ack_with_errors:
  assumes "storage_exchange g cd req st = (Some rq, st1)"
    and "operation_code rq = (if r = 0 then ok_op else STORAGE_OP_ERROR)" and "ok_op \<noteq> STORAGE_OP_ERROR"
  shows "\<exists>out'. send_request_and_wait_ack_with_error_handling (storage_exchange g cd) req ok_op (st, out) =
      (if r = 0 then 0 else -1, st1, out')"
    and "\<exists>out'. send_request_and_wait_ack (storage_exchange g cd) req ok_op (st, out) =
      (if r = 0 then 0 else -1, st1, out')"
  using assms by (auto simp: send_request_and_wait_ack_with_error_handling_def send_request_and_wait_ack_def Let_def)

text \<open>What the Worker makes of the result of an operation.\<close>

definition acked :: "int \<Rightarrow> int" where
  "acked r = (if r = 0 then 0 else -1)"

lemma acked_0 [simp]: "acked r = 0 \<longleftrightarrow> r = 0"
  by (simp add: acked_def)

text \<open>
  A request that is built, answered and acknowledged: the shape of the five client functions.
\<close>

lemma file_request:
  assumes fields: "\<forall>s \<in> set ss. wire_name s" "length ss \<le> 4" "set ns \<subseteq> range F_uint32" "length ns \<le> 2"
    "set fs = set ns \<union> set (map (\<lambda>s. F_string (to_bytes s)) ss)" "length fs \<le> 6"
    and h: "\<And>p. operation_code p = op \<Longrightarrow> fst (read_fields p (map kind_of fs)) = Some fs \<Longrightarrow>
      \<exists>resp. handle_client_request g st cd p = (resp, st\<lparr>st_fs := fs1\<rparr>, cd) \<and> answers ok_op r resp"
    and ne: "ok_op \<noteq> STORAGE_OP_ERROR"
  shows "\<exists>out'. (let (ok, request) = add_fields (package_create_empty op) fs
      in if ok then send_request_and_wait_ack_with_error_handling (storage_exchange g cd) request ok_op (st, out)
         else (-1, st, out)) = (acked r, st\<lparr>st_fs := fs1\<rparr>, out')"
    and "\<exists>out'. (let (ok, request) = add_fields (package_create_empty op) fs
      in if ok then send_request_and_wait_ack (storage_exchange g cd) request ok_op (st, out)
         else (-1, st, out)) = (acked r, st\<lparr>st_fs := fs1\<rparr>, out')"
proof -
  note W = wire_fields_fit [OF fields]
  from W(2) [of op] obtain req where req: "add_fields (package_create_empty op) fs = (True, req)" by blast
  from transmit_fields [OF req W(1)] obtain p where p: "transmit req = Some p" "operation_code p = op"
    "fst (read_fields p (map kind_of fs)) = Some fs" by blast
  from h [OF p(2,3)] obtain resp where "handle_client_request g st cd p = (resp, st\<lparr>st_fs := fs1\<rparr>, cd)"
    "answers ok_op r resp" by blast
  from exchange_answer [OF p(1) this] obtain rq where rq: "storage_exchange g cd req st = (Some rq, st\<lparr>st_fs := fs1\<rparr>)"
    "operation_code rq = (if r = 0 then ok_op else STORAGE_OP_ERROR)" by blast
  from ack_with_errors [OF rq ne, of out] req
  show "\<exists>out'. (let (ok, request) = add_fields (package_create_empty op) fs
      in if ok then send_request_and_wait_ack_with_error_handling (storage_exchange g cd) request ok_op (st, out)
         else (-1, st, out)) = (acked r, st\<lparr>st_fs := fs1\<rparr>, out')"
    and "\<exists>out'. (let (ok, request) = add_fields (package_create_empty op) fs
      in if ok then send_request_and_wait_ack (storage_exchange g cd) request ok_op (st, out)
         else (-1, st, out)) = (acked r, st\<lparr>st_fs := fs1\<rparr>, out')"
    unfolding acked_def by auto
qed

subsection \<open>The five requests\<close>

lemma read_names:
  assumes "fst (read_fields p (K_uint32 # K_string # K_string # ks)) = Some (F_uint32 q # F_string n # F_string t # fs)"
  shows "\<exists>p1 p2 p3. package_read_uint32 p = (Some q, p1) \<and> package_read_string p1 = (Some n, p2) \<and>
    package_read_string p2 = (Some t, p3) \<and> fst (read_fields p3 ks) = Some fs"
  using assms by (auto simp: map_prod_def split: prod.splits option.splits)

lemma create_client:
  assumes nm: "wire_name f" "wire_name t" and x: "create_file_op (st_fs st) f t = (r, fs1)"
  shows "\<exists>out'. create_file_in_storage (storage_exchange g cd) q f t (st, out) = (acked r, st\<lparr>st_fs := fs1\<rparr>, out')"
proof -
  let ?fs = "[F_uint32 (word_of_int q), F_string (to_bytes f), F_string (to_bytes t)]"
  have h: "\<exists>resp. handle_client_request g st cd p = (resp, st\<lparr>st_fs := fs1\<rparr>, cd) \<and> answers STORAGE_OP_FILE_CREATE_RES r resp"
    if "operation_code p = STORAGE_OP_FILE_CREATE_REQ" "fst (read_fields p (map kind_of ?fs)) = Some ?fs" for p
  proof -
    from that(2) read_names [of p "[]"] obtain p1 p2 p3 where "package_read_uint32 p = (Some (word_of_int q), p1)"
      "package_read_string p1 = (Some (to_bytes f), p2)" "package_read_string p2 = (Some (to_bytes t), p3)" by auto
    with x have "create_file (st_fs st) p =
        (if r \<noteq> 0 then Some (error_response (word_of_int q) ''CREATE_FILE'' r) else status_response STORAGE_OP_FILE_CREATE_RES r, fs1)"
      by (simp add: create_file_def)
    with that(1) show ?thesis
      by (auto simp: handle_client_request_def storage_op_defs intro!: answersI [where prefix = "''CREATE_FILE''"])
  qed
  show ?thesis
    unfolding create_file_in_storage_def
    by (rule file_request(1) [OF _ _ _ _ _ _ h, of "[f, t]" "[F_uint32 (word_of_int q)]"]) (use nm in \<open>auto simp: storage_op_defs\<close>)
qed

lemma truncate_client:
  assumes nm: "wire_name f" "wire_name t"
    and x: "truncate_file g (st_fs st) f t (sint (word_of_nat sz :: u32)) = (r, fs1)"
  shows "\<exists>out'. truncate_file_in_storage (storage_exchange g cd) f t sz q (st, out) = (acked r, st\<lparr>st_fs := fs1\<rparr>, out')"
proof -
  let ?fs = "[F_uint32 (word_of_int q), F_string (to_bytes f), F_string (to_bytes t), F_uint32 (word_of_nat sz)]"
  have h: "\<exists>resp. handle_client_request g st cd p = (resp, st\<lparr>st_fs := fs1\<rparr>, cd) \<and> answers STORAGE_OP_FILE_TRUNCATE_RES r resp"
    if "operation_code p = STORAGE_OP_FILE_TRUNCATE_REQ" "fst (read_fields p (map kind_of ?fs)) = Some ?fs" for p
  proof -
    from that(2) read_names [of p "[K_uint32]"] obtain p1 p2 p3 where "package_read_uint32 p = (Some (word_of_int q), p1)"
      "package_read_string p1 = (Some (to_bytes f), p2)" "package_read_string p2 = (Some (to_bytes t), p3)"
      "fst (read_fields p3 [K_uint32]) = Some [F_uint32 (word_of_nat sz)]" by auto
    with x have "handle_truncate_file_op_package g (st_fs st) p =
        (if r \<noteq> 0 then Some (error_response (word_of_int q) ''TRUNCATE_FILE'' r) else status_response STORAGE_OP_FILE_TRUNCATE_RES r, fs1)"
      by (auto simp: handle_truncate_file_op_package_def map_prod_def split: prod.splits option.splits)
    with that(1) show ?thesis
      by (auto simp: handle_client_request_def storage_op_defs intro!: answersI [where prefix = "''TRUNCATE_FILE''"])
  qed
  show ?thesis
    unfolding truncate_file_in_storage_def
    by (rule file_request(1) [OF _ _ _ _ _ _ h, of "[f, t]" "[F_uint32 (word_of_int q), F_uint32 (word_of_nat sz)]"]) (use nm in \<open>auto simp: storage_op_defs\<close>)
qed

lemma fork_client:
  assumes nm: "wire_name f1" "wire_name t1" "wire_name f2" "wire_name t2"
    and x: "create_tag (st_fs st) f1 t1 f2 t2 = (r, fs1)"
  shows "\<exists>out'. fork_file_in_storage (storage_exchange g cd) f1 t1 f2 t2 q (st, out) = (acked r, st\<lparr>st_fs := fs1\<rparr>, out')"
proof -
  let ?fs = "[F_uint32 (word_of_int q), F_string (to_bytes f1), F_string (to_bytes t1), F_string (to_bytes f2), F_string (to_bytes t2)]"
  have h: "\<exists>resp. handle_client_request g st cd p = (resp, st\<lparr>st_fs := fs1\<rparr>, cd) \<and> answers STORAGE_OP_TAG_CREATE_RES r resp"
    if "operation_code p = STORAGE_OP_TAG_CREATE_REQ" "fst (read_fields p (map kind_of ?fs)) = Some ?fs" for p
  proof -
    from that(2) read_names [of p "[K_string, K_string]"] obtain p1 p2 p3 where "package_read_uint32 p = (Some (word_of_int q), p1)"
      "package_read_string p1 = (Some (to_bytes f1), p2)" "package_read_string p2 = (Some (to_bytes t1), p3)"
      "fst (read_fields p3 [K_string, K_string]) = Some [F_string (to_bytes f2), F_string (to_bytes t2)]" by auto
    with x have "handle_create_tag_op_package (st_fs st) p =
        (if r \<noteq> 0 then Some (error_response (word_of_int q) ''CREATE_TAG'' r)
         else map_option package_reset_read_offset (status_response STORAGE_OP_TAG_CREATE_RES r), fs1)"
      by (auto simp: handle_create_tag_op_package_def map_prod_def split: prod.splits option.splits)
    with that(1) show ?thesis
      by (auto simp: handle_client_request_def storage_op_defs intro!: answersI [where prefix = "''CREATE_TAG''"])
  qed
  show ?thesis
    unfolding fork_file_in_storage_def
    by (rule file_request(1) [OF _ _ _ _ _ _ h, of "[f1, t1, f2, t2]" "[F_uint32 (word_of_int q)]"]) (use nm in \<open>auto simp: storage_op_defs\<close>)
qed

lemma commit_client:
  assumes nm: "wire_name f" "wire_name t" and x: "execute_tag_commit g (st_fs st) f t = (r, fs1)"
  shows "\<exists>out'. commit_file_in_storage (storage_exchange g cd) f t q (st, out) = (acked r, st\<lparr>st_fs := fs1\<rparr>, out')"
proof -
  let ?fs = "[F_uint32 (word_of_int q), F_string (to_bytes f), F_string (to_bytes t)]"
  have h: "\<exists>resp. handle_client_request g st cd p = (resp, st\<lparr>st_fs := fs1\<rparr>, cd) \<and> answers STORAGE_OP_TAG_COMMIT_RES r resp"
    if "operation_code p = STORAGE_OP_TAG_COMMIT_REQ" "fst (read_fields p (map kind_of ?fs)) = Some ?fs" for p
  proof -
    from that(2) read_names [of p "[]"] obtain p1 p2 p3 where "package_read_uint32 p = (Some (word_of_int q), p1)"
      "package_read_string p1 = (Some (to_bytes f), p2)" "package_read_string p2 = (Some (to_bytes t), p3)" by auto
    with x have "handle_tag_commit_request g (st_fs st) p =
        (if r \<noteq> 0 then Some (error_response (word_of_int q) ''COMMIT_TAG'' r)
         else map_option package_reset_read_offset (status_response STORAGE_OP_TAG_COMMIT_RES r), fs1)"
      by (simp add: handle_tag_commit_request_def deserialize_tag_commit_request_def)
    with that(1) show ?thesis
      by (auto simp: handle_client_request_def storage_op_defs intro!: answersI [where prefix = "''COMMIT_TAG''"])
  qed
  show ?thesis
    unfolding commit_file_in_storage_def
    by (rule file_request(1) [OF _ _ _ _ _ _ h, of "[f, t]" "[F_uint32 (word_of_int q)]"]) (use nm in \<open>auto simp: storage_op_defs\<close>)
qed

lemma delete_client:
  assumes nm: "wire_name f" "wire_name t" and x: "delete_tag g (st_fs st) f t = (r, fs1)"
  shows "\<exists>out'. delete_file_in_storage (storage_exchange g cd) f t q (st, out) = (acked r, st\<lparr>st_fs := fs1\<rparr>, out')"
proof -
  let ?fs = "[F_uint32 (word_of_int q), F_string (to_bytes f), F_string (to_bytes t)]"
  have h: "\<exists>resp. handle_client_request g st cd p = (resp, st\<lparr>st_fs := fs1\<rparr>, cd) \<and> answers STORAGE_OP_TAG_DELETE_RES r resp"
    if "operation_code p = STORAGE_OP_TAG_DELETE_REQ" "fst (read_fields p (map kind_of ?fs)) = Some ?fs" for p
  proof -
    from that(2) read_names [of p "[]"] obtain p1 p2 p3 where "package_read_uint32 p = (Some (word_of_int q), p1)"
      "package_read_string p1 = (Some (to_bytes f), p2)" "package_read_string p2 = (Some (to_bytes t), p3)" by auto
    with x have "handle_delete_tag_op_package g (st_fs st) p =
        (if r \<noteq> 0 then Some (error_response (word_of_int q) ''DELETE_TAG'' r) else status_response STORAGE_OP_TAG_DELETE_RES r, fs1)"
      by (simp add: handle_delete_tag_op_package_def)
    with that(1) show ?thesis
      by (auto simp: handle_client_request_def storage_op_defs intro!: answersI [where prefix = "''DELETE_TAG''"])
  qed
  show ?thesis
    unfolding delete_file_in_storage_def
    by (rule file_request(2) [OF _ _ _ _ _ _ h, of "[f, t]" "[F_uint32 (word_of_int q)]"]) (use nm in \<open>auto simp: storage_op_defs\<close>)
qed

end
