(* ===== verification/Instruction_Correct.thy ===== *)
theory Instruction_Correct
  imports Query_Scripts Storage_Requests Worker_Properties
begin

text \<open>
  Executing one instruction of a query against the modelled Storage process: the invariant of
  the Worker is kept, what queries see of other File:Tags stays, reads return what is seen and
  writes change it.
\<close>

subsection \<open>Dropping pages\<close>

text \<open>
  Removing or resizing a page table drops pages: entry \<open>i\<close> of the new manager is entry
  \<open>\<sigma> i\<close> of the old one, and a page in memory was there before.
\<close>

definition drops :: "(nat \<Rightarrow> nat) \<Rightarrow> memory_manager_t \<Rightarrow> memory_manager_t \<Rightarrow> bool" where
  "drops \<sigma> mm mm' \<longleftrightarrow>
     frames mm' = frames mm \<and> frame_count mm' = frame_count mm \<and> mm_page_size mm' = mm_page_size mm \<and>
     physical_memory mm' = physical_memory mm \<and> clock_pointer mm' = clock_pointer mm \<and>
     inj_on \<sigma> {..<length (mm_entries mm')} \<and>
     (\<forall>i < length (mm_entries mm').
        \<sigma> i < length (mm_entries mm) \<and> key_at mm' i = key_at mm (\<sigma> i) \<and> pt_ok (mm_pt mm' i)) \<and>
     (\<forall>i j. slot mm' i j \<longrightarrow> present (page_at mm' i j) \<longrightarrow>
        slot mm (\<sigma> i) j \<and> page_at mm (\<sigma> i) j = page_at mm' i j)"

text \<open>All pages of the File:Tags other than \<open>k\<close> are kept.\<close>

definition keeps_others :: "string \<times> string \<Rightarrow> (nat \<Rightarrow> nat) \<Rightarrow> memory_manager_t \<Rightarrow> memory_manager_t \<Rightarrow> bool" where
  "keeps_others k \<sigma> mm mm' \<longleftrightarrow>
     (\<forall>i j. slot mm i j \<longrightarrow> present (page_at mm i j) \<longrightarrow> key_at mm i \<noteq> k \<longrightarrow>
        (\<exists>i'. \<sigma> i' = i \<and> slot mm' i' j \<and> page_at mm' i' j = page_at mm i j))"

lemma dropsD:
  assumes "drops \<sigma> mm mm'"
  shows "frames mm' = frames mm" and "frame_count mm' = frame_count mm" and "mm_page_size mm' = mm_page_size mm"
    and "physical_memory mm' = physical_memory mm" and "clock_pointer mm' = clock_pointer mm"
    and "inj_on \<sigma> {..<length (mm_entries mm')}"
    and "i < length (mm_entries mm') \<Longrightarrow> \<sigma> i < length (mm_entries mm)"
    and "i < length (mm_entries mm') \<Longrightarrow> key_at mm' i = key_at mm (\<sigma> i)"
    and "i < length (mm_entries mm') \<Longrightarrow> pt_ok (mm_pt mm' i)"
    and "slot mm' i j \<Longrightarrow> present (page_at mm' i j) \<Longrightarrow> slot mm (\<sigma> i) j"
    and "slot mm' i j \<Longrightarrow> present (page_at mm' i j) \<Longrightarrow> page_at mm (\<sigma> i) j = page_at mm' i j"
  using assms unfolding drops_def by blast+

lemma drops_refl: "mm_ok mm \<Longrightarrow> drops (\<lambda>i. i) mm mm" "keeps_others k (\<lambda>i. i) mm mm"
  using mm_okD(6) by (auto simp: drops_def keeps_others_def)

lemma drops_ok:
  assumes d: "drops \<sigma> mm mm'" and ok: "mm_ok mm"
  shows "mm_ok mm'"
proof (rule mm_okI)
  note D = dropsD [OF d]
  show "inj_on (key_at mm') {..<length (mm_entries mm')}"
  proof (rule inj_onI)
    fix i i' assume "i \<in> {..<length (mm_entries mm')}" "i' \<in> {..<length (mm_entries mm')}" "key_at mm' i = key_at mm' i'"
    then have "\<sigma> i = \<sigma> i'" using inj_onD [OF mm_okD(5) [OF ok], of "\<sigma> i" "\<sigma> i'"] D(7,8) by simp
    then show "i = i'" using inj_onD [OF D(6)] \<open>i \<in> _\<close> \<open>i' \<in> _\<close> by blast
  qed
  show "frame (page_at mm' i j) < frame_count mm' \<and> frames mm' ! frame (page_at mm' i j)"
    if "slot mm' i j" "present (page_at mm' i j)" for i j
    using mm_okD(7,8) [OF ok D(10) [OF that]] D(11) [OF that] that(2) by (simp add: D(1,2))
  show "i = i' \<and> j = j'" if "slot mm' i j" "slot mm' i' j'" "present (page_at mm' i j)" "present (page_at mm' i' j')"
    "frame (page_at mm' i j) = frame (page_at mm' i' j')" for i j i' j'
  proof -
    have "\<sigma> i = \<sigma> i' \<and> j = j'"
      using mm_okD(9) [OF ok D(10) [OF that(1,3)] D(10) [OF that(2,4)]] that D(11) [OF that(1,3)] D(11) [OF that(2,4)] by simp
    then show ?thesis using inj_onD [OF D(6), of i i'] slotD(1) [OF that(1)] slotD(1) [OF that(2)] by simp
  qed
qed (use mm_okD(1-4) [OF ok] dropsD [OF d] in simp_all)

lemma drops_cached:
  assumes d: "drops \<sigma> mm mm'" and ke: "keeps_others k \<sigma> mm mm'" and ok: "mm_ok mm" and ne: "(f, t) \<noteq> k"
  shows "cached mm' f t j = cached mm f t j"
proof -
  note D = dropsD [OF d] and ok' = drops_ok [OF d ok]
  have "cached mm' f t j = Some fr \<longleftrightarrow> cached mm f t j = Some fr" for fr
  proof
    assume "cached mm' f t j = Some fr"
    then obtain i where "slot mm' i j" "key_at mm' i = (f, t)" "present (page_at mm' i j)" "frame (page_at mm' i j) = fr"
      using cached_Some_iff [OF ok'] by blast
    then show "cached mm f t j = Some fr"
      using cached_Some_iff [OF ok] D(8) [of i] D(10,11) [of i j] slotD(1) [of mm' i j] by auto
  next
    assume "cached mm f t j = Some fr"
    then obtain i where i: "slot mm i j" "key_at mm i = (f, t)" "present (page_at mm i j)" "frame (page_at mm i j) = fr"
      using cached_Some_iff [OF ok] by blast
    have "key_at mm i \<noteq> k" using i(2) ne by simp
    with ke i(1,3) obtain i' where "\<sigma> i' = i" "slot mm' i' j" "page_at mm' i' j = page_at mm i j"
      unfolding keeps_others_def by blast
    with i show "cached mm' f t j = Some fr"
      using cached_Some_iff [OF ok'] D(8) [of i'] slotD(1) [of mm' i' j] by auto
  qed
  then show ?thesis by (cases "cached mm f t j") auto
qed

text \<open>
  Storage changes and pages are dropped: the invariant is kept if the clean pages that remain
  still have their blocks, and other File:Tags look the same if their blocks do.
\<close>

lemma drops_inv:
  assumes wi: "worker_inv g mm s" and d: "drops \<sigma> mm mm'" and n: "net_ok g s'"
    and keep: "\<And>i j b. slot mm' i j \<Longrightarrow> present (page_at mm' i j) \<Longrightarrow> \<not> dirty (page_at mm' i j) \<Longrightarrow>
      net_content s (fst (key_at mm' i)) (snd (key_at mm' i)) j = Some b \<Longrightarrow>
      net_content s' (fst (key_at mm' i)) (snd (key_at mm' i)) j = Some b"
  shows "worker_inv g mm' s'"
proof -
  note D = dropsD [OF d]
  have ok: "mm_ok mm" and co: "coherent net_content mm s" and ps: "mm_page_size mm = block_size g"
    using wi by (simp_all add: worker_inv_def)
  have "coherent net_content mm' s'"
    unfolding coherent_def
  proof (intro allI impI)
    fix i j assume p: "slot mm' i j" "present (page_at mm' i j)" "\<not> dirty (page_at mm' i j)"
    have "net_content s (fst (key_at mm' i)) (snd (key_at mm' i)) j = Some (frame_bytes mm (frame (page_at mm' i j)))"
      using co D(10,11) [OF p(1,2)] D(8) [OF slotD(1) [OF p(1)]] p(2,3) by (simp add: coherent_def)
    from keep [OF p this]
    show "net_content s' (fst (key_at mm' i)) (snd (key_at mm' i)) j = Some (frame_bytes mm' (frame (page_at mm' i j)))"
      by (simp add: frame_bytes_def D(3,4))
  qed
  then show ?thesis using drops_ok [OF d ok] n ps D(3) by (simp add: worker_inv_def)
qed

lemma drops_seen:
  assumes wi: "worker_inv g mm s" and d: "drops \<sigma> mm mm'" and ke: "keeps_others k \<sigma> mm mm'" and ne: "(f, t) \<noteq> k"
    and c: "\<And>b. net_content s' f t b = net_content s f t b"
  shows "seen mm' s' f t x = seen mm s f t x"
proof -
  have ok: "mm_ok mm" using wi by (simp add: worker_inv_def)
  have fb: "frame_bytes mm' = frame_bytes mm" by (simp add: fun_eq_iff frame_bytes_def dropsD(3,4) [OF d])
  show ?thesis
    unfolding vbyte_def vcontent_def drops_cached [OF d ke ok ne] c dropsD(3) [OF d] fb ..
qed

subsection \<open>The two operations that drop pages\<close>

lemma remove_drops:
  assumes ok: "mm_ok mm" and h: "mm_find_page_table mm f t = Some a"
  defines "mm' \<equiv> mm_remove_page_table mm f t" and "\<sigma> \<equiv> \<lambda>i. if i = a then length (mm_entries mm) - 1 else i"
  shows "drops \<sigma> mm mm'" and "keeps_others (f, t) \<sigma> mm mm'" and "mm_find_page_table mm' f t = None" and "policy mm' = policy mm"
proof -
  let ?n = "length (mm_entries mm)"
  have a: "a < ?n" "key_at mm a = (f, t)" using h mm_find_page_table_eq [OF ok] by auto
  have e: "mm_entries mm' = butlast ((mm_entries mm)[a := last (mm_entries mm)])" and
    fl: "frames mm' = frames mm" "frame_count mm' = frame_count mm" "mm_page_size mm' = mm_page_size mm"
    "physical_memory mm' = physical_memory mm" "clock_pointer mm' = clock_pointer mm" "policy mm' = policy mm"
    by (simp_all add: mm'_def mm_remove_page_table_def h)
  have n: "length (mm_entries mm') = ?n - 1" by (simp add: e)
  have ne: "mm_entries mm \<noteq> []" using a(1) by auto
  have nth: "mm_entries mm' ! i = mm_entries mm ! \<sigma> i" if "i < ?n - 1" for i
    using that last_conv_nth [OF ne] by (simp add: e nth_butlast nth_list_update \<sigma>_def)
  have si: "\<sigma> i < ?n" if "i < ?n - 1" for i using that a(1) by (auto simp: \<sigma>_def)
  have pt: "mm_pt mm' i = mm_pt mm (\<sigma> i)" "key_at mm' i = key_at mm (\<sigma> i)" if "i < ?n - 1" for i
    using nth [OF that] by (simp_all add: mm_pt_def key_at_def)
  have sl: "slot mm (\<sigma> i) j \<and> page_at mm (\<sigma> i) j = page_at mm' i j" if "slot mm' i j" for i j
    using that pt [of i] si [of i] by (auto simp: slot_def page_at_def n)
  show d: "drops \<sigma> mm mm'"
    unfolding drops_def
  proof (intro conjI allI impI)
    show "inj_on \<sigma> {..<length (mm_entries mm')}"
      unfolding inj_on_def n \<sigma>_def by (intro ballI impI) (simp split: if_splits)
    fix i assume i: "i < length (mm_entries mm')"
    show "pt_ok (mm_pt mm' i)" using i pt [of i] si [of i] mm_okD(6) [OF ok, of "\<sigma> i"] by (simp add: n)
    show "\<sigma> i < ?n" using si i by (simp only: n)
    show "key_at mm' i = key_at mm (\<sigma> i)" using pt(2) i by (simp only: n)
  qed (use fl sl in simp_all)
  have \<tau>: "\<exists>i'. \<sigma> i' = i \<and> i' < ?n - 1" if "i < ?n" "i \<noteq> a" for i
  proof (cases "i = ?n - 1")
    case True
    with that a(1) show ?thesis by (intro exI [of _ a]) (simp add: \<sigma>_def)
  next
    case False
    with that show ?thesis by (intro exI [of _ i]) (simp add: \<sigma>_def)
  qed
  show "keeps_others (f, t) \<sigma> mm mm'"
    unfolding keeps_others_def
  proof (intro allI impI)
    fix i j assume s: "slot mm i j" and "key_at mm i \<noteq> (f, t)"
    then have "i < ?n" "i \<noteq> a" using a(2) slotD(1) by auto
    with \<tau> obtain i' where i': "\<sigma> i' = i" "i' < ?n - 1" by blast
    with pt [of i'] s show "\<exists>i'. \<sigma> i' = i \<and> slot mm' i' j \<and> page_at mm' i' j = page_at mm i j"
      by (intro exI [of _ i']) (auto simp: slot_def page_at_def n)
  qed
  have "key_at mm' i \<noteq> (f, t)" if "i < length (mm_entries mm')" for i
  proof
    assume "key_at mm' i = (f, t)"
    then have k: "key_at mm (\<sigma> i) = key_at mm a" using pt(2) [of i] that a(2) by (simp only: n)
    have "\<sigma> i = a" by (rule inj_onD [OF mm_okD(5) [OF ok] k]) (use si [of i] that a(1) n in simp_all)
    then show False using that a(1) by (auto simp: \<sigma>_def n split: if_splits)
  qed
  then show "mm_find_page_table mm' f t = None"
    using mm_find_page_table_eq [OF drops_ok [OF d ok], of f t] by (cases "mm_find_page_table mm' f t") auto
  show "policy mm' = policy mm" by (rule fl(6))
qed

lemma resize_drops:
  assumes ok: "mm_ok mm" and n: "0 < n" and r: "mm_resize_page_table mm f t n = (r, mm')"
  shows "drops (\<lambda>i. i) mm mm'" and "keeps_others (f, t) (\<lambda>i. i) mm mm'" and "policy mm' = policy mm"
    and "slot mm' i j \<Longrightarrow> key_at mm' i = (f, t) \<Longrightarrow> j < n"
proof -
  have P: "drops (\<lambda>i. i) mm mm' \<and> keeps_others (f, t) (\<lambda>i. i) mm mm' \<and> policy mm' = policy mm \<and>
    (\<forall>i j. slot mm' i j \<longrightarrow> key_at mm' i = (f, t) \<longrightarrow> j < n)"
  proof (cases "mm_find_page_table mm f t")
    case None
    have "key_at mm i \<noteq> (f, t)" if "i < length (mm_entries mm)" for i
      using None that mm_find_page_table_eq [OF ok, of f t i] by auto
    then show ?thesis using None r drops_refl(1) [OF ok] drops_refl(2) by (auto simp: mm_resize_page_table_def slot_def)
  next
    case (Some a)
    have a: "a < length (mm_entries mm)" "key_at mm a = (f, t)" using Some mm_find_page_table_eq [OF ok] by auto
    have ptok: "pt_ok (mm_pt mm a)" using mm_okD(6) [OF ok a(1)] .
    obtain pt where pt: "pt_resize (mm_pt mm a) n = (r, pt)" "mm' = set_pt mm a pt"
      using r Some by (auto simp: mm_resize_page_table_def split: prod.splits)
    have pc: "page_count pt = n" using pt(1) n by (auto simp: pt_resize_def split: if_splits)
    have len: "length (entries (mm_pt mm a)) = page_count (mm_pt mm a)" using pt_okD(1) [OF ptok] .
    have ent: "entries pt ! j = (if j < page_count (mm_pt mm a) then entries (mm_pt mm a) ! j else blank_entry j)" if "j < n" for j
      using that pt(1) n len by (auto simp: pt_resize_def nth_append min_def split: if_splits)
    have pok: "pt_ok pt" using pt_resize_ok [OF ptok, of n] pt(1) by simp
    have key: "key_at mm' i = key_at mm i" for i by (simp add: pt(2))
    have at: "mm_pt mm' i = (if i = a then pt else mm_pt mm i)" for i using mm_pt_set_pt [OF a(1)] by (simp add: pt(2))
    have "drops (\<lambda>i. i) mm mm'"
      using mm_okD(6) [OF ok] pok
      by (auto simp: drops_def pt(2) at [unfolded pt(2)] slot_def page_at_def ent pc blank_entry_def split: if_splits)
    moreover have "keeps_others (f, t) (\<lambda>i. i) mm mm'"
      using a(2) by (auto simp: keeps_others_def slot_def page_at_def at pt(2) at [unfolded pt(2)] split: if_splits)
    moreover have "j < n" if "slot mm' i j" "key_at mm' i = (f, t)" for i j
    proof -
      have "i = a" using that a key inj_onD [OF mm_okD(5) [OF ok], of i a] slotD(1) [OF that(1)] by (simp add: pt(2))
      then show ?thesis using slotD(2) [OF that(1)] at pc by simp
    qed
    ultimately show ?thesis by (simp add: pt(2))
  qed
  then show "drops (\<lambda>i. i) mm mm'" and "keeps_others (f, t) (\<lambda>i. i) mm mm'" and "policy mm' = policy mm"
    and "slot mm' i j \<Longrightarrow> key_at mm' i = (f, t) \<Longrightarrow> j < n" by blast+
qed

subsection \<open>Requests that change the filesystem\<close>

text \<open>The Worker stays sound and sees the same of every File:Tag outside \<open>ks\<close>.\<close>

definition confined :: "storage_env \<Rightarrow> (string \<times> string) set \<Rightarrow> memory_manager_t \<Rightarrow> storage_state net \<Rightarrow>
    memory_manager_t \<Rightarrow> storage_state net \<Rightarrow> bool" where
  "confined g ks mm s mm' s' \<longleftrightarrow> worker_inv g mm' s' \<and>
     (\<forall>f t x. (f, t) \<notin> ks \<longrightarrow> seen mm' s' f t x = seen mm s f t x)"

lemma confinedI:
  assumes wi: "worker_inv g mm (st, out)" and d: "drops \<sigma> mm mm'" "keeps_others (f, t) \<sigma> mm mm'"
    and ok: "fs_ok g fs1" and sp: "spares (f, t) (st_fs st) fs1"
    and keep: "\<And>i j b. slot mm' i j \<Longrightarrow> key_at mm' i = (f, t) \<Longrightarrow> content (st_fs st) f t j = Some b \<Longrightarrow>
      content fs1 f t j = Some b"
  shows "confined g {(f, t)} mm (st, out) mm' (st\<lparr>st_fs := fs1\<rparr>, out')"
proof -
  let ?s' = "(st\<lparr>st_fs := fs1\<rparr>, out')"
  have c: "net_content ?s' f' t' b = net_content (st, out) f' t' b" if "(f', t') \<noteq> (f, t)" for f' t' b
    using spares_content [OF sp that] by (simp add: net_content_def)
  have n: "net_ok g ?s'" using wi ok by (simp add: worker_inv_def net_ok_def)
  have "worker_inv g mm' ?s'"
  proof (rule drops_inv [OF wi d(1) n])
    fix i j b assume p: "slot mm' i j"
      and x: "net_content (st, out) (fst (key_at mm' i)) (snd (key_at mm' i)) j = Some b"
    show "net_content ?s' (fst (key_at mm' i)) (snd (key_at mm' i)) j = Some b"
    proof (cases "key_at mm' i = (f, t)")
      case True
      with keep [OF p True] x show ?thesis by (simp add: net_content_def)
    next
      case False
      with x c [of "fst (key_at mm' i)" "snd (key_at mm' i)"] show ?thesis by simp
    qed
  qed
  moreover have "seen mm' ?s' f' t' x = seen mm (st, out) f' t' x" if "(f', t') \<noteq> (f, t)" for f' t' x
    by (rule drops_seen [OF wi d that c [OF that]])
  ultimately show ?thesis by (simp add: confined_def)
qed

lemma confined_storage:
  assumes wi: "worker_inv g mm (st, out)" and ok: "fs_ok g fs1" and sp: "spares (f, t) (st_fs st) fs1"
    and keep: "\<And>b x. content (st_fs st) f t b = Some x \<Longrightarrow> content fs1 f t b = Some x"
  shows "confined g {(f, t)} mm (st, out) mm (st\<lparr>st_fs := fs1\<rparr>, out')"
proof -
  have "mm_ok mm" using wi by (simp add: worker_inv_def)
  from confinedI [OF wi drops_refl(1) [OF this] drops_refl(2) ok sp keep] show ?thesis by blast
qed

lemma worker_fs: "worker_inv g mm (st, out) \<Longrightarrow> bitarray_ok g \<and> fs_ok g (st_fs st)"
  by (simp add: worker_inv_def net_ok_def)

lemma create_confined:
  assumes wi: "worker_inv g mm (st, out)" and x: "create_file_op (st_fs st) f t = (r, fs1)"
  shows "confined g {(f, t)} mm (st, out) mm (st\<lparr>st_fs := fs1\<rparr>, out')"
proof -
  have ok: "fs_ok g (st_fs st)" using worker_fs [OF wi] by simp
  note C = create_file_ok [OF fs_okD(1) [OF ok] x]
  show ?thesis
  proof (cases "r = 0")
    case True
    then have none: "tag_dirs (st_fs st) (f, t) = None" using C(3) by simp
    have nb: "(f, t) \<noteq> base_tag" using none fs_okD(2) [OF ok] by (auto simp: base_ok_def link_def)
    have "fs_ok g fs1" using C(1) spares_base [OF C(2) nb fs_okD(2) [OF ok]] by (simp add: fs_ok_def)
    moreover have "content (st_fs st) f t b = None" for b by (simp add: content_def meta_def none)
    ultimately show ?thesis using confined_storage [OF wi _ C(2)] by simp
  next
    case False
    with C(4) ok show ?thesis by (intro confined_storage [OF wi]) simp_all
  qed
qed

lemma fork_confined:
  assumes wi: "worker_inv g mm (st, out)" and x: "create_tag (st_fs st) f1 t1 f2 t2 = (r, fs1)"
  shows "confined g {(f2, t2)} mm (st, out) mm (st\<lparr>st_fs := fs1\<rparr>, out')"
proof -
  have ok: "fs_ok g (st_fs st)" using worker_fs [OF wi] by simp
  note C = create_tag_ok(1) [OF ok x]
  have "content fs1 f2 t2 b = Some d" if "content (st_fs st) f2 t2 b = Some d" for b d
  proof -
    have "meta (st_fs st) (f2, t2) \<noteq> None" using that by (auto simp: content_def split: option.splits)
    then have "fs1 = st_fs st" using x by (auto simp: create_tag_def read_file_metadata_meta)
    with that show ?thesis by simp
  qed
  with C show ?thesis by (intro confined_storage [OF wi]) simp_all
qed

lemma delete_confined:
  assumes wi: "worker_inv g mm (st, out)" and x: "delete_tag g (st_fs st) f t = (r, fs1)"
    and mm': "mm' = (if mm_has_page_table mm f t then mm_remove_page_table mm f t else mm)"
  shows "confined g {(f, t)} mm (st, out) mm' (st\<lparr>st_fs := fs1\<rparr>, out')" and "policy mm' = policy mm"
proof -
  have ba: "bitarray_ok g" and ok: "fs_ok g (st_fs st)" using worker_fs [OF wi] by simp_all
  have mok: "mm_ok mm" using wi by (simp add: worker_inv_def)
  note D = delete_tag_ok(1) [OF ba ok x]
  obtain \<sigma> where \<sigma>: "drops \<sigma> mm mm'" "keeps_others (f, t) \<sigma> mm mm'" "mm_find_page_table mm' f t = None" "policy mm' = policy mm"
  proof (cases "mm_find_page_table mm f t")
    case None
    then have "mm' = mm" by (simp add: mm' mm_has_page_table_def)
    then show thesis using that [of "\<lambda>i. i"] drops_refl(1) [OF mok] drops_refl(2) None by simp
  next
    case (Some a)
    then have "mm' = mm_remove_page_table mm f t" by (simp add: mm' mm_has_page_table_def)
    then show thesis using that remove_drops [OF mok Some] by simp
  qed
  have "key_at mm' i \<noteq> (f, t)" if "slot mm' i j" for i j
    using \<sigma>(3) mm_find_page_table_eq [OF drops_ok [OF \<sigma>(1) mok], of f t i] slotD(1) [OF that] by auto
  then show "confined g {(f, t)} mm (st, out) mm' (st\<lparr>st_fs := fs1\<rparr>, out')"
    using D by (intro confinedI [OF wi \<sigma>(1,2)]) blast+
  show "policy mm' = policy mm" by (rule \<sigma>(4))
qed

text \<open>
  A truncation to a positive size below 2 GB, of a File:Tag whose directory has the blocks of
  its metadata.
\<close>

lemma blocks_for_pages:
  assumes "0 < block_size g"
  shows "blocks_for g (int (n * block_size g)) = n"
proof -
  define k where "k = int (block_size g)"
  have k: "0 < k" using assms by (simp add: k_def)
  have "(k - 1 + int n * k) div k = int n + (k - 1) div k" by (rule div_mult_self1) (use k in simp)
  then have "(int n * k + k - 1) div k = int n" using k by (simp add: algebra_simps)
  then show ?thesis by (simp add: blocks_for_def k_def)
qed

lemma truncate_confined:
  assumes wi: "worker_inv g mm (st, out)" and nb: "(f, t) \<noteq> base_tag" and wh: "whole (st_fs st) (f, t)"
    and n: "0 < n" and sz: "n * block_size g < 2 ^ 31"
    and x: "truncate_file g (st_fs st) f t (int (n * block_size g)) = (r, fs1)"
  shows "confined g {(f, t)} mm (st, out) (if r = 0 then snd (mm_resize_page_table mm f t n) else mm) (st\<lparr>st_fs := fs1\<rparr>, out')"
proof -
  have ba: "bitarray_ok g" and ok: "fs_ok g (st_fs st)" and mok: "mm_ok mm"
    using worker_fs [OF wi] wi by (simp_all add: worker_inv_def)
  note T = truncate_ok [OF ba ok nb x]
  show ?thesis
  proof (cases "meta (st_fs st) (f, t)")
    case None
    then have "r \<noteq> 0" "fs1 = st_fs st" using x by (auto simp: truncate_file_def read_file_metadata_meta FILE_TAG_MISSING_def)
    with confined_storage [OF wi, of fs1 f t out'] T show ?thesis by simp
  next
    case (Some m)
    have bs: "0 < block_size g" by (rule base_block_size [OF ok])
    have "0 \<le> int (n * block_size g)" by simp
    from truncate_spec [OF ba ok nb Some wh this] x have r: "r = 0"
      and tr: "truncated g (st_fs st) f t (int (n * block_size g)) fs1" by auto
    obtain r' mm' where rs: "mm_resize_page_table mm f t n = (r', mm')" by (metis surj_pair)
    note R = resize_drops [OF mok n rs]
    have "confined g {(f, t)} mm (st, out) mm' (st\<lparr>st_fs := fs1\<rparr>, out')"
    proof (rule confinedI [OF wi R(1,2)])
      fix i j b assume "slot mm' i j" "key_at mm' i = (f, t)" and c: "content (st_fs st) f t j = Some b"
      then have "j < n" using R(4) by blast
      moreover have "j < length (md_blocks m)" "j < 2 ^ 31" using c Some by (auto simp: content_def split: if_splits)
      ultimately show "content fs1 f t j = Some b"
        using tr Some c blocks_for_pages [OF bs, of n] by (simp add: truncated_def)
    qed (use T in blast)+
    with r rs show ?thesis by simp
  qed
qed

text \<open>
  A commit with an accurate index of hashes, or one that is refused.
\<close>

definition commit_safe :: "storage_env \<Rightarrow> fs \<Rightarrow> string \<Rightarrow> string \<Rightarrow> bool" where
  "commit_safe g fs f t \<longleftrightarrow>
     (\<forall>m. meta fs (f, t) = Some m \<longrightarrow> md_state m \<noteq> COMMITTED \<longrightarrow>
        synced fs (f, t) m \<and> index_ok g fs (blocks_hash_index fs) \<and> no_collision g fs)"

lemma commit_confined:
  assumes wi: "worker_inv g mm (st, out)" and cs: "commit_safe g (st_fs st) f t"
    and x: "execute_tag_commit g (st_fs st) f t = (r, fs1)"
  shows "confined g {} mm (st, out) mm (st\<lparr>st_fs := fs1\<rparr>, out')"
proof -
  have ba: "bitarray_ok g" and ok: "fs_ok g (st_fs st)" using worker_fs [OF wi] by simp_all
  have P: "fs_ok g fs1 \<and> spares (f, t) (st_fs st) fs1 \<and> (\<forall>b. content fs1 f t b = content (st_fs st) f t b)"
  proof (cases "\<exists>m. meta (st_fs st) (f, t) = Some m \<and> md_state m \<noteq> COMMITTED")
    case True
    then obtain m where m: "meta (st_fs st) (f, t) = Some m" "md_state m \<noteq> COMMITTED" by blast
    with cs have "synced (st_fs st) (f, t) m" "index_ok g (st_fs st) (blocks_hash_index (st_fs st))" "no_collision g (st_fs st)"
      by (simp_all add: commit_safe_def)
    from commit_ok [OF ba ok m this] x show ?thesis by auto
  next
    case False
    then have "fs1 = st_fs st" using x
      by (auto simp: execute_tag_commit_def read_file_metadata_meta split: if_splits option.splits)
    with ok show ?thesis by simp
  qed
  then have "confined g {(f, t)} mm (st, out) mm (st\<lparr>st_fs := fs1\<rparr>, out')"
    by (intro confined_storage [OF wi]) simp_all
  moreover have "seen mm (st\<lparr>st_fs := fs1\<rparr>, out') f t x = seen mm (st, out) f t x" for x
    using P by (simp add: vbyte_def vcontent_def net_content_def split: option.split)
  ultimately show ?thesis unfolding confined_def by (metis empty_iff insert_iff prod.inject)
qed

subsection \<open>Instructions on memory\<close>

lemma create_page_table_policy: "policy (snd (mm_create_page_table mm f t)) = policy mm"
  by (simp add: mm_create_page_table_def mm_resize_entries_def Let_def split: option.split)

lemma create_searchable:
  assumes wi: "worker_inv g mm s" and cs: "can_search mm" and c: "mm_create_page_table mm f t = (r, mm1)"
  obtains a where "r = Some a" and "mm_find_page_table mm1 f t = Some a" and "worker_inv g mm1 s" and "can_search mm1"
    and "\<And>f' t' x. seen mm1 s f' t' x = seen mm s f' t' x"
proof -
  have "policy mm1 = policy mm" using create_page_table_policy [of mm f t] c by simp
  then have "can_search mm1" using cs create_page_table_inv(2) [OF wi c] by (auto simp: can_search_def)
  with create_page_table_inv(1,3,4) [OF wi c] that show thesis by blast
qed

lemma write_executes:
  assumes wi: "worker_inv g mm s" and cs: "can_search mm" and ex: "storage_ex c = storage_exchange g cd"
  shows "\<exists>r mm' s'. execute_write c p mm s = Some (r, mm', s') \<and> can_search mm' \<and>
    confined g {(wr_file p, wr_tag p)} mm s mm' s' \<and>
    (r = 0 \<longrightarrow> (\<forall>k < length (wr_data p). seen mm' s' (wr_file p) (wr_tag p) (unat (wr_base p) + k) =
       Some (to_bytes (wr_data p) ! k)))"
proof -
  let ?f = "wr_file p" and ?t = "wr_tag p" and ?b = "unat (wr_base p)" and ?d = "to_bytes (wr_data p)"
  obtain r1 mm1 where c: "mm_create_page_table mm ?f ?t = (r1, mm1)" by (metis surj_pair)
  from create_searchable [OF wi cs c] obtain a where a: "r1 = Some a" "mm_find_page_table mm1 ?f ?t = Some a"
    "worker_inv g mm1 s" "can_search mm1" "\<And>f' t' x. seen mm1 s f' t' x = seen mm s f' t' x" by blast
  have i: "block_store.inv net_content (net_ok g) (block_size g) mm1 s" using a(3) by (simp add: disk_inv)
  obtain r mm' s' where W: "mm_write_to_memory (storage_io g cd (mm_query_id mm1)) mm1 s a ?f ?t ?b ?d = Some (r, mm', s')"
    "can_search mm'" using disk.mm_access_returns(2) [OF i a(2,4)] by blast
  note E = disk.mm_write_ok [OF i a(2) W(1), unfolded disk.wrote_def disk_inv]
  have inv: "worker_inv g mm' s'" by (rule E [THEN conjunct1])
  note same = E [THEN conjunct2, THEN conjunct2, THEN conjunct1]
  have "seen mm' s' f' t' x = seen mm s f' t' x" if "(f', t') \<noteq> (?f, ?t)" for f' t' x
    using same [rule_format, of f' t' x] that a(5) [of f' t' x] by (elim disjE) simp_all
  then have cf: "confined g {(?f, ?t)} mm s mm' s'" using inv by (simp add: confined_def)
  have new: "seen mm' s' ?f ?t (?b + k) = Some (?d ! k)" if "r = 0" "k < length (wr_data p)" for k
    using E [THEN conjunct2, THEN conjunct2, THEN conjunct2, rule_format, OF that(1), of "?b + k"] that(2)
    by (simp add: to_bytes_def)
  have x: "execute_write c p mm s = Some (if r \<noteq> 0 then -1 else 0, mm', s')"
    unfolding execute_write_def c a(1) ex exchange_io_storage prod.case option.case W(1) ..
  show ?thesis
    by (intro exI [of _ "if r \<noteq> 0 then -1 else 0"] exI [of _ mm'] exI [of _ s'] conjI x W(2) cf)
      (use new in simp)
qed

text \<open>The message that carries the bytes read to the Master.\<close>

definition read_message :: "int \<Rightarrow> int \<Rightarrow> bytes \<Rightarrow> string \<Rightarrow> string \<Rightarrow> wire_field list" where
  "read_message worker_id query_id data file tag =
     [F_uint32 (word_of_int worker_id), F_uint32 (word_of_int query_id), F_data data,
      F_string (to_bytes file), F_string (to_bytes tag)]"

lemma send_read_cases:
  assumes "send_read_content_to_master c q data f t w out = (r, out')"
  shows "(r = 0 \<longrightarrow> (\<exists>p. add_fields (package_create_empty OP_WORKER_READ_MESSAGE_REQ) (read_message w q data f t) = (True, p) \<and>
    out' = out @ [p])) \<and> (r \<noteq> 0 \<longrightarrow> out' = out)"
  using assms unfolding send_read_content_to_master_def read_message_def Let_def
  by (auto simp: send_to_master_def simp del: add_fields.simps split: if_splits prod.splits)

lemma out_irrelevant: "worker_inv g mm (st, out) \<longleftrightarrow> worker_inv g mm (st, [])"
  "seen mm (st, out) = seen mm (st, [])"
proof -
  have "coherent net_content mm (st, out) = coherent net_content mm (st, [])" "net_ok g (st, out) = net_ok g (st, [])"
    by (simp_all add: coherent_def net_ok_def net_content_def)
  then show "worker_inv g mm (st, out) \<longleftrightarrow> worker_inv g mm (st, [])" by (simp add: worker_inv_def)
  show "seen mm (st, out) = seen mm (st, [])"
    by (simp add: fun_eq_iff vbyte_def vcontent_def net_content_def split: option.split)
qed

lemma confined_out: "confined g ks mm s mm' (st, out) \<longleftrightarrow> confined g ks mm s mm' (st, [])"
  unfolding confined_def using out_irrelevant(1) [of g mm' st out] out_irrelevant(2) [of mm' st out] by simp

lemma confined_none:
  assumes "worker_inv g mm' s'" and "\<And>f t x. seen mm' s' f t x = seen mm s f t x"
  shows "confined g ks mm s mm' s'"
  using assms by (simp add: confined_def)

lemma read_executes:
  assumes wi: "worker_inv g mm s" and cs: "can_search mm" and ex: "storage_ex c = storage_exchange g cd"
  shows "\<exists>r mm' s'. execute_read c p mm q w s = Some (r, mm', s') \<and> can_search mm' \<and> confined g {} mm s mm' s' \<and>
    (r = 0 \<longrightarrow> (\<exists>data msg out. length data = unat (rd_size p) \<and>
       (\<forall>k < unat (rd_size p). seen mm s (rd_file p) (rd_tag p) (unat (rd_base p) + k) = Some (data ! k)) \<and>
       add_fields (package_create_empty OP_WORKER_READ_MESSAGE_REQ) (read_message w q data (rd_file p) (rd_tag p)) = (True, msg) \<and>
       snd s' = out @ [msg]))"
proof -
  let ?f = "rd_file p" and ?t = "rd_tag p" and ?b = "unat (rd_base p)" and ?n = "unat (rd_size p)"
  obtain r1 mm1 where c: "mm_create_page_table mm ?f ?t = (r1, mm1)" by (metis surj_pair)
  from create_searchable [OF wi cs c] obtain a where a: "r1 = Some a" "mm_find_page_table mm1 ?f ?t = Some a"
    "worker_inv g mm1 s" "can_search mm1" "\<And>f' t' x. seen mm1 s f' t' x = seen mm s f' t' x" by blast
  have tab: "(case mm_find_page_table mm ?f ?t of Some i \<Rightarrow> (Some i, mm) | None \<Rightarrow> mm_create_page_table mm ?f ?t) = (Some a, mm1)"
    using c a(1) by (cases "mm_find_page_table mm ?f ?t") (simp_all add: mm_create_page_table_def)
  have i: "block_store.inv net_content (net_ok g) (block_size g) mm1 s" using a(3) by (simp add: disk_inv)
  obtain r data mm' st' out' where R: "mm_read_from_memory (storage_io g cd (mm_query_id mm1)) mm1 s a ?f ?t ?b ?n = Some (r, data, mm', st', out')"
    "can_search mm'" using disk.mm_access_returns(1) [OF i a(2,4)] by (metis surj_pair)
  note E = disk.mm_read_ok [OF i a(2) R(1)]
  note S = silent_seen [OF E [THEN conjunct1]]
  have cf: "confined g {} mm s mm' (st', o')" for o'
  proof -
    have "confined g {} mm s mm' (st', out')" by (rule confined_none [OF S(1)]) (simp only: S(2) a(5))
    then show ?thesis using confined_out by blast
  qed
  show ?thesis
  proof (cases "PTRDIFF_MAX < ?n \<or> r \<noteq> 0")
    case True
    have early: "confined g {} mm s mm1 s" using a(3,5) by (intro confined_none)
    have "execute_read c p mm q w s = (if PTRDIFF_MAX < ?n then Some (-1, mm1, s) else Some (-1, mm', st', out'))"
      unfolding execute_read_def tab ex exchange_io_storage prod.case option.case R(1) using True by auto
    then show ?thesis using True early cf [of out'] a(4) R(2) by (cases "PTRDIFF_MAX < ?n") simp_all
  next
    case False
    obtain rs o' where sd: "send_read_content_to_master c q data ?f ?t w out' = (rs, o')" by (metis surj_pair)
    have x: "execute_read c p mm q w s = Some (if rs \<noteq> 0 then -1 else 0, mm', st', o')"
      unfolding execute_read_def tab ex exchange_io_storage prod.case option.case R(1) sd using False by simp
    have dat: "length data = ?n \<and> (\<forall>k < ?n. seen mm s ?f ?t (?b + k) = Some (data ! k))"
      using E [THEN conjunct2] False a(5) by simp
    show ?thesis
      by (intro exI [of _ "if rs \<noteq> 0 then -1 else 0"] exI [of _ mm'] exI [of _ "(st', o')"] conjI x R(2) cf)
        (use dat send_read_cases [OF sd] in \<open>auto simp del: add_fields.simps\<close>)
  qed
qed

lemma flush_executes:
  assumes wi: "worker_inv g mm s" and fl: "mm_flush_query (storage_io g cd q) mm s f t = (r, mm', s')"
  shows "confined g {} mm s mm' s'" and "can_search mm \<Longrightarrow> can_search mm'"
proof -
  have i: "block_store.inv net_content (net_ok g) (block_size g) mm s" using wi by (simp add: disk_inv)
  have "confined g {} mm s mm' s' \<and> (can_search mm \<longrightarrow> can_search mm')"
  proof (cases "mm_find_page_table mm f t")
    case None
    then have "mm' = mm" "s' = s" using fl by (auto simp: mm_flush_query_def mm_get_dirty_pages_def split: if_splits)
    then show ?thesis using confined_none [OF wi] by blast
  next
    case (Some a)
    note F = disk.flush_query_ok [OF i Some fl]
    have p: "policy mm' = policy mm" by (rule same_shapeD(4) [OF disk.silentD(2) [OF F [THEN conjunct1]]])
    have "confined g {} mm s mm' s'"
      by (rule confined_none) (rule silent_seen [OF F [THEN conjunct1]])+
    with F p show ?thesis by (auto simp: can_search_def)
  qed
  then show "confined g {} mm s mm' s'" and "can_search mm \<Longrightarrow> can_search mm'" by blast+
qed

lemma confined_trans:
  "confined g ks mm s mm1 s1 \<Longrightarrow> confined g ks mm1 s1 mm2 s2 \<Longrightarrow> confined g ks mm s mm2 s2"
  by (simp add: confined_def)

subsection \<open>Properties\<close>

text \<open>The File:Tag an instruction may change.\<close>

fun changed :: "operation_t \<Rightarrow> instruction_params \<Rightarrow> (string \<times> string) set" where
  "changed CREATE (P_file_tag p) = {(ft_file p, ft_tag p)}"
| "changed DELETE (P_file_tag p) = {(ft_file p, ft_tag p)}"
| "changed TRUNCATE (P_truncate p) = {(tr_file p, tr_tag p)}"
| "changed WRITE (P_write p) = {(wr_file p, wr_tag p)}"
| "changed TAG (P_tag p) = {(file_dst p, tag_dst p)}"
| "changed _ _ = {}"

text \<open>
  The names of an instruction fit the protocol; a truncation is not of \<^verbatim>\<open>initial_file:BASE\<close>,
  of a File:Tag whose directory agrees with its metadata, to a positive size below 2 GB; a
  commit finds, after its flush, an accurate index of hashes.
\<close>

fun request_safe :: "storage_env \<Rightarrow> t_client_data \<Rightarrow> operation_t \<Rightarrow> instruction_params \<Rightarrow>
    memory_manager_t \<Rightarrow> storage_state net \<Rightarrow> bool" where
  "request_safe g cd COMMIT (P_file_tag p) mm s \<longleftrightarrow> wire_name (ft_file p) \<and> wire_name (ft_tag p) \<and>
     (\<forall>mm1 s1. mm_flush_query (storage_io g cd (mm_query_id mm)) mm s (ft_file p) (ft_tag p) = (0, mm1, s1) \<longrightarrow>
        commit_safe g (st_fs (fst s1)) (ft_file p) (ft_tag p))"
| "request_safe g cd op (P_file_tag p) mm s \<longleftrightarrow> wire_name (ft_file p) \<and> wire_name (ft_tag p)"
| "request_safe g cd op (P_truncate p) mm s \<longleftrightarrow> wire_name (tr_file p) \<and> wire_name (tr_tag p) \<and>
     (tr_file p, tr_tag p) \<noteq> base_tag \<and> whole (st_fs (fst s)) (tr_file p, tr_tag p) \<and>
     0 < unat (tr_size p) \<and> unat (tr_size p) < 2 ^ 31"
| "request_safe g cd op (P_tag p) mm s \<longleftrightarrow> wire_name (file_src p) \<and> wire_name (tag_src p) \<and>
     wire_name (file_dst p) \<and> wire_name (tag_dst p)"
| "request_safe g cd op _ mm s \<longleftrightarrow> True"

lemma file_tag_executes:
  assumes wi: "worker_inv g mm s" and cs: "can_search mm" and ex: "storage_ex c = storage_exchange g cd"
    and op: "operation i \<in> {CREATE, COMMIT, FLUSH, DELETE}" and pa: "params i = P_file_tag p"
    and safe: "request_safe g cd (operation i) (params i) mm s"
  shows "\<exists>r mm' s'. execute_instruction c i mm q w s = Some (r, mm', s') \<and>
    (can_search mm' \<or> operation i = DELETE) \<and> confined g (changed (operation i) (params i)) mm s mm' s'"
proof -
  let ?f = "ft_file p" and ?t = "ft_tag p"
  obtain st out where s: "s = (st, out)" by (metis surj_pair)
  note wi' = wi [unfolded s]
  have nm: "wire_name ?f" "wire_name ?t" using safe op pa by auto
  consider "operation i = CREATE" | "operation i = COMMIT" | "operation i = FLUSH" | "operation i = DELETE"
    using op by blast
  then show ?thesis
  proof cases
    case 1
    obtain r fs1 where x: "create_file_op (st_fs st) ?f ?t = (r, fs1)" by (metis surj_pair)
    from create_client [OF nm x, of g cd q out] obtain out' where
      e: "create_file_in_storage (storage_exchange g cd) q ?f ?t (st, out) = (acked r, st\<lparr>st_fs := fs1\<rparr>, out')" by blast
    from create_confined [OF wi' x, of out'] 1 cs pa show ?thesis
      by (simp add: execute_instruction_def ex e of_request_def s)
  next
    case 2
    obtain fr mm1 s1 where fl: "mm_flush_query (storage_io g cd (mm_query_id mm)) mm s ?f ?t = (fr, mm1, s1)" by (metis surj_pair)
    note F = flush_executes [OF wi fl]
    show ?thesis
    proof (cases "fr = 0")
      case True
      obtain st1 out1 where s1: "s1 = (st1, out1)" by (metis surj_pair)
      have cs1: "commit_safe g (st_fs st1) ?f ?t" using safe 2 pa fl True s1 by auto
      obtain r fs1 where x: "execute_tag_commit g (st_fs st1) ?f ?t = (r, fs1)" by (metis surj_pair)
      from commit_client [OF nm x, of cd q out1] obtain out' where
        e: "commit_file_in_storage (storage_exchange g cd) ?f ?t q (st1, out1) = (acked r, st1\<lparr>st_fs := fs1\<rparr>, out')" by blast
      have wi1: "worker_inv g mm1 (st1, out1)" using F(1) s1 by (simp add: confined_def)
      have "confined g {} mm s mm1 (st1\<lparr>st_fs := fs1\<rparr>, out')"
        using confined_trans [OF F(1) [unfolded s1] commit_confined [OF wi1 cs1 x]] .
      then show ?thesis using 2 F(2) [OF cs] pa fl True s1 e
        by (simp add: execute_instruction_def execute_commit_def ex exchange_io_storage of_request_def)
    next
      case False
      then show ?thesis using 2 F(1) F(2) [OF cs] pa fl
        by (simp add: execute_instruction_def execute_commit_def ex exchange_io_storage)
    qed
  next
    case 3
    obtain fr mm1 s1 where fl: "mm_flush_query (storage_io g cd (mm_query_id mm)) mm s ?f ?t = (fr, mm1, s1)" by (metis surj_pair)
    show ?thesis using 3 flush_executes [OF wi fl] cs pa fl
      by (simp add: execute_instruction_def execute_flush_def ex exchange_io_storage)
  next
    case 4
    obtain r fs1 where x: "delete_tag g (st_fs st) ?f ?t = (r, fs1)" by (metis surj_pair)
    from delete_client [OF nm x, of cd q out] obtain out' where
      e: "delete_file_in_storage (storage_exchange g cd) ?f ?t q (st, out) = (acked r, st\<lparr>st_fs := fs1\<rparr>, out')" by blast
    from delete_confined(1) [OF wi' x refl, of out'] 4 pa show ?thesis
      by (simp add: execute_instruction_def execute_delete_def ex e of_request_def s)
  qed
qed

lemma truncate_executes:
  assumes wi: "worker_inv g mm s" and ex: "storage_ex c = storage_exchange g cd"
    and safe: "request_safe g cd TRUNCATE (P_truncate p) mm s"
  shows "\<exists>r mm' s'. execute_truncate c p mm q s = Some (r, mm', s') \<and>
    confined g {(tr_file p, tr_tag p)} mm s mm' s'"
proof (cases "unat (tr_size p) mod mm_page_size mm = 0")
  case False
  then show ?thesis using confined_none [OF wi refl] by (simp add: execute_truncate_def)
next
  case True
  let ?f = "tr_file p" and ?t = "tr_tag p" and ?sz = "unat (tr_size p)"
  define n where "n = ?sz div mm_page_size mm"
  have ps: "mm_page_size mm = block_size g" using wi by (simp add: worker_inv_def)
  have nm: "wire_name ?f" "wire_name ?t" and nb: "(?f, ?t) \<noteq> base_tag" and sz: "0 < ?sz" "?sz < 2 ^ 31"
    and wh: "whole (st_fs (fst s)) (?f, ?t)" using safe by simp_all
  have szn: "?sz = n * block_size g" using True ps by (auto simp: n_def)
  have n0: "0 < n" using sz(1) szn by (cases n) simp_all
  have "n \<le> ?sz" by (simp add: n_def)
  then have nw: "unat (word_of_nat n :: u32) = n" using sz(2) by (intro sint32_small(1)) simp
  obtain st out where s: "s = (st, out)" by (metis surj_pair)
  obtain r fs1 where x: "truncate_file g (st_fs st) ?f ?t (int (n * block_size g)) = (r, fs1)" by (metis surj_pair)
  have x': "truncate_file g (st_fs st) ?f ?t (sint (word_of_nat ?sz :: u32)) = (r, fs1)"
    using x sint32_small(2) [OF sz(2)] szn by simp
  from truncate_client [OF nm x', of cd q out] obtain out' where
    e: "truncate_file_in_storage (storage_exchange g cd) ?f ?t ?sz q (st, out) = (acked r, st\<lparr>st_fs := fs1\<rparr>, out')" by blast
  have C: "confined g {(?f, ?t)} mm (st, out) (if r = 0 then snd (mm_resize_page_table mm ?f ?t n) else mm) (st\<lparr>st_fs := fs1\<rparr>, out')"
    using truncate_confined [OF wi [unfolded s] nb _ n0 _ x] wh sz(2) s szn by simp
  have none: "snd (mm_resize_page_table mm ?f ?t n) = mm" if "mm_find_page_table mm ?f ?t = None"
    using that by (simp add: mm_resize_page_table_def)
  have "execute_truncate c p mm q s =
      Some (acked r, if r = 0 then snd (mm_resize_page_table mm ?f ?t n) else mm, st\<lparr>st_fs := fs1\<rparr>, out')"
    unfolding execute_truncate_def ex s e Let_def prod.case n_def [symmetric] nw
    using True none by (auto simp: acked_def)
  with C s show ?thesis by blast
qed

text \<open>
  C2: What an instruction does to a Worker and its Storage. From a sound state, as long as
  LRU is the policy or every used frame holds a page, executing any well-formed instruction
  whose request is safe returns; the invariant holds again, and of every File:Tag but the one
  the instruction names as its target every query still sees the same bytes. A successful
  WRITE makes its range show the data; a successful READ sends the Master the bytes that are
  seen at its range; only TRUNCATE and DELETE, which drop pages, may lose track of a frame.
\<close>

theorem instruction_effect:
  assumes wi: "worker_inv g mm s" and cs: "policy mm = LRU \<or> no_leak mm"
    and fit: "params_fit (operation i) (params i)" and ex: "storage_ex c = storage_exchange g cd"
    and safe: "request_safe g cd (operation i) (params i) mm s"
  shows "\<exists>r mm' s'. execute_instruction c i mm q w s = Some (r, mm', s') \<and> worker_inv g mm' s' \<and>
    (policy mm' = LRU \<or> no_leak mm' \<or> operation i \<in> {TRUNCATE, DELETE}) \<and>
    (\<forall>f t x. (f, t) \<notin> changed (operation i) (params i) \<longrightarrow> seen mm' s' f t x = seen mm s f t x) \<and>
    (\<forall>p. params i = P_write p \<longrightarrow> r = 0 \<longrightarrow> (\<forall>k < length (wr_data p).
       seen mm' s' (wr_file p) (wr_tag p) (unat (wr_base p) + k) = Some (to_bytes (wr_data p) ! k))) \<and>
    (\<forall>p. params i = P_read p \<longrightarrow> r = 0 \<longrightarrow> (\<exists>data msg out. length data = unat (rd_size p) \<and>
       (\<forall>k < unat (rd_size p). seen mm s (rd_file p) (rd_tag p) (unat (rd_base p) + k) = Some (data ! k)) \<and>
       add_fields (package_create_empty OP_WORKER_READ_MESSAGE_REQ) (read_message w q data (rd_file p) (rd_tag p)) = (True, msg) \<and>
       snd s' = out @ [msg]))"
proof -
  have cs': "can_search mm" using cs by (simp add: can_search_def)
  obtain st out where s: "s = (st, out)" by (metis surj_pair)
  from fit show ?thesis
  proof (cases rule: fit_cases)
    case (file_tag p)
    from file_tag_executes [OF wi cs' ex file_tag safe, of q w] show ?thesis
      using file_tag by (fastforce simp: confined_def can_search_def simp del: add_fields.simps)
  next
    case (truncating p)
    from truncate_executes [OF wi ex, of p q] safe truncating show ?thesis
      by (fastforce simp: execute_instruction_def confined_def simp del: add_fields.simps)
  next
    case (writing p)
    from write_executes [OF wi cs' ex, of p] writing show ?thesis
      by (fastforce simp: execute_instruction_def confined_def can_search_def simp del: add_fields.simps)
  next
    case (reading p)
    from read_executes [OF wi cs' ex, of p q w] obtain r mm' s' where R:
      "execute_read c p mm q w s = Some (r, mm', s')" "can_search mm'" "confined g {} mm s mm' s'"
      "r = 0 \<longrightarrow> (\<exists>data msg out. length data = unat (rd_size p) \<and>
       (\<forall>k < unat (rd_size p). seen mm s (rd_file p) (rd_tag p) (unat (rd_base p) + k) = Some (data ! k)) \<and>
       add_fields (package_create_empty OP_WORKER_READ_MESSAGE_REQ) (read_message w q data (rd_file p) (rd_tag p)) = (True, msg) \<and>
       snd s' = out @ [msg])" by blast
    have "execute_instruction c i mm q w s = Some (r, mm', s')" using R(1) reading by (simp add: execute_instruction_def)
    with R(2-4) reading show ?thesis
      by (intro exI [of _ r] exI [of _ mm'] exI [of _ s']) (simp add: confined_def can_search_def del: add_fields.simps)
  next
    case (tagging p)
    obtain r fs1 where x: "create_tag (st_fs st) (file_src p) (tag_src p) (file_dst p) (tag_dst p) = (r, fs1)" by (metis surj_pair)
    have nm: "wire_name (file_src p)" "wire_name (tag_src p)" "wire_name (file_dst p)" "wire_name (tag_dst p)"
      using safe tagging by simp_all
    from fork_client [OF nm x, of g cd q out] obtain out' where
      e: "fork_file_in_storage (storage_exchange g cd) (file_src p) (tag_src p) (file_dst p) (tag_dst p) q (st, out) =
        (acked r, st\<lparr>st_fs := fs1\<rparr>, out')" by blast
    from fork_confined [OF wi [unfolded s] x, of out'] cs tagging show ?thesis
      by (simp add: execute_instruction_def ex e of_request_def s confined_def)
  next
    case ending
    have "confined g {} mm s mm (st, o')" for o'
      using confined_none [OF wi refl] confined_out [of g "{}" mm s mm st] s by blast
    then show ?thesis using ending cs s by (simp add: execute_instruction_def confined_def)
  qed
qed

definition demo_conn :: "storage_state conn" where
  "demo_conn = \<lparr>storage_ex = storage_exchange demo_env demo_client, socket_master = 4, master_accepts = (\<lambda>p. True)\<rparr>"

definition demo_write :: instruction_t where
  "demo_write = \<lparr>operation = WRITE, params = P_write \<lparr>wr_file = ''a'', wr_tag = ''v1'', wr_base = 2, wr_data = ''XY''\<rparr>\<rparr>"

theorem instruction_effect_witness:
  "\<exists>r mm' s'. execute_instruction demo_conn demo_write (demo_mm LRU) 7 1 demo_net = Some (r, mm', s') \<and>
    worker_inv demo_env mm' s' \<and>
    (r = 0 \<longrightarrow> seen mm' s' ''a'' ''v1'' 3 = Some (to_bytes ''XY'' ! 1)) \<and>
    seen mm' s' ''b'' ''v1'' 0 = seen (demo_mm LRU) demo_net ''b'' ''v1'' 0"
proof -
  let ?p = "\<lparr>wr_file = ''a'', wr_tag = ''v1'', wr_base = 2, wr_data = ''XY''\<rparr>"
  have pa: "operation demo_write = WRITE" "params demo_write = P_write ?p" by (simp_all add: demo_write_def)
  have p: "policy (demo_mm LRU) = LRU \<or> no_leak (demo_mm LRU)" using demo_mm_ok(2) by simp
  have f: "params_fit (operation demo_write) (params demo_write)" by (simp add: pa)
  have e: "storage_ex demo_conn = storage_exchange demo_env demo_client" by (simp add: demo_conn_def)
  have r: "request_safe demo_env demo_client (operation demo_write) (params demo_write) (demo_mm LRU) demo_net" by (simp add: pa)
  from instruction_effect [OF demo_mm_ok(1) p f e r, of 7 1] obtain r mm' s' where
    R: "execute_instruction demo_conn demo_write (demo_mm LRU) 7 1 demo_net = Some (r, mm', s')" "worker_inv demo_env mm' s'"
    "\<forall>f t x. (f, t) \<notin> changed (operation demo_write) (params demo_write) \<longrightarrow>
       seen mm' s' f t x = seen (demo_mm LRU) demo_net f t x"
    "\<forall>p. params demo_write = P_write p \<longrightarrow> r = 0 \<longrightarrow> (\<forall>k < length (wr_data p).
       seen mm' s' (wr_file p) (wr_tag p) (unat (wr_base p) + k) = Some (to_bytes (wr_data p) ! k))"
    by (elim exE conjE)
  have "seen mm' s' ''b'' ''v1'' 0 = seen (demo_mm LRU) demo_net ''b'' ''v1'' 0" using R(3) by (simp add: pa)
  moreover have "r = 0 \<longrightarrow> seen mm' s' ''a'' ''v1'' 3 = Some (to_bytes ''XY'' ! 1)"
    using R(4) [rule_format, OF pa(2), of 1] by simp
  ultimately show ?thesis using R(1,2) by blast
qed

text \<open>
  Truncating a File:Tag to nothing leaves its pages in memory. The request succeeds and
  the File:Tag has no block left in Storage, but a page table is not resized to 0 pages and
  the result of the resize is ignored: the memory manager is as before, and every byte of a
  page in memory is still read as it was. With a clean page among them the Worker is no
  longer coherent with Storage.
\<close>

theorem truncate_to_zero_keeps_pages:
  assumes wi: "worker_inv g mm s" and ex: "storage_ex c = storage_exchange g cd"
    and nm: "wire_name f" "wire_name t" and nb: "(f, t) \<noteq> base_tag"
    and m: "meta (st_fs (fst s)) (f, t) = Some m" and wh: "whole (st_fs (fst s)) (f, t)"
    and i: "i = \<lparr>operation = TRUNCATE, params = P_truncate \<lparr>tr_file = f, tr_tag = t, tr_size = 0\<rparr>\<rparr>"
  shows "\<exists>s'. execute_instruction c i mm q w s = Some (0, mm, s') \<and> (\<forall>b. net_content s' f t b = None) \<and>
    (\<forall>x. cached mm f t (x div mm_page_size mm) \<noteq> None \<longrightarrow> seen mm s' f t x = seen mm s f t x \<and> seen mm s' f t x \<noteq> None) \<and>
    (\<forall>a j. slot mm a j \<and> key_at mm a = (f, t) \<and> present (page_at mm a j) \<and> \<not> dirty (page_at mm a j) \<longrightarrow>
       \<not> worker_inv g mm s')"
proof -
  obtain st out where s: "s = (st, out)" by (metis surj_pair)
  have ba: "bitarray_ok g" and ok: "fs_ok g (st_fs st)" using worker_fs [OF wi [unfolded s]] by simp_all
  have bs: "0 < block_size g" by (rule base_block_size [OF ok])
  obtain fs1 where x: "truncate_file g (st_fs st) f t 0 = (0, fs1)" "truncated g (st_fs st) f t 0 fs1"
    using truncate_spec [OF ba ok nb m [unfolded s fst_conv] wh [unfolded s fst_conv], of 0] by blast
  have "blocks_for g 0 = 0" using blocks_for_pages [OF bs, of 0] by simp
  then have none: "content fs1 f t b = None" for b using x(2) m s by (simp add: truncated_def)
  have x': "truncate_file g (st_fs st) f t (sint (word_of_nat 0 :: u32)) = (0, fs1)" using x(1) by simp
  from truncate_client [OF nm x', of cd q out] obtain out' where
    e: "truncate_file_in_storage (storage_exchange g cd) f t 0 q (st, out) = (0, st\<lparr>st_fs := fs1\<rparr>, out')"
    by (auto simp: acked_def)
  have kept: "snd (mm_resize_page_table mm f t 0) = mm" if "mm_find_page_table mm f t \<noteq> None"
    using that by (auto simp: mm_resize_page_table_def pt_resize_def set_pt_def mm_pt_def)
  let ?s' = "(st\<lparr>st_fs := fs1\<rparr>, out')"
  have E: "execute_instruction c i mm q w s = Some (0, mm, ?s')"
    using kept by (auto simp: i execute_instruction_def execute_truncate_def ex s e)
  have seen: "seen mm ?s' f t x = seen mm s f t x \<and> seen mm ?s' f t x \<noteq> None"
    if "cached mm f t (x div mm_page_size mm) \<noteq> None" for x
    using that by (auto simp: vbyte_def vcontent_def)
  have incoherent: "\<not> worker_inv g mm ?s'"
    if "slot mm a j" "key_at mm a = (f, t)" "present (page_at mm a j)" "\<not> dirty (page_at mm a j)" for a j
  proof
    assume "worker_inv g mm ?s'"
    then have "coherent net_content mm ?s'" by (simp add: worker_inv_def)
    then have "net_content ?s' f t j = Some (frame_bytes mm (frame (page_at mm a j)))"
      using that unfolding coherent_def by (metis fst_conv snd_conv)
    then show False using none by (simp add: net_content_def)
  qed
  have "net_content ?s' f t b = None" for b using none by (simp add: net_content_def)
  with E seen incoherent show ?thesis by (intro exI [of _ ?s']) blast
qed

theorem truncate_to_zero_keeps_pages_witness:
  "\<exists>s'. execute_instruction demo_conn
      \<lparr>operation = TRUNCATE, params = P_truncate \<lparr>tr_file = ''a'', tr_tag = ''v1'', tr_size = 0\<rparr>\<rparr> (demo_loaded LRU) 7 1 demo_net
      = Some (0, demo_loaded LRU, s') \<and>
    net_content s' ''a'' ''v1'' 0 = None \<and> seen (demo_loaded LRU) s' ''a'' ''v1'' 2 = Some 3 \<and>
    \<not> worker_inv demo_env (demo_loaded LRU) s'"
proof -
  let ?i = "\<lparr>operation = TRUNCATE, params = P_truncate \<lparr>tr_file = ''a'', tr_tag = ''v1'', tr_size = 0\<rparr>\<rparr>"
  have ex: "storage_ex demo_conn = storage_exchange demo_env demo_client" by (simp add: demo_conn_def)
  have fs: "st_fs (fst demo_net) = demo_written" by (simp add: demo_net_def)
  have nm: "wire_name ''a''" "wire_name ''v1''"
    unfolding wire_name_def string_valid_def to_bytes_nul by (simp_all add: to_bytes_def MAX_STRING_LENGTH_def)
  have nb: "(''a'', ''v1'') \<noteq> base_tag" by simp
  have m: "meta (st_fs (fst demo_net)) (''a'', ''v1'') = Some \<lparr>md_size = 8, md_blocks = [1, 0], md_state = IN_PROGRESS\<rparr>"
    unfolding fs by code_simp
  have "link demo_written (''a'', ''v1'') b \<noteq> None \<longleftrightarrow> b < 2" for b
  proof -
    have "tag_dirs demo_written (''a'', ''v1'') = Some \<lparr>logical_blocks = [(0, 1), (1, 0)], metadata_config = Some
      \<lparr>md_size = 8, md_blocks = [1, 0], md_state = IN_PROGRESS\<rparr>\<rparr>" by code_simp
    then show ?thesis by (auto simp: link_def)
  qed
  then have wh: "whole (st_fs (fst demo_net)) (''a'', ''v1'')" using m by (simp add: whole_def fs numeral_2_eq_2)
  from truncate_to_zero_keeps_pages [OF demo_loaded_ok [of LRU] ex nm nb m wh refl, of 7 1] obtain s' where S:
    "execute_instruction demo_conn ?i (demo_loaded LRU) 7 1 demo_net = Some (0, demo_loaded LRU, s')"
    "\<forall>b. net_content s' ''a'' ''v1'' b = None"
    "\<forall>x. cached (demo_loaded LRU) ''a'' ''v1'' (x div mm_page_size (demo_loaded LRU)) \<noteq> None \<longrightarrow>
       seen (demo_loaded LRU) s' ''a'' ''v1'' x = seen (demo_loaded LRU) demo_net ''a'' ''v1'' x \<and>
       seen (demo_loaded LRU) s' ''a'' ''v1'' x \<noteq> None"
    "\<forall>a j. slot (demo_loaded LRU) a j \<and> key_at (demo_loaded LRU) a = (''a'', ''v1'') \<and>
       present (page_at (demo_loaded LRU) a j) \<and> \<not> dirty (page_at (demo_loaded LRU) a j) \<longrightarrow>
       \<not> worker_inv demo_env (demo_loaded LRU) s'" by (elim exE conjE)
  have ca: "cached (demo_loaded LRU) ''a'' ''v1'' 0 = Some 0" by code_simp
  have ps: "mm_page_size (demo_loaded LRU) = 4" by (simp add: demo_loaded_def)
  have v: "seen (demo_loaded LRU) demo_net ''a'' ''v1'' 2 = Some 3"
    using demo_frames(1) [of LRU] ca by (simp add: vbyte_def vcontent_def ps numeral_2_eq_2)
  have "seen (demo_loaded LRU) s' ''a'' ''v1'' 2 = Some 3" using S(3) [rule_format, of 2] ca v ps by simp
  moreover have "\<not> worker_inv demo_env (demo_loaded LRU) s'"
    using S(4) [rule_format, of 0 0] by (simp add: demo_slot demo_page_at demo_key demo_page_def)
  ultimately show ?thesis using S(1,2) by blast
qed

end
