(* ===== verification/Executor_Correct.thy ===== *)
theory Executor_Correct
  imports Query_Executor Instruction_Correct
begin

text \<open>
  The two threads of a Worker: the executor runs a script like a plain interpreter of its
  instructions, an evicted query goes on where it stopped, and the interleavings with the
  listener in which a query or a request is lost.
\<close>

subsection \<open>A plain interpreter\<close>

text \<open>What the executor does with the answer of an instruction that is not the last one.\<close>

definition next_ctx :: "query_context_t \<Rightarrow> query_context_t" where
  "next_ctx ctx = ctx\<lparr>ctx_program_counter := ctx_program_counter ctx + 1\<rparr>"

definition stepped :: "query_context_t \<Rightarrow> memory_manager_t \<Rightarrow> 's net \<Rightarrow> 's worker_state_t \<Rightarrow> 's worker_state_t" where
  "stepped ctx mm n st =
     st\<lparr>memory_manager := mm, w_net := n,
        current_query := (current_query st)\<lparr>ctx_program_counter := ctx_program_counter ctx + 1\<rparr>\<rparr>"

definition execute_in ::
  "'s worker_env \<Rightarrow> instruction_t \<Rightarrow> query_context_t \<Rightarrow> 's worker_state_t \<Rightarrow> 's executed" where
  "execute_in env i ctx st =
     execute_instruction (w_conn env) i (memory_manager st) (ctx_query_id ctx) (w_worker_id env) (w_net st)"

text \<open>
  The instructions one after the other, up to \<^verbatim>\<open>END\<close>, the first failure or, as a failure,
  the end of the script.
\<close>

fun run_program ::
  "'s worker_env \<Rightarrow> instruction_t list \<Rightarrow> query_context_t \<Rightarrow> 's worker_state_t \<Rightarrow>
   (query_result_t \<times> query_context_t \<times> 's worker_state_t) option" where
  "run_program env [] ctx st = Some (QUERY_RESULT_ERROR, ctx, st)"
| "run_program env (i # prog) ctx st =
     (case execute_in env i ctx st of
        None \<Rightarrow> None
      | Some (r, mm, n) \<Rightarrow>
          if r < 0 then Some (QUERY_RESULT_ERROR, ctx, st\<lparr>memory_manager := mm, w_net := n\<rparr>)
          else if operation i = END then Some (QUERY_RESULT_END, ctx, st\<lparr>memory_manager := mm, w_net := n\<rparr>)
          else run_program env prog (next_ctx ctx) (stepped ctx mm n st))"

text \<open>Instructions that all succeed, none of them \<^verbatim>\<open>END\<close>.\<close>

fun run_prefix ::
  "'s worker_env \<Rightarrow> instruction_t list \<Rightarrow> query_context_t \<Rightarrow> 's worker_state_t \<Rightarrow>
   (query_context_t \<times> 's worker_state_t) option" where
  "run_prefix env [] ctx st = Some (ctx, st)"
| "run_prefix env (i # prog) ctx st =
     (case execute_in env i ctx st of
        None \<Rightarrow> None
      | Some (r, mm, n) \<Rightarrow>
          if r < 0 \<or> operation i = END then None
          else run_prefix env prog (next_ctx ctx) (stepped ctx mm n st))"

lemma run_program_append:
  "run_prefix env p1 ctx st = Some (ctx1, st1) \<Longrightarrow> run_program env (p1 @ p2) ctx st = run_program env p2 ctx1 st1"
  by (induction p1 arbitrary: ctx st) (auto split: option.splits if_splits prod.splits)

subsection \<open>The executor runs the script\<close>

abbreviation executor_steps ::
  "'s worker_env \<Rightarrow> executor_pc \<times> 's worker_state_t \<Rightarrow> executor_pc \<times> 's worker_state_t \<Rightarrow> bool" where
  "executor_steps env \<equiv> (\<lambda>a b. executor_step env a = Some b)\<^sup>*\<^sup>*"

text \<open>The script of the query is on disk, one printable instruction per line, at a path that fits the buffer.\<close>

definition script_at :: "'s worker_env \<Rightarrow> string \<Rightarrow> instruction_t list \<Rightarrow> bool" where
  "script_at env path prog \<longleftrightarrow> commons_ok (w_lib env) \<and> (\<forall>i \<in> set prog. printable i) \<and> length prog < 2 ^ 31 \<and>
     length (path_scripts env @ path) < 256 \<and>
     w_files env (path_scripts env @ path) = Some (script_text (map print_instruction prog))"

lemma script_line:
  assumes "script_at env (ctx_query_path ctx) prog" and "0 \<le> ctx_program_counter ctx" and "ctx_program_counter ctx \<le> int (length prog)"
  shows "fetch_instruction (w_files env) (path_scripts env @ ctx_query_path ctx) (word_of_int (ctx_program_counter ctx)) =
      (if ctx_program_counter ctx < int (length prog) then Some (print_instruction (prog ! nat (ctx_program_counter ctx))) else None)"
proof -
  let ?k = "nat (ctx_program_counter ctx)"
  have w: "(word_of_int (ctx_program_counter ctx) :: u32) = word_of_nat ?k" using assms(2) by (simp add: of_nat_nat)
  have L: "\<forall>l \<in> set (map print_instruction prog). line_ok l" using assms(1) print_line_ok by (auto simp: script_at_def)
  have "length prog < 2 ^ 31" using assms(1) by (simp add: script_at_def)
  then have "?k < 2 ^ 32" using assms(3) by simp
  from fetch_loop_lines [OF L this, of 0] assms show ?thesis
    unfolding w by (auto simp: fetch_instruction_def script_at_def)
qed

lemma run_step:
  assumes sc: "script_at env (ctx_query_path ctx) prog" and pc: "ctx_program_counter ctx = int k" and k: "k < length prog"
  shows "run_instruction env ctx st =
    (case execute_in env (prog ! k) ctx st of
       None \<Rightarrow> None
     | Some (r, mm, n) \<Rightarrow>
         let st1 = st\<lparr>memory_manager := mm, w_net := n\<rparr>
         in if r < 0 then Some (E_finish ctx QUERY_RESULT_ERROR, st1)
            else Some (E_after ctx (operation (prog ! k) = END), st1))"
proof -
  have d: "decode_instruction (w_lib env) (print_instruction (prog ! k)) = Some (prog ! k)"
    using sc k by (intro decode_printed) (auto simp: script_at_def)
  have f: "fetch_instruction (w_files env) (path_scripts env @ ctx_query_path ctx) (word_of_int (ctx_program_counter ctx)) =
      Some (print_instruction (prog ! k))" using script_line [OF sc] pc k by simp
  have "length (path_scripts env @ ctx_query_path ctx) < 256" using sc by (simp add: script_at_def)
  then show ?thesis by (simp add: run_instruction_def Let_def f d execute_in_def split: option.split prod.split)
qed

lemma next_ctx_simps [simp]:
  "ctx_query_path (next_ctx ctx) = ctx_query_path ctx" "ctx_query_id (next_ctx ctx) = ctx_query_id ctx"
  "ctx_program_counter (next_ctx ctx) = ctx_program_counter ctx + 1"
  by (simp_all add: next_ctx_def)

lemma stepped_simps [simp]:
  "ejection_requested (stepped ctx mm n st) = ejection_requested st" "has_query (stepped ctx mm n st) = has_query st"
  "is_executing (stepped ctx mm n st) = is_executing st" "should_stop (stepped ctx mm n st) = should_stop st"
  "ctx_query_id (current_query (stepped ctx mm n st)) = ctx_query_id (current_query st)"
  by (simp_all add: stepped_def)

text \<open>One turn of the inner loop, when nobody asks for an eviction.\<close>

lemma executor_turn:
  assumes sc: "script_at env (ctx_query_path ctx) prog" and pc: "ctx_program_counter ctx = int k" and k: "k < length prog"
    and ne: "\<not> ejection_requested st" and x: "execute_in env (prog ! k) ctx st = Some (r, mm, n)"
  shows "r < 0 \<Longrightarrow> executor_steps env (E_check ctx, st) (E_finish ctx QUERY_RESULT_ERROR, st\<lparr>memory_manager := mm, w_net := n\<rparr>)"
    and "\<not> r < 0 \<Longrightarrow> operation (prog ! k) = END \<Longrightarrow>
      executor_steps env (E_check ctx, st) (E_finish ctx QUERY_RESULT_END, st\<lparr>memory_manager := mm, w_net := n\<rparr>)"
    and "\<not> r < 0 \<Longrightarrow> operation (prog ! k) \<noteq> END \<Longrightarrow>
      executor_steps env (E_check ctx, st) (E_check (next_ctx ctx), stepped ctx mm n st)"
proof -
  let ?st = "st\<lparr>memory_manager := mm, w_net := n\<rparr>"
  have 1: "executor_steps env (E_check ctx, st) (E_run ctx, st)" using ne by (intro r_into_rtranclp) simp
  have run: "executor_step env (E_run ctx, st) =
      Some (if r < 0 then (E_finish ctx QUERY_RESULT_ERROR, ?st) else (E_after ctx (operation (prog ! k) = END), ?st))"
    using run_step [OF sc pc k, of st] x by simp
  show "executor_steps env (E_check ctx, st) (E_finish ctx QUERY_RESULT_ERROR, ?st)" if "r < 0"
    using run that by (intro rtranclp.rtrancl_into_rtrancl [OF 1]) simp
  have 2: "executor_steps env (E_check ctx, st) (E_after ctx (operation (prog ! k) = END), ?st)" if "\<not> r < 0"
    using run that by (intro rtranclp.rtrancl_into_rtrancl [OF 1]) simp
  show "executor_steps env (E_check ctx, st) (E_finish ctx QUERY_RESULT_END, ?st)" if "\<not> r < 0" "operation (prog ! k) = END"
    using ne that(2) by (intro rtranclp.rtrancl_into_rtrancl [OF 2 [OF that(1)]]) (simp add: after_instruction_def)
  show "executor_steps env (E_check ctx, st) (E_check (next_ctx ctx), stepped ctx mm n st)"
    if "\<not> r < 0" "operation (prog ! k) \<noteq> END"
  proof -
    have "executor_steps env (E_check ctx, st) (E_advance ctx, ?st)"
      using ne that(2) by (intro rtranclp.rtrancl_into_rtrancl [OF 2 [OF that(1)]]) (simp add: after_instruction_def)
    then show ?thesis
      by (rule rtranclp.rtrancl_into_rtrancl) (simp add: advance_def next_ctx_def stepped_def Let_def)
  qed
qed

lemma executor_prefix:
  assumes "script_at env (ctx_query_path ctx) prog" and "ctx_program_counter ctx = int k" and "k + length p1 \<le> length prog"
    and "p1 = take (length p1) (drop k prog)" and "\<not> ejection_requested st"
    and "run_prefix env p1 ctx st = Some (ctx1, st1)"
  shows "executor_steps env (E_check ctx, st) (E_check ctx1, st1) \<and> \<not> ejection_requested st1 \<and>
    ctx_program_counter ctx1 = int (k + length p1) \<and> ctx_query_id ctx1 = ctx_query_id ctx \<and>
    ctx_query_path ctx1 = ctx_query_path ctx \<and> has_query st1 = has_query st \<and> is_executing st1 = is_executing st \<and>
    ctx_query_id (current_query st1) = ctx_query_id (current_query st)"
  using assms
proof (induction p1 arbitrary: ctx st k)
  case (Cons i p1)
  have k: "k < length prog" and i: "prog ! k = i" and rest: "p1 = take (length p1) (drop (Suc k) prog)"
    using Cons.prems(3,4) by (auto simp: Cons_nth_drop_Suc [symmetric])
  obtain r mm n where x: "execute_in env i ctx st = Some (r, mm, n)" "\<not> r < 0" "operation i \<noteq> END"
    "run_prefix env p1 (next_ctx ctx) (stepped ctx mm n st) = Some (ctx1, st1)"
    using Cons.prems(6) by (auto split: option.splits if_splits)
  have 1: "executor_steps env (E_check ctx, st) (E_check (next_ctx ctx), stepped ctx mm n st)"
    using executor_turn(3) [OF Cons.prems(1,2) k Cons.prems(5)] x i by simp
  have "executor_steps env (E_check (next_ctx ctx), stepped ctx mm n st) (E_check ctx1, st1) \<and> \<not> ejection_requested st1 \<and>
    ctx_program_counter ctx1 = int (Suc k + length p1) \<and> ctx_query_id ctx1 = ctx_query_id (next_ctx ctx) \<and>
    ctx_query_path ctx1 = ctx_query_path (next_ctx ctx) \<and> has_query st1 = has_query (stepped ctx mm n st) \<and>
    is_executing st1 = is_executing (stepped ctx mm n st) \<and>
    ctx_query_id (current_query st1) = ctx_query_id (current_query (stepped ctx mm n st))"
    using Cons.prems(1,2,3,5) rest x(4) by (intro Cons.IH) simp_all
  with rtranclp_trans [OF 1] show ?case by simp
qed simp

text \<open>Running to the end: the last instruction is \<^verbatim>\<open>END\<close>, or one fails, or the script ends.\<close>

lemma executor_program:
  assumes "script_at env (ctx_query_path ctx) prog" and "ctx_program_counter ctx = int k" and "k \<le> length prog"
    and "\<not> ejection_requested st" and "run_program env (drop k prog) ctx st = Some (res, ctx1, st1)"
  shows "executor_steps env (E_check ctx, st) (E_finish ctx1 res, st1) \<and> res \<in> {QUERY_RESULT_END, QUERY_RESULT_ERROR} \<and>
    ctx_query_id ctx1 = ctx_query_id ctx \<and> has_query st1 = has_query st \<and>
    ctx_query_id (current_query st1) = ctx_query_id (current_query st)"
  using assms
proof (induction "drop k prog" arbitrary: ctx st k)
  case Nil
  then have "k = length prog" by simp
  then have f: "fetch_instruction (w_files env) (path_scripts env @ ctx_query_path ctx) (word_of_int (ctx_program_counter ctx)) = None"
    using script_line [OF Nil.prems(1)] Nil.prems(2) by simp
  have "length (path_scripts env @ ctx_query_path ctx) < 256" using Nil.prems(1) by (simp add: script_at_def)
  with f have "executor_step env (E_run ctx, st) = Some (E_finish ctx QUERY_RESULT_ERROR, st)" by (simp add: run_instruction_def)
  moreover have "executor_steps env (E_check ctx, st) (E_run ctx, st)" using Nil.prems(4) by (intro r_into_rtranclp) simp
  ultimately have "executor_steps env (E_check ctx, st) (E_finish ctx QUERY_RESULT_ERROR, st)"
    by (rule rtranclp.rtrancl_into_rtrancl [rotated])
  then show ?case using Nil by simp
next
  case (Cons i rest)
  have k: "k < length prog" using Cons.hyps(2) by (cases "k < length prog") simp_all
  then have i: "prog ! k = i" "drop (Suc k) prog = rest" using Cons.hyps(2) by (simp_all add: Cons_nth_drop_Suc [symmetric])
  have run: "run_program env (i # rest) ctx st = Some (res, ctx1, st1)" using Cons.prems(5) Cons.hyps(2) by simp
  then obtain r mm n where x: "execute_in env i ctx st = Some (r, mm, n)" by (auto split: option.splits)
  note T = executor_turn [OF Cons.prems(1,2) k Cons.prems(4), unfolded i(1), OF x]
  consider "r < 0" | "\<not> r < 0" "operation i = END" | "\<not> r < 0" "operation i \<noteq> END" by blast
  then show ?case
  proof cases
    case 1
    with run x T(1) show ?thesis by auto
  next
    case 2
    with run x T(2) show ?thesis by auto
  next
    case 3
    then have "run_program env (drop (Suc k) prog) (next_ctx ctx) (stepped ctx mm n st) = Some (res, ctx1, st1)"
      using run x i(2) by simp
    then have "executor_steps env (E_check (next_ctx ctx), stepped ctx mm n st) (E_finish ctx1 res, st1) \<and>
      res \<in> {QUERY_RESULT_END, QUERY_RESULT_ERROR} \<and> ctx_query_id ctx1 = ctx_query_id (next_ctx ctx) \<and>
      has_query st1 = has_query (stepped ctx mm n st) \<and>
      ctx_query_id (current_query st1) = ctx_query_id (current_query (stepped ctx mm n st))"
      using Cons.prems(1,2,4) k i(2) by (intro Cons.hyps(1) [of "Suc k"]) simp_all
    with rtranclp_trans [OF T(3) [OF 3]] show ?thesis by simp
  qed
qed

subsection \<open>Messages for the Master\<close>

lemma two_uint32_fields: "add_fields (package_create_empty op) [F_uint32 a, F_uint32 b] = (True, two_uint32 op a b)"
proof -
  obtain p where p: "add_fields (package_create_empty op) [F_uint32 a, F_uint32 b] = (True, p)"
    by (rule message_fits [of "[F_uint32 a, F_uint32 b]" op]) simp_all
  then show ?thesis by (auto simp: two_uint32_def split: prod.splits if_splits)
qed

lemma end_query_sends:
  assumes "0 \<le> socket_master c" and "\<And>p. master_accepts c p"
  shows "end_query_in_master c w q out = (0, out @ [two_uint32 OP_WORKER_END_QUERY (word_of_int w) (word_of_int q)])"
  using assms by (simp add: end_query_in_master_def two_uint32_fields send_to_master_def del: add_fields.simps)

lemma post_net [simp]:
  "(\<And>p. master_accepts (w_conn env) p) \<Longrightarrow> snd (w_net (post env p st)) = snd (w_net st) @ [p]"
  by (simp add: post_def send_to_master_def)

lemma run_program_end:
  assumes "run_program env prog ctx st = Some (QUERY_RESULT_END, ctx1, st1)" and "\<forall>i \<in> set prog. printable i"
    and "0 \<le> socket_master (w_conn env)" and "\<And>p. master_accepts (w_conn env) p"
  shows "\<exists>out. snd (w_net st1) = out @ [two_uint32 OP_WORKER_END_QUERY (word_of_int (w_worker_id env)) (word_of_int (ctx_query_id ctx))]"
  using assms(1,2)
proof (induction prog arbitrary: ctx st)
  case (Cons i prog)
  from Cons.prems(1) obtain r mm n where x: "execute_in env i ctx st = Some (r, mm, n)" "\<not> r < 0"
    by (auto split: option.splits if_splits)
  show ?case
  proof (cases "operation i = END")
    case True
    then have "params i = P_unset" using Cons.prems(2) by (cases "params i") (auto simp: printable_def)
    with True x(1) have "snd n = snd (w_net st) @ [two_uint32 OP_WORKER_END_QUERY (word_of_int (w_worker_id env)) (word_of_int (ctx_query_id ctx))]"
      using end_query_sends [OF assms(3,4)] by (auto simp: execute_in_def execute_instruction_def)
    then show ?thesis using Cons.prems(1) x True by auto
  next
    case False
    with Cons.prems x Cons.IH [of "next_ctx ctx" "stepped ctx mm n st"] show ?thesis by simp
  qed
qed simp

lemma finish_sends_end:
  assumes "run_program env prog ctx st = Some (res, ctx1, st1)" and "\<forall>i \<in> set prog. printable i"
    and "res \<in> {QUERY_RESULT_END, QUERY_RESULT_ERROR}" and "ctx_query_id ctx1 = ctx_query_id ctx"
    and "0 \<le> socket_master (w_conn env)" and "\<And>p. master_accepts (w_conn env) p"
  shows "\<exists>out. snd (w_net (finish_query env ctx1 res st1)) =
    out @ [two_uint32 OP_WORKER_END_QUERY (word_of_int (w_worker_id env)) (word_of_int (ctx_query_id ctx))]"
proof (cases "res = QUERY_RESULT_END")
  case True
  with run_program_end [OF _ assms(2,5,6), of ctx st ctx1 st1] assms(1) show ?thesis by (simp add: finish_query_def)
next
  case False
  then show ?thesis using assms(3-6) by (auto simp: finish_query_def notify_master_query_error_def Let_def)
qed

lemma finish_clears:
  assumes "ctx_query_id (current_query st) = ctx_query_id ctx"
  shows "\<not> has_query (finish_query env ctx res st)" and "\<not> is_executing (finish_query env ctx res st)"
  using assms by (auto simp: finish_query_def notify_master_query_error_def post_def flush_all_def Let_def split: prod.splits)

lemma step_first: "executor_step env a = Some b \<Longrightarrow> executor_steps env b c \<Longrightarrow> executor_steps env a c"
  by (rule converse_rtranclp_into_rtranclp)

subsection \<open>Properties\<close>

text \<open>
  C6: The executor runs a script like a plain interpreter. For a query whose script is on
  disk, the loop of fetching, decoding and executing from its program counter on ends exactly
  where the plain interpreter of the instructions ends, with the same memory, Storage and
  messages; then the query is finished, the executor waits for another, and the last message
  to the Master is the end of this query, also when an instruction failed or the script has
  no \<^verbatim>\<open>END\<close>.
\<close>

theorem executor_runs_script:
  assumes "script_at env (ctx_query_path (current_query st)) prog"
    and "ctx_program_counter (current_query st) = int k" and "k \<le> length prog" and "has_query st"
    and "run_program env (drop k prog) (current_query st) (st\<lparr>is_executing := True, ejection_requested := False\<rparr>) =
      Some (res, ctx1, st1)"
    and "0 \<le> socket_master (w_conn env)" and "\<And>p. master_accepts (w_conn env) p"
  shows "executor_steps env (E_fetch_next, st) (E_fetch_next, finish_query env ctx1 res st1) \<and>
    res \<in> {QUERY_RESULT_END, QUERY_RESULT_ERROR} \<and>
    \<not> has_query (finish_query env ctx1 res st1) \<and> \<not> is_executing (finish_query env ctx1 res st1) \<and>
    (\<exists>out. snd (w_net (finish_query env ctx1 res st1)) = out @
       [two_uint32 OP_WORKER_END_QUERY (word_of_int (w_worker_id env)) (word_of_int (ctx_query_id (current_query st)))])"
proof -
  let ?st = "st\<lparr>is_executing := True, ejection_requested := False\<rparr>" and ?ctx = "current_query st"
  have P: "executor_steps env (E_check ?ctx, ?st) (E_finish ctx1 res, st1)" "res \<in> {QUERY_RESULT_END, QUERY_RESULT_ERROR}"
    "ctx_query_id ctx1 = ctx_query_id ?ctx" "ctx_query_id (current_query st1) = ctx_query_id (current_query ?st)"
    using executor_program [OF assms(1-3) _ assms(5)] by simp_all
  have 1: "executor_step env (E_fetch_next, st) = Some (E_start, st\<lparr>is_executing := True\<rparr>)"
    using assms(4) by (simp add: fetch_next_query_def)
  have 2: "executor_step env (E_start, st\<lparr>is_executing := True\<rparr>) = Some (E_check ?ctx, ?st)"
    by (simp add: start_query_def)
  have "executor_steps env (E_fetch_next, st) (E_finish ctx1 res, st1)"
    by (rule step_first [OF 1 step_first [OF 2 P(1)]])
  then have "executor_steps env (E_fetch_next, st) (E_fetch_next, finish_query env ctx1 res st1)"
    by (rule rtranclp.rtrancl_into_rtrancl) simp
  moreover have "ctx_query_id (current_query st1) = ctx_query_id ctx1" using P(3,4) by simp
  moreover have "\<forall>i \<in> set (drop k prog). printable i" using assms(1) by (auto simp: script_at_def dest: in_set_dropD)
  ultimately show ?thesis
    using P(2) finish_clears [of st1 ctx1 env res] finish_sends_end [OF assms(5) _ P(2,3) assms(6,7)] by blast
qed

text \<open>A Worker over the demonstration Storage, and a script of a flush and the end.\<close>

definition demo_flush :: instruction_t where
  "demo_flush = \<lparr>operation = FLUSH, params = P_file_tag \<lparr>ft_file = ''a'', ft_tag = ''v1''\<rparr>\<rparr>"

definition demo_script :: "instruction_t list" where
  "demo_script = [demo_flush, demo_end]"

definition demo_worker_env :: "storage_state worker_env" where
  "demo_worker_env =
     \<lparr>w_conn = demo_conn, w_lib = demo_commons, w_files = (\<lambda>p. Some (script_text (map print_instruction demo_script))),
      path_scripts = ''/scripts/'', w_worker_id = 1\<rparr>"

definition demo_context :: query_context_t where
  "demo_context = \<lparr>ctx_query_path = ''q'', ctx_query_id = 7, ctx_program_counter = 0\<rparr>"

definition demo_worker :: "storage_state worker_state_t" where
  "demo_worker =
     \<lparr>has_query = True, should_stop = False, ejection_requested = False, is_executing = False,
      current_query = demo_context, memory_manager = demo_loaded LRU, w_net = demo_net\<rparr>"

lemma demo_script_at: "script_at demo_worker_env ''q'' demo_script"
proof -
  have "printable demo_flush"
    by (simp add: printable_def demo_flush_def name_ok_def word_ok_def print_instruction_def operation_name_def)
  then show ?thesis
    using demo_commons_ok demo_printable by (simp add: script_at_def demo_worker_env_def demo_script_def)
qed

lemma demo_conn_sends: "socket_master (w_conn demo_worker_env) = 4" "master_accepts (w_conn demo_worker_env) p"
  by (simp_all add: demo_worker_env_def demo_conn_def)

lemma demo_flush_runs:
  assumes "memory_manager st = demo_loaded LRU"
  shows "execute_in demo_worker_env demo_flush ctx st = Some (0, demo_loaded LRU, w_net st)"
proof -
  have d: "mm_get_dirty_pages (demo_loaded LRU) ''a'' ''v1'' = []" by code_simp
  have c: "storage_socket (demo_loaded LRU) = 3" "mm_worker_id (demo_loaded LRU) = 1" by (simp_all add: demo_loaded_def)
  show ?thesis
    by (simp add: execute_in_def execute_instruction_def demo_flush_def execute_flush_def mm_flush_query_def d c assms)
qed

lemma demo_end_runs:
  "execute_in demo_worker_env demo_end ctx st =
    Some (0, memory_manager st, fst (w_net st), snd (w_net st) @
      [two_uint32 OP_WORKER_END_QUERY 1 (word_of_int (ctx_query_id ctx))])"
  using end_query_sends [of demo_conn 1] by (simp add: execute_in_def execute_instruction_def demo_end_def demo_worker_env_def demo_conn_def)

lemma demo_ops: "operation demo_flush = FLUSH" "operation demo_end = END"
  by (simp_all add: demo_flush_def demo_end_def)

theorem executor_runs_script_witness:
  "\<exists>st'. executor_steps demo_worker_env (E_fetch_next, demo_worker) (E_fetch_next, st') \<and> \<not> has_query st' \<and>
    (\<exists>out. snd (w_net st') = out @ [two_uint32 OP_WORKER_END_QUERY 1 7])"
proof -
  let ?st = "demo_worker\<lparr>is_executing := True, ejection_requested := False\<rparr>"
  have s: "script_at demo_worker_env (ctx_query_path (current_query demo_worker)) demo_script"
    "ctx_program_counter (current_query demo_worker) = int 0" "has_query demo_worker"
    using demo_script_at by (simp_all add: demo_worker_def demo_context_def)
  have m: "memory_manager ?st = demo_loaded LRU" by (simp add: demo_worker_def)
  obtain ctx1 st1 where r: "run_program demo_worker_env (drop 0 demo_script) (current_query demo_worker) ?st =
      Some (QUERY_RESULT_END, ctx1, st1)"
    by (simp add: demo_script_def demo_flush_runs [OF m] demo_end_runs demo_ops)
  from executor_runs_script [OF s(1,2) _ s(3) r] demo_conn_sends show ?thesis
    by (simp add: demo_worker_env_def demo_worker_def demo_context_def) blast
qed

subsection \<open>Evictions\<close>

lemma assign_reads:
  assumes "fst (read_fields p [K_uint32, K_uint32, K_string]) = Some [F_uint32 q, F_uint32 pc, F_string path]"
    and "operation_code p = OP_WORKER_START_QUERY" and "length path < PATH_MAX"
  shows "listener_receive (Some p) st = Some (True, L_receive,
    st\<lparr>current_query := \<lparr>ctx_query_path = of_bytes path, ctx_query_id = sint q, ctx_program_counter = sint pc\<rparr>,
       has_query := True, should_stop := False, memory_manager := mm_set_query_id (memory_manager st) (sint q)\<rparr>)"
proof -
  obtain p1 p2 p3 where "package_read_uint32 p = (Some q, p1)" "package_read_uint32 p1 = (Some pc, p2)"
    "package_read_string p2 = (Some path, p3)"
    using assms(1) by (auto simp: map_prod_def split: prod.splits option.splits)
  then have "assign_query p st = Some (True,
    st\<lparr>current_query := \<lparr>ctx_query_path = of_bytes path, ctx_query_id = sint q, ctx_program_counter = sint pc\<rparr>,
       has_query := True, should_stop := False, memory_manager := mm_set_query_id (memory_manager st) (sint q)\<rparr>)"
    using assms(3) by (simp add: assign_query_def)
  then show ?thesis using assms(2) by (simp add: listener_receive_def)
qed

lemma flush_all_fields [simp]:
  "has_query (flush_all env st) = has_query st" "current_query (flush_all env st) = current_query st"
  "is_executing (flush_all env st) = is_executing st" "should_stop (flush_all env st) = should_stop st"
  "ejection_requested (flush_all env st) = ejection_requested st"
  by (simp_all add: flush_all_def split: prod.split)

lemma post_fields [simp]:
  "has_query (post env p st) = has_query st" "current_query (post env p st) = current_query st"
  "is_executing (post env p st) = is_executing st" "should_stop (post env p st) = should_stop st"
  "ejection_requested (post env p st) = ejection_requested st" "memory_manager (post env p st) = memory_manager st"
  "fst (w_net (post env p st)) = fst (w_net st)"
  by (simp_all add: post_def)

text \<open>A Worker whose memory and Storage are sound, and what its queries see.\<close>

definition state_inv :: "storage_env \<Rightarrow> storage_state worker_state_t \<Rightarrow> bool" where
  "state_inv g st \<longleftrightarrow> worker_inv g (memory_manager st) (w_net st)"

definition sees :: "storage_state worker_state_t \<Rightarrow> string \<Rightarrow> string \<Rightarrow> nat \<Rightarrow> u8 option" where
  "sees st f t x = seen (memory_manager st) (w_net st) f t x"

lemma same_net:
  assumes "memory_manager st' = memory_manager st" and "fst (w_net st') = fst (w_net st)"
  shows "state_inv g st' = state_inv g st" and "sees st' = sees st"
proof -
  have w: "w_net x = (fst (w_net x), snd (w_net x))" for x :: "storage_state worker_state_t" by simp
  show "state_inv g st' = state_inv g st"
    unfolding state_inv_def by (subst (1 2) w, subst (1 2) out_irrelevant(1)) (simp add: assms)
  show "sees st' = sees st"
    unfolding sees_def fun_eq_iff by (subst (1 2) w, subst (1 2) out_irrelevant(2)) (simp add: assms)
qed

lemma set_query_id_inv: "worker_inv g (mm_set_query_id mm q) s = worker_inv g mm s" "seen (mm_set_query_id mm q) s = seen mm s"
proof -
  let ?mm = "mm_set_query_id mm q"
  have e: "slot ?mm = slot mm" "page_at ?mm = page_at mm" "key_at ?mm = key_at mm" "mm_pt ?mm = mm_pt mm"
    "frame_bytes ?mm = frame_bytes mm" "cached ?mm = cached mm"
    by (simp_all add: mm_set_query_id_def fun_eq_iff slot_def page_at_def mm_pt_def key_at_def frame_bytes_def
        cached_def mm_find_page_table_def split: option.split)
  have "mm_ok ?mm = mm_ok mm" unfolding mm_ok_def e by (simp add: mm_set_query_id_def)
  then show "worker_inv g ?mm s = worker_inv g mm s"
    unfolding worker_inv_def coherent_def e by (simp add: mm_set_query_id_def)
  have ps: "mm_page_size ?mm = mm_page_size mm" by (simp add: mm_set_query_id_def)
  show "seen ?mm s = seen mm s" unfolding fun_eq_iff vbyte_def vcontent_def e ps by simp
qed

lemma flush_all_silent:
  assumes "state_inv g st" and "storage_ex (w_conn env) = storage_exchange g cd"
  shows "state_inv g (flush_all env st)" and "sees (flush_all env st) = sees st"
proof -
  obtain r mm1 n1 where f: "mm_flush_all_dirty (storage_io g cd (mm_query_id (memory_manager st))) (memory_manager st) (w_net st) =
      (r, mm1, n1)" by (metis surj_pair)
  have i: "block_store.inv net_content (net_ok g) (block_size g) (memory_manager st) (w_net st)"
    using assms(1) by (simp add: disk_inv state_inv_def)
  note S = silent_seen [OF disk.flush_all_ok [OF i f, THEN conjunct1]]
  have fl: "flush_all env st = st\<lparr>memory_manager := mm1, w_net := n1\<rparr>"
    by (simp add: flush_all_def assms(2) exchange_io_storage f)
  show "state_inv g (flush_all env st)" using S(1) by (simp add: state_inv_def fl)
  show "sees (flush_all env st) = sees st" by (simp add: fun_eq_iff sees_def fl S(2))
qed

lemma evict_silent:
  assumes "state_inv g st" and "storage_ex (w_conn env) = storage_exchange g cd"
  shows "state_inv g (evict_query env q pc st)" and "sees (evict_query env q pc st) = sees st"
  using flush_all_silent [OF assms] same_net [of "evict_query env q pc st" "flush_all env st"]
  by (simp_all add: evict_query_def)

lemma evicted_fields [simp]:
  "has_query (evict_query env q pc st) = has_query st" "current_query (evict_query env q pc st) = current_query st"
  "is_executing (evict_query env q pc st) = is_executing st" "should_stop (evict_query env q pc st) = should_stop st"
  "ejection_requested (evict_query env q pc st) = ejection_requested st"
  by (simp_all add: evict_query_def)

lemma evict_sends:
  "(\<And>p. master_accepts (w_conn env) p) \<Longrightarrow> snd (w_net (evict_query env q pc st)) =
    snd (w_net (flush_all env st)) @ [two_uint32 OP_WORKER_EVICT_RES (word_of_int q) (word_of_int pc)]"
  by (simp add: evict_query_def)

text \<open>The executor finds the request before it fetches.\<close>

lemma executor_evicts:
  assumes "ejection_requested st"
  shows "executor_steps env (E_check ctx, st)
    (E_fetch_next, (evict_query env (ctx_query_id ctx) (ctx_program_counter ctx) st)\<lparr>has_query := False, is_executing := False\<rparr>)"
proof -
  let ?pc = "ctx_program_counter ctx"
  let ?e = "evict_query env (ctx_query_id ctx) ?pc st"
  have 1: "executor_step env (E_check ctx, st) = Some (E_evict ctx ?pc, st)" using assms by simp
  have 2: "executor_step env (E_evict ctx ?pc, st) = Some (E_finish ctx QUERY_RESULT_EJECT, ?e)" by simp
  have 3: "executor_step env (E_finish ctx QUERY_RESULT_EJECT, ?e) =
      Some (E_fetch_next, ?e\<lparr>has_query := False, is_executing := False\<rparr>)" by (simp add: finish_query_def)
  from step_first [OF 1 step_first [OF 2 step_first [OF 3 rtranclp.rtrancl_refl]]] show ?thesis .
qed

lemma prefix_context:
  "run_prefix env p1 ctx st = Some (ctx1, st1) \<Longrightarrow> \<exists>n. ctx1 = ctx\<lparr>ctx_program_counter := n\<rparr>"
proof (induction p1 arbitrary: ctx st)
  case Nil
  then show ?case by (auto intro!: exI [of _ "ctx_program_counter ctx"])
next
  case (Cons i p1)
  from Cons.prems obtain mm n where "run_prefix env p1 (next_ctx ctx) (stepped ctx mm n st) = Some (ctx1, st1)"
    by (auto split: option.splits if_splits)
  from Cons.IH [OF this] show ?case by (auto simp: next_ctx_def)
qed

text \<open>
  C14: An evicted query goes on where it stopped. If the request to evict arrives when the
  executor has executed the first \<open>j\<close> of the remaining instructions of the script, it executes
  no other: it writes every dirty page back, which changes nothing that queries see, and
  answers with the identifier of the query and the program counter of the next instruction,
  and the Worker is free. A later start message with that program counter puts the executor
  before that very instruction, and what is left to run from there is the rest of the
  program.
\<close>

theorem evicted_query_resumes:
  assumes sc: "script_at env (ctx_query_path ctx) prog" and pc: "ctx_program_counter ctx = int k" and kj: "k + j \<le> length prog"
    and ne: "\<not> ejection_requested st" and run: "run_prefix env (take j (drop k prog)) ctx st = Some (ctx1, st1)"
    and up: "\<And>p. master_accepts (w_conn env) p"
    and qid: "0 \<le> ctx_query_id ctx" "ctx_query_id ctx < 2 ^ 31" and len: "length (ctx_query_path ctx) < PATH_MAX"
    and op: "operation_code p = OP_WORKER_START_QUERY"
    and rd: "fst (read_fields p [K_uint32, K_uint32, K_string]) =
      Some [F_uint32 (word_of_int (ctx_query_id ctx)), F_uint32 (word_of_int (int (k + j))), F_string (to_bytes (ctx_query_path ctx))]"
    and inv: "state_inv g st1" and ex: "storage_ex (w_conn env) = storage_exchange g cd"
  shows "executor_steps env (E_check ctx, st) (E_check ctx1, st1) \<and>
    run_program env (drop k prog) ctx st = run_program env (drop (k + j) prog) ctx1 st1 \<and>
    (\<exists>st2 st3. executor_steps env (E_check ctx1, st1\<lparr>ejection_requested := True\<rparr>) (E_fetch_next, st2) \<and>
       \<not> has_query st2 \<and> \<not> is_executing st2 \<and>
       (\<exists>out. snd (w_net st2) = out @
          [two_uint32 OP_WORKER_EVICT_RES (word_of_int (ctx_query_id ctx)) (word_of_int (int (k + j)))]) \<and>
       listener_receive (Some p) st2 = Some (True, L_receive, st3) \<and>
       executor_steps env (E_fetch_next, st3) (E_check ctx1, st3\<lparr>is_executing := True, ejection_requested := False\<rparr>) \<and>
       state_inv g st3 \<and> sees st3 = sees st1)"
proof -
  let ?p1 = "take j (drop k prog)"
  have l: "length ?p1 = j" using kj by simp
  have P: "executor_steps env (E_check ctx, st) (E_check ctx1, st1)" "ctx_program_counter ctx1 = int (k + j)"
    using executor_prefix [OF sc pc _ _ ne run] l kj by simp_all
  have c1: "ctx1 = \<lparr>ctx_query_path = ctx_query_path ctx, ctx_query_id = ctx_query_id ctx, ctx_program_counter = int (k + j)\<rparr>"
    using prefix_context [OF run] P(2) by auto
  have split: "drop k prog = ?p1 @ drop (k + j) prog" by (simp add: add.commute drop_drop [symmetric] del: drop_drop)
  have R: "run_program env (drop k prog) ctx st = run_program env (drop (k + j) prog) ctx1 st1"
    by (subst split) (rule run_program_append [OF run])
  define st2 where "st2 = (evict_query env (ctx_query_id ctx1) (ctx_program_counter ctx1) (st1\<lparr>ejection_requested := True\<rparr>))
    \<lparr>has_query := False, is_executing := False\<rparr>"
  have E: "executor_steps env (E_check ctx1, st1\<lparr>ejection_requested := True\<rparr>) (E_fetch_next, st2)"
    unfolding st2_def by (rule executor_evicts) simp
  have "int (k + j) < 2 ^ 31" using sc kj by (simp add: script_at_def)
  then have exact: "sint (word_of_int (int (k + j)) :: u32) = int (k + j)" "sint (word_of_int (ctx_query_id ctx) :: u32) = ctx_query_id ctx"
    using sint32_small(2) [of "k + j"] sint32_small(2) [of "nat (ctx_query_id ctx)"] qid by simp_all
  define st3 where "st3 = st2\<lparr>current_query := ctx1, has_query := True, should_stop := False,
      memory_manager := mm_set_query_id (memory_manager st2) (ctx_query_id ctx)\<rparr>"
  have L: "listener_receive (Some p) st2 = Some (True, L_receive, st3)"
    using assign_reads [OF rd op] len exact of_to_bytes [of "ctx_query_path ctx"] by (simp add: st3_def c1 to_bytes_def)
  have 1: "executor_step env (E_fetch_next, st3) = Some (E_start, st3\<lparr>is_executing := True\<rparr>)"
    by (simp add: fetch_next_query_def st3_def)
  have 2: "executor_step env (E_start, st3\<lparr>is_executing := True\<rparr>) = Some (E_check ctx1, st3\<lparr>is_executing := True, ejection_requested := False\<rparr>)"
    by (simp add: start_query_def st3_def)
  have G: "executor_steps env (E_fetch_next, st3) (E_check ctx1, st3\<lparr>is_executing := True, ejection_requested := False\<rparr>)"
    by (rule step_first [OF 1 step_first [OF 2 rtranclp.rtrancl_refl]])
  have i1: "state_inv g (st1\<lparr>ejection_requested := True\<rparr>)" "sees (st1\<lparr>ejection_requested := True\<rparr>) = sees st1"
    using inv same_net [of "st1\<lparr>ejection_requested := True\<rparr>" st1] by simp_all
  note V = evict_silent [OF i1(1) ex, of "ctx_query_id ctx1" "ctx_program_counter ctx1"]
  have i2: "state_inv g st2" "sees st2 = sees st1"
    using V i1(2) same_net [of st2 "evict_query env (ctx_query_id ctx1) (ctx_program_counter ctx1) (st1\<lparr>ejection_requested := True\<rparr>)"]
    by (simp_all add: st2_def)
  have i3: "state_inv g st3" "sees st3 = sees st1"
    using i2 set_query_id_inv
    by (simp_all add: st3_def state_inv_def sees_def fun_eq_iff)
  have "snd (w_net st2) = snd (w_net (flush_all env (st1\<lparr>ejection_requested := True\<rparr>))) @
      [two_uint32 OP_WORKER_EVICT_RES (word_of_int (ctx_query_id ctx)) (word_of_int (int (k + j)))]"
    using evict_sends [OF up] by (simp add: st2_def c1)
  then show ?thesis
    using P(1) R E L G i3 by (intro conjI exI [of _ st2] exI [of _ st3]) (auto simp: st2_def)
qed

theorem evicted_query_resumes_witness:
  "\<exists>p st1 st2. run_prefix demo_worker_env [demo_flush] demo_context demo_worker = Some (next_ctx demo_context, st1) \<and>
    executor_steps demo_worker_env (E_check (next_ctx demo_context), st1\<lparr>ejection_requested := True\<rparr>) (E_fetch_next, st2) \<and>
    (\<exists>out. snd (w_net st2) = out @ [two_uint32 OP_WORKER_EVICT_RES 7 1]) \<and>
    (\<exists>st3. listener_receive (Some p) st2 = Some (True, L_receive, st3) \<and>
       executor_steps demo_worker_env (E_fetch_next, st3)
         (E_check (next_ctx demo_context), st3\<lparr>is_executing := True, ejection_requested := False\<rparr>))"
proof -
  let ?fields = "[F_uint32 7, F_uint32 1, F_string (to_bytes ''q'')]"
  have v: "\<forall>f \<in> set ?fields. field_valid f"
    unfolding string_valid_def using to_bytes_nul [of "''q''"] by (simp add: string_valid_def to_bytes_def MAX_STRING_LENGTH_def)
  obtain r0 where "add_fields (package_create_empty OP_WORKER_START_QUERY) ?fields = (True, r0)"
    by (rule message_fits [OF v, of OP_WORKER_START_QUERY]) (simp_all add: enc_sized_def to_bytes_def)
  from transmit_fields [OF this v] obtain p where p: "operation_code p = OP_WORKER_START_QUERY"
    "fst (read_fields p [K_uint32, K_uint32, K_string]) = Some ?fields" by auto
  have m: "memory_manager demo_worker = demo_loaded LRU" by (simp add: demo_worker_def)
  define st1 where "st1 = stepped demo_context (demo_loaded LRU) (w_net demo_worker) demo_worker"
  have run: "run_prefix demo_worker_env (take 1 (drop 0 demo_script)) demo_context demo_worker = Some (next_ctx demo_context, st1)"
    by (simp add: demo_script_def demo_flush_runs [OF m] demo_ops st1_def)
  have c: "ctx_query_path demo_context = ''q''" "ctx_query_id demo_context = 7" "ctx_program_counter demo_context = int 0"
    by (simp_all add: demo_context_def)
  have sc: "script_at demo_worker_env (ctx_query_path demo_context) demo_script" using demo_script_at c by simp
  have inv: "state_inv demo_env st1"
    using demo_loaded_ok [of LRU] by (simp add: state_inv_def st1_def stepped_def demo_worker_def)
  have ne: "\<not> ejection_requested demo_worker" by (simp add: demo_worker_def)
  have ex: "storage_ex (w_conn demo_worker_env) = storage_exchange demo_env demo_client" by (simp add: demo_worker_env_def demo_conn_def)
  have q: "0 \<le> ctx_query_id demo_context" "ctx_query_id demo_context < 2 ^ 31" "length (ctx_query_path demo_context) < PATH_MAX"
    by (simp_all add: c PATH_MAX_def)
  have l: "0 + 1 \<le> length demo_script" by (simp add: demo_script_def)
  have rd: "fst (read_fields p [K_uint32, K_uint32, K_string]) = Some [F_uint32 (word_of_int (ctx_query_id demo_context)),
      F_uint32 (word_of_int (int (0 + 1))), F_string (to_bytes (ctx_query_path demo_context))]" using p(2) by (simp add: c)
  from evicted_query_resumes [OF sc c(3) l ne run demo_conn_sends(2) q p(1) rd inv ex] obtain st2 st3 where
    "executor_steps demo_worker_env (E_check (next_ctx demo_context), st1\<lparr>ejection_requested := True\<rparr>) (E_fetch_next, st2)"
    "\<exists>out. snd (w_net st2) = out @ [two_uint32 OP_WORKER_EVICT_RES (word_of_int (ctx_query_id demo_context)) (word_of_int (int (0 + 1)))]"
    "listener_receive (Some p) st2 = Some (True, L_receive, st3)"
    "executor_steps demo_worker_env (E_fetch_next, st3)
       (E_check (next_ctx demo_context), st3\<lparr>is_executing := True, ejection_requested := False\<rparr>)" by blast
  then show ?thesis using run by (intro exI [of _ p] exI [of _ st1] exI [of _ st2]) (auto simp: c demo_script_def)
qed

subsection \<open>Interleavings with the listener\<close>

inductive_cases waiting_stepE: "worker_step env (E_wait, l, st) c'"

text \<open>
  After the end or the failure of a query, a query that was assigned meanwhile is kept and
  the executor takes it.
\<close>

lemma finish_keeps_new_query:
  assumes "has_query st" and "ctx_query_id (current_query st) \<noteq> ctx_query_id ctx"
    and "res \<in> {QUERY_RESULT_END, QUERY_RESULT_ERROR}"
  shows "\<exists>st'. executor_step env (E_finish ctx res, st) = Some (E_fetch_next, st') \<and> has_query st' \<and>
    current_query st' = current_query st \<and> executor_step env (E_fetch_next, st') = Some (E_start, st'\<lparr>is_executing := True\<rparr>)"
  using assms by (auto simp: finish_query_def notify_master_query_error_def fetch_next_query_def Let_def)

text \<open>
  C40: A query assigned right after an eviction is lost. The executor answers an eviction
  before it takes the mutex to clear its flags; when the Master, who now knows the Worker is
  free, has a new query started in that window, the executor clears the flag of the new
  query. It then waits with no query: it will not run it, nobody told the Master, and a
  request to evict the lost query is not answered either.
\<close>

theorem eviction_race_loses_query:
  assumes rd: "fst (read_fields p [K_uint32, K_uint32, K_string]) = Some [F_uint32 q, F_uint32 pc2, F_string path]"
    and op: "operation_code p = OP_WORKER_START_QUERY" and len: "length path < PATH_MAX"
    and up: "\<And>p. master_accepts (w_conn env) p"
  shows "\<exists>st2. (worker_step env)\<^sup>*\<^sup>* (E_evict ctx pc, L_receive, st) (E_wait, L_receive, st2) \<and>
    \<not> has_query st2 \<and> ctx_query_id (current_query st2) = sint q \<and>
    snd (w_net st2) = snd (w_net (flush_all env st)) @
      [two_uint32 OP_WORKER_EVICT_RES (word_of_int (ctx_query_id ctx)) (word_of_int pc)] \<and>
    (\<forall>pp. operation_code pp = OP_WORKER_PREEMPT_REQ \<longrightarrow> listener_receive (Some pp) st2 = Some (False, L_receive, st2)) \<and>
    (\<forall>c'. worker_step env (E_wait, L_receive, st2) c' \<longrightarrow>
       (\<exists>received signal l st'. listener_receive received st2 = Some (signal, l, st') \<and> c' = (wake signal E_wait, l, st')))"
proof -
  define e where "e = evict_query env (ctx_query_id ctx) pc st"
  define a where "a = e\<lparr>current_query := \<lparr>ctx_query_path = of_bytes path, ctx_query_id = sint q, ctx_program_counter = sint pc2\<rparr>,
       has_query := True, should_stop := False, memory_manager := mm_set_query_id (memory_manager e) (sint q)\<rparr>"
  define st2 where "st2 = a\<lparr>has_query := False, is_executing := False\<rparr>"
  have "worker_step env (E_evict ctx pc, L_receive, st) (E_finish ctx QUERY_RESULT_EJECT, L_receive, e)"
    by (rule worker_step.executor) (simp add: e_def)
  moreover have "worker_step env (E_finish ctx QUERY_RESULT_EJECT, L_receive, e) (E_finish ctx QUERY_RESULT_EJECT, L_receive, a)"
    using worker_step.receive [OF assign_reads [OF rd op len, of e], of env "E_finish ctx QUERY_RESULT_EJECT"]
    by (simp add: wake_def a_def)
  moreover have "worker_step env (E_finish ctx QUERY_RESULT_EJECT, L_receive, a) (E_fetch_next, L_receive, st2)"
    by (rule worker_step.executor) (simp add: finish_query_def st2_def)
  moreover have "worker_step env (E_fetch_next, L_receive, st2) (E_wait, L_receive, st2)"
    by (rule worker_step.executor) (simp add: fetch_next_query_def st2_def a_def)
  ultimately have "(worker_step env)\<^sup>*\<^sup>* (E_evict ctx pc, L_receive, st) (E_wait, L_receive, st2)"
    by (meson rtranclp.rtrancl_into_rtrancl rtranclp.rtrancl_refl)
  moreover have "listener_receive (Some pp) st2 = Some (False, L_receive, st2)" if "operation_code pp = OP_WORKER_PREEMPT_REQ" for pp
    using that by (simp add: listener_receive_def eject_query_def st2_def master_op_defs split: prod.split option.split)
  moreover have "snd (w_net st2) = snd (w_net (flush_all env st)) @
      [two_uint32 OP_WORKER_EVICT_RES (word_of_int (ctx_query_id ctx)) (word_of_int pc)]"
    using evict_sends [OF up] by (simp add: st2_def a_def e_def)
  moreover have "\<exists>received signal l st'. listener_receive received st2 = Some (signal, l, st') \<and> c' = (wake signal E_wait, l, st')"
    if "worker_step env (E_wait, L_receive, st2) c'" for c'
    using that by (rule waiting_stepE) auto
  moreover have "\<not> has_query st2" "ctx_query_id (current_query st2) = sint q" by (simp_all add: st2_def a_def)
  ultimately show ?thesis by blast
qed

theorem eviction_race_loses_query_witness:
  "\<exists>p st2. operation_code p = OP_WORKER_START_QUERY \<and>
    fst (read_fields p [K_uint32, K_uint32, K_string]) = Some [F_uint32 8, F_uint32 0, F_string (to_bytes ''q'')] \<and>
    (worker_step demo_worker_env)\<^sup>*\<^sup>* (E_evict demo_context 1, L_receive, demo_worker) (E_wait, L_receive, st2) \<and>
    \<not> has_query st2 \<and> ctx_query_id (current_query st2) = 8"
proof -
  let ?fields = "[F_uint32 8, F_uint32 0, F_string (to_bytes ''q'')]"
  have "\<forall>f \<in> set ?fields. field_valid f"
    using to_bytes_nul [of "''q''"] by (simp add: string_valid_def to_bytes_def MAX_STRING_LENGTH_def)
  then obtain p where p: "operation_code p = OP_WORKER_START_QUERY" "fst (read_fields p (map kind_of ?fields)) = Some ?fields"
    by (rule arrived_package) (simp_all add: enc_sized_def to_bytes_def)
  have rd: "fst (read_fields p [K_uint32, K_uint32, K_string]) = Some ?fields" using p(2) by simp
  have len: "length (to_bytes ''q'') < PATH_MAX" by (simp add: to_bytes_def PATH_MAX_def)
  from eviction_race_loses_query [OF rd p(1) len demo_conn_sends(2), of demo_context 1 demo_worker] obtain st2 where
    "(worker_step demo_worker_env)\<^sup>*\<^sup>* (E_evict demo_context 1, L_receive, demo_worker) (E_wait, L_receive, st2)"
    "\<not> has_query st2" "ctx_query_id (current_query st2) = sint (8 :: u32)" by (elim exE conjE)
  then show ?thesis using rd p(1) by (intro exI [of _ p] exI [of _ st2]) simp
qed

text \<open>
  A request to evict that arrives before a query has started is forgotten. The executor
  marks itself as executing when it takes a query and clears \<^verbatim>\<open>ejection_requested\<close> in a second
  critical section; a request for that query that the listener handles in between sets the
  flag, is not answered, and is erased: the query runs on with no eviction requested.
\<close>

theorem early_preemption_lost:
  assumes "has_query st" and "operation_code p = OP_WORKER_PREEMPT_REQ"
    and "package_read_uint32 p = (Some (word_of_int (ctx_query_id (current_query st))), p1)"
  shows "\<exists>st'. (worker_step env)\<^sup>*\<^sup>* (E_fetch_next, L_receive, st) (E_run (current_query st), L_receive, st') \<and>
    has_query st' \<and> is_executing st' \<and> \<not> ejection_requested st' \<and> w_net st' = w_net st \<and>
    worker_step env (E_start, L_receive, st\<lparr>is_executing := True\<rparr>)
      (E_start, L_receive, st\<lparr>is_executing := True, ejection_requested := True\<rparr>)"
proof -
  let ?a = "st\<lparr>is_executing := True\<rparr>" and ?b = "st\<lparr>is_executing := True, ejection_requested := True\<rparr>"
  let ?c = "st\<lparr>is_executing := True, ejection_requested := False\<rparr>"
  have 1: "worker_step env (E_fetch_next, L_receive, st) (E_start, L_receive, ?a)"
    by (rule worker_step.executor) (simp add: fetch_next_query_def assms(1))
  have "listener_receive (Some p) ?a = Some (False, L_receive, ?b)"
    using assms by (simp add: listener_receive_def eject_query_def master_op_defs)
  from worker_step.receive [OF this, of env E_start]
  have 2: "worker_step env (E_start, L_receive, ?a) (E_start, L_receive, ?b)" by (simp add: wake_def)
  have 3: "worker_step env (E_start, L_receive, ?b) (E_check (current_query st), L_receive, ?c)"
    by (rule worker_step.executor) (simp add: start_query_def)
  have 4: "worker_step env (E_check (current_query st), L_receive, ?c) (E_run (current_query st), L_receive, ?c)"
    by (rule worker_step.executor) simp
  have "(worker_step env)\<^sup>*\<^sup>* (E_fetch_next, L_receive, st) (E_run (current_query st), L_receive, ?c)"
    using 1 2 3 4 by (meson rtranclp.rtrancl_into_rtrancl rtranclp.rtrancl_refl)
  then show ?thesis using 2 assms(1) by (intro exI [of _ ?c]) simp
qed

theorem early_preemption_lost_witness:
  "\<exists>p st'. operation_code p = OP_WORKER_PREEMPT_REQ \<and> fst (read_fields p [K_uint32]) = Some [F_uint32 7] \<and>
    (worker_step demo_worker_env)\<^sup>*\<^sup>* (E_fetch_next, L_receive, demo_worker) (E_run demo_context, L_receive, st') \<and>
    \<not> ejection_requested st' \<and> w_net st' = w_net demo_worker"
proof -
  obtain p where p: "operation_code p = OP_WORKER_PREEMPT_REQ" "fst (read_fields p (map kind_of [F_uint32 7])) = Some [F_uint32 7]"
    by (rule arrived_package [of "[F_uint32 7]"]) simp_all
  obtain p1 where r: "package_read_uint32 p = (Some 7, p1)"
    using p(2) by (auto simp: map_prod_def split: prod.splits option.splits)
  have d: "has_query demo_worker" "current_query demo_worker = demo_context" "ctx_query_id demo_context = 7"
    by (simp_all add: demo_worker_def demo_context_def)
  have r': "package_read_uint32 p = (Some (word_of_int (ctx_query_id (current_query demo_worker))), p1)" using r d by simp
  from early_preemption_lost [OF d(1) p(1) r', of demo_worker_env] obtain st' where
    "(worker_step demo_worker_env)\<^sup>*\<^sup>* (E_fetch_next, L_receive, demo_worker) (E_run demo_context, L_receive, st')"
    "\<not> ejection_requested st'" "w_net st' = w_net demo_worker" unfolding d(2) by (elim exE conjE)
  then show ?thesis using p by (intro exI [of _ p] exI [of _ st']) simp
qed

text \<open>
  The end of the listener does not end the executor: when the connection to the Master is
  lost the stop flag is not set, and when a stop is requested nobody signals the condition.
\<close>

lemma stopped_listener_leaves_executor:
  assumes "listener_receive received st = Some (signal, L_exit, st')"
  shows "worker_step env (E_wait, L_receive, st) (E_wait, L_exit, st')" and "\<not> worker_step env (E_wait, L_exit, st') c'"
proof -
  have "\<not> signal" using assms
    by (auto simp: listener_receive_def eject_query_def assign_query_def split: option.splits if_splits prod.splits)
  then show "worker_step env (E_wait, L_receive, st) (E_wait, L_exit, st')"
    using worker_step.receive [OF assms, of env E_wait] by (simp add: wake_def)
  show "\<not> worker_step env (E_wait, L_exit, st') c'" by (auto elim: waiting_stepE)
qed

subsection \<open>Starting up\<close>

lemma exchange_request:
  assumes "add_fields (package_create_empty op) fs = (True, req)" and "\<forall>f \<in> set fs. field_valid f"
  shows "\<exists>p. operation_code p = op \<and> (\<forall>g cd st. storage_exchange g cd req st =
      (let (resp, st1, cd1) = handle_client_request g st cd p in (Option.bind resp transmit, st1)))"
proof -
  from transmit_fields [OF assms] obtain p where "transmit req = Some p" "operation_code p = op" by metis
  then show ?thesis by (intro exI [of _ p]) (auto simp: storage_exchange_def Let_def split: prod.splits option.splits)
qed

lemma one_uint32_fields:
  obtains p where "package_add_uint32 (package_create_empty op) w = (True, p)"
    and "add_fields (package_create_empty op) [F_uint32 w] = (True, p)"
proof -
  obtain p where "add_fields (package_create_empty op) [F_uint32 w] = (True, p)"
    by (rule message_fits [of "[F_uint32 w]" op]) simp_all
  then show thesis by (intro that) (auto split: prod.splits if_splits)
qed

text \<open>The handshake changes the counter of workers, not the filesystem.\<close>

lemma handshake_fs:
  assumes "handshake_with_storage fd (storage_exchange g cd) w s = (r, s1)"
  shows "st_fs s1 = st_fs s"
proof -
  obtain req where req: "package_add_uint32 (package_create_empty STORAGE_OP_WORKER_SEND_ID_REQ) (word_of_int w) = (True, req)"
    "add_fields (package_create_empty STORAGE_OP_WORKER_SEND_ID_REQ) [F_uint32 (word_of_int w)] = (True, req)"
    by (rule one_uint32_fields)
  obtain p where p: "operation_code p = STORAGE_OP_WORKER_SEND_ID_REQ"
    "\<forall>g cd st. storage_exchange g cd req st =
      (let (resp, st1, cd1) = handle_client_request g st cd p in (Option.bind resp transmit, st1))"
    using exchange_request [OF req(2)] by auto
  have "st_fs (snd (storage_exchange g cd req s)) = st_fs s"
    using p by (simp add: handle_client_request_def storage_op_defs split: prod.splits)
  then show ?thesis
    using assms req(1) by (auto simp: handshake_with_storage_def handshake_with_server_def split: if_splits option.splits prod.splits)
qed

text \<open>The Worker learns the block size of Storage, and nothing changes there.\<close>

lemma block_size_answered:
  "get_block_size (storage_exchange g cd) w s = ((0, Some (word_of_nat (block_size g))), s)"
proof -
  obtain req where req: "package_add_uint32 (package_create_empty STORAGE_OP_WORKER_GET_BLOCK_SIZE_REQ) (word_of_int w) = (True, req)"
    "add_fields (package_create_empty STORAGE_OP_WORKER_GET_BLOCK_SIZE_REQ) [F_uint32 (word_of_int w)] = (True, req)"
    by (rule one_uint32_fields)
  obtain p where p: "operation_code p = STORAGE_OP_WORKER_GET_BLOCK_SIZE_REQ"
    "\<forall>g cd st. storage_exchange g cd req st =
      (let (resp, st1, cd1) = handle_client_request g st cd p in (Option.bind resp transmit, st1))"
    using exchange_request [OF req(2)] by auto
  let ?f = "[F_uint16 (word_of_nat (block_size g))]"
  obtain resp where resp: "add_fields (package_create_empty STORAGE_OP_WORKER_GET_BLOCK_SIZE_RES) ?f = (True, resp)"
    by (rule message_fits [of ?f]) simp_all
  then have sb: "send_block_size g = Some resp" by (auto simp: send_block_size_def split: prod.splits if_splits)
  obtain rq where rq: "transmit resp = Some rq" "operation_code rq = STORAGE_OP_WORKER_GET_BLOCK_SIZE_RES"
    "fst (read_fields rq (map kind_of ?f)) = Some ?f"
    using transmit_fields [OF resp] by auto
  have x: "storage_exchange g cd req s = (Some rq, s)"
    using p sb rq(1) by (simp add: handle_client_request_def storage_op_defs)
  obtain q where "package_read_uint16 rq = (Some (word_of_nat (block_size g)), q)"
    using rq(3) by (auto simp: map_prod_def split: prod.splits option.splits)
  then show ?thesis using req(1) x rq(2) by (simp add: get_block_size_def)
qed

lemma block_size_learned:
  assumes "get_block_size (storage_exchange g cd) w s = ((r, Some bs), s1)" and "block_size g < 2 ^ 16"
  shows "s1 = s" and "unat bs = block_size g"
  using assms block_size_answered [of g cd w s] by (auto simp: unat_of_nat)

lemma handshake_accepted:
  assumes "0 \<le> fd"
  shows "\<exists>s1. handshake_with_storage fd (storage_exchange g cd) w s = (fd, s1)"
proof -
  obtain req where req: "package_add_uint32 (package_create_empty STORAGE_OP_WORKER_SEND_ID_REQ) (word_of_int w) = (True, req)"
    "add_fields (package_create_empty STORAGE_OP_WORKER_SEND_ID_REQ) [F_uint32 (word_of_int w)] = (True, req)"
    by (rule one_uint32_fields)
  obtain p where p: "transmit req = Some p" "operation_code p = STORAGE_OP_WORKER_SEND_ID_REQ"
    "fst (read_fields p (map kind_of [F_uint32 (word_of_int w)])) = Some [F_uint32 (word_of_int w)]"
    using transmit_fields [OF req(2)] by auto
  obtain p1 where "package_read_uint32 p = (Some (word_of_int w), p1)"
    using p(3) by (auto simp: map_prod_def split: prod.splits option.splits)
  moreover have "transmit (package_create_empty STORAGE_OP_WORKER_SEND_ID_RES) =
      Some ((package_create_empty STORAGE_OP_WORKER_SEND_ID_RES)\<lparr>buffer := buffer_create_dynamic\<lparr>offset := 0, is_dynamic := False\<rparr>\<rparr>)"
    by (subst transmit_ok) (simp_all add: package_create_empty_def)
  ultimately have "\<exists>rq s1. storage_exchange g cd req s = (Some rq, s1) \<and> operation_code rq = STORAGE_OP_WORKER_SEND_ID_RES"
    using p(1,2) by (simp add: storage_exchange_def handle_client_request_def handle_handshake_def storage_op_defs package_create_empty_def)
  then show ?thesis using assms req(1) by (auto simp: handshake_with_storage_def handshake_with_server_def)
qed

lemma set_master_connection_inv:
  "worker_inv g (mm_set_master_connection mm fd) s = worker_inv g mm s" "no_leak (mm_set_master_connection mm fd) = no_leak mm"
proof -
  let ?mm = "mm_set_master_connection mm fd"
  have e: "slot ?mm = slot mm" "page_at ?mm = page_at mm" "key_at ?mm = key_at mm" "mm_pt ?mm = mm_pt mm"
    "frame_bytes ?mm = frame_bytes mm"
    by (simp_all add: mm_set_master_connection_def fun_eq_iff slot_def page_at_def mm_pt_def key_at_def frame_bytes_def)
  have "mm_ok ?mm = mm_ok mm" unfolding mm_ok_def e by (simp add: mm_set_master_connection_def)
  then show "worker_inv g ?mm s = worker_inv g mm s"
    unfolding worker_inv_def coherent_def e by (simp add: mm_set_master_connection_def)
  show "no_leak ?mm = no_leak mm" unfolding no_leak_def e by (simp add: mm_set_master_connection_def)
qed

subsection \<open>Where the flags stand\<close>

text \<open>The Worker is marked as executing exactly while the executor has a query.\<close>

fun flags_ok :: "'s worker \<Rightarrow> bool" where
  "flags_ok (e, l, st) \<longleftrightarrow> (is_executing st \<longleftrightarrow> e \<notin> {E_fetch_next, E_wait, E_exit})"

lemma receive_executing: "listener_receive received st = Some (signal, l, st') \<Longrightarrow> is_executing st' = is_executing st"
  by (auto simp: listener_receive_def assign_query_def eject_query_def end_query_def
      split: option.splits if_splits prod.splits)

lemma executor_executing:
  assumes "executor_step env (e, st) = Some (e', st')" and "flags_ok (e, l, st)"
  shows "flags_ok (e', l', st')"
  using assms
  by (cases e)
    (auto simp: fetch_next_query_def start_query_def run_instruction_def after_instruction_def advance_def
      finish_query_def Let_def split: if_splits option.splits prod.splits)

interpretation threads: invariant_system "worker_step env" flags_ok for env
proof
  show "flags_ok t" if "worker_step env s t" "flags_ok s" for s t
    using that
  proof (induction rule: worker_step.induct)
    case (executor e st e' st' l)
    then show ?case using executor_executing by blast
  next
    case (receive received st signal l' st' e)
    then show ?case using receive_executing [OF receive.hyps] by (auto simp: wake_def split: if_splits)
  next
    case (answer e query_id pc st)
    then show ?case by simp
  qed
qed

definition demo_config :: t_worker_config where
  "demo_config = \<lparr>wc_master_ip = ''127.0.0.1'', wc_master_port = ''9001'', wc_storage_ip = ''127.0.0.1'', wc_storage_port = ''9002'',
     memory_size = 8, memory_retardation_ms = 0, replacement_algorithm = ''CLOCK-M'', wc_path_scripts = ''/s/'', wc_block_size = 0,
     wc_log_level = ''INFO''\<rparr>"

text \<open>
  C28: A Worker starts sound, and its flags tell what the executor does. When the start-up
  against the modelled Storage succeeds, the memory has the block size of Storage as its page
  size, the invariant of the Worker holds and no frame is lost; and whatever messages arrive
  from then on, in every state the two threads reach the Worker is marked as executing exactly
  when the executor has taken a query and not yet finished it.
\<close>

theorem worker_starts_sound:
  assumes n: "net_ok g (s, [])"
    and st: "start_worker (storage_exchange g cd) exm config fd1 fd2 wid garbage ctx s m = (Some w, s', m')"
  shows "(\<exists>st. w = (E_fetch_next, L_receive, st) \<and> worker_inv g (memory_manager st) (w_net st) \<and> no_leak (memory_manager st)) \<and>
    (\<forall>env e l st'. (worker_step env)\<^sup>*\<^sup>* w (e, l, st') \<longrightarrow> (is_executing st' \<longleftrightarrow> e \<notin> {E_fetch_next, E_wait, E_exit}))"
proof -
  obtain r1 s1 where h: "handshake_with_storage fd1 (storage_exchange g cd) wid s = (r1, s1)" by (metis surj_pair)
  obtain r2 b s2 where b: "get_block_size (storage_exchange g cd) wid s1 = ((r2, b), s2)" by (metis surj_pair)
  obtain r3 m1 where hm: "handshake_with_master fd2 exm wid m = (r3, m1)" by (metis surj_pair)
  have bs: "block_size g < 2 ^ 16" using n by (simp add: net_ok_def)
  from st h b hm obtain bs' mm where x: "b = Some bs'"
    "mm_create garbage (nat (memory_size config)) (unat bs') (parse_replacement_algorithm (replacement_algorithm config))
      (memory_retardation_ms config) = Some mm"
    "w = initial_worker (mm_set_master_connection (mm_set_storage_connection mm r1 wid) r3) ctx (s2, [])"
    by (auto simp: start_worker_def Let_def split: if_splits option.splits)
  note L = block_size_learned [OF b [unfolded x(1)] bs]
  have "st_fs s2 = st_fs s" using handshake_fs [OF h] L(1) by simp
  then have n2: "net_ok g (s2, [])" using n by (simp add: net_ok_def)
  have "worker_inv g mm (s2, [])" "no_leak mm" using mm_create_inv [OF x(2) [unfolded L(2)] n2] by simp_all
  then have i: "worker_inv g (mm_set_master_connection (mm_set_storage_connection mm r1 wid) r3) (s2, [])"
    "no_leak (mm_set_master_connection (mm_set_storage_connection mm r1 wid) r3)"
    by (simp_all add: set_master_connection_inv)
  have f: "flags_ok w" by (simp add: x(3) initial_worker_def)
  have "is_executing st' \<longleftrightarrow> e \<notin> {E_fetch_next, E_wait, E_exit}" if "(worker_step env)\<^sup>*\<^sup>* w (e, l, st')" for env e l st'
    using threads.steps_inv [OF that f] by simp
  then show ?thesis using i by (auto simp: x(3) initial_worker_def)
qed

theorem worker_starts_sound_witness:
  "\<exists>w. fst (start_worker (storage_exchange demo_env demo_client) (\<lambda>p m. (Some (package_create_empty OP_WORKER_ACK), m))
      demo_config 3 4 1 (\<lambda>i. 0) demo_context (fst demo_net) ())
      = Some w \<and> (\<exists>st. w = (E_fetch_next, L_receive, st) \<and> worker_inv demo_env (memory_manager st) (w_net st))"
proof -
  let ?ex = "storage_exchange demo_env demo_client" and ?m = "\<lambda>p m. (Some (package_create_empty OP_WORKER_ACK), m)"
  let ?c = demo_config
  have n: "net_ok demo_env (fst demo_net, [])" using demo_net_ok by (simp add: net_ok_def)
  obtain r1 where r1: "package_add_uint32 (package_create_empty OP_WORKER_HANDSHAKE_REQ) (1 :: u32) = (True, r1)"
    by (rule one_uint32_fields)
  have hm: "handshake_with_master 4 ?m 1 () = (4, ())"
    by (simp add: handshake_with_master_def handshake_with_server_def r1) (simp add: package_create_empty_def)
  obtain s1 where h: "handshake_with_storage 3 ?ex 1 (fst demo_net) = (3, s1)"
    using handshake_accepted [of 3 demo_env demo_client 1 "fst demo_net"] by auto
  obtain bs where b: "get_block_size ?ex 1 s1 = ((0, Some bs), s1)" using block_size_answered [of demo_env demo_client 1 s1] by auto
  have "unat bs = 4" using block_size_learned(2) [OF b] by (simp add: demo_env_def)
  then obtain mm where "mm_create (\<lambda>i. 0) 8 (unat bs) (parse_replacement_algorithm ''CLOCK-M'') 0 = Some mm"
    by (simp add: mm_create_def)
  then obtain w m' where w: "start_worker ?ex ?m ?c 3 4 1 (\<lambda>i. 0) demo_context (fst demo_net) () = (Some w, s1, m')"
    by (simp add: start_worker_def h b hm demo_config_def)
  from worker_starts_sound [OF n w] w show ?thesis by auto
qed

end
