(* ===== verification/Query_Control.thy ===== *)
theory Query_Control
  imports Query_Interpreter
begin

text \<open>
  The Query Control process: \<^verbatim>\<open>query_control/src/main.c\<close>. It asks the Master for the execution
  of one query and shows what comes back. What \<^verbatim>\<open>package_receive\<close> returns, one call after the
  other, is a list (\<open>None\<close> for a closed connection); reading the configuration, the logger
  and the current directory succeed. The outcome is the exit code, the packages sent and the
  lines shown; while the process still waits for a package there is no exit code.
\<close>

datatype qc_line =
  Lectura_realizada bytes nat bytes \<comment> \<open>File:Tag, number of bytes, what is printed of them\<close>
| Query_Finalizada bytes

record qc_outcome =
  retval :: "int option"
  requests :: "t_package list"
  shown :: "qc_line list"

subsection \<open>Messages\<close>

definition handshake_package :: "bool \<times> t_package" where
  "handshake_package = package_add_string (package_create_empty OP_QUERY_HANDSHAKE) (to_bytes ''QUERY_CONTROL_HANDSHAKE'')"

text \<open>The priority is cut to a byte.\<close>

definition query_package :: "string \<Rightarrow> int \<Rightarrow> bool \<times> t_package" where
  "query_package query_filepath priority =
     (let (ok, p1) = package_add_string (package_create_empty OP_QUERY_FILE_PATH) (to_bytes query_filepath)
      in if \<not> ok then (False, p1) else package_add_uint8 p1 (word_of_int priority))"

text \<open>Bytes that are not printable ASCII are shown as dots.\<close>

definition printable_byte :: "u8 \<Rightarrow> u8" where
  "printable_byte c = (if 32 \<le> c \<and> c \<le> 126 then c else of_char (CHR ''.''))"

text \<open>The UTF-8 bytes of an accented o in the source's literals.\<close>

abbreviation o_acute :: string where
  "o_acute \<equiv> [CHR 0xC3, CHR 0xB3]"

text \<open>The reason shown for a \<^verbatim>\<open>QC_OP_MASTER_FIN_DESCONEXION\<close> or an \<^verbatim>\<open>OP_END_QUERY\<close>.\<close>

definition reason_string :: "t_package \<Rightarrow> bytes" where
  "reason_string resp =
     (if operation_code resp = QC_OP_MASTER_FIN_DESCONEXION then
        (case package_read_uint32 (package_reset_read_offset resp) of
           (None, _) \<Rightarrow> to_bytes (''Finalizaci'' @ o_acute @ ''n por error en Storage'')
         | (Some qid, p1) \<Rightarrow>
             (case package_read_string p1 of
                (Some msg, _) \<Rightarrow> msg
              | (None, _) \<Rightarrow> to_bytes ''Error desconocido en Storage (sin mensaje)''))
      else to_bytes (''Finalizaci'' @ o_acute @ ''n normal de la Query''))"

subsection \<open>The loop over the Master's messages\<close>

text \<open>
  An unknown operation code sets the exit code and the loop goes on; only a closed
  connection, an incomplete read message or the end of the query leave it.
\<close>

fun receive_loop :: "int \<Rightarrow> t_package option list \<Rightarrow> qc_outcome \<Rightarrow> qc_outcome" where
  "receive_loop rv [] out = out\<lparr>retval := None\<rparr>"
| "receive_loop rv (None # rest) out = out\<lparr>retval := Some (-7)\<rparr>"
| "receive_loop rv (Some resp # rest) out =
     (if operation_code resp = QC_OP_READ_DATA then
        let (file_data, p1) = package_read_data resp;
            (file_tag, p2) = package_read_string p1
        in (case (file_tag, file_data) of
              (Some ft, Some d) \<Rightarrow>
                receive_loop rv rest (out\<lparr>shown := shown out @ [Lectura_realizada ft (length d) (map printable_byte d)]\<rparr>)
            | _ \<Rightarrow> out\<lparr>retval := Some (-7)\<rparr>)
      else if operation_code resp = QC_OP_MASTER_FIN_DESCONEXION \<or> operation_code resp = OP_END_QUERY then
        out\<lparr>retval := Some 0, shown := shown out @ [Query_Finalizada (reason_string resp)]\<rparr>
      else receive_loop (-7) rest out)"

subsection \<open>The process\<close>

text \<open>
  \<open>connected\<close> is the descriptor of the connection to the Master and \<open>accepts\<close> tells whether
  sending a package there succeeds. An answer other than \<^verbatim>\<open>QC_OP_MASTER_CONNECTION_OK\<close> only
  sets the exit code.
\<close>

definition qc_main ::
  "string list \<Rightarrow> int \<Rightarrow> (t_package \<Rightarrow> bool) \<Rightarrow> t_package option list \<Rightarrow> qc_outcome" where
  "qc_main argv connected accepts incoming =
     (let quit = (\<lambda>code sent. \<lparr>retval = Some code, requests = sent, shown = []\<rparr>);
          waiting = (\<lambda>sent. \<lparr>retval = None, requests = sent, shown = []\<rparr>)
      in case argv of
           [_, config_filepath, query_filepath, prio] \<Rightarrow>
             (let priority = atoi prio
              in if priority < 0 then quit (-8) []
                 else if connected < 0 then quit (-5) []
                 else
                   let (ok, hs) = handshake_package
                   in if \<not> ok \<or> \<not> accepts hs then quit (-6) []
                      else case incoming of
                        [] \<Rightarrow> waiting [hs]
                      | None # _ \<Rightarrow> quit (-6) [hs]
                      | Some r # rest \<Rightarrow>
                          if operation_code r \<noteq> OP_QUERY_HANDSHAKE then quit (-6) [hs]
                          else
                            let (ok2, qp) = query_package query_filepath priority
                            in if \<not> ok2 \<or> \<not> accepts qp then quit (-6) [hs]
                               else case rest of
                                 [] \<Rightarrow> waiting [hs, qp]
                               | r2 # rest2 \<Rightarrow>
                                   receive_loop
                                     (case r2 of
                                        Some r2p \<Rightarrow> if operation_code r2p \<noteq> QC_OP_MASTER_CONNECTION_OK then -7 else 0
                                      | None \<Rightarrow> -7)
                                     rest2 (waiting [hs, qp]))
         | _ \<Rightarrow> quit (-1) [])"

subsection \<open>A session\<close>

lemma handshake_sent: obtains hs where "handshake_package = (True, hs)" and "operation_code hs = OP_QUERY_HANDSHAKE"
proof -
  let ?f = "F_string (to_bytes ''QUERY_CONTROL_HANDSHAKE'')"
  have v: "string_valid (to_bytes ''QUERY_CONTROL_HANDSHAKE'')"
    unfolding string_valid_def to_bytes_nul by (simp add: to_bytes_def MAX_STRING_LENGTH_def)
  obtain hs where hs: "add_fields (package_create_empty OP_QUERY_HANDSHAKE) [?f] = (True, hs)"
    by (rule message_fits [of "[?f]" OP_QUERY_HANDSHAKE]) (use v in \<open>simp_all add: enc_sized_def to_bytes_def\<close>)
  from built_ok(2) [OF hs] v hs show thesis
    by (intro that) (auto simp: handshake_package_def split: prod.splits if_splits)
qed

lemma query_package_fields:
  "query_package path prio =
    add_fields (package_create_empty OP_QUERY_FILE_PATH) [F_string (to_bytes path), F_uint8 (word_of_int prio)]"
  by (auto simp: query_package_def Let_def split: prod.splits)

lemma query_sent:
  assumes "wire_name path"
  obtains qp q where "query_package path prio = (True, qp)" and "transmit qp = Some q"
    and "operation_code q = OP_QUERY_FILE_PATH"
    and "fst (read_fields q [K_string, K_uint8]) = Some [F_string (to_bytes path), F_uint8 (word_of_int prio)]"
proof -
  let ?fs = "[F_string (to_bytes path), F_uint8 (word_of_int prio)]"
  have v: "\<forall>f \<in> set ?fs. field_valid f" using assms by (simp add: wire_name_def)
  have l: "length (to_bytes path) \<le> 1024 * 1024"
    using assms by (simp add: wire_name_def string_valid_def MAX_STRING_LENGTH_def)
  obtain qp where qp: "add_fields (package_create_empty OP_QUERY_FILE_PATH) ?fs = (True, qp)"
    by (rule message_fits [OF v, of OP_QUERY_FILE_PATH]) (use l in \<open>simp_all add: enc_sized_def\<close>)
  from transmit_fields [OF qp v] show thesis using that qp by (auto simp: query_package_fields)
qed

text \<open>What a package with a piece of a file makes the loop show.\<close>

definition forwarded_read :: "t_package \<Rightarrow> bytes \<times> bytes \<Rightarrow> bool" where
  "forwarded_read m c \<longleftrightarrow> operation_code m = QC_OP_READ_DATA \<and>
     fst (read_fields m [K_data, K_string]) = Some [F_data (fst c), F_string (snd c)]"

definition lectura :: "bytes \<times> bytes \<Rightarrow> qc_line" where
  "lectura c = Lectura_realizada (snd c) (length (fst c)) (map printable_byte (fst c))"

lemma receive_loop_read:
  assumes "forwarded_read m c"
  shows "receive_loop rv (Some m # rest) out = receive_loop rv rest (out\<lparr>shown := shown out @ [lectura c]\<rparr>)"
  using assms by (auto simp: forwarded_read_def lectura_def split: prod.splits option.splits)

lemma receive_loop_reads:
  assumes "list_all2 forwarded_read ms cs"
  shows "receive_loop rv (map Some ms @ rest) out =
    receive_loop rv rest (out\<lparr>shown := shown out @ map lectura cs\<rparr>)"
  using assms
proof (induction ms cs arbitrary: out rule: list_all2_induct)
  case (Cons m ms c cs)
  from receive_loop_read [OF Cons.hyps(1)] Cons.IH show ?case by simp
qed simp

lemma receive_loop_end:
  "operation_code e = OP_END_QUERY \<Longrightarrow> receive_loop rv (Some e # rest) out =
    out\<lparr>retval := Some 0, shown := shown out @ [Query_Finalizada (to_bytes (''Finalizaci'' @ o_acute @ ''n normal de la Query''))]\<rparr>"
  by (simp add: reason_string_def master_op_defs)

lemma receive_loop_error:
  assumes "operation_code e = QC_OP_MASTER_FIN_DESCONEXION"
    and "fst (read_fields (package_reset_read_offset e) [K_uint32, K_string]) = Some [F_uint32 qid, F_string msg]"
  shows "receive_loop rv (Some e # rest) out =
    out\<lparr>retval := Some 0, shown := shown out @ [Query_Finalizada msg]\<rparr>"
  using assms by (auto simp: reason_string_def master_op_defs split: prod.splits option.splits)

text \<open>
  C27: A whole session of the Query Control. When the Master answers the handshake, confirms
  the query, forwards any number of pieces of files and then reports the end of the query,
  the process sends exactly two packages, the handshake and the request, from which a
  receiver reads the path and the priority modulo 256; it shows every piece in the order of
  arrival, with its \<^verbatim>\<open>File:Tag\<close>, its length and dots for the bytes that cannot be printed, then the
  end, and returns 0. Packages after the end are not looked at.
\<close>

theorem query_control_session:
  assumes "0 \<le> atoi prio" and "0 \<le> fd" and "\<forall>p. accepts p" and "wire_name path"
    and "operation_code h = OP_QUERY_HANDSHAKE" and "operation_code c = QC_OP_MASTER_CONNECTION_OK"
    and "list_all2 forwarded_read ms cs" and "operation_code e = OP_END_QUERY"
  shows "\<exists>hs qp q.
    qc_main [prog, config, path, prio] fd accepts (Some h # Some c # map Some ms @ Some e # rest) =
      \<lparr>retval = Some 0, requests = [hs, qp],
       shown = map (\<lambda>(d, ft). Lectura_realizada ft (length d)
                      (map (\<lambda>b. if 32 \<le> b \<and> b \<le> 126 then b else 46) d)) cs @
               [Query_Finalizada (to_bytes (''Finalizaci'' @ o_acute @ ''n normal de la Query''))]\<rparr> \<and>
    operation_code hs = OP_QUERY_HANDSHAKE \<and> transmit qp = Some q \<and> operation_code q = OP_QUERY_FILE_PATH \<and>
    fst (read_fields q [K_string, K_uint8]) = Some [F_string (to_bytes path), F_uint8 (word_of_int (atoi prio mod 256))]"
proof -
  obtain hs where hs: "handshake_package = (True, hs)" "operation_code hs = OP_QUERY_HANDSHAKE" by (rule handshake_sent)
  have "(word_of_int (atoi prio mod 256) :: u8) = word_of_int (atoi prio)"
    by (rule word_of_int_eq_iff [THEN iffD2]) (simp add: take_bit_eq_mod)
  with query_sent [OF assms(4), of "atoi prio"] obtain qp q where q: "query_package path (atoi prio) = (True, qp)"
    "transmit qp = Some q" "operation_code q = OP_QUERY_FILE_PATH"
    "fst (read_fields q [K_string, K_uint8]) = Some [F_string (to_bytes path), F_uint8 (word_of_int (atoi prio mod 256))]"
    by metis
  have l: "map (\<lambda>(d, ft). Lectura_realizada ft (length d) (map (\<lambda>b. if 32 \<le> b \<and> b \<le> 126 then b else 46) d)) cs = map lectura cs"
    by (auto simp: lectura_def printable_byte_def)
  have nn: "\<not> atoi prio < 0" "\<not> fd < 0" using assms(1,2) by simp_all
  have "qc_main [prog, config, path, prio] fd accepts (Some h # Some c # map Some ms @ Some e # rest) =
    receive_loop 0 (map Some ms @ Some e # rest) \<lparr>retval = None, requests = [hs, qp], shown = []\<rparr>"
    by (simp add: qc_main_def Let_def assms nn hs q del: receive_loop.simps)
  then show ?thesis
    using hs q l by (simp add: receive_loop_reads [OF assms(7)] receive_loop_end [OF assms(8)] del: receive_loop.simps)
qed

theorem query_control_session_witness:
  "\<exists>h c m e hs qp. operation_code h = OP_QUERY_HANDSHAKE \<and> operation_code c = QC_OP_MASTER_CONNECTION_OK \<and>
    forwarded_read m ([104, 105, 10], to_bytes ''a:v1'') \<and> operation_code e = OP_END_QUERY \<and>
    qc_main [''query_control'', ''qc.config'', ''read.txt'', ''300''] 3 (\<lambda>p. True) [Some h, Some c, Some m, Some e] =
      \<lparr>retval = Some 0, requests = [hs, qp],
       shown = [Lectura_realizada (to_bytes ''a:v1'') 3 [104, 105, 46],
                Query_Finalizada (to_bytes (''Finalizaci'' @ o_acute @ ''n normal de la Query''))]\<rparr>"
proof -
  let ?fs = "[F_data [104, 105, 10], F_string (to_bytes ''a:v1'')]"
  obtain m where m: "operation_code m = QC_OP_READ_DATA" "fst (read_fields m (map kind_of ?fs)) = Some ?fs"
    by (rule arrived_package [of ?fs QC_OP_READ_DATA])
      (simp_all add: enc_sized_def to_bytes_def data_valid_def string_valid_def MAX_DATA_SIZE_def MAX_STRING_LENGTH_def)
  have rm: "forwarded_read m ([104, 105, 10], to_bytes ''a:v1'')" using m by (simp add: forwarded_read_def)
  have nm: "wire_name ''read.txt''"
    unfolding wire_name_def string_valid_def to_bytes_nul by (simp add: to_bytes_def MAX_STRING_LENGTH_def)
  define h c e where "h = package_create_empty OP_QUERY_HANDSHAKE" and "c = package_create_empty QC_OP_MASTER_CONNECTION_OK"
    and "e = package_create_empty OP_END_QUERY"
  have op: "operation_code h = OP_QUERY_HANDSHAKE" "operation_code c = QC_OP_MASTER_CONNECTION_OK" "operation_code e = OP_END_QUERY"
    by (simp_all add: h_def c_def e_def package_create_empty_def)
  have at: "0 \<le> atoi ''300''" by code_simp
  have fd: "0 \<le> (3 :: int)" "\<forall>p :: t_package. True" by simp_all
  have ms: "list_all2 forwarded_read [m] [([104, 105, 10], to_bytes ''a:v1'')]" using rm by (simp only: list.rel_intros)
  have line: "map (\<lambda>(d, ft). Lectura_realizada ft (length d) (map (\<lambda>b. if 32 \<le> b \<and> b \<le> 126 then b else 46) d))
      [([104, 105, 10], F)] = [Lectura_realizada F 3 [104, 105, 46]]" for F :: bytes by simp
  have "\<exists>hs qp. qc_main [''query_control'', ''qc.config'', ''read.txt'', ''300''] 3 (\<lambda>p. True) [Some h, Some c, Some m, Some e] =
      \<lparr>retval = Some 0, requests = [hs, qp],
       shown = [Lectura_realizada (to_bytes ''a:v1'') 3 [104, 105, 46],
                Query_Finalizada (to_bytes (''Finalizaci'' @ o_acute @ ''n normal de la Query''))]\<rparr>"
    using query_control_session [OF at fd nm op(1,2) ms op(3), of "''query_control''" "''qc.config''" "[]"]
    unfolding line unfolding list.map append_Nil append_Cons by blast
  with rm op show ?thesis by blast
qed

end
