(* ===== verification/Master_Tables.thy ===== *)
theory Master_Tables
  imports Serialization Protocol
begin

text \<open>
  The state of the Master (\<^verbatim>\<open>master/src/init_master.h\<close>, \<^verbatim>\<open>query_control_manager.h\<close>,
  \<^verbatim>\<open>worker_manager.h\<close>) and the operations on it that no message handler owns: inserting
  in the ready queue, creating control blocks, sending, dispatching, ending a query and
  releasing control blocks.

  The tables are lists of pointers to control blocks that several lists share, so the blocks
  live in two heaps, \<open>qcb_heap\<close> and \<open>wcb_heap\<close>: a pointer is a number, \<^verbatim>\<open>malloc\<close> hands out
  numbers never used before and \<^verbatim>\<open>free\<close> removes the block. A package that leaves whole is
  appended to \<open>sent\<close> with its socket. The addresses and ports of the processes, which the
  handlers never read, are left out. What the environment decides is an argument: how many
  bytes \<^verbatim>\<open>send\<close> takes, the monotonic clock, and \<^verbatim>\<open>list_sort\<close> of the commons library, of
  which the sources are not part of the repository.

  A function returns what the source returns and the state; the critical section between
  taking and releasing the table mutexes is one function.
\<close>

type_synonym ptr = nat

datatype t_query_state =
  QUERY_STATE_NEW | QUERY_STATE_READY | QUERY_STATE_RUNNING | QUERY_STATE_COMPLETED | QUERY_STATE_CANCELED

record t_query_control_block =
  q_socket_fd :: int
  query_id :: int
  query_file_path :: bytes
  priority :: int
  initial_priority :: int
  ready_timestamp :: u64
  assigned_worker_id :: int
  program_counter :: int
  preemption_pending :: bool
  cleaned_up :: bool
  q_state :: t_query_state

record t_query_table =
  query_list :: "ptr list"
  ready_queue :: "ptr list"
  running_list :: "ptr list"
  completed_list :: "ptr list"
  canceled_list :: "ptr list"
  total_queries :: int
  next_query_id :: int

datatype t_worker_state = WORKER_STATE_DISCONNECTED | WORKER_STATE_IDLE | WORKER_STATE_BUSY

record t_worker_control_block =
  worker_id :: int
  w_socket_fd :: int
  current_query_id :: int
  w_state :: t_worker_state

record t_worker_table =
  worker_list :: "ptr list"
  total_workers_connected :: int
  idle_list :: "ptr list"
  busy_list :: "ptr list"
  disconnected_list :: "ptr list"

record t_master =
  queries_table :: t_query_table
  workers_table :: t_worker_table
  aging_interval :: int
  scheduling_algorithm :: string
  multiprogramming_level :: int
  qcb_heap :: "ptr \<rightharpoonup> t_query_control_block"
  wcb_heap :: "ptr \<rightharpoonup> t_worker_control_block"
  next_ptr :: ptr
  running_query_id_for_predicate :: int
  sent :: "(int \<times> t_package) list"

record master_env =
  send :: "int \<Rightarrow> bytes \<Rightarrow> int"
  now_ms :: u64
  list_sort :: "(ptr \<Rightarrow> ptr \<Rightarrow> bool) \<Rightarrow> ptr list \<Rightarrow> ptr list"

definition init_master :: "int \<Rightarrow> string \<Rightarrow> t_master" where
  "init_master interval algorithm =
     \<lparr>queries_table = \<lparr>query_list = [], ready_queue = [], running_list = [], completed_list = [],
        canceled_list = [], total_queries = 0, next_query_id = -1\<rparr>,
      workers_table = \<lparr>worker_list = [], total_workers_connected = 0, idle_list = [], busy_list = [],
        disconnected_list = []\<rparr>,
      aging_interval = interval, scheduling_algorithm = algorithm, multiprogramming_level = 0,
      qcb_heap = Map.empty, wcb_heap = Map.empty, next_ptr = 0,
      running_query_id_for_predicate = -1, sent = []\<rparr>"

text \<open>Dereferencing a pointer, and assigning fields through it.\<close>

definition qcb :: "t_master \<Rightarrow> ptr \<Rightarrow> t_query_control_block" where
  "qcb s p = the (qcb_heap s p)"

definition wcb :: "t_master \<Rightarrow> ptr \<Rightarrow> t_worker_control_block" where
  "wcb s p = the (wcb_heap s p)"

definition upd_qcb ::
  "ptr \<Rightarrow> (t_query_control_block \<Rightarrow> t_query_control_block) \<Rightarrow> t_master \<Rightarrow> t_master" where
  "upd_qcb p f s = s\<lparr>qcb_heap := (qcb_heap s)(p := map_option f (qcb_heap s p))\<rparr>"

definition upd_wcb ::
  "ptr \<Rightarrow> (t_worker_control_block \<Rightarrow> t_worker_control_block) \<Rightarrow> t_master \<Rightarrow> t_master" where
  "upd_wcb p f s = s\<lparr>wcb_heap := (wcb_heap s)(p := map_option f (wcb_heap s p))\<rparr>"

definition on_queries :: "(t_query_table \<Rightarrow> t_query_table) \<Rightarrow> t_master \<Rightarrow> t_master" where
  "on_queries f s = s\<lparr>queries_table := f (queries_table s)\<rparr>"

definition on_workers :: "(t_worker_table \<Rightarrow> t_worker_table) \<Rightarrow> t_master \<Rightarrow> t_master" where
  "on_workers f s = s\<lparr>workers_table := f (workers_table s)\<rparr>"

abbreviation "ready s \<equiv> ready_queue (queries_table s)"
abbreviation "running s \<equiv> running_list (queries_table s)"
abbreviation "queries s \<equiv> query_list (queries_table s)"
abbreviation "workers s \<equiv> worker_list (workers_table s)"
abbreviation "idle s \<equiv> idle_list (workers_table s)"
abbreviation "busy s \<equiv> busy_list (workers_table s)"

text \<open>\<^verbatim>\<open>package_send\<close> from the Master.\<close>

definition master_send :: "master_env \<Rightarrow> t_package \<Rightarrow> int \<Rightarrow> t_master \<Rightarrow> int \<times> t_master" where
  "master_send env p socket s =
     (let r = fst (package_send (send env) p socket)
      in (r, if r = 0 then s\<lparr>sent := sent s @ [(socket, p)]\<rparr> else s))"

subsection \<open>\<^verbatim>\<open>query_control_manager.c\<close>\<close>

definition generate_query_id :: "t_master \<Rightarrow> int \<times> t_master" where
  "generate_query_id s =
     (let i = next_query_id (queries_table s) + 1
      in (i, on_queries (\<lambda>t. t\<lparr>next_query_id := i\<rparr>) s))"

text \<open>
  The loop looks for the first query with a larger number and inserts before it; the
  priorities are read through the pointers by \<open>prio\<close>.
\<close>

fun insert_query_by_priority :: "(ptr \<Rightarrow> int) \<Rightarrow> ptr list \<Rightarrow> ptr \<Rightarrow> ptr list" where
  "insert_query_by_priority prio [] new_qcb = [new_qcb]"
| "insert_query_by_priority prio (existing_qcb # rest) new_qcb =
     (if prio new_qcb < prio existing_qcb then new_qcb # existing_qcb # rest
      else existing_qcb # insert_query_by_priority prio rest new_qcb)"

abbreviation prio_of :: "t_master \<Rightarrow> ptr \<Rightarrow> int" where
  "prio_of s p \<equiv> priority (qcb s p)"

definition enqueue_ready :: "ptr \<Rightarrow> t_master \<Rightarrow> t_master" where
  "enqueue_ready p s =
     on_queries (\<lambda>t. t\<lparr>ready_queue :=
       (if scheduling_algorithm s = ''PRIORITY'' then insert_query_by_priority (prio_of s) (ready_queue t) p
        else ready_queue t @ [p])\<rparr>) s"

definition create_query :: "master_env \<Rightarrow> int \<Rightarrow> bytes \<Rightarrow> int \<Rightarrow> int \<Rightarrow> t_master \<Rightarrow> ptr \<times> t_master" where
  "create_query env qid path prio socket s =
     (let p = next_ptr s;
          block = \<lparr>q_socket_fd = socket, query_id = qid, query_file_path = c_string path, priority = prio,
            initial_priority = prio, ready_timestamp = now_ms env, assigned_worker_id = -1,
            program_counter = 0, preemption_pending = False, cleaned_up = False,
            q_state = QUERY_STATE_READY\<rparr>;
          s1 = s\<lparr>qcb_heap := (qcb_heap s)(p \<mapsto> block), next_ptr := p + 1\<rparr>;
          s2 = on_queries (\<lambda>t. t\<lparr>query_list := query_list t @ [p]\<rparr>) s1;
          s3 = enqueue_ready p s2
      in (p, on_queries (\<lambda>t. t\<lparr>total_queries := total_queries t + 1\<rparr>) s3))"

definition manage_query_handshake :: "master_env \<Rightarrow> int \<Rightarrow> t_master \<Rightarrow> int \<times> t_master" where
  "manage_query_handshake env client_socket s =
     (let (r, s1) = master_send env (package_create_empty OP_QUERY_HANDSHAKE) client_socket s
      in (if r < 0 then -2 else 0, s1))"

subsection \<open>\<^verbatim>\<open>scheduler.c\<close>\<close>

definition send_query_to_worker ::
  "master_env \<Rightarrow> ptr \<Rightarrow> ptr \<Rightarrow> t_master \<Rightarrow> int \<times> t_master" where
  "send_query_to_worker env worker query s =
     (if w_socket_fd (wcb s worker) \<le> 0 then (-1, s)
      else
        let (ok1, p1) = package_add_uint32 (package_create_empty OP_WORKER_START_QUERY)
                          (word_of_int (query_id (qcb s query)))
        in if \<not> ok1 then (-1, s)
           else
             let (ok2, p2) = package_add_uint32 p1 (word_of_int (program_counter (qcb s query)))
             in if \<not> ok2 then (-1, s)
                else
                  let (ok3, p3) = package_add_string p2 (query_file_path (qcb s query))
                  in if \<not> ok3 then (-1, s)
                     else
                       let (r, s1) = master_send env p3 (w_socket_fd (wcb s worker)) s
                       in if r \<noteq> 0 then (-1, s1) else (0, s1))"

text \<open>The assignment of the first ready query to the first idle worker.\<close>

definition assign :: "ptr \<Rightarrow> ptr \<Rightarrow> t_master \<Rightarrow> t_master" where
  "assign query worker s =
     (let s1 = on_queries (\<lambda>t. t\<lparr>ready_queue := tl (ready_queue t)\<rparr>) s;
          s2 = on_workers (\<lambda>t. t\<lparr>idle_list := tl (idle_list t)\<rparr>) s1;
          s3 = upd_wcb worker (\<lambda>w. w\<lparr>current_query_id := query_id (qcb s query),
                                     w_state := WORKER_STATE_BUSY\<rparr>) s2;
          s4 = upd_qcb query (\<lambda>q. q\<lparr>q_state := QUERY_STATE_RUNNING,
                                     assigned_worker_id := worker_id (wcb s worker),
                                     preemption_pending := False\<rparr>) s3;
          s5 = on_queries (\<lambda>t. t\<lparr>running_list := running_list t @ [query]\<rparr>) s4
      in on_workers (\<lambda>t. t\<lparr>busy_list := busy_list t @ [worker]\<rparr>) s5)"

text \<open>What \<^verbatim>\<open>try_dispatch\<close> undoes when the query could not be sent.\<close>

definition unassign :: "ptr \<Rightarrow> ptr \<Rightarrow> t_master \<Rightarrow> t_master" where
  "unassign query worker s =
     (let s1 = upd_wcb worker (\<lambda>w. w\<lparr>current_query_id := -1, w_state := WORKER_STATE_IDLE\<rparr>) s;
          s2 = upd_qcb query (\<lambda>q. q\<lparr>q_state := QUERY_STATE_READY, assigned_worker_id := -1\<rparr>) s1;
          s3 = on_queries (\<lambda>t. t\<lparr>running_list := remove1 query (running_list t)\<rparr>) s2;
          s4 = on_workers (\<lambda>t. t\<lparr>busy_list := remove1 worker (busy_list t)\<rparr>) s3;
          s5 = enqueue_ready query s4
      in on_workers (\<lambda>t. t\<lparr>idle_list := idle_list t @ [worker]\<rparr>) s5)"

definition try_dispatch :: "master_env \<Rightarrow> t_master \<Rightarrow> int \<times> t_master" where
  "try_dispatch env s =
     (if idle s = [] then (0, s)
      else if ready s = [] then (0, s)
      else if list_ex (\<lambda>q. preemption_pending (qcb s q)) (running s) then (0, s)
      else
        let query = hd (ready s);
            worker = hd (idle s);
            (r, s1) = send_query_to_worker env worker query (assign query worker s)
        in if r \<noteq> 0 then (-1, unassign query worker s1) else (0, s1))"

subsection \<open>\<^verbatim>\<open>disconnection_handler.c\<close>: searching and releasing\<close>

text \<open>
  The predicates of \<^verbatim>\<open>list_find\<close> compare with a static variable that the caller sets just
  before the search; the value is an argument here.
\<close>

definition find_query_by_socket :: "t_master \<Rightarrow> int \<Rightarrow> ptr option" where
  "find_query_by_socket s socket = find (\<lambda>p. q_socket_fd (qcb s p) = socket) (queries s)"

definition find_worker_by_socket :: "t_master \<Rightarrow> int \<Rightarrow> ptr option" where
  "find_worker_by_socket s socket = find (\<lambda>p. w_socket_fd (wcb s p) = socket) (workers s)"

definition match_query_by_id :: "t_master \<Rightarrow> int \<Rightarrow> ptr \<Rightarrow> bool" where
  "match_query_by_id s i p = (query_id (qcb s p) = i)"

definition match_worker_by_id :: "t_master \<Rightarrow> int \<Rightarrow> ptr \<Rightarrow> bool" where
  "match_worker_by_id s i p = (worker_id (wcb s p) = i)"

definition fin_package :: "int \<Rightarrow> bytes \<Rightarrow> t_package" where
  "fin_package qid reason =
     snd (package_add_string
       (snd (package_add_uint32 (package_create_empty QC_OP_MASTER_FIN_DESCONEXION) (word_of_int qid))) reason)"

definition finalize_query_with_error :: "master_env \<Rightarrow> ptr \<Rightarrow> bytes \<Rightarrow> t_master \<Rightarrow> t_master" where
  "finalize_query_with_error env p reason s =
     (let s1 = snd (master_send env (fin_package (query_id (qcb s p)) reason) (q_socket_fd (qcb s p)) s)
      in upd_qcb p (\<lambda>q. q\<lparr>q_state := QUERY_STATE_CANCELED\<rparr>) s1)"

definition cleanup_query_resources :: "ptr \<Rightarrow> t_master \<Rightarrow> t_master" where
  "cleanup_query_resources p s =
     (if cleaned_up (qcb s p) then s
      else
        let s1 = on_queries (\<lambda>t. t\<lparr>ready_queue := remove1 p (ready_queue t),
                                   running_list := remove1 p (running_list t),
                                   completed_list := remove1 p (completed_list t),
                                   canceled_list := remove1 p (canceled_list t),
                                   query_list := remove1 p (query_list t)\<rparr>) s
        in s1\<lparr>qcb_heap := (qcb_heap s1)(p := None)\<rparr>)"

text \<open>The freed block stays in the list of disconnected workers.\<close>

definition cleanup_worker_resources :: "ptr \<Rightarrow> t_master \<Rightarrow> t_master" where
  "cleanup_worker_resources p s =
     (let s1 = on_workers (\<lambda>t. t\<lparr>idle_list := remove1 p (idle_list t),
                                 busy_list := remove1 p (busy_list t),
                                 worker_list := remove1 p (worker_list t)\<rparr>) s;
          n = total_workers_connected (workers_table s1);
          s2 = (if 0 < n
                then (on_workers (\<lambda>t. t\<lparr>total_workers_connected := n - 1\<rparr>) s1)\<lparr>multiprogramming_level := n - 1\<rparr>
                else s1);
          s3 = on_workers (\<lambda>t. t\<lparr>disconnected_list := disconnected_list t @ [p]\<rparr>) s2
      in s3\<lparr>wcb_heap := (wcb_heap s3)(p := None)\<rparr>)"

definition cancel_query_in_ready :: "master_env \<Rightarrow> ptr \<Rightarrow> t_master \<Rightarrow> t_master" where
  "cancel_query_in_ready env p s =
     finalize_query_with_error env p (to_bytes ''Se cancela Query - QC desconectada (READY)'')
       (upd_qcb p (\<lambda>q. q\<lparr>q_state := QUERY_STATE_CANCELED\<rparr>) s)"

subsection \<open>\<^verbatim>\<open>aging.c\<close>\<close>

definition preempt_query_in_exec :: "master_env \<Rightarrow> ptr \<Rightarrow> t_master \<Rightarrow> int \<times> t_master" where
  "preempt_query_in_exec env p s =
     (if preemption_pending (qcb s p) then (0, s)
      else
        let invalid = (-1, cleanup_query_resources p
              (finalize_query_with_error env p (to_bytes ''Error en preemption - worker inv'' @ [195, 161] @ to_bytes ''lido'') s))
        in case find (match_worker_by_id s (assigned_worker_id (qcb s p))) (workers s) of
             None \<Rightarrow> invalid
           | Some w \<Rightarrow>
               if w_socket_fd (wcb s w) \<le> 0 then invalid
               else
                 let s1 = upd_qcb p (\<lambda>q. q\<lparr>preemption_pending := True\<rparr>) s;
                     pkg = snd (package_add_uint32 (package_create_empty OP_WORKER_PREEMPT_REQ)
                                  (word_of_int (query_id (qcb s p))));
                     (r, s2) = master_send env pkg (w_socket_fd (wcb s w)) s1
                 in if r \<noteq> 0 then (-1, upd_qcb p (\<lambda>q. q\<lparr>preemption_pending := False\<rparr>) s2)
                    else (0, s2))"

definition qcb_priority_compare :: "t_master \<Rightarrow> ptr \<Rightarrow> ptr \<Rightarrow> bool" where
  "qcb_priority_compare s a b = (priority (qcb s a) < priority (qcb s b))"

text \<open>The running query with the largest number, the first of several.\<close>

definition worst_running :: "t_master \<Rightarrow> ptr option" where
  "worst_running s =
     fold (\<lambda>p worst. case worst of None \<Rightarrow> Some p
                     | Some w \<Rightarrow> if prio_of s w < prio_of s p then Some p else worst) (running s) None"

definition check_preemption :: "master_env \<Rightarrow> t_master \<Rightarrow> t_master" where
  "check_preemption env s =
     (if busy s = [] \<or> ready s = [] then s
      else
        let best_ready = hd (ready s)
        in case worst_running s of
             None \<Rightarrow> s
           | Some w \<Rightarrow> if prio_of s w \<le> prio_of s best_ready then s
                       else snd (preempt_query_in_exec env w s))"

text \<open>
  The body of the loop over the ready queue for one query; the flag says whether the priority
  changed. The number of intervals is the low half of a 64 bit quotient, read as an \<^verbatim>\<open>int\<close>.
\<close>

definition age_query :: "int \<Rightarrow> u64 \<Rightarrow> t_query_control_block \<Rightarrow> t_query_control_block \<times> bool" where
  "age_query interval now q =
     (if q_state q \<noteq> QUERY_STATE_READY then (q, False)
      else if ready_timestamp q = 0 then (q\<lparr>ready_timestamp := now\<rparr>, False)
      else
        let elapsed = now - ready_timestamp q
        in if elapsed < word_of_int interval then (q, False)
           else
             let intervals = sint (ucast (elapsed div word_of_int interval) :: u32)
             in if 0 < intervals \<and> 0 < priority q
                then (q\<lparr>priority := (if priority q \<le> intervals then 0 else priority q - intervals),
                        ready_timestamp := ready_timestamp q + word_of_int intervals * word_of_int interval\<rparr>, True)
                else (q, False))"

fun age_queries :: "int \<Rightarrow> u64 \<Rightarrow> ptr list \<Rightarrow> t_master \<Rightarrow> t_master \<times> bool" where
  "age_queries interval now [] s = (s, False)"
| "age_queries interval now (p # ps) s =
     (let (q, changed) = age_query interval now (qcb s p);
          (s1, changed1) = age_queries interval now ps (upd_qcb p (\<lambda>_. q) s)
      in (s1, changed \<or> changed1))"

definition aging_section :: "master_env \<Rightarrow> t_master \<Rightarrow> t_master" where
  "aging_section env s =
     (let (s1, priorities_changed) = age_queries (aging_interval s) (now_ms env) (ready s) s
      in if priorities_changed
         then on_queries (\<lambda>t. t\<lparr>ready_queue := list_sort env (qcb_priority_compare s1) (ready_queue t)\<rparr>) s1
         else s1)"

text \<open>One turn of the loop of \<^verbatim>\<open>aging_thread_func\<close>.\<close>

definition aging_turn :: "master_env \<Rightarrow> t_master \<Rightarrow> t_master" where
  "aging_turn env s =
     (if aging_interval s \<le> 0 then s
      else if ready s = [] then s
      else check_preemption env (aging_section env s))"

end
