(* ===== verification/Master.thy ===== *)
theory Master
  imports Master_Tables
begin

text \<open>
  The message handlers of the Master: \<^verbatim>\<open>worker_manager.c\<close>, the handlers of
  \<^verbatim>\<open>query_control_manager.c\<close> and \<^verbatim>\<open>disconnection_handler.c\<close>, and the dispatch of
  \<^verbatim>\<open>handle_client\<close> in \<^verbatim>\<open>main.c\<close>. A handler that reads a package without testing the
  result of the read uses an uninitialised variable or a null string when the field is
  missing; that undefined behaviour is the result \<open>None\<close>. A handler with a critical
  section followed by \<^verbatim>\<open>try_dispatch\<close>, which takes the mutexes again, is split at that
  point: the section is a function of its own.
\<close>

subsection \<open>Query Control\<close>

definition register_query :: "master_env \<Rightarrow> bytes \<Rightarrow> u8 \<Rightarrow> int \<Rightarrow> t_master \<Rightarrow> t_master" where
  "register_query env path prio client_socket s =
     (let (assigned_id, s1) = generate_query_id s;
          s2 = snd (master_send env (package_create_empty QC_OP_MASTER_CONNECTION_OK) client_socket s1)
      in snd (create_query env assigned_id path (uint prio) client_socket s2))"

definition manage_query_file_path ::
  "master_env \<Rightarrow> t_package \<Rightarrow> int \<Rightarrow> t_master \<Rightarrow> (int \<times> t_master) option" where
  "manage_query_file_path env response_package client_socket s =
     (case package_read_string response_package of
        (None, _) \<Rightarrow> None
      | (Some query_path, p1) \<Rightarrow>
          (case package_read_uint8 p1 of
             (None, _) \<Rightarrow> None
           | (Some query_priority, _) \<Rightarrow>
               Some (0, snd (try_dispatch env (register_query env query_path query_priority client_socket s)))))"

subsection \<open>\<^verbatim>\<open>worker_manager.c\<close>\<close>

definition create_worker :: "int \<Rightarrow> int \<Rightarrow> t_master \<Rightarrow> ptr \<times> t_master" where
  "create_worker wid socket s =
     (let p = next_ptr s;
          block = \<lparr>worker_id = wid, w_socket_fd = socket, current_query_id = -1, w_state = WORKER_STATE_IDLE\<rparr>;
          s1 = s\<lparr>wcb_heap := (wcb_heap s)(p \<mapsto> block), next_ptr := p + 1\<rparr>
      in (p, on_workers (\<lambda>t. t\<lparr>worker_list := worker_list t @ [p],
                              total_workers_connected := total_workers_connected t + 1,
                              idle_list := idle_list t @ [p]\<rparr>) s1))"

definition register_worker :: "u32 \<Rightarrow> int \<Rightarrow> t_master \<Rightarrow> t_master" where
  "register_worker wid client_socket s =
     (let s1 = snd (create_worker (sint wid) client_socket s)
      in s1\<lparr>multiprogramming_level := total_workers_connected (workers_table s1)\<rparr>)"

text \<open>The acknowledgement carries the buffer of the request.\<close>

definition manage_worker_handshake ::
  "master_env \<Rightarrow> t_buffer \<Rightarrow> int \<Rightarrow> t_master \<Rightarrow> (int \<times> t_master) option" where
  "manage_worker_handshake env buf client_socket s =
     (case buffer_read_uint32 buf of
        (None, _) \<Rightarrow> None
      | (Some wid, buf1) \<Rightarrow>
          if wid \<le> 0 then Some (-1, s)
          else
            let s1 = register_worker wid client_socket s
            in case package_create OP_WORKER_ACK (Some buf1) of
                 None \<Rightarrow> Some (-1, s1)
               | Some response \<Rightarrow>
                   let (r, s2) = master_send env response client_socket s1
                   in if r \<noteq> 0 then Some (-1, s2) else Some (0, snd (try_dispatch env s2)))"

definition manage_read_message_from_worker ::
  "master_env \<Rightarrow> t_buffer \<Rightarrow> int \<Rightarrow> t_master \<Rightarrow> (int \<times> t_master) option" where
  "manage_read_message_from_worker env buf client_socket s =
     (let (wid, b1) = buffer_read_uint32 (buffer_reset_offset buf);
          (qid, b2) = buffer_read_uint32 b1;
          (data, b3) = buffer_read_data b2;
          (file, b4) = buffer_read_string b3;
          (tag, b5) = buffer_read_string b4
      in case (wid, qid, file, tag) of
           (Some wid, Some qid, Some file, Some tag) \<Rightarrow>
             let file_tag = c_string file @ to_bytes '':'' @ c_string tag
             in (case find (\<lambda>p. word_of_int (query_id (qcb s p)) = qid) (running s) of
                   None \<Rightarrow> Some (-1, snd (try_dispatch env s))
                 | Some query \<Rightarrow>
                     let package_to_query = package_create_empty QC_OP_READ_DATA;
                         (ok, p1) = (case data of None \<Rightarrow> (False, package_to_query)
                                     | Some d \<Rightarrow> package_add_data package_to_query d);
                         (ok2, p2) = (if ok then package_add_string p1 file_tag else (False, p1))
                     in if \<not> ok2 then Some (-1, s)
                        else
                          let (r, s1) = master_send env p2 (q_socket_fd (qcb s query)) s
                          in Some (if r \<noteq> 0 then -1 else 0, s1))
         | _ \<Rightarrow> None)"

text \<open>
  The critical section of an eviction response. The query was found in the running list, so
  removing it succeeds.
\<close>

definition evict_query :: "master_env \<Rightarrow> ptr \<Rightarrow> u32 \<Rightarrow> t_master \<Rightarrow> t_master" where
  "evict_query env query pc s =
     (if q_state (qcb s query) = QUERY_STATE_CANCELED then
        (let s1 = upd_qcb query (\<lambda>q. q\<lparr>program_counter := sint pc, preemption_pending := False,
                                       assigned_worker_id := -1\<rparr>) s;
             s2 = on_queries (\<lambda>t. t\<lparr>running_list := remove1 query (running_list t)\<rparr>) s1
         in cleanup_query_resources query s2)
      else
        (let s1 = upd_qcb query (\<lambda>q. q\<lparr>program_counter := sint pc, q_state := QUERY_STATE_READY,
                                       assigned_worker_id := -1, preemption_pending := False,
                                       ready_timestamp := now_ms env\<rparr>) s;
             s2 = on_queries (\<lambda>t. t\<lparr>running_list := remove1 query (running_list t)\<rparr>) s1
         in on_queries (\<lambda>t. t\<lparr>ready_queue := insert_query_by_priority (prio_of s2) (ready_queue t) query\<rparr>) s2))"

definition evict_section :: "master_env \<Rightarrow> u32 \<Rightarrow> u32 \<Rightarrow> int \<Rightarrow> t_master \<Rightarrow> t_master" where
  "evict_section env qid pc socket s =
     (case find_worker_by_socket s socket of
        None \<Rightarrow> s
      | Some worker \<Rightarrow>
          (case find (\<lambda>p. word_of_int (query_id (qcb s p)) = qid) (running s) of
             None \<Rightarrow> s
           | Some query \<Rightarrow>
               let s1 = evict_query env query pc s;
                   s2 = upd_wcb worker (\<lambda>w. w\<lparr>current_query_id := -1, w_state := WORKER_STATE_IDLE\<rparr>) s1
               in if worker \<notin> set (busy s2) then s2
                  else on_workers (\<lambda>t. t\<lparr>busy_list := remove1 worker (busy_list t),
                                         idle_list := idle_list t @ [worker]\<rparr>) s2))"

definition manage_worker_evict_response ::
  "master_env \<Rightarrow> int \<Rightarrow> t_package \<Rightarrow> t_master \<Rightarrow> t_master" where
  "manage_worker_evict_response env socket package s =
     (case package_read_uint32 package of
        (None, _) \<Rightarrow> s
      | (Some qid, p1) \<Rightarrow>
          (case package_read_uint32 p1 of
             (None, _) \<Rightarrow> s
           | (Some pc, _) \<Rightarrow> snd (try_dispatch env (evict_section env qid pc socket s))))"

definition release_worker :: "ptr \<Rightarrow> t_master \<Rightarrow> t_master" where
  "release_worker worker s =
     on_workers (\<lambda>t. t\<lparr>busy_list := remove1 worker (busy_list t), idle_list := idle_list t @ [worker]\<rparr>)
       (upd_wcb worker (\<lambda>w. w\<lparr>w_state := WORKER_STATE_IDLE, current_query_id := -1\<rparr>) s)"

definition end_package :: "int \<Rightarrow> t_package" where
  "end_package qid = snd (package_add_uint32 (package_create_empty OP_END_QUERY) (word_of_int qid))"

definition end_query_section :: "master_env \<Rightarrow> u32 \<Rightarrow> int \<Rightarrow> t_master \<Rightarrow> int \<times> t_master" where
  "end_query_section env qid client_socket s =
     (case find_worker_by_socket s client_socket of
        None \<Rightarrow> (-1, s)
      | Some worker \<Rightarrow>
          (case find (\<lambda>p. query_id (qcb s p) = sint qid) (running s) of
             None \<Rightarrow> (-1, upd_wcb worker (\<lambda>w. w\<lparr>w_state := WORKER_STATE_IDLE, current_query_id := -1\<rparr>) s)
           | Some p \<Rightarrow>
               if cleaned_up (qcb s p) then (0, release_worker worker s)
               else
                 let s1 = upd_qcb p (\<lambda>q. q\<lparr>q_state := QUERY_STATE_COMPLETED, assigned_worker_id := -1\<rparr>) s;
                     s2 = on_queries (\<lambda>t. t\<lparr>running_list := remove1 p (running_list t)\<rparr>) s1;
                     s3 = release_worker worker s2;
                     qc_socket = q_socket_fd (qcb s3 p);
                     s4 = (if 0 < qc_socket
                           then snd (master_send env (end_package (query_id (qcb s3 p))) qc_socket s3)
                           else s3)
                 in (0, cleanup_query_resources p s4)))"

definition manage_worker_end_query ::
  "master_env \<Rightarrow> t_buffer \<Rightarrow> int \<Rightarrow> t_master \<Rightarrow> (int \<times> t_master) option" where
  "manage_worker_end_query env buf client_socket s =
     (let (wid, b1) = buffer_read_uint32 (buffer_reset_offset buf);
          (qid, b2) = buffer_read_uint32 b1
      in case (wid, qid) of
           (Some wid, Some qid) \<Rightarrow>
             (let (r, s1) = end_query_section env qid client_socket s
              in if r \<noteq> 0 then Some (r, s1) else Some (0, snd (try_dispatch env s1)))
         | _ \<Rightarrow> None)"

subsection \<open>\<^verbatim>\<open>disconnection_handler.c\<close>\<close>

definition handle_query_control_disconnection :: "master_env \<Rightarrow> int \<Rightarrow> t_master \<Rightarrow> int \<times> t_master" where
  "handle_query_control_disconnection env client_socket s =
     (case find_query_by_socket s client_socket of
        None \<Rightarrow> (-1, s)
      | Some p \<Rightarrow>
          if cleaned_up (qcb s p) then (0, s)
          else
            (case q_state (qcb s p) of
               QUERY_STATE_READY \<Rightarrow> (0, cleanup_query_resources p (cancel_query_in_ready env p s))
             | QUERY_STATE_RUNNING \<Rightarrow>
                 (0, snd (preempt_query_in_exec env p (upd_qcb p (\<lambda>q. q\<lparr>q_state := QUERY_STATE_CANCELED\<rparr>) s)))
             | QUERY_STATE_COMPLETED \<Rightarrow> (0, cleanup_query_resources p s)
             | QUERY_STATE_CANCELED \<Rightarrow> (0, cleanup_query_resources p s)
             | QUERY_STATE_NEW \<Rightarrow>
                 (0, cleanup_query_resources p (finalize_query_with_error env p
                       (to_bytes ''Query cancelada porque Query Control se desconect'' @ [195, 179]) s))))"

text \<open>The text sent to the Query Control when the worker of its query is lost.\<close>

definition worker_lost :: bytes where
  "worker_lost = to_bytes ''Se desconect'' @ [195, 179] @ to_bytes '' worker mientras realizaba la query''"

definition handle_worker_disconnection :: "master_env \<Rightarrow> int \<Rightarrow> t_master \<Rightarrow> int \<times> t_master" where
  "handle_worker_disconnection env client_socket s =
     (case find_worker_by_socket s client_socket of
        None \<Rightarrow> (-1, s)
      | Some w \<Rightarrow>
          let running_query_id = current_query_id (wcb s w);
              s1 = (if 0 \<le> running_query_id then
                      (let s' = s\<lparr>running_query_id_for_predicate := running_query_id\<rparr>
                       in case find (match_query_by_id s' (running_query_id_for_predicate s')) (queries s') of
                            None \<Rightarrow> s'
                          | Some p \<Rightarrow> cleanup_query_resources p (finalize_query_with_error env p worker_lost s'))
                    else s)
          in (0, cleanup_worker_resources w s1))"

text \<open>
  \<^verbatim>\<open>handle_eviction_response\<close>, which no other function calls: both tests of the reads are
  inverted, so \<^verbatim>\<open>pc\<close> is never assigned a received value (\<open>pc\<close> is what the variable holds
  uninitialised), and the search compares with whatever the predicate's variable holds.
\<close>

definition handle_eviction_response ::
  "master_env \<Rightarrow> u32 \<Rightarrow> int \<Rightarrow> t_buffer \<Rightarrow> t_master \<Rightarrow> int \<times> t_master" where
  "handle_eviction_response env pc worker_socket buf s =
     (let (read_ok, b1) = buffer_read_uint32 (buffer_reset_offset buf);
          finish = (\<lambda>pc. case find (match_query_by_id s (running_query_id_for_predicate s)) (queries s) of
             None \<Rightarrow> (-1, s)
           | Some p \<Rightarrow>
               let s1 = upd_qcb p (\<lambda>q. q\<lparr>program_counter := sint (pc :: u32), q_state := QUERY_STATE_CANCELED\<rparr>) s
               in (0, cleanup_query_resources p (finalize_query_with_error env p
                        (to_bytes ''Query evicted by master (worker responded)'') s1)))
      in if read_ok \<noteq> None then
           (case find_worker_by_socket s worker_socket of
              None \<Rightarrow> (-1, s)
            | Some w \<Rightarrow>
                let qid = (word_of_int (current_query_id (wcb s w)) :: u32)
                in if qid \<le> 0 then (-1, s) else finish pc)
         else
           (case fst (buffer_read_uint32 b1) of
              Some v \<Rightarrow> finish (-1)
            | None \<Rightarrow> finish pc))"

definition storage_error_section :: "master_env \<Rightarrow> bytes option \<Rightarrow> int \<Rightarrow> t_master \<Rightarrow> t_master" where
  "storage_error_section env error_msg client_socket s =
     (case find_worker_by_socket s client_socket of
        None \<Rightarrow> s
      | Some w \<Rightarrow>
          let qid = current_query_id (wcb s w)
          in if qid < 0 then s
             else (case find (match_query_by_id s qid) (running s) of
                     None \<Rightarrow> s
                   | Some p \<Rightarrow>
                       let s1 = release_worker w s
                       in cleanup_query_resources p (finalize_query_with_error env p
                            (case error_msg of None \<Rightarrow> to_bytes ''Error en Storage'' | Some m \<Rightarrow> m) s1)))"

definition handle_error_from_storage :: "master_env \<Rightarrow> t_package \<Rightarrow> int \<Rightarrow> t_master \<Rightarrow> int \<times> t_master" where
  "handle_error_from_storage env required_package client_socket s =
     (let p0 = package_reset_read_offset required_package;
          (first_val, p1) = package_read_uint32 p0;
          (error_msg, p2) = package_read_string p1
      in (0, snd (try_dispatch env (storage_error_section env error_msg client_socket s))))"

subsection \<open>\<^verbatim>\<open>handle_client\<close>\<close>

text \<open>
  One turn of the loop of a connection: the package received (\<open>None\<close> when the connection is
  lost) and the two flags of the thread. The result says whether the loop goes on.
\<close>

record client_flags =
  is_query_control :: bool
  is_worker :: bool

definition handle_client ::
  "master_env \<Rightarrow> int \<Rightarrow> t_package option \<Rightarrow> client_flags \<Rightarrow> t_master \<Rightarrow>
   (bool \<times> client_flags \<times> t_master) option" where
  "handle_client env client_socket package fl s =
     (case package of
        None \<Rightarrow>
          Some (False, fl,
            if is_query_control fl then snd (handle_query_control_disconnection env client_socket s)
            else if is_worker fl then snd (handle_worker_disconnection env client_socket s)
            else s)
      | Some required_package \<Rightarrow>
          let op = operation_code required_package;
              buf = buffer required_package
          in if op = OP_QUERY_HANDSHAKE then
               (let (r, s1) = manage_query_handshake env client_socket s
                in Some (True, if r = 0 then fl\<lparr>is_query_control := True\<rparr> else fl, s1))
             else if op = OP_QUERY_FILE_PATH then
               map_option (\<lambda>(r, s1). (True, fl, s1)) (manage_query_file_path env required_package client_socket s)
             else if op = QC_OP_DISCONNECTION then
               Some (True, fl, snd (handle_query_control_disconnection env client_socket s))
             else if op = OP_WORKER_HANDSHAKE_REQ then
               map_option (\<lambda>(r, s1). (True, if r = 0 then fl\<lparr>is_worker := True\<rparr> else fl, s1))
                 (manage_worker_handshake env buf client_socket s)
             else if op = OP_WORKER_READ_MESSAGE_REQ then
               map_option (\<lambda>(r, s1). (True, fl, s1)) (manage_read_message_from_worker env buf client_socket s)
             else if op = OP_WORKER_END_QUERY then
               map_option (\<lambda>(r, s1). (True, fl, s1)) (manage_worker_end_query env buf client_socket s)
             else if op = OP_WORKER_EVICT_RES then
               Some (True, fl, manage_worker_evict_response env client_socket required_package s)
             else if op = WORKER_OP_DISCONNECTION then
               Some (True, fl, snd (handle_worker_disconnection env client_socket s))
             else if op = STORAGE_OP_ERROR then
               Some (True, fl, snd (handle_error_from_storage env required_package client_socket s))
             else Some (True, fl, s))"

end
