(* ===== verification/Master_Invariant.thy ===== *)
theory Master_Invariant
  imports Master "HOL-Library.Multiset"
begin

text \<open>
  The invariant of the Master's tables and its preservation by every critical section. The
  sections of concurrent threads interleave in any order, so the invariant is shown for the
  step relation whose steps are the sections, not whole handlers.
\<close>

subsection \<open>Assignments through pointers\<close>

lemma upd_qcb_sel [heap_simps]:
  "queries_table (upd_qcb p f s) = queries_table s" "workers_table (upd_qcb p f s) = workers_table s"
  "wcb_heap (upd_qcb p f s) = wcb_heap s" "next_ptr (upd_qcb p f s) = next_ptr s"
  "scheduling_algorithm (upd_qcb p f s) = scheduling_algorithm s" "aging_interval (upd_qcb p f s) = aging_interval s"
  "multiprogramming_level (upd_qcb p f s) = multiprogramming_level s" "sent (upd_qcb p f s) = sent s"
  "wcb (upd_qcb p f s) = wcb s" "dom (qcb_heap (upd_qcb p f s)) = dom (qcb_heap s)"
  by (auto simp: upd_qcb_def wcb_def fun_eq_iff dom_def)

lemma upd_wcb_sel [heap_simps]:
  "queries_table (upd_wcb p g s) = queries_table s" "workers_table (upd_wcb p g s) = workers_table s"
  "qcb_heap (upd_wcb p g s) = qcb_heap s" "next_ptr (upd_wcb p g s) = next_ptr s"
  "scheduling_algorithm (upd_wcb p g s) = scheduling_algorithm s" "aging_interval (upd_wcb p g s) = aging_interval s"
  "multiprogramming_level (upd_wcb p g s) = multiprogramming_level s" "sent (upd_wcb p g s) = sent s"
  "qcb (upd_wcb p g s) = qcb s" "dom (wcb_heap (upd_wcb p g s)) = dom (wcb_heap s)"
  by (auto simp: upd_wcb_def qcb_def fun_eq_iff dom_def)

lemma qcb_upd_qcb [heap_simps]: "p \<in> dom (qcb_heap s) \<Longrightarrow> qcb (upd_qcb p f s) p = f (qcb s p)"
  by (auto simp: upd_qcb_def qcb_def)

lemma qcb_upd_other [heap_simps]: "p' \<noteq> p \<Longrightarrow> qcb (upd_qcb p f s) p' = qcb s p'"
  by (auto simp: upd_qcb_def qcb_def)

lemma wcb_upd_wcb [heap_simps]: "p \<in> dom (wcb_heap s) \<Longrightarrow> wcb (upd_wcb p g s) p = g (wcb s p)"
  by (auto simp: upd_wcb_def wcb_def)

lemma wcb_upd_other [heap_simps]: "p' \<noteq> p \<Longrightarrow> wcb (upd_wcb p g s) p' = wcb s p'"
  by (auto simp: upd_wcb_def wcb_def)

lemma on_queries_sel [heap_simps]:
  "queries_table (on_queries h s) = h (queries_table s)" "workers_table (on_queries h s) = workers_table s"
  "qcb_heap (on_queries h s) = qcb_heap s" "wcb_heap (on_queries h s) = wcb_heap s"
  "next_ptr (on_queries h s) = next_ptr s" "scheduling_algorithm (on_queries h s) = scheduling_algorithm s"
  "aging_interval (on_queries h s) = aging_interval s" "sent (on_queries h s) = sent s"
  "multiprogramming_level (on_queries h s) = multiprogramming_level s"
  "qcb (on_queries h s) = qcb s" "wcb (on_queries h s) = wcb s"
  by (auto simp: on_queries_def qcb_def wcb_def fun_eq_iff)

lemma on_workers_sel [heap_simps]:
  "queries_table (on_workers h s) = queries_table s" "workers_table (on_workers h s) = h (workers_table s)"
  "qcb_heap (on_workers h s) = qcb_heap s" "wcb_heap (on_workers h s) = wcb_heap s"
  "next_ptr (on_workers h s) = next_ptr s" "scheduling_algorithm (on_workers h s) = scheduling_algorithm s"
  "aging_interval (on_workers h s) = aging_interval s" "sent (on_workers h s) = sent s"
  "multiprogramming_level (on_workers h s) = multiprogramming_level s"
  "qcb (on_workers h s) = qcb s" "wcb (on_workers h s) = wcb s"
  by (auto simp: on_workers_def qcb_def wcb_def fun_eq_iff)

lemma master_send_sel [heap_simps]:
  "queries_table (snd (master_send env p k s)) = queries_table s"
  "workers_table (snd (master_send env p k s)) = workers_table s"
  "qcb_heap (snd (master_send env p k s)) = qcb_heap s" "wcb_heap (snd (master_send env p k s)) = wcb_heap s"
  "next_ptr (snd (master_send env p k s)) = next_ptr s"
  "scheduling_algorithm (snd (master_send env p k s)) = scheduling_algorithm s"
  "aging_interval (snd (master_send env p k s)) = aging_interval s"
  "multiprogramming_level (snd (master_send env p k s)) = multiprogramming_level s"
  "qcb (snd (master_send env p k s)) = qcb s" "wcb (snd (master_send env p k s)) = wcb s"
  by (auto simp: master_send_def Let_def qcb_def wcb_def fun_eq_iff)

subsection \<open>The invariant\<close>

text \<open>
  Every query is in exactly one of the ready queue and the running list (the other two lists
  are never filled), its block is allocated, identifiers are distinct, the states agree with
  the lists and under \<^verbatim>\<open>PRIORITY\<close> the ready queue is sorted.
\<close>

definition queries_ok :: "t_master \<Rightarrow> bool" where
  "queries_ok s \<longleftrightarrow>
     distinct (queries s) \<and> set (queries s) = dom (qcb_heap s) \<and>
     distinct (ready s) \<and> distinct (running s) \<and> set (ready s) \<inter> set (running s) = {} \<and>
     set (ready s) \<union> set (running s) = set (queries s) \<and>
     completed_list (queries_table s) = [] \<and> canceled_list (queries_table s) = [] \<and>
     (\<forall>p \<in> set (queries s). p < next_ptr s \<and> \<not> cleaned_up (qcb s p) \<and>
        0 \<le> query_id (qcb s p) \<and> query_id (qcb s p) \<le> next_query_id (queries_table s)) \<and>
     inj_on (\<lambda>p. query_id (qcb s p)) (set (queries s)) \<and>
     (\<forall>p \<in> set (ready s). q_state (qcb s p) = QUERY_STATE_READY \<and> \<not> preemption_pending (qcb s p)) \<and>
     (\<forall>p \<in> set (running s). q_state (qcb s p) \<in> {QUERY_STATE_RUNNING, QUERY_STATE_CANCELED}) \<and>
     -1 \<le> next_query_id (queries_table s) \<and> next_query_id (queries_table s) < 2 ^ 31"

definition ready_sorted :: "t_master \<Rightarrow> bool" where
  "ready_sorted s \<longleftrightarrow>
     (scheduling_algorithm s = ''PRIORITY'' \<longrightarrow> sorted (map (prio_of s) (ready s)))"

text \<open>Every worker is idle or busy, an idle one has no query, and no two have the same one.\<close>

definition workers_ok :: "t_master \<Rightarrow> bool" where
  "workers_ok s \<longleftrightarrow>
     distinct (workers s) \<and> set (workers s) = dom (wcb_heap s) \<and>
     distinct (idle s) \<and> distinct (busy s) \<and> set (idle s) \<inter> set (busy s) = {} \<and>
     set (idle s) \<union> set (busy s) = set (workers s) \<and>
     total_workers_connected (workers_table s) = int (length (workers s)) \<and>
     multiprogramming_level s = int (length (workers s)) \<and>
     (\<forall>w \<in> set (workers s). w < next_ptr s \<and> -1 \<le> current_query_id (wcb s w) \<and>
        current_query_id (wcb s w) \<le> next_query_id (queries_table s)) \<and>
     (\<forall>w \<in> set (idle s). current_query_id (wcb s w) = -1 \<and> w_state (wcb s w) = WORKER_STATE_IDLE) \<and>
     (\<forall>w \<in> set (workers s). \<forall>w' \<in> set (workers s).
        0 \<le> current_query_id (wcb s w) \<longrightarrow> current_query_id (wcb s w) = current_query_id (wcb s w') \<longrightarrow> w = w')"

text \<open>A running query is held by a busy worker, a ready one by none.\<close>

definition linked :: "t_master \<Rightarrow> bool" where
  "linked s \<longleftrightarrow>
     (\<forall>p \<in> set (running s). \<exists>w \<in> set (busy s). current_query_id (wcb s w) = query_id (qcb s p) \<and>
        worker_id (wcb s w) = assigned_worker_id (qcb s p)) \<and>
     (\<forall>p \<in> set (ready s). \<forall>w \<in> set (workers s). current_query_id (wcb s w) \<noteq> query_id (qcb s p))"

definition master_ok :: "t_master \<Rightarrow> bool" where
  "master_ok s \<longleftrightarrow> queries_ok s \<and> ready_sorted s \<and> workers_ok s \<and> linked s"

lemma init_master_ok: "master_ok (init_master interval algorithm)"
  by (simp add: master_ok_def queries_ok_def ready_sorted_def workers_ok_def linked_def init_master_def)

subsection \<open>The ready queue\<close>

lemma set_insert_by_priority [simp]: "set (insert_query_by_priority f xs p) = insert p (set xs)"
  by (induction xs) auto

lemma distinct_insert_by_priority [simp]:
  "distinct (insert_query_by_priority f xs p) \<longleftrightarrow> distinct xs \<and> p \<notin> set xs"
  by (induction xs) auto

lemma sorted_insert_by_priority:
  "sorted (map f xs) \<Longrightarrow> sorted (map f (insert_query_by_priority f xs p))"
  by (induction xs) auto

lemma insert_by_priority_cong:
  "(\<And>x. x \<in> insert p (set xs) \<Longrightarrow> f x = g x) \<Longrightarrow>
   insert_query_by_priority f xs p = insert_query_by_priority g xs p"
  by (induction xs) auto

lemma enqueue_ready_sel [heap_simps]:
  "workers_table (enqueue_ready p s) = workers_table s" "qcb_heap (enqueue_ready p s) = qcb_heap s"
  "wcb_heap (enqueue_ready p s) = wcb_heap s" "next_ptr (enqueue_ready p s) = next_ptr s"
  "scheduling_algorithm (enqueue_ready p s) = scheduling_algorithm s"
  "multiprogramming_level (enqueue_ready p s) = multiprogramming_level s"
  "qcb (enqueue_ready p s) = qcb s" "wcb (enqueue_ready p s) = wcb s"
  "queries (enqueue_ready p s) = queries s" "running (enqueue_ready p s) = running s"
  "completed_list (queries_table (enqueue_ready p s)) = completed_list (queries_table s)"
  "canceled_list (queries_table (enqueue_ready p s)) = canceled_list (queries_table s)"
  "next_query_id (queries_table (enqueue_ready p s)) = next_query_id (queries_table s)"
  "set (ready (enqueue_ready p s)) = insert p (set (ready s))"
  "distinct (ready (enqueue_ready p s)) \<longleftrightarrow> distinct (ready s) \<and> p \<notin> set (ready s)"
  by (auto simp: enqueue_ready_def heap_simps)

lemma enqueue_ready_sorted: "ready_sorted s \<Longrightarrow> ready_sorted (enqueue_ready p s)"
  by (simp add: ready_sorted_def enqueue_ready_def heap_simps sorted_insert_by_priority)

subsection \<open>Parts of a section\<close>

text \<open>A query leaves all lists and its block is freed.\<close>

definition dropped :: "ptr \<Rightarrow> t_master \<Rightarrow> t_master \<Rightarrow> bool" where
  "dropped p s t \<longleftrightarrow>
     queries t = remove1 p (queries s) \<and> ready t = remove1 p (ready s) \<and> running t = remove1 p (running s) \<and>
     completed_list (queries_table t) = remove1 p (completed_list (queries_table s)) \<and>
     canceled_list (queries_table t) = remove1 p (canceled_list (queries_table s)) \<and>
     next_query_id (queries_table t) = next_query_id (queries_table s) \<and>
     dom (qcb_heap t) = dom (qcb_heap s) - {p} \<and> (\<forall>p'. p' \<noteq> p \<longrightarrow> qcb t p' = qcb s p') \<and>
     next_ptr t = next_ptr s \<and> scheduling_algorithm t = scheduling_algorithm s"

lemma dropped_queries_ok: "queries_ok s \<Longrightarrow> dropped p s t \<Longrightarrow> queries_ok t"
  unfolding queries_ok_def dropped_def
  by (elim conjE, intro conjI) (auto simp: set_remove1_eq inj_on_def)

lemma dropped_ready_sorted:
  assumes "queries_ok s" "ready_sorted s" "dropped p s t"
  shows "ready_sorted t"
proof -
  have d: "distinct (ready s)" using assms(1) by (simp add: queries_ok_def)
  have "map (prio_of t) (remove1 p (ready s)) = map (prio_of s) (remove1 p (ready s))"
    using assms(3) d by (intro map_cong) (auto simp: dropped_def set_remove1_eq)
  moreover have "sorted (map f xs) \<Longrightarrow> sorted (map f (remove1 p xs))" for f :: "ptr \<Rightarrow> int" and xs
    by (induction xs) (auto dest: notin_set_remove1 set_mp [OF set_remove1_subset])
  ultimately show ?thesis using assms(2,3) unfolding ready_sorted_def dropped_def by metis
qed

text \<open>The workers of two states are the same, up to which queries exist.\<close>

definition same_workers :: "t_master \<Rightarrow> t_master \<Rightarrow> bool" where
  "same_workers s t \<longleftrightarrow>
     workers_table t = workers_table s \<and> wcb_heap t = wcb_heap s \<and> multiprogramming_level t = multiprogramming_level s \<and>
     next_ptr s \<le> next_ptr t \<and> next_query_id (queries_table s) \<le> next_query_id (queries_table t)"

lemma same_workers_ok: "workers_ok s \<Longrightarrow> same_workers s t \<Longrightarrow> workers_ok t"
proof -
  assume ok: "workers_ok s" and same: "same_workers s t"
  have w: "wcb t = wcb s" using same by (simp add: same_workers_def wcb_def fun_eq_iff)
  have le: "a \<le> next_query_id (queries_table t)" if "a \<le> next_query_id (queries_table s)" for a
    using that same by (simp add: same_workers_def)
  have lt: "a < next_ptr t" if "a < next_ptr s" for a
    using that same by (simp add: same_workers_def)
  from ok same show ?thesis by (simp add: workers_ok_def same_workers_def w le lt)
qed

text \<open>A busy worker becomes idle.\<close>

definition freed :: "ptr \<Rightarrow> t_master \<Rightarrow> t_master \<Rightarrow> bool" where
  "freed w s t \<longleftrightarrow>
     workers_table t = (workers_table s)\<lparr>busy_list := remove1 w (busy s), idle_list := idle s @ [w]\<rparr> \<and>
     dom (wcb_heap t) = dom (wcb_heap s) \<and> (\<forall>w'. w' \<noteq> w \<longrightarrow> wcb t w' = wcb s w') \<and>
     current_query_id (wcb t w) = -1 \<and> w_state (wcb t w) = WORKER_STATE_IDLE \<and>
     multiprogramming_level t = multiprogramming_level s \<and>
     next_ptr t = next_ptr s \<and> next_query_id (queries_table t) = next_query_id (queries_table s)"

lemma freed_workers_ok:
  assumes "workers_ok s" "w \<in> set (busy s)" "freed w s t" "-1 \<le> next_query_id (queries_table s)"
  shows "workers_ok t"
proof -
  have c: "current_query_id (wcb t w') = (if w' = w then -1 else current_query_id (wcb s w'))" for w'
    using assms(3) by (simp add: freed_def)
  show ?thesis using assms unfolding workers_ok_def freed_def
    by (elim conjE, intro conjI) (auto simp: set_remove1_eq c split: if_splits)
qed

text \<open>A worker in the busy list loses its query only.\<close>

lemma unlinked_workers_ok:
  assumes "workers_ok s" "w \<in> set (busy s)" "workers_table t = workers_table s"
    "dom (wcb_heap t) = dom (wcb_heap s)" "\<forall>w'. w' \<noteq> w \<longrightarrow> wcb t w' = wcb s w'"
    "current_query_id (wcb t w) = -1" "multiprogramming_level t = multiprogramming_level s"
    "next_ptr t = next_ptr s" "next_query_id (queries_table t) = next_query_id (queries_table s)"
    "-1 \<le> next_query_id (queries_table s)"
  shows "workers_ok t"
proof -
  have c: "current_query_id (wcb t w') = (if w' = w then -1 else current_query_id (wcb s w'))" for w'
    using assms by simp
  show ?thesis using assms unfolding workers_ok_def
    by (elim conjE, intro conjI) (auto simp: c split: if_splits)
qed

text \<open>Queries and workers that are left keep their links.\<close>

lemma linked_mono:
  assumes "linked s"
    and "\<And>p. p \<in> set (running t) \<Longrightarrow> p \<in> set (running s) \<and> query_id (qcb t p) = query_id (qcb s p) \<and>
      assigned_worker_id (qcb t p) = assigned_worker_id (qcb s p)"
    and "\<And>p. p \<in> set (ready t) \<Longrightarrow> p \<in> set (ready s) \<and> query_id (qcb t p) = query_id (qcb s p) \<and> 0 \<le> query_id (qcb s p)"
    and "\<And>p w. p \<in> set (running t) \<Longrightarrow> w \<in> set (busy s) \<Longrightarrow>
      current_query_id (wcb s w) = query_id (qcb s p) \<Longrightarrow> w \<in> set (busy t) \<and> wcb t w = wcb s w"
    and "\<And>w. w \<in> set (workers t) \<Longrightarrow> current_query_id (wcb t w) = -1 \<or>
      w \<in> set (workers s) \<and> current_query_id (wcb t w) = current_query_id (wcb s w)"
  shows "linked t"
  unfolding linked_def
proof (intro conjI ballI)
  fix p assume p: "p \<in> set (running t)"
  with assms(2) have "p \<in> set (running s)" by blast
  with assms(1) obtain w where "w \<in> set (busy s)" "current_query_id (wcb s w) = query_id (qcb s p)"
    "worker_id (wcb s w) = assigned_worker_id (qcb s p)" unfolding linked_def by blast
  with assms(2) [OF p] assms(4) [OF p] show "\<exists>w \<in> set (busy t). current_query_id (wcb t w) = query_id (qcb t p) \<and>
      worker_id (wcb t w) = assigned_worker_id (qcb t p)" by (intro bexI [of _ w]) auto
next
  fix p w assume "p \<in> set (ready t)" "w \<in> set (workers t)"
  with assms(1,3,5) show "current_query_id (wcb t w) \<noteq> query_id (qcb t p)" by (fastforce simp: linked_def)
qed

text \<open>Releasing a query, after any assignments to its own block.\<close>

definition touched :: "ptr \<Rightarrow> t_master \<Rightarrow> t_master \<Rightarrow> bool" where
  "touched p s t \<longleftrightarrow>
     queries_table t = queries_table s \<and> dom (qcb_heap t) = dom (qcb_heap s) \<and>
     (\<forall>p'. p' \<noteq> p \<longrightarrow> qcb t p' = qcb s p') \<and> cleaned_up (qcb t p) = cleaned_up (qcb s p) \<and>
     next_ptr t = next_ptr s \<and> scheduling_algorithm t = scheduling_algorithm s \<and>
     workers_table t = workers_table s \<and> wcb_heap t = wcb_heap s \<and>
     multiprogramming_level t = multiprogramming_level s"

lemma touched_refl [simp]: "touched p s s"
  by (simp add: touched_def)

lemma touched_finalize: "p \<in> dom (qcb_heap s) \<Longrightarrow> touched p s (finalize_query_with_error env p reason s)"
  by (simp add: touched_def finalize_query_with_error_def Let_def heap_simps)

lemma touched_upd:
  "p \<in> dom (qcb_heap s) \<Longrightarrow> cleaned_up (f (qcb s p)) = cleaned_up (qcb s p) \<Longrightarrow> touched p s (upd_qcb p f s)"
  by (simp add: touched_def heap_simps)

lemma touched_trans: "touched p r s \<Longrightarrow> touched p s t \<Longrightarrow> touched p r t"
  by (auto simp: touched_def)

lemma cleanup_dropped:
  assumes "touched p s t" "\<not> cleaned_up (qcb s p)"
  shows "dropped p s (cleanup_query_resources p t)" and "same_workers s (cleanup_query_resources p t)"
proof -
  have "qcb (cleanup_query_resources p t) p' = qcb t p'" if "p' \<noteq> p" for p'
    using that by (simp add: cleanup_query_resources_def Let_def qcb_def on_queries_sel)
  with assms show "dropped p s (cleanup_query_resources p t)"
    by (simp add: touched_def dropped_def cleanup_query_resources_def Let_def heap_simps)
  from assms show "same_workers s (cleanup_query_resources p t)"
    by (simp add: touched_def same_workers_def cleanup_query_resources_def Let_def heap_simps)
qed

lemma dropped_linked:
  assumes "queries_ok s" "linked s" "dropped p s t" "same_workers s t"
  shows "linked t"
proof -
  have w: "wcb t = wcb s" "workers_table t = workers_table s"
    using assms(4) by (simp_all add: same_workers_def wcb_def fun_eq_iff)
  have d: "distinct (ready s)" "distinct (running s)" "\<And>q. q \<in> set (ready s) \<Longrightarrow> 0 \<le> query_id (qcb s q)"
    using assms(1) by (auto simp: queries_ok_def)
  show ?thesis
    by (rule linked_mono [OF assms(2)])
      (use assms(3) d w in \<open>auto simp: dropped_def set_remove1_eq\<close>)
qed

lemma cleanup_ok:
  assumes "master_ok s" "p \<in> set (queries s)" "touched p s t"
  shows "master_ok (cleanup_query_resources p t)"
proof -
  have q: "queries_ok s" "ready_sorted s" "workers_ok s" "linked s" using assms(1) by (simp_all add: master_ok_def)
  have c: "\<not> cleaned_up (qcb s p)" using q(1) assms(2) by (simp add: queries_ok_def)
  note d = cleanup_dropped [OF assms(3) c]
  show ?thesis unfolding master_ok_def
    using dropped_queries_ok [OF q(1) d(1)] dropped_ready_sorted [OF q(1,2) d(1)]
      same_workers_ok [OF q(3) d(2)] dropped_linked [OF q(1,4) d] by simp
qed

subsection \<open>Consequences of the invariant\<close>

lemma queries_okD:
  assumes "queries_ok s"
  shows "distinct (queries s)" "distinct (ready s)" "distinct (running s)"
    "set (queries s) = dom (qcb_heap s)"
    "p \<in> set (ready s) \<Longrightarrow> p \<in> set (queries s)" "p \<in> set (running s) \<Longrightarrow> p \<in> set (queries s)"
    "p \<in> set (ready s) \<Longrightarrow> p \<notin> set (running s)"
    "p \<in> set (queries s) \<Longrightarrow> \<not> cleaned_up (qcb s p)"
    "p \<in> set (queries s) \<Longrightarrow> 0 \<le> query_id (qcb s p)"
    "p \<in> set (queries s) \<Longrightarrow> query_id (qcb s p) \<le> next_query_id (queries_table s)"
    "-1 \<le> next_query_id (queries_table s)"
    "p \<in> set (queries s) \<Longrightarrow> p \<notin> set (ready s) \<Longrightarrow> p \<in> set (running s)"
    "p \<in> set (ready s) \<Longrightarrow> q_state (qcb s p) = QUERY_STATE_READY"
    "p \<in> set (ready s) \<Longrightarrow> \<not> preemption_pending (qcb s p)"
    "p \<in> set (running s) \<Longrightarrow> q_state (qcb s p) \<in> {QUERY_STATE_RUNNING, QUERY_STATE_CANCELED}"
    "p \<in> set (queries s) \<Longrightarrow> p < next_ptr s" "next_query_id (queries_table s) < 2 ^ 31"
  using assms unfolding queries_ok_def by blast+

lemma query_id_inj:
  "queries_ok s \<Longrightarrow> p \<in> set (queries s) \<Longrightarrow> q \<in> set (queries s) \<Longrightarrow>
   query_id (qcb s p) = query_id (qcb s q) \<Longrightarrow> p = q"
  unfolding queries_ok_def by (blast dest: inj_onD)

lemma workers_okD:
  assumes "workers_ok s"
  shows "distinct (workers s)" "distinct (idle s)" "distinct (busy s)"
    "set (workers s) = dom (wcb_heap s)"
    "w \<in> set (idle s) \<Longrightarrow> w \<in> set (workers s)" "w \<in> set (busy s) \<Longrightarrow> w \<in> set (workers s)"
    "w \<in> set (idle s) \<Longrightarrow> w \<notin> set (busy s)"
    "w \<in> set (workers s) \<Longrightarrow> w \<notin> set (idle s) \<Longrightarrow> w \<in> set (busy s)"
    "w \<in> set (idle s) \<Longrightarrow> current_query_id (wcb s w) = -1"
    "w \<in> set (workers s) \<Longrightarrow> w' \<in> set (workers s) \<Longrightarrow> 0 \<le> current_query_id (wcb s w) \<Longrightarrow>
       current_query_id (wcb s w) = current_query_id (wcb s w') \<Longrightarrow> w = w'"
    "w \<in> set (idle s) \<Longrightarrow> w_state (wcb s w) = WORKER_STATE_IDLE"
    "w \<in> set (workers s) \<Longrightarrow> w < next_ptr s" "w \<in> set (workers s) \<Longrightarrow> -1 \<le> current_query_id (wcb s w)"
    "w \<in> set (workers s) \<Longrightarrow> current_query_id (wcb s w) \<le> next_query_id (queries_table s)"
  using assms unfolding workers_ok_def by blast+

lemma master_okD:
  assumes "master_ok s"
  shows "queries_ok s" "ready_sorted s" "workers_ok s" "linked s"
  using assms by (simp_all add: master_ok_def)

lemma drop_and_free_ok:
  assumes ok: "master_ok s" and "p \<in> set (running s)" and "w \<in> set (busy s)"
    and link: "current_query_id (wcb s w) = query_id (qcb s p)"
    and d: "dropped p s t" and f: "freed w s t"
  shows "master_ok t"
proof -
  note q = master_okD [OF ok]
  note qd = queries_okD [OF q(1)]
  have other: "w' \<noteq> w" if "x \<in> set (running s)" "x \<noteq> p" "current_query_id (wcb s w') = query_id (qcb s x)" for x w'
    using query_id_inj [OF q(1) qd(6) [OF that(1)] qd(6) [OF assms(2)]] that(2,3) link by auto
  have cur: "current_query_id (wcb t w') = -1 \<or> current_query_id (wcb t w') = current_query_id (wcb s w')" for w'
    using f by (cases "w' = w") (auto simp: freed_def)
  have "linked t"
  proof (rule linked_mono [OF q(4)])
    fix q w' assume "q \<in> set (running t)" "w' \<in> set (busy s)" "current_query_id (wcb s w') = query_id (qcb s q)"
    then have "w' \<noteq> w" using other [of q w'] d qd(3) by (auto simp: dropped_def)
    with f \<open>w' \<in> set (busy s)\<close> show "w' \<in> set (busy t) \<and> wcb t w' = wcb s w'" by (simp add: freed_def)
  next
    fix w' assume "w' \<in> set (workers t)"
    with f cur show "current_query_id (wcb t w') = -1 \<or>
        w' \<in> set (workers s) \<and> current_query_id (wcb t w') = current_query_id (wcb s w')"
      by (simp add: freed_def)
  qed (use d qd in \<open>auto simp: dropped_def set_remove1_eq\<close>)
  then show ?thesis unfolding master_ok_def
    using dropped_queries_ok [OF q(1) d] dropped_ready_sorted [OF q(1,2) d]
      freed_workers_ok [OF q(3) assms(3) f qd(11)] by simp
qed

text \<open>A running query goes back to the ready queue and its worker becomes idle.\<close>

definition requeued :: "ptr \<Rightarrow> t_master \<Rightarrow> t_master \<Rightarrow> bool" where
  "requeued p s t \<longleftrightarrow>
     queries t = queries s \<and> set (ready t) = insert p (set (ready s)) \<and> distinct (ready t) \<and>
     running t = remove1 p (running s) \<and>
     completed_list (queries_table t) = completed_list (queries_table s) \<and>
     canceled_list (queries_table t) = canceled_list (queries_table s) \<and>
     next_query_id (queries_table t) = next_query_id (queries_table s) \<and>
     dom (qcb_heap t) = dom (qcb_heap s) \<and> (\<forall>p'. p' \<noteq> p \<longrightarrow> qcb t p' = qcb s p') \<and>
     query_id (qcb t p) = query_id (qcb s p) \<and> cleaned_up (qcb t p) = cleaned_up (qcb s p) \<and>
     q_state (qcb t p) = QUERY_STATE_READY \<and> \<not> preemption_pending (qcb t p) \<and>
     next_ptr t = next_ptr s"

lemma requeued_queries_ok:
  assumes "queries_ok s" "p \<in> set (running s)" "requeued p s t"
  shows "queries_ok t"
proof -
  have i: "query_id (qcb t q) = query_id (qcb s q)" "cleaned_up (qcb t q) = cleaned_up (qcb s q)" for q
    using assms(3) by (cases "q = p"; simp add: requeued_def)+
  have "q_state (qcb t q) = QUERY_STATE_READY \<and> \<not> preemption_pending (qcb t q)" if "q \<in> set (ready t)" for q
    using that assms by (cases "q = p") (auto simp: requeued_def queries_ok_def)
  moreover have "q_state (qcb t q) \<in> {QUERY_STATE_RUNNING, QUERY_STATE_CANCELED}" if "q \<in> set (running t)" for q
  proof -
    have "q \<noteq> p" "q \<in> set (running s)" using that assms by (auto simp: requeued_def queries_ok_def)
    then show ?thesis using assms by (auto simp: requeued_def queries_ok_def)
  qed
  ultimately show ?thesis using assms unfolding queries_ok_def requeued_def i
    by (elim conjE, intro conjI) (auto simp: set_remove1_eq)
qed

lemma requeue_ok:
  assumes ok: "master_ok s" and p: "p \<in> set (running s)" and w: "w \<in> set (busy s)"
    and link: "current_query_id (wcb s w) = query_id (qcb s p)"
    and r: "requeued p s t" and f: "freed w s t" and sorted: "ready_sorted t"
  shows "master_ok t"
proof -
  note q = master_okD [OF ok]
  note qd = queries_okD [OF q(1)]
  note pq = qd(6) [OF p]
  have only: "w' = w" if "w' \<in> set (workers s)" "current_query_id (wcb s w') = query_id (qcb s p)" for w'
    using workers_okD(10) [OF q(3) that(1) workers_okD(6) [OF q(3) w]] that(2) link qd(9) [OF pq] by simp
  have cur: "current_query_id (wcb t w') = (if w' = w then -1 else current_query_id (wcb s w'))" for w'
    using f by (auto simp: freed_def)
  have "linked t" unfolding linked_def
  proof (intro conjI ballI)
    fix x assume "x \<in> set (running t)"
    then have x: "x \<in> set (running s)" "x \<noteq> p" using r qd(3) by (auto simp: requeued_def)
    then obtain w' where w': "w' \<in> set (busy s)" "current_query_id (wcb s w') = query_id (qcb s x)"
      "worker_id (wcb s w') = assigned_worker_id (qcb s x)" using q(4) unfolding linked_def by blast
    moreover have "w' \<noteq> w" using query_id_inj [OF q(1) qd(6) [OF x(1)] pq] x(2) w'(2) link by auto
    ultimately show "\<exists>w \<in> set (busy t). current_query_id (wcb t w) = query_id (qcb t x) \<and>
        worker_id (wcb t w) = assigned_worker_id (qcb t x)"
      using f r x(2) by (intro bexI [of _ w']) (auto simp: freed_def requeued_def)
  next
    fix x w' assume a: "x \<in> set (ready t)" "w' \<in> set (workers t)"
    then have a': "x \<in> insert p (set (ready s))" "w' \<in> set (workers s)" "query_id (qcb t x) = query_id (qcb s x)"
      using r f by (cases "x = p"; auto simp: requeued_def freed_def)+
    show "current_query_id (wcb t w') \<noteq> query_id (qcb t x)"
    proof (cases "x = p")
      case True
      then show ?thesis using a' only [of w'] qd(9) [OF pq] by (auto simp: cur)
    next
      case False
      then have "x \<in> set (ready s)" using a' by simp
      then have "current_query_id (wcb s w') \<noteq> query_id (qcb s x)" "0 \<le> query_id (qcb s x)"
        using a'(2) q(4) qd(5,9) unfolding linked_def by blast+
      then show ?thesis using a'(3) by (simp add: cur)
    qed
  qed
  then show ?thesis unfolding master_ok_def
    using requeued_queries_ok [OF q(1) p r] sorted freed_workers_ok [OF q(3) w f qd(11)] by simp
qed

subsection \<open>Dispatching\<close>

lemma assign_sel [heap_simps]:
  "queries_table (assign q w s) = (queries_table s)\<lparr>ready_queue := tl (ready s), running_list := running s @ [q]\<rparr>"
  "workers_table (assign q w s) = (workers_table s)\<lparr>idle_list := tl (idle s), busy_list := busy s @ [w]\<rparr>"
  "dom (qcb_heap (assign q w s)) = dom (qcb_heap s)" "dom (wcb_heap (assign q w s)) = dom (wcb_heap s)"
  "next_ptr (assign q w s) = next_ptr s" "scheduling_algorithm (assign q w s) = scheduling_algorithm s"
  "multiprogramming_level (assign q w s) = multiprogramming_level s" "sent (assign q w s) = sent s"
  "p \<noteq> q \<Longrightarrow> qcb (assign q w s) p = qcb s p"
  "v \<noteq> w \<Longrightarrow> wcb (assign q w s) v = wcb s v"
  "q \<in> dom (qcb_heap s) \<Longrightarrow> qcb (assign q w s) q =
     (qcb s q)\<lparr>q_state := QUERY_STATE_RUNNING, assigned_worker_id := worker_id (wcb s w), preemption_pending := False\<rparr>"
  "w \<in> dom (wcb_heap s) \<Longrightarrow> wcb (assign q w s) w =
     (wcb s w)\<lparr>current_query_id := query_id (qcb s q), w_state := WORKER_STATE_BUSY\<rparr>"
  by (simp_all add: assign_def Let_def heap_simps)

lemma assign_queries_ok:
  assumes ok: "queries_ok s" and "ready s = q # qs"
  shows "queries_ok (assign q w s)"
proof -
  have q: "q \<in> set (ready s)" using assms(2) by simp
  note qd = queries_okD [OF ok]
  have i: "query_id (qcb (assign q w s) p) = query_id (qcb s p)" "cleaned_up (qcb (assign q w s) p) = cleaned_up (qcb s p)" for p
    using qd(4) qd(5) [OF q] by (cases "p = q"; simp add: heap_simps)+
  have r: "qcb (assign q w s) p = qcb s p" if "p \<in> set qs" for p
    using that qd(2) assms(2) by (intro assign_sel(9)) auto
  have r2: "qcb (assign q w s) p = qcb s p" if "p \<in> set (running s)" for p
    using that qd(7) [OF q] by (intro assign_sel(9)) auto
  have s: "q_state (qcb (assign q w s) q) = QUERY_STATE_RUNNING"
    using qd(4) qd(5) [OF q] by (simp add: heap_simps)
  have "set (ready s) \<inter> set (running s) = {}" "set (ready s) \<union> set (running s) = set (queries s)"
    using ok by (simp_all add: queries_ok_def)
  then have sets: "set qs \<inter> set (running s @ [q]) = {}" "set qs \<union> set (running s @ [q]) = set (queries s)"
    using assms(2) qd(2) by auto
  show ?thesis using ok assms(2) sets qd(7) [OF q] unfolding queries_ok_def i
    by (elim conjE) (simp add: heap_simps r r2 s)
qed

lemma assign_workers_ok:
  assumes ok: "master_ok s" and "ready s = q # qs" and "idle s = w # ws"
  shows "workers_ok (assign q w s)"
proof -
  note o = master_okD [OF ok]
  have q: "q \<in> set (ready s)" and w: "w \<in> set (idle s)" using assms(2,3) by simp_all
  note qd = queries_okD [OF o(1)] and wd = workers_okD [OF o(3)]
  have c: "current_query_id (wcb (assign q w s) v) = (if v = w then query_id (qcb s q) else current_query_id (wcb s v))" for v
    using wd(4) wd(5) [OF w] by (simp add: heap_simps)
  have n: "v \<in> set (workers s) \<Longrightarrow> current_query_id (wcb s v) \<noteq> query_id (qcb s q)" for v
    using o(4) q unfolding linked_def by blast
  have b: "0 \<le> query_id (qcb s q)" "query_id (qcb s q) \<le> next_query_id (queries_table s)"
    using qd(9,10) qd(5) [OF q] by auto
  have i: "v \<in> set ws \<Longrightarrow> wcb (assign q w s) v = wcb s v" for v
    using wd(2) assms(3) by (intro assign_sel(10)) auto
  have wn: "w \<notin> set ws" "w \<notin> set (busy s)" using wd(2) wd(7) [OF w] assms(3) by auto
  have u: "v = v'" if "v \<in> set (workers s)" "v' \<in> set (workers s)" "0 \<le> current_query_id (wcb (assign q w s) v)"
    "current_query_id (wcb (assign q w s) v) = current_query_id (wcb (assign q w s) v')" for v v'
    using that n [of v] n [of v'] wd(10) [of v v'] by (simp add: c split: if_splits)
  have l: "-1 \<le> current_query_id (wcb (assign q w s) v) \<and>
      current_query_id (wcb (assign q w s) v) \<le> next_query_id (queries_table s)" if "v \<in> set (workers s)" for v
    using that o(3) b by (simp add: c workers_ok_def)
  show ?thesis using o(3) assms(3) wn l u unfolding workers_ok_def
    by (simp add: heap_simps i)
qed

lemma assign_linked:
  assumes ok: "master_ok s" and "ready s = q # qs" and "idle s = w # ws"
  shows "linked (assign q w s)"
proof -
  note o = master_okD [OF ok]
  have q: "q \<in> set (ready s)" and w: "w \<in> set (idle s)" using assms(2,3) by simp_all
  note qd = queries_okD [OF o(1)] and wd = workers_okD [OF o(3)]
  have qh: "q \<in> dom (qcb_heap s)" and wh: "w \<in> dom (wcb_heap s)"
    using qd(4) qd(5) [OF q] wd(4) wd(5) [OF w] by simp_all
  show ?thesis unfolding linked_def
  proof (intro conjI ballI)
    fix p assume "p \<in> set (running (assign q w s))"
    then consider "p = q" | "p \<in> set (running s)" "p \<noteq> q" by (auto simp: heap_simps)
    then show "\<exists>v \<in> set (busy (assign q w s)). current_query_id (wcb (assign q w s) v) = query_id (qcb (assign q w s) p) \<and>
      worker_id (wcb (assign q w s) v) = assigned_worker_id (qcb (assign q w s) p)"
    proof cases
      case 1
      then show ?thesis using qh wh by (intro bexI [of _ w]) (simp_all add: heap_simps)
    next
      case 2
      then obtain v where v: "v \<in> set (busy s)" "current_query_id (wcb s v) = query_id (qcb s p)"
        "worker_id (wcb s v) = assigned_worker_id (qcb s p)" using o(4) unfolding linked_def by blast
      then have "v \<noteq> w" using wd(7) [OF w] by blast
      with v 2 show ?thesis by (intro bexI [of _ v]) (simp_all add: heap_simps)
    qed
  next
    fix p v assume "p \<in> set (ready (assign q w s))" "v \<in> set (workers (assign q w s))"
    then have p: "p \<in> set (ready s)" "p \<noteq> q" and v: "v \<in> set (workers s)"
      using qd(2) assms(2) by (auto simp: heap_simps)
    have "query_id (qcb s p) \<noteq> query_id (qcb s q)"
      using query_id_inj [OF o(1) qd(5) [OF p(1)] qd(5) [OF q]] p(2) by blast
    moreover have "current_query_id (wcb s v) \<noteq> query_id (qcb s p)" using o(4) p(1) v unfolding linked_def by blast
    ultimately show "current_query_id (wcb (assign q w s) v) \<noteq> query_id (qcb (assign q w s) p)"
      using wh p(2) by (cases "v = w") (simp_all add: heap_simps)
  qed
qed

lemma assign_ok:
  assumes ok: "master_ok s" and "ready s = q # qs" and "idle s = w # ws"
  shows "master_ok (assign q w s)"
proof -
  note o = master_okD [OF ok]
  have "map (prio_of (assign q w s)) qs = map (prio_of s) qs"
    using queries_okD(2) [OF o(1)] assms(2)
    by (intro map_cong refl arg_cong [of _ _ priority] assign_sel(9)) auto
  then have "ready_sorted (assign q w s)"
    using o(2) assms(2) by (simp add: ready_sorted_def heap_simps del: map_eq_conv)
  then show ?thesis unfolding master_ok_def
    using assign_queries_ok [OF o(1) assms(2)] assign_workers_ok [OF assms] assign_linked [OF assms] by blast
qed

text \<open>Sending changes nothing but the log of sent packages.\<close>

lemma master_ok_cong:
  assumes "queries_table t = queries_table s" "workers_table t = workers_table s" "qcb_heap t = qcb_heap s"
    "wcb_heap t = wcb_heap s" "next_ptr t = next_ptr s" "scheduling_algorithm t = scheduling_algorithm s"
    "multiprogramming_level t = multiprogramming_level s"
  shows "master_ok t = master_ok s"
proof -
  have "qcb t = qcb s" "wcb t = wcb s" using assms by (simp_all add: qcb_def wcb_def fun_eq_iff)
  with assms show ?thesis
    by (simp add: master_ok_def queries_ok_def ready_sorted_def workers_ok_def linked_def)
qed

lemma master_send_ok [simp]: "master_ok (snd (master_send env p k s)) = master_ok s"
  by (rule master_ok_cong) (simp_all add: heap_simps)

definition only_sends :: "t_master \<Rightarrow> t_master \<Rightarrow> bool" where
  "only_sends s t \<longleftrightarrow> (\<exists>ps. t = s\<lparr>sent := sent s @ ps\<rparr>)"

lemma only_sends_ok: "only_sends s t \<Longrightarrow> master_ok t = master_ok s"
  by (rule master_ok_cong) (auto simp: only_sends_def)

lemma send_query_only_sends: "only_sends s (snd (send_query_to_worker env w q s))"
proof -
  have "only_sends s s" unfolding only_sends_def by (rule exI [of _ "[]"]) simp
  moreover have "only_sends s (snd (master_send env p k s))" for p k
    unfolding only_sends_def master_send_def Let_def
    by (cases "fst (package_send (send env) p k) = 0") (auto intro: exI [of _ "[]"])
  ultimately show ?thesis
    by (auto simp: send_query_to_worker_def Let_def split: prod.splits) (metis snd_conv)+
qed

lemma unassign_effect:
  assumes "q \<in> dom (qcb_heap s)" "w \<in> dom (wcb_heap s)" "q \<notin> set (ready s)" "distinct (ready s)"
    and "\<not> preemption_pending (qcb s q)"
  shows "requeued q s (unassign q w s)" and "freed w s (unassign q w s)"
    and "ready_sorted s \<Longrightarrow> ready_sorted (unassign q w s)"
proof -
  show "requeued q s (unassign q w s)"
    using assms by (simp add: requeued_def unassign_def Let_def heap_simps)
  show "freed w s (unassign q w s)"
    using assms by (simp add: freed_def unassign_def Let_def heap_simps)
  define s1 where "s1 = upd_wcb w (\<lambda>v. v\<lparr>current_query_id := -1, w_state := WORKER_STATE_IDLE\<rparr>) s"
  define s2 where "s2 = on_workers (\<lambda>t. t\<lparr>busy_list := remove1 w (busy_list t)\<rparr>)
    (on_queries (\<lambda>t. t\<lparr>running_list := remove1 q (running_list t)\<rparr>)
      (upd_qcb q (\<lambda>q. q\<lparr>q_state := QUERY_STATE_READY, assigned_worker_id := -1\<rparr>) s1))"
  assume "ready_sorted s"
  moreover have "prio_of s2 p = prio_of s p" for p
    using assms(1) by (cases "p = q") (simp_all add: s1_def s2_def heap_simps)
  ultimately have "ready_sorted s2" by (simp add: ready_sorted_def s1_def s2_def heap_simps)
  from enqueue_ready_sorted [OF this, of q] show "ready_sorted (unassign q w s)"
    by (simp add: unassign_def Let_def s1_def s2_def ready_sorted_def heap_simps)
qed

lemma unassign_ok:
  assumes ok: "master_ok s" and q: "q \<in> set (running s)" and w: "w \<in> set (busy s)"
    and "current_query_id (wcb s w) = query_id (qcb s q)" and "\<not> preemption_pending (qcb s q)"
  shows "master_ok (unassign q w s)"
proof -
  note o = master_okD [OF ok]
  note qd = queries_okD [OF o(1)] and wd = workers_okD [OF o(3)]
  have h: "q \<in> dom (qcb_heap s)" "w \<in> dom (wcb_heap s)" "q \<notin> set (ready s)"
    using qd(4) qd(6) [OF q] qd(7) [of q] q wd(4) wd(6) [OF w] by auto
  note e = unassign_effect [OF h qd(2) assms(5)]
  show ?thesis by (rule requeue_ok [OF ok q w assms(4) e(1,2) e(3) [OF o(2)]])
qed

lemma try_dispatch_ok:
  assumes ok: "master_ok s"
  shows "master_ok (snd (try_dispatch env s))"
proof (cases "idle s = [] \<or> ready s = [] \<or> list_ex (\<lambda>q. preemption_pending (qcb s q)) (running s)")
  case True
  then show ?thesis using ok by (auto simp: try_dispatch_def)
next
  case False
  then obtain q qs w ws where r: "ready s = q # qs" and i: "idle s = w # ws"
    by (cases "ready s"; cases "idle s") auto
  let ?a = "assign q w s"
  obtain r1 s1 where send: "send_query_to_worker env w q ?a = (r1, s1)" by fastforce
  have a: "master_ok ?a" by (rule assign_ok [OF ok r i])
  have only: "only_sends ?a s1" using send_query_only_sends [of ?a env w q] send by simp
  then have s1: "master_ok s1" and same: "queries_table s1 = queries_table ?a" "workers_table s1 = workers_table ?a"
    "qcb s1 = qcb ?a" "wcb s1 = wcb ?a"
    using only_sends_ok [OF only] a by (auto simp: only_sends_def qcb_def wcb_def fun_eq_iff)
  note o = master_okD [OF ok]
  have h: "q \<in> dom (qcb_heap s)" "w \<in> dom (wcb_heap s)"
    using queries_okD(4) [OF o(1)] queries_okD(5) [OF o(1), of q] workers_okD(4) [OF o(3)] workers_okD(5) [OF o(3), of w] r i
    by auto
  have "master_ok (unassign q w s1)"
    by (rule unassign_ok [OF s1]) (use h in \<open>simp_all add: same heap_simps\<close>)
  with s1 False r i show ?thesis by (simp add: try_dispatch_def send)
qed

subsection \<open>Registering\<close>

definition new_qcb :: "master_env \<Rightarrow> int \<Rightarrow> bytes \<Rightarrow> int \<Rightarrow> int \<Rightarrow> t_query_control_block" where
  "new_qcb env i path prio k = \<lparr>q_socket_fd = k, query_id = i, query_file_path = c_string path,
     priority = prio, initial_priority = prio, ready_timestamp = now_ms env, assigned_worker_id = -1,
     program_counter = 0, preemption_pending = False, cleaned_up = False, q_state = QUERY_STATE_READY\<rparr>"

lemma register_query_sel [heap_simps]:
  fixes env path prio k s
  defines "t \<equiv> register_query env path prio k s" and "p \<equiv> next_ptr s"
    and "b \<equiv> new_qcb env (next_query_id (queries_table s) + 1) path (uint prio) k"
  shows "queries t = queries s @ [p]" "running t = running s"
    "ready t = (if scheduling_algorithm s = ''PRIORITY''
       then insert_query_by_priority (\<lambda>x. if x = p then uint prio else prio_of s x) (ready s) p else ready s @ [p])"
    "completed_list (queries_table t) = completed_list (queries_table s)"
    "canceled_list (queries_table t) = canceled_list (queries_table s)"
    "next_query_id (queries_table t) = next_query_id (queries_table s) + 1"
    "qcb_heap t = (qcb_heap s)(p \<mapsto> b)" "next_ptr t = p + 1"
    "workers_table t = workers_table s" "wcb_heap t = wcb_heap s"
    "scheduling_algorithm t = scheduling_algorithm s" "multiprogramming_level t = multiprogramming_level s"
    "qcb t x = (if x = p then b else qcb s x)"
  unfolding t_def p_def b_def
  by (auto simp: register_query_def generate_query_id_def create_query_def new_qcb_def Let_def enqueue_ready_def
      on_queries_def master_send_def qcb_def intro!: insert_by_priority_cong)

lemma register_query_ok:
  assumes ok: "master_ok s" and n: "next_query_id (queries_table s) < 2 ^ 31 - 1"
  shows "master_ok (register_query env path prio k s)"
proof -
  note o = master_okD [OF ok]
  note qd = queries_okD [OF o(1)] and wd = workers_okD [OF o(3)]
  let ?t = "register_query env path prio k s"
  have fresh: "next_ptr s \<notin> set (queries s)" "next_ptr s \<notin> set (ready s)" "next_ptr s \<notin> set (running s)"
    using o(1) by (auto simp: queries_ok_def)
  have old: "qcb ?t p = qcb s p" if "p \<in> set (queries s)" for p
    using that fresh by (auto simp: heap_simps)
  have new: "query_id (qcb ?t (next_ptr s)) = next_query_id (queries_table s) + 1"
    "\<not> cleaned_up (qcb ?t (next_ptr s))" "\<not> preemption_pending (qcb ?t (next_ptr s))"
    "q_state (qcb ?t (next_ptr s)) = QUERY_STATE_READY" "priority (qcb ?t (next_ptr s)) = uint prio"
    by (simp_all add: heap_simps new_qcb_def)
  have sr: "set (ready ?t) = insert (next_ptr s) (set (ready s))" "distinct (ready ?t)"
    using qd(2) fresh(2) by (simp_all add: heap_simps)
  have inj: "inj_on (\<lambda>p. query_id (qcb ?t p)) (insert (next_ptr s) (set (queries s)))"
  proof (rule inj_onI)
    fix x y assume xy: "x \<in> insert (next_ptr s) (set (queries s))" "y \<in> insert (next_ptr s) (set (queries s))"
      and e: "query_id (qcb ?t x) = query_id (qcb ?t y)"
    have lt: "query_id (qcb ?t z) < query_id (qcb ?t (next_ptr s))" if "z \<in> set (queries s)" for z
      using qd(10) [OF that] that by (simp add: old new)
    show "x = y" using xy e lt [of x] lt [of y] query_id_inj [OF o(1), of x y] by (auto simp: old)
  qed
  note sel = register_query_sel(1,2,4-12)
  have sets: "set (ready ?t) \<inter> set (running ?t) = {}" "set (ready ?t) \<union> set (running ?t) = set (queries ?t)"
    "set (queries ?t) = dom (qcb_heap ?t)" "distinct (queries ?t)"
    using o(1) fresh sr by (auto simp: queries_ok_def sel)
  have each: "p < next_ptr ?t \<and> \<not> cleaned_up (qcb ?t p) \<and> 0 \<le> query_id (qcb ?t p) \<and>
      query_id (qcb ?t p) \<le> next_query_id (queries_table ?t)" if "p \<in> set (queries ?t)" for p
  proof (cases "p = next_ptr s")
    case True
    then show ?thesis using qd(11) by (simp add: new sel)
  next
    case False
    then have p: "p \<in> set (queries s)" using that by (simp add: sel)
    then have "p < next_ptr s" using o(1) by (simp add: queries_ok_def)
    then show ?thesis using qd(8-10) [OF p] by (simp add: old [OF p] sel)
  qed
  have rdy: "q_state (qcb ?t p) = QUERY_STATE_READY \<and> \<not> preemption_pending (qcb ?t p)" if "p \<in> set (ready ?t)" for p
    using that o(1) qd(5) [of p] by (cases "p = next_ptr s") (auto simp: sr old new queries_ok_def)
  have run: "q_state (qcb ?t p) \<in> {QUERY_STATE_RUNNING, QUERY_STATE_CANCELED}" if "p \<in> set (running ?t)" for p
    using that o(1) qd(6) [of p] by (simp add: sel old queries_ok_def)
  have "queries_ok ?t"
    using o(1) sets each rdy run inj n sr(2) qd(3,11) unfolding queries_ok_def by (simp add: sel)
  moreover have "ready_sorted ?t"
  proof -
    have "map (prio_of ?t) xs = map (\<lambda>x. if x = next_ptr s then uint prio else prio_of s x) xs" for xs
      by (simp add: register_query_sel(13) new_qcb_def)
    moreover have "map (\<lambda>x. if x = next_ptr s then uint prio else prio_of s x) (ready s) = map (prio_of s) (ready s)"
      using fresh(2) by auto
    ultimately show ?thesis using o(2) unfolding ready_sorted_def
      by (auto simp only: register_query_sel(3,11) if_True refl simp_thms intro!: sorted_insert_by_priority)
  qed
  moreover have "workers_ok ?t"
    by (rule same_workers_ok [OF o(3)]) (simp add: same_workers_def sel)
  moreover have "linked ?t"
  proof -
    have w: "wcb ?t = wcb s" by (simp add: wcb_def fun_eq_iff sel)
    have "current_query_id (wcb s v) \<noteq> query_id (qcb ?t p)" if "p \<in> set (ready ?t)" "v \<in> set (workers s)" for p v
    proof (cases "p = next_ptr s")
      case True
      have "current_query_id (wcb s v) \<le> next_query_id (queries_table s)"
        using o(3) that(2) by (simp add: workers_ok_def)
      with True show ?thesis by (simp add: new)
    next
      case False
      then have p: "p \<in> set (ready s)" using that by (simp add: sr)
      with that(2) o(4) show ?thesis by (simp add: old [OF qd(5) [OF p]] linked_def)
    qed
    with o(4) show ?thesis unfolding linked_def
      by (simp add: sel w old qd(6) cong: ball_cong)
  qed
  ultimately show ?thesis by (simp add: master_ok_def)
qed

lemma register_worker_sel [heap_simps]:
  fixes wid k s
  defines "t \<equiv> register_worker wid k s" and "p \<equiv> next_ptr s"
    and "b \<equiv> \<lparr>worker_id = sint wid, w_socket_fd = k, current_query_id = -1, w_state = WORKER_STATE_IDLE\<rparr>"
  shows "queries_table t = queries_table s" "qcb_heap t = qcb_heap s" "workers t = workers s @ [p]"
    "idle t = idle s @ [p]" "busy t = busy s"
    "total_workers_connected (workers_table t) = total_workers_connected (workers_table s) + 1"
    "multiprogramming_level t = total_workers_connected (workers_table s) + 1"
    "wcb_heap t = (wcb_heap s)(p \<mapsto> b)" "next_ptr t = p + 1" "qcb t = qcb s"
    "scheduling_algorithm t = scheduling_algorithm s" "wcb t x = (if x = p then b else wcb s x)"
  unfolding t_def p_def b_def
  by (auto simp: register_worker_def create_worker_def Let_def on_workers_def qcb_def wcb_def fun_eq_iff)

lemma register_worker_workers_ok:
  assumes "workers_ok s" "-1 \<le> next_query_id (queries_table s)"
  shows "workers_ok (register_worker wid k s)"
proof -
  note wd = workers_okD [OF assms(1)] and sel = register_worker_sel
  let ?t = "register_worker wid k s"
  have fresh: "next_ptr s \<notin> set (workers s)" using wd(12) by auto
  then have fr: "next_ptr s \<notin> set (idle s)" "next_ptr s \<notin> set (busy s)" using wd(5,6) by auto
  have c: "current_query_id (wcb ?t v) = (if v = next_ptr s then -1 else current_query_id (wcb s v))" for v
    by (simp add: sel)
  have u: "v = v'" if "v \<in> set (workers ?t)" "v' \<in> set (workers ?t)" "0 \<le> current_query_id (wcb ?t v)"
    "current_query_id (wcb ?t v) = current_query_id (wcb ?t v')" for v v'
  proof -
    have "v \<noteq> next_ptr s" using that(3) by (rule contrapos_pn) (simp add: c)
    moreover have "v' \<noteq> next_ptr s" using that(3) unfolding that(4) by (rule contrapos_pn) (simp add: c)
    ultimately show ?thesis by (intro wd(10)) (use that in \<open>simp_all add: c sel(3)\<close>)
  qed
  have l: "v < next_ptr ?t \<and> -1 \<le> current_query_id (wcb ?t v) \<and>
      current_query_id (wcb ?t v) \<le> next_query_id (queries_table ?t)" if "v \<in> set (workers ?t)" for v
    using that wd(12-14) [of v] assms(2) by (auto simp: c sel(1,3,9))
  have i: "current_query_id (wcb ?t v) = -1 \<and> w_state (wcb ?t v) = WORKER_STATE_IDLE" if "v \<in> set (idle ?t)" for v
    using that wd(9,11) [of v] by (auto simp: sel(4,12))
  have sets: "set (idle s) \<inter> set (busy s) = {}" "set (idle s) \<union> set (busy s) = set (workers s)"
    "total_workers_connected (workers_table s) = int (length (workers s))"
    using assms(1) by (simp_all add: workers_ok_def)
  show ?thesis unfolding workers_ok_def
    by (intro conjI ballI impI; (rule u l [THEN conjunct1] l [THEN conjunct2, THEN conjunct1]
      l [THEN conjunct2, THEN conjunct2] i [THEN conjunct1] i [THEN conjunct2])?; assumption?)
      (use wd(1-4) sets fresh fr in \<open>auto simp: sel(1-9)\<close>)
qed

lemma register_worker_ok:
  assumes ok: "master_ok s"
  shows "master_ok (register_worker wid k s)"
proof -
  note o = master_okD [OF ok]
  note qd = queries_okD [OF o(1)] and wd = workers_okD [OF o(3)] and sel = register_worker_sel
  let ?t = "register_worker wid k s"
  have fresh: "next_ptr s \<notin> set (workers s)" using o(3) by (auto simp: workers_ok_def)
  then have fr: "next_ptr s \<notin> set (idle s)" "next_ptr s \<notin> set (busy s)" using wd(5,6) by auto
  have c: "current_query_id (wcb ?t v) = (if v = next_ptr s then -1 else current_query_id (wcb s v))" for v
    by (simp add: sel)
  have "queries_ok ?t" using o(1) unfolding queries_ok_def by (elim conjE) (simp add: sel less_Suc_eq)
  moreover have "ready_sorted ?t" using o(2) by (simp add: ready_sorted_def sel)
  moreover have "workers_ok ?t" by (rule register_worker_workers_ok [OF o(3) qd(11)])
  moreover have "linked ?t"
  proof (rule linked_mono [OF o(4)])
    fix v assume "v \<in> set (workers ?t)"
    then show "current_query_id (wcb ?t v) = -1 \<or> v \<in> set (workers s) \<and>
      current_query_id (wcb ?t v) = current_query_id (wcb s v)" by (auto simp: c sel(3))
  next
    fix p v assume "v \<in> set (busy s)"
    then show "v \<in> set (busy ?t) \<and> wcb ?t v = wcb s v" using fr(2) by (auto simp: sel(5,12))
  qed (use qd(5,9) in \<open>simp_all add: sel(1,10)\<close>)
  ultimately show ?thesis by (simp add: master_ok_def)
qed

subsection \<open>Preempting\<close>

lemma touch_running_ok:
  assumes ok: "master_ok s" and p: "p \<in> set (running s)" and t: "touched p s t"
    and same: "query_id (qcb t p) = query_id (qcb s p)" "assigned_worker_id (qcb t p) = assigned_worker_id (qcb s p)"
    and st: "q_state (qcb t p) \<in> {QUERY_STATE_RUNNING, QUERY_STATE_CANCELED}"
  shows "master_ok t"
proof -
  note o = master_okD [OF ok]
  note qd = queries_okD [OF o(1)]
  have tab: "queries_table t = queries_table s" "workers_table t = workers_table s" "wcb t = wcb s"
    "dom (qcb_heap t) = dom (qcb_heap s)" "next_ptr t = next_ptr s" "wcb_heap t = wcb_heap s"
    "scheduling_algorithm t = scheduling_algorithm s" "multiprogramming_level t = multiprogramming_level s"
    using t by (simp_all add: touched_def wcb_def fun_eq_iff)
  have i: "query_id (qcb t q) = query_id (qcb s q)" "cleaned_up (qcb t q) = cleaned_up (qcb s q)"
    "assigned_worker_id (qcb t q) = assigned_worker_id (qcb s q)" for q
    using t same by (cases "q = p"; simp add: touched_def)+
  have r: "qcb t q = qcb s q" if "q \<in> set (ready s)" for q
    using that t qd(7) [OF that] p by (auto simp: touched_def)
  have u: "q_state (qcb t q) \<in> {QUERY_STATE_RUNNING, QUERY_STATE_CANCELED}" if "q \<in> set (running s)" for q
    using that t st o(1) by (cases "q = p") (simp_all add: touched_def queries_ok_def)
  have "queries_ok t" using o(1) u unfolding queries_ok_def by (elim conjE) (simp add: tab i r)
  moreover have "ready_sorted t" using o(2) by (simp add: ready_sorted_def tab r cong: map_cong)
  moreover have "workers_ok t" by (rule same_workers_ok [OF o(3)]) (simp add: same_workers_def tab)
  moreover have "linked t" using o(4) by (simp add: linked_def tab i r)
  ultimately show ?thesis by (simp add: master_ok_def)
qed

lemma preempt_ok:
  assumes ok: "master_ok s" and p: "p \<in> set (running s)"
  shows "master_ok (snd (preempt_query_in_exec env p s))"
proof -
  note o = master_okD [OF ok]
  note qd = queries_okD [OF o(1)]
  have h: "p \<in> dom (qcb_heap s)" and pq: "p \<in> set (queries s)" using qd(4) qd(6) [OF p] by simp_all
  have st: "q_state (qcb s p) \<in> {QUERY_STATE_RUNNING, QUERY_STATE_CANCELED}"
    using o(1) p by (simp add: queries_ok_def)
  have bad: "master_ok (cleanup_query_resources p (finalize_query_with_error env p m s))" for m
    by (rule cleanup_ok [OF ok pq touched_finalize [OF h]])
  let ?s1 = "upd_qcb p (\<lambda>q. q\<lparr>preemption_pending := True\<rparr>) s"
  have on: "touched p s (snd (master_send env g k ?s1))" for g k
    using h by (simp add: touched_def heap_simps)
  have sent: "master_ok (snd (master_send env g k ?s1))" for g k
    by (rule touch_running_ok [OF ok p on]) (use h st in \<open>simp_all add: heap_simps\<close>)
  let ?s2 = "\<lambda>g k. upd_qcb p (\<lambda>q. q\<lparr>preemption_pending := False\<rparr>) (snd (master_send env g k ?s1))"
  have off: "touched p s (?s2 g k)" for g k
    by (rule touched_trans [OF on touched_upd]) (use h in \<open>simp_all add: heap_simps\<close>)
  have fail: "master_ok (?s2 g k)" for g k
    by (rule touch_running_ok [OF ok p off]) (use h st in \<open>simp_all add: heap_simps\<close>)
  show ?thesis using ok bad sent fail unfolding preempt_query_in_exec_def Let_def
    by (auto split: option.splits prod.splits simp: split_beta)
qed

lemma worst_running_in: "worst_running s = Some w \<Longrightarrow> w \<in> set (running s)"
proof -
  have "fold (\<lambda>p worst. case worst of None \<Rightarrow> Some p
      | Some w \<Rightarrow> if f w < f p then Some p else worst) xs a = Some w \<Longrightarrow> w \<in> set xs \<or> a = Some w"
    for f :: "ptr \<Rightarrow> int" and xs a
    by (induction xs arbitrary: a) (auto split: option.splits if_splits)
  then show "worst_running s = Some w \<Longrightarrow> w \<in> set (running s)"
    unfolding worst_running_def by fastforce
qed

lemma check_preemption_ok: "master_ok s \<Longrightarrow> master_ok (check_preemption env s)"
  by (auto simp: check_preemption_def Let_def split: option.splits intro: preempt_ok worst_running_in)

lemma qc_disconnection_ok:
  assumes ok: "master_ok s"
  shows "master_ok (snd (handle_query_control_disconnection env k s))"
proof (cases "find_query_by_socket s k")
  case None
  then show ?thesis using ok by (simp add: handle_query_control_disconnection_def)
next
  case (Some p)
  note o = master_okD [OF ok]
  note qd = queries_okD [OF o(1)]
  from Some have pq: "p \<in> set (queries s)" by (auto simp: find_query_by_socket_def dest: find_SomeD)
  then have h: "p \<in> dom (qcb_heap s)" and c: "\<not> cleaned_up (qcb s p)" using qd(4,8) by auto
  have upd: "touched p s (upd_qcb p (\<lambda>q. q\<lparr>q_state := x\<rparr>) s)" for x
    by (rule touched_upd [OF h]) simp
  have "touched p s (cancel_query_in_ready env p s)"
    unfolding cancel_query_in_ready_def
    by (rule touched_trans [OF upd touched_finalize]) (use h in \<open>simp add: heap_simps\<close>)
  note gone = cleanup_ok [OF ok pq]
  have running: "master_ok (snd (preempt_query_in_exec env p
      (upd_qcb p (\<lambda>q. q\<lparr>q_state := QUERY_STATE_CANCELED\<rparr>) s)))" if "q_state (qcb s p) = QUERY_STATE_RUNNING"
  proof -
    have "p \<in> set (running s)" using that qd(12) [OF pq] qd(13) [of p] by auto
    then show ?thesis
      by (intro preempt_ok touch_running_ok [OF ok _ upd]) (use h in \<open>simp_all add: heap_simps\<close>)
  qed
  show ?thesis
    using Some c running gone [OF \<open>touched p s (cancel_query_in_ready env p s)\<close>] gone [OF touched_refl]
      gone [OF touched_finalize [OF h]]
    by (simp add: handle_query_control_disconnection_def split: t_query_state.split)
qed

subsection \<open>Answers of workers\<close>

text \<open>
  The contract of a worker: the query it names in an answer is the one the Master last gave
  it.
\<close>

definition reports :: "t_master \<Rightarrow> int \<Rightarrow> u32 \<Rightarrow> bool" where
  "reports s socket qid \<longleftrightarrow>
     (case find_worker_by_socket s socket of None \<Rightarrow> True | Some w \<Rightarrow> current_query_id (wcb s w) = sint qid)"

lemma query_of_word:
  assumes "0 \<le> i" "i < 2 ^ 31" "word_of_int i = (qid :: u32)"
  shows "sint qid = i"
proof -
  have "sint (word_of_nat (nat i) :: u32) = int (nat i)" by (rule sint32_small(2)) (use assms(1,2) in \<open>simp add: nat_less_iff\<close>)
  with assms show ?thesis by (metis int_nat_eq of_int_of_nat_eq)
qed

text \<open>The workers' side of dropping and requeueing is free, and the other way round.\<close>

lemma dropped_workers [simp]:
  "dropped p s (on_workers h t) = dropped p s t" "dropped p s (upd_wcb w f t) = dropped p s t"
  by (simp_all add: dropped_def heap_simps)

lemma requeued_workers [simp]:
  "requeued p s (on_workers h t) = requeued p s t" "requeued p s (upd_wcb w f t) = requeued p s t"
  by (simp_all add: requeued_def heap_simps)

lemma ready_sorted_workers [simp]:
  "ready_sorted (on_workers h t) = ready_sorted t" "ready_sorted (upd_wcb w f t) = ready_sorted t"
  by (simp_all add: ready_sorted_def heap_simps)

lemma evict_query_workers [heap_simps]:
  "workers_table (evict_query env q pc s) = workers_table s" "wcb_heap (evict_query env q pc s) = wcb_heap s"
  "multiprogramming_level (evict_query env q pc s) = multiprogramming_level s"
  "next_ptr (evict_query env q pc s) = next_ptr s" "wcb (evict_query env q pc s) = wcb s"
  "next_query_id (queries_table (evict_query env q pc s)) = next_query_id (queries_table s)"
  by (simp_all add: evict_query_def cleanup_query_resources_def Let_def heap_simps wcb_def fun_eq_iff)

lemma evict_query_canceled:
  assumes ok: "queries_ok s" and "q \<in> set (running s)" and "q_state (qcb s q) = QUERY_STATE_CANCELED"
  shows "dropped q s (evict_query env q pc s)"
proof -
  note qd = queries_okD [OF ok]
  have h: "q \<in> dom (qcb_heap s)" and c: "\<not> cleaned_up (qcb s q)" and n: "q \<notin> set (remove1 q (running s))"
    using qd(4) qd(6) [OF assms(2)] qd(8) qd(3) by auto
  then show ?thesis using assms(3)
    by (auto simp: dropped_def evict_query_def cleanup_query_resources_def Let_def heap_simps remove1_idem
        qcb_def [of "_\<lparr>qcb_heap := _\<rparr>"]) (simp_all add: qcb_def upd_qcb_def on_queries_def)
qed

lemma evict_query_normal:
  assumes ok: "master_ok s" and q: "q \<in> set (running s)" and "q_state (qcb s q) \<noteq> QUERY_STATE_CANCELED"
  shows "requeued q s (evict_query env q pc s)" and "ready_sorted (evict_query env q pc s)"
proof -
  note o = master_okD [OF ok]
  note qd = queries_okD [OF o(1)]
  have h: "q \<in> dom (qcb_heap s)" and n: "q \<notin> set (ready s)"
    using qd(4) qd(6) [OF q] qd(7) [of q] q by auto
  show "requeued q s (evict_query env q pc s)"
    using assms(3) h n qd(2) by (simp add: requeued_def evict_query_def Let_def heap_simps)
  have "prio_of (upd_qcb q (\<lambda>q. q\<lparr>program_counter := sint pc, q_state := QUERY_STATE_READY,
      assigned_worker_id := -1, preemption_pending := False, ready_timestamp := now_ms env\<rparr>) s) x = prio_of s x" for x
    using h by (cases "x = q") (simp_all add: heap_simps)
  then show "ready_sorted (evict_query env q pc s)"
    using assms(3) o(2) by (simp add: ready_sorted_def evict_query_def Let_def heap_simps sorted_insert_by_priority)
qed

lemma worker_of_query:
  assumes ok: "master_ok s" and q: "q \<in> set (running s)" and w: "find_worker_by_socket s k = Some w"
    and c: "current_query_id (wcb s w) = query_id (qcb s q)"
  shows "w \<in> set (busy s)"
proof -
  note o = master_okD [OF ok]
  have "w \<in> set (workers s)" using w by (auto simp: find_worker_by_socket_def dest: find_SomeD)
  moreover have "w \<notin> set (idle s)"
    using workers_okD(9) [OF o(3), of w] queries_okD(9) [OF o(1) queries_okD(6) [OF o(1) q]] c by auto
  ultimately show ?thesis using workers_okD(8) [OF o(3)] by blast
qed

lemma evict_section_ok:
  assumes ok: "master_ok s" and rep: "reports s k qid"
  shows "master_ok (evict_section env qid pc k s)"
proof (cases "find_worker_by_socket s k")
  case None
  then show ?thesis using ok by (simp add: evict_section_def)
next
  case w: (Some w)
  show ?thesis
  proof (cases "find (\<lambda>p. word_of_int (query_id (qcb s p)) = qid) (running s)")
    case None
    then show ?thesis using ok w by (simp add: evict_section_def)
  next
    case (Some q)
    note o = master_okD [OF ok]
    from Some have q: "q \<in> set (running s)" "word_of_int (query_id (qcb s q)) = qid" by (auto dest: find_SomeD)
    note qq = queries_okD(6) [OF o(1) q(1)]
    have id: "current_query_id (wcb s w) = query_id (qcb s q)"
      using rep w query_of_word [OF queries_okD(9) [OF o(1) qq] _ q(2)]
        queries_okD(10) [OF o(1) qq] queries_okD(17) [OF o(1)] by (simp add: reports_def)
    have b: "w \<in> set (busy s)" by (rule worker_of_query [OF ok q(1) w id])
    then have h: "w \<in> dom (wcb_heap s)" using workers_okD(4) [OF o(3)] workers_okD(6) [OF o(3)] by blast
    let ?t = "evict_section env qid pc k s"
    have t: "?t = on_workers (\<lambda>t. t\<lparr>busy_list := remove1 w (busy_list t), idle_list := idle_list t @ [w]\<rparr>)
        (upd_wcb w (\<lambda>w. w\<lparr>current_query_id := -1, w_state := WORKER_STATE_IDLE\<rparr>) (evict_query env q pc s))"
      using w Some b by (simp add: evict_section_def Let_def heap_simps)
    have f: "freed w s ?t" using h by (simp add: t freed_def heap_simps)
    show ?thesis
    proof (cases "q_state (qcb s q) = QUERY_STATE_CANCELED")
      case True
      have "dropped q s ?t" using evict_query_canceled [OF o(1) q(1) True] by (simp add: t)
      then show ?thesis by (rule drop_and_free_ok [OF ok q(1) b id _ f])
    next
      case False
      note e = evict_query_normal [OF ok q(1) False]
      have "requeued q s ?t" "ready_sorted ?t" using e by (simp_all add: t)
      then show ?thesis by (intro requeue_ok [OF ok q(1) b id _ f])
    qed
  qed
qed

lemma unlink_ok:
  assumes ok: "master_ok s" and w: "w \<in> set (workers s)"
    and free: "\<And>p. p \<in> set (running s) \<Longrightarrow> query_id (qcb s p) \<noteq> current_query_id (wcb s w)"
  shows "master_ok (upd_wcb w (\<lambda>w. w\<lparr>w_state := WORKER_STATE_IDLE, current_query_id := -1\<rparr>) s)" (is "master_ok ?t")
proof -
  note o = master_okD [OF ok]
  note qd = queries_okD [OF o(1)] and wd = workers_okD [OF o(3)]
  have h: "w \<in> dom (wcb_heap s)" using wd(4) w by simp
  have c: "current_query_id (wcb ?t v) = (if v = w then -1 else current_query_id (wcb s v))"
    and st: "w_state (wcb ?t v) = (if v = w then WORKER_STATE_IDLE else w_state (wcb s v))" for v
    using h by (simp_all add: heap_simps)
  have u: "v = v'" if "v \<in> set (workers s)" "v' \<in> set (workers s)" "0 \<le> current_query_id (wcb ?t v)"
    "current_query_id (wcb ?t v) = current_query_id (wcb ?t v')" for v v'
  proof -
    have "v \<noteq> w" using that(3) by (rule contrapos_pn) (simp add: c)
    moreover have "v' \<noteq> w" using that(3) unfolding that(4) by (rule contrapos_pn) (simp add: c)
    ultimately show ?thesis by (intro wd(10)) (use that in \<open>simp_all add: c\<close>)
  qed
  have "workers_ok ?t" using o(3) u qd(11) unfolding workers_ok_def by (elim conjE) (simp add: heap_simps c st)
  moreover have "linked ?t"
  proof (rule linked_mono [OF o(4)])
    fix p v assume p: "p \<in> set (running ?t)" "v \<in> set (busy s)" "current_query_id (wcb s v) = query_id (qcb s p)"
    then have "v \<noteq> w" using free [of p] by (auto simp: heap_simps)
    with p show "v \<in> set (busy ?t) \<and> wcb ?t v = wcb s v" by (simp add: heap_simps)
  qed (use qd(5,9) in \<open>simp_all add: heap_simps c\<close>)
  moreover have "queries_ok ?t" "ready_sorted ?t"
    using o(1,2) unfolding queries_ok_def by (elim conjE, simp add: heap_simps)+
  ultimately show ?thesis by (simp add: master_ok_def)
qed

lemma release_worker_sel [heap_simps]:
  "queries_table (release_worker w s) = queries_table s" "qcb_heap (release_worker w s) = qcb_heap s"
  "workers_table (release_worker w s) = (workers_table s)\<lparr>busy_list := remove1 w (busy s), idle_list := idle s @ [w]\<rparr>"
  "dom (wcb_heap (release_worker w s)) = dom (wcb_heap s)" "next_ptr (release_worker w s) = next_ptr s"
  "scheduling_algorithm (release_worker w s) = scheduling_algorithm s"
  "multiprogramming_level (release_worker w s) = multiprogramming_level s"
  "qcb (release_worker w s) = qcb s" "v \<noteq> w \<Longrightarrow> wcb (release_worker w s) v = wcb s v"
  "w \<in> dom (wcb_heap s) \<Longrightarrow> wcb (release_worker w s) w = (wcb s w)\<lparr>w_state := WORKER_STATE_IDLE, current_query_id := -1\<rparr>"
  "sent (release_worker w s) = sent s"
  by (simp_all add: release_worker_def heap_simps)

lemma cleanup_sel [heap_simps]:
  "workers_table (cleanup_query_resources p s) = workers_table s" "wcb_heap (cleanup_query_resources p s) = wcb_heap s"
  "multiprogramming_level (cleanup_query_resources p s) = multiprogramming_level s"
  "next_ptr (cleanup_query_resources p s) = next_ptr s" "wcb (cleanup_query_resources p s) = wcb s"
  "next_query_id (queries_table (cleanup_query_resources p s)) = next_query_id (queries_table s)"
  "sent (cleanup_query_resources p s) = sent s"
  "scheduling_algorithm (cleanup_query_resources p s) = scheduling_algorithm s"
  by (simp_all add: cleanup_query_resources_def Let_def heap_simps wcb_def fun_eq_iff)

lemma finalize_sel [heap_simps]:
  "workers_table (finalize_query_with_error env p m s) = workers_table s"
  "wcb_heap (finalize_query_with_error env p m s) = wcb_heap s"
  "multiprogramming_level (finalize_query_with_error env p m s) = multiprogramming_level s"
  "next_ptr (finalize_query_with_error env p m s) = next_ptr s" "wcb (finalize_query_with_error env p m s) = wcb s"
  "queries_table (finalize_query_with_error env p m s) = queries_table s"
  by (simp_all add: finalize_query_with_error_def Let_def heap_simps)

text \<open>Releasing a query's block whatever was assigned to it and to the workers before.\<close>

lemma cleanup_dropped_any:
  assumes "distinct (running s)" "\<not> cleaned_up (qcb t p)"
    and "queries t = queries s" "ready t = ready s" "running t = running s \<or> running t = remove1 p (running s)"
    "completed_list (queries_table t) = completed_list (queries_table s)"
    "canceled_list (queries_table t) = canceled_list (queries_table s)"
    "next_query_id (queries_table t) = next_query_id (queries_table s)"
    "dom (qcb_heap t) = dom (qcb_heap s)" "\<And>p'. p' \<noteq> p \<Longrightarrow> qcb t p' = qcb s p'"
    "next_ptr t = next_ptr s" "scheduling_algorithm t = scheduling_algorithm s"
  shows "dropped p s (cleanup_query_resources p t)"
proof -
  have "qcb (cleanup_query_resources p t) p' = qcb t p'" if "p' \<noteq> p" for p'
    using that by (simp add: cleanup_query_resources_def Let_def qcb_def on_queries_sel)
  moreover have "remove1 p (running t) = remove1 p (running s)"
    using assms(1,5) by (auto simp: remove1_idem)
  ultimately show ?thesis using assms
    by (simp add: dropped_def cleanup_query_resources_def Let_def on_queries_sel)
qed

lemma end_query_section_ok:
  assumes ok: "master_ok s" and rep: "reports s k qid"
  shows "master_ok (snd (end_query_section env qid k s))"
proof (cases "find_worker_by_socket s k")
  case None
  then show ?thesis using ok by (simp add: end_query_section_def)
next
  case w: (Some w)
  note o = master_okD [OF ok]
  note qd = queries_okD [OF o(1)] and wd = workers_okD [OF o(3)]
  have ww: "w \<in> set (workers s)" using w by (auto simp: find_worker_by_socket_def dest: find_SomeD)
  then have h: "w \<in> dom (wcb_heap s)" using wd(4) by simp
  have cur: "current_query_id (wcb s w) = sint qid" using rep w by (simp add: reports_def)
  show ?thesis
  proof (cases "find (\<lambda>p. query_id (qcb s p) = sint qid) (running s)")
    case None
    then have "p \<in> set (running s) \<Longrightarrow> query_id (qcb s p) \<noteq> current_query_id (wcb s w)" for p
      by (auto simp: cur find_None_iff)
    from unlink_ok [OF ok ww this] None w show ?thesis by (simp add: end_query_section_def)
  next
    case (Some p)
    then have p: "p \<in> set (running s)" "current_query_id (wcb s w) = query_id (qcb s p)"
      using cur by (auto dest: find_SomeD)
    have b: "w \<in> set (busy s)" by (rule worker_of_query [OF ok p(1) w p(2)])
    have hp: "p \<in> dom (qcb_heap s)" and c: "\<not> cleaned_up (qcb s p)"
      using qd(4) qd(6) [OF p(1)] qd(8) by auto
    let ?s3 = "release_worker w (on_queries (\<lambda>t. t\<lparr>running_list := remove1 p (running_list t)\<rparr>)
        (upd_qcb p (\<lambda>q. q\<lparr>q_state := QUERY_STATE_COMPLETED, assigned_worker_id := -1\<rparr>) s))"
    let ?s4 = "if 0 < q_socket_fd (qcb ?s3 p)
      then snd (master_send env (end_package (query_id (qcb ?s3 p))) (q_socket_fd (qcb ?s3 p)) ?s3) else ?s3"
    have sec: "snd (end_query_section env qid k s) = cleanup_query_resources p ?s4"
      using w Some c by (simp add: end_query_section_def Let_def)
    have d: "dropped p s (cleanup_query_resources p ?s4)"
      by (rule cleanup_dropped_any [OF qd(3)]) (use c hp in \<open>simp_all add: heap_simps\<close>)
    have f: "freed w s (cleanup_query_resources p ?s4)"
      using h by (simp add: freed_def heap_simps)
    show ?thesis unfolding sec by (rule drop_and_free_ok [OF ok p(1) b p(2) d f])
  qed
qed

lemma storage_error_section_ok:
  assumes ok: "master_ok s"
  shows "master_ok (storage_error_section env m k s)"
proof (cases "find_worker_by_socket s k")
  case None
  then show ?thesis using ok by (simp add: storage_error_section_def)
next
  case w: (Some w)
  note o = master_okD [OF ok]
  note qd = queries_okD [OF o(1)] and wd = workers_okD [OF o(3)]
  show ?thesis
  proof (cases "current_query_id (wcb s w) < 0 \<or> find (match_query_by_id s (current_query_id (wcb s w))) (running s) = None")
    case True
    then show ?thesis using ok w by (auto simp: storage_error_section_def Let_def)
  next
    case False
    then obtain p where f: "\<not> current_query_id (wcb s w) < 0"
      "find (match_query_by_id s (current_query_id (wcb s w))) (running s) = Some p" by auto
    then have p: "p \<in> set (running s)" "current_query_id (wcb s w) = query_id (qcb s p)"
      by (auto simp: match_query_by_id_def dest: find_SomeD)
    have b: "w \<in> set (busy s)" by (rule worker_of_query [OF ok p(1) w p(2)])
    have h: "w \<in> dom (wcb_heap s)" and hp: "p \<in> dom (qcb_heap s)" and c: "\<not> cleaned_up (qcb s p)"
      using wd(4) wd(6) [OF b] qd(4) qd(6) [OF p(1)] qd(8) by auto
    let ?m = "case m of None \<Rightarrow> to_bytes ''Error en Storage'' | Some m \<Rightarrow> m"
    let ?t = "cleanup_query_resources p (finalize_query_with_error env p ?m (release_worker w s))"
    have d: "dropped p s ?t"
      by (rule cleanup_dropped_any [OF qd(3)])
        (use c hp in \<open>simp_all add: heap_simps finalize_query_with_error_def Let_def\<close>)
    have fr: "freed w s ?t" using h by (simp add: freed_def heap_simps)
    have "storage_error_section env m k s = ?t" using w f by (simp add: storage_error_section_def Let_def)
    with drop_and_free_ok [OF ok p(1) b p(2) d fr] show ?thesis by simp
  qed
qed

subsection \<open>Disconnected workers\<close>

lemma cleanup_worker_sel:
  assumes "0 < total_workers_connected (workers_table s)"
  shows "queries_table (cleanup_worker_resources w s) = queries_table s"
    "qcb_heap (cleanup_worker_resources w s) = qcb_heap s" "qcb (cleanup_worker_resources w s) = qcb s"
    "workers (cleanup_worker_resources w s) = remove1 w (workers s)"
    "idle (cleanup_worker_resources w s) = remove1 w (idle s)"
    "busy (cleanup_worker_resources w s) = remove1 w (busy s)"
    "total_workers_connected (workers_table (cleanup_worker_resources w s)) = total_workers_connected (workers_table s) - 1"
    "multiprogramming_level (cleanup_worker_resources w s) = total_workers_connected (workers_table s) - 1"
    "wcb_heap (cleanup_worker_resources w s) = (wcb_heap s)(w := None)"
    "next_ptr (cleanup_worker_resources w s) = next_ptr s"
    "scheduling_algorithm (cleanup_worker_resources w s) = scheduling_algorithm s"
    "v \<noteq> w \<Longrightarrow> wcb (cleanup_worker_resources w s) v = wcb s v"
    "sent (cleanup_worker_resources w s) = sent s"
  using assms by (simp_all add: cleanup_worker_resources_def Let_def on_workers_def qcb_def wcb_def fun_eq_iff)

lemma remove_worker_ok:
  assumes ok: "master_ok s" and w: "w \<in> set (workers s)"
    and free: "\<And>p. p \<in> set (running s) \<Longrightarrow> query_id (qcb s p) \<noteq> current_query_id (wcb s w)"
  shows "master_ok (cleanup_worker_resources w s)" (is "master_ok ?t")
proof -
  note o = master_okD [OF ok]
  note qd = queries_okD [OF o(1)] and wd = workers_okD [OF o(3)]
  have n: "total_workers_connected (workers_table s) = int (length (workers s))"
    and sets: "set (idle s) \<union> set (busy s) = set (workers s)" "set (idle s) \<inter> set (busy s) = {}"
    using o(3) by (simp_all add: workers_ok_def)
  have l: "0 < length (workers s)" using w by (cases "workers s") auto
  then have pos: "0 < total_workers_connected (workers_table s)" using n by simp
  note sel = cleanup_worker_sel(1-11,13) [OF pos, of w] cleanup_worker_sel(12) [OF pos, of _ w]
  have len: "int (length (workers s)) - 1 = int (length (remove1 w (workers s)))"
    using w l by (simp add: length_remove1 of_nat_diff Suc_leI)
  have in_t: "v \<in> set (workers s)" "v \<noteq> w" if "v \<in> set (workers ?t)" for v
    using that wd(1) by (simp_all add: sel)
  have in_i: "v \<in> set (idle s)" "v \<noteq> w" if "v \<in> set (idle ?t)" for v
    using that wd(2) by (simp_all add: sel)
  have "queries_ok ?t" using o(1) unfolding queries_ok_def by (elim conjE) (simp add: sel)
  moreover have "ready_sorted ?t" using o(2) by (simp add: ready_sorted_def sel)
  moreover have "workers_ok ?t" unfolding workers_ok_def
  proof (intro conjI ballI impI)
    fix v v' assume "v \<in> set (workers ?t)" "v' \<in> set (workers ?t)" "0 \<le> current_query_id (wcb ?t v)"
      "current_query_id (wcb ?t v) = current_query_id (wcb ?t v')"
    then have v: "v \<in> set (workers s)" "v' \<in> set (workers s)" "0 \<le> current_query_id (wcb s v)"
      "current_query_id (wcb s v) = current_query_id (wcb s v')"
      using in_t [of v] in_t [of v'] cleanup_worker_sel(12) [OF pos, of v w] cleanup_worker_sel(12) [OF pos, of v' w] by auto
    show "v = v'" by (rule wd(10) [OF v])
  next
    fix v assume v: "v \<in> set (workers ?t)"
    note v' = in_t [OF v]
    show "v < next_ptr ?t" "-1 \<le> current_query_id (wcb ?t v)"
      "current_query_id (wcb ?t v) \<le> next_query_id (queries_table ?t)"
      using wd(12-14) [OF v'(1)] v'(2) by (simp_all add: sel)
  next
    fix v assume v: "v \<in> set (idle ?t)"
    note v' = in_i [OF v]
    show "current_query_id (wcb ?t v) = -1" "w_state (wcb ?t v) = WORKER_STATE_IDLE"
      using wd(9,11) [OF v'(1)] v'(2) by (simp_all add: sel)
  next
    show "set (workers ?t) = dom (wcb_heap ?t)" using wd(1,4) by (auto simp: sel)
    show "set (idle ?t) \<inter> set (busy ?t) = {}" using wd(2,3) sets by (auto simp: sel)
    show "set (idle ?t) \<union> set (busy ?t) = set (workers ?t)" using wd(1-3) sets by (auto simp: sel)
  qed (use wd(1-3) n len in \<open>simp_all add: sel\<close>)
  moreover have "linked ?t"
  proof (rule linked_mono [OF o(4)])
    fix p v assume p: "p \<in> set (running ?t)" "v \<in> set (busy s)" "current_query_id (wcb s v) = query_id (qcb s p)"
    then have "v \<noteq> w" using free [of p] by (auto simp: sel)
    with p wd(3) show "v \<in> set (busy ?t) \<and> wcb ?t v = wcb s v" by (simp add: sel)
  next
    fix v assume "v \<in> set (workers ?t)"
    from in_t [OF this] show "current_query_id (wcb ?t v) = -1 \<or>
      v \<in> set (workers s) \<and> current_query_id (wcb ?t v) = current_query_id (wcb s v)" by (simp add: sel)
  qed (use qd(5,9) in \<open>simp_all add: sel\<close>)
  ultimately show ?thesis by (simp add: master_ok_def)
qed

lemma worker_disconnection_ok:
  assumes ok: "master_ok s"
  shows "master_ok (snd (handle_worker_disconnection env k s))"
proof (cases "find_worker_by_socket s k")
  case None
  then show ?thesis using ok by (simp add: handle_worker_disconnection_def)
next
  case w: (Some w)
  note o = master_okD [OF ok]
  have ww: "w \<in> set (workers s)" using w by (auto simp: find_worker_by_socket_def dest: find_SomeD)
  let ?c = "current_query_id (wcb s w)"
  let ?s = "s\<lparr>running_query_id_for_predicate := ?c\<rparr>"
  have same: "qcb ?s = qcb s" "wcb ?s = wcb s" by (simp_all add: qcb_def wcb_def fun_eq_iff)
  have ok': "master_ok ?s" using ok by (subst master_ok_cong) auto
  note o' = master_okD [OF ok']
  note qd = queries_okD [OF o'(1)]
  consider "?c < 0" | "0 \<le> ?c" "find (match_query_by_id ?s ?c) (queries s) = None"
    | p where "0 \<le> ?c" "find (match_query_by_id ?s ?c) (queries s) = Some p" by fastforce
  then show ?thesis
  proof cases
    case 1
    have "query_id (qcb s p) \<noteq> ?c" if "p \<in> set (running s)" for p
      using 1 queries_okD(9) [OF o(1) queries_okD(6) [OF o(1) that]] by auto
    from remove_worker_ok [OF ok ww this] 1 w show ?thesis by (simp add: handle_worker_disconnection_def Let_def)
  next
    case 2
    have "query_id (qcb ?s p) \<noteq> current_query_id (wcb ?s w)" if "p \<in> set (running ?s)" for p
      using 2(2) qd(6) [OF that] by (auto simp: find_None_iff match_query_by_id_def same)
    from remove_worker_ok [OF ok' _ this] 2 w ww show ?thesis by (simp add: handle_worker_disconnection_def Let_def)
  next
    case (3 p)
    then have p: "p \<in> set (queries ?s)" "query_id (qcb ?s p) = ?c" by (auto simp: match_query_by_id_def dest: find_SomeD)
    have h: "p \<in> dom (qcb_heap ?s)" and cl: "\<not> cleaned_up (qcb ?s p)" using p(1) qd(4,8) by auto
    let ?t = "cleanup_query_resources p (finalize_query_with_error env p worker_lost ?s)"
    have t: "master_ok ?t" by (rule cleanup_ok [OF ok' p(1) touched_finalize [OF h]])
    note d = cleanup_dropped [OF touched_finalize [OF h] cl, of env worker_lost]
    have wt: "wcb ?t = wcb s" "workers_table ?t = workers_table s" by (simp_all add: heap_simps same)
    have "query_id (qcb ?t x) \<noteq> current_query_id (wcb ?t w)" if "x \<in> set (running ?t)" for x
    proof -
      have x: "x \<noteq> p" "x \<in> set (running ?s)" using that d(1) qd(3) by (auto simp: dropped_def)
      then have "query_id (qcb ?s x) \<noteq> query_id (qcb ?s p)"
        using query_id_inj [OF o'(1) qd(6) [OF x(2)] p(1)] by blast
      then show ?thesis using d(1) x(1) p(2) by (simp add: dropped_def wt)
    qed
    from remove_worker_ok [OF t _ this] ww have "master_ok (cleanup_worker_resources w ?t)" by (simp add: wt)
    with 3 w show ?thesis by (simp add: handle_worker_disconnection_def Let_def)
  qed
qed

subsection \<open>Aging\<close>

text \<open>
  What the Master relies on in \<^verbatim>\<open>list_sort\<close>: with a comparator that compares keys, the result
  has the same elements in the order of the keys.
\<close>

definition list_sort_ok :: "((ptr \<Rightarrow> ptr \<Rightarrow> bool) \<Rightarrow> ptr list \<Rightarrow> ptr list) \<Rightarrow> bool" where
  "list_sort_ok srt \<longleftrightarrow>
     (\<forall>(f :: ptr \<Rightarrow> int) xs. mset (srt (\<lambda>a b. f a < f b) xs) = mset xs \<and>
        sorted (map f (srt (\<lambda>a b. f a < f b) xs)))"

lemma age_query_keeps:
  "\<exists>pr ts. fst (age_query interval now q) = q\<lparr>priority := pr, ready_timestamp := ts\<rparr>"
proof -
  have a: "\<exists>pr ts. q = q\<lparr>priority := pr, ready_timestamp := ts\<rparr>"
    by (intro exI [of _ "priority q"] exI [of _ "ready_timestamp q"]) simp
  have b: "\<exists>pr ts. q\<lparr>ready_timestamp := now\<rparr> = q\<lparr>priority := pr, ready_timestamp := ts\<rparr>"
    by (intro exI [of _ "priority q"] exI [of _ now]) simp
  have c: "\<exists>pr ts. q\<lparr>priority := x, ready_timestamp := y\<rparr> = q\<lparr>priority := pr, ready_timestamp := ts\<rparr>" for x y
    by blast
  show ?thesis unfolding age_query_def Let_def by (simp split: if_split add: a b c)
qed

lemma age_query_unchanged: "\<not> snd (age_query interval now q) \<Longrightarrow> priority (fst (age_query interval now q)) = priority q"
  by (auto simp: age_query_def Let_def split: if_splits)

lemma age_queries_effect:
  assumes "distinct ps" "set ps \<subseteq> dom (qcb_heap s)"
  shows "(\<exists>hp. fst (age_queries i now ps s) = s\<lparr>qcb_heap := hp\<rparr> \<and> dom hp = dom (qcb_heap s)) \<and>
    (\<forall>p. qcb (fst (age_queries i now ps s)) p = (if p \<in> set ps then fst (age_query i now (qcb s p)) else qcb s p)) \<and>
    (snd (age_queries i now ps s) \<longleftrightarrow> (\<exists>p \<in> set ps. snd (age_query i now (qcb s p))))"
  using assms
proof (induction ps arbitrary: s)
  case Nil
  have "\<exists>hp. s = s\<lparr>qcb_heap := hp\<rparr> \<and> dom hp = dom (qcb_heap s)" by (rule exI [of _ "qcb_heap s"]) simp
  then show ?case by simp
next
  case (Cons x ps)
  let ?s = "upd_qcb x (\<lambda>_. fst (age_query i now (qcb s x))) s"
  have p: "distinct ps" "set ps \<subseteq> dom (qcb_heap ?s)" "x \<in> dom (qcb_heap s)" "x \<notin> set ps"
    using Cons.prems unfolding upd_qcb_sel by simp_all
  have step: "fst (age_queries i now (x # ps) s) = fst (age_queries i now ps ?s)"
    "snd (age_queries i now (x # ps) s) = (snd (age_query i now (qcb s x)) \<or> snd (age_queries i now ps ?s))"
    by (simp_all add: split_beta)
  have other: "qcb ?s q = qcb s q" if "q \<noteq> x" for q using that by (rule qcb_upd_other)
  have "qcb ?s q = qcb s q" if "q \<in> set ps" for q using that p(4) by (intro other) auto
  then have flags: "(\<exists>q \<in> set ps. snd (age_query i now (qcb ?s q))) = (\<exists>q \<in> set ps. snd (age_query i now (qcb s q)))"
    by simp
  have at: "qcb ?s x = fst (age_query i now (qcb s x))" using p(3) by (simp add: heap_simps)
  note IH = Cons.IH [OF p(1,2)]
  from IH obtain hp where hp: "fst (age_queries i now ps ?s) = ?s\<lparr>qcb_heap := hp\<rparr>" "dom hp = dom (qcb_heap s)"
    unfolding upd_qcb_sel by blast
  have "?s\<lparr>qcb_heap := hp\<rparr> = s\<lparr>qcb_heap := hp\<rparr>" by (simp add: upd_qcb_def)
  with hp have "\<exists>hp. fst (age_queries i now (x # ps) s) = s\<lparr>qcb_heap := hp\<rparr> \<and> dom hp = dom (qcb_heap s)"
    unfolding step by metis
  moreover have "qcb (fst (age_queries i now (x # ps) s)) q =
      (if q \<in> set (x # ps) then fst (age_query i now (qcb s q)) else qcb s q)" for q
    using IH p(4) at other [of q] unfolding step by (cases "q = x") simp_all
  ultimately show ?case using IH flags step(2) by simp
qed

text \<open>Aging touches priorities and timestamps of ready queries and the order of the queue only.\<close>

lemma aging_section_effect:
  fixes env
  assumes ok: "queries_ok s"
  defines "t \<equiv> aging_section env s"
  shows "\<exists>hp rq. t = s\<lparr>qcb_heap := hp, queries_table := (queries_table s)\<lparr>ready_queue := rq\<rparr>\<rparr> \<and>
      dom hp = dom (qcb_heap s) \<and> (list_sort_ok (list_sort env) \<longrightarrow> mset rq = mset (ready s))"
    and "qcb t p = (if p \<in> set (ready s) then fst (age_query (aging_interval s) (now_ms env) (qcb s p)) else qcb s p)"
    and "list_sort_ok (list_sort env) \<Longrightarrow> ready_sorted s \<Longrightarrow> ready_sorted t"
proof -
  note qd = queries_okD [OF ok]
  obtain s1 c where a: "age_queries (aging_interval s) (now_ms env) (ready s) s = (s1, c)" by fastforce
  have "set (ready s) \<subseteq> dom (qcb_heap s)" using qd(4,5) by auto
  note e = age_queries_effect [OF qd(2) this, of "aging_interval s" "now_ms env", unfolded a fst_conv snd_conv]
  from e obtain hp where hp: "s1 = s\<lparr>qcb_heap := hp\<rparr>" "dom hp = dom (qcb_heap s)" by blast
  let ?srt = "list_sort env (qcb_priority_compare s1) (ready s1)"
  have t: "t = (if c then on_queries (\<lambda>t. t\<lparr>ready_queue := list_sort env (qcb_priority_compare s1) (ready_queue t)\<rparr>) s1 else s1)"
    by (simp add: t_def aging_section_def a)
  have cmp: "qcb_priority_compare s1 = (\<lambda>a b. prio_of s1 a < prio_of s1 b)"
    by (simp add: qcb_priority_compare_def fun_eq_iff)
  have srt: "mset ?srt = mset (ready s)" "sorted (map (prio_of s1) ?srt)" if "list_sort_ok (list_sort env)"
    using that unfolding list_sort_ok_def cmp by (simp_all add: hp)
  have tt: "t = s\<lparr>qcb_heap := hp, queries_table := (queries_table s)\<lparr>ready_queue := (if c then ?srt else ready s)\<rparr>\<rparr>"
    unfolding t by (simp add: hp on_queries_def)
  then show "\<exists>hp rq. t = s\<lparr>qcb_heap := hp, queries_table := (queries_table s)\<lparr>ready_queue := rq\<rparr>\<rparr> \<and>
      dom hp = dom (qcb_heap s) \<and> (list_sort_ok (list_sort env) \<longrightarrow> mset rq = mset (ready s))"
    using hp(2) srt(1) by (intro exI [of _ hp] exI [of _ "if c then ?srt else ready s"]) simp
  have q: "qcb t = qcb s1" by (simp add: t on_queries_sel)
  then show "qcb t p = (if p \<in> set (ready s) then fst (age_query (aging_interval s) (now_ms env) (qcb s p)) else qcb s p)"
    using e by simp
  assume so: "list_sort_ok (list_sort env)" "ready_sorted s"
  show "ready_sorted t"
  proof (cases c)
    case True
    then show ?thesis using srt(2) [OF so(1)] by (simp add: ready_sorted_def q) (simp add: tt)
  next
    case False
    then have "prio_of s1 p = prio_of s p" if "p \<in> set (ready s)" for p
      using that e age_query_unchanged by simp
    then have "map (prio_of t) (ready t) = map (prio_of s) (ready s)" using False by (simp add: q) (simp add: tt)
    then show ?thesis using so(2) by (simp add: ready_sorted_def tt)
  qed
qed

lemma aging_section_ok:
  assumes ok: "master_ok s" and srt: "list_sort_ok (list_sort env)"
  shows "master_ok (aging_section env s)" (is "master_ok ?t")
proof -
  note o = master_okD [OF ok]
  note qd = queries_okD [OF o(1)]
  note e = aging_section_effect [OF o(1), of env]
  obtain hp rq where t: "?t = s\<lparr>qcb_heap := hp, queries_table := (queries_table s)\<lparr>ready_queue := rq\<rparr>\<rparr>"
    and d: "dom hp = dom (qcb_heap s)" and m: "mset rq = mset (ready s)" using e(1) srt by blast
  have r: "set rq = set (ready s)" "distinct rq"
    using m qd(2) by (metis set_mset_mset, metis mset_eq_imp_distinct_iff)
  have i: "query_id (qcb ?t p) = query_id (qcb s p) \<and> cleaned_up (qcb ?t p) = cleaned_up (qcb s p) \<and>
      assigned_worker_id (qcb ?t p) = assigned_worker_id (qcb s p) \<and> q_state (qcb ?t p) = q_state (qcb s p) \<and>
      preemption_pending (qcb ?t p) = preemption_pending (qcb s p)" for p
  proof -
    obtain pr ts where "fst (age_query (aging_interval s) (now_ms env) (qcb s p)) =
      (qcb s p)\<lparr>priority := pr, ready_timestamp := ts\<rparr>" using age_query_keeps by blast
    then show ?thesis by (simp add: e(2))
  qed
  have sel: "queries ?t = queries s" "ready ?t = rq" "running ?t = running s"
    "completed_list (queries_table ?t) = completed_list (queries_table s)"
    "canceled_list (queries_table ?t) = canceled_list (queries_table s)"
    "next_query_id (queries_table ?t) = next_query_id (queries_table s)" "dom (qcb_heap ?t) = dom (qcb_heap s)"
    "next_ptr ?t = next_ptr s" "workers_table ?t = workers_table s" "wcb_heap ?t = wcb_heap s"
    "multiprogramming_level ?t = multiprogramming_level s"
    unfolding t using d by simp_all
  have w: "wcb ?t = wcb s" by (simp add: wcb_def fun_eq_iff sel)
  have "queries_ok ?t" using o(1) unfolding queries_ok_def by (elim conjE) (simp add: sel r i)
  moreover have "workers_ok ?t" by (rule same_workers_ok [OF o(3)]) (simp add: same_workers_def sel)
  moreover have "linked ?t" using o(4) by (simp add: linked_def sel r i w)
  ultimately show ?thesis using e(3) [OF srt o(2)] by (simp add: master_ok_def)
qed

subsection \<open>Reachable states\<close>

text \<open>
  The steps of the Master: each is one critical section (or one package sent outside of any),
  with its own outcome of the system calls. A handler is a sequence of steps, and the steps
  of the handlers of several connections and of the aging thread come in any order. Signed
  overflow of the query counter is excluded by the guard of the first step.
\<close>

inductive master_step :: "t_master \<Rightarrow> t_master \<Rightarrow> bool" where
  query: "next_query_id (queries_table s) < 2 ^ 31 - 1 \<Longrightarrow> master_step s (register_query env path prio k s)"
| worker: "master_step s (register_worker wid k s)"
| dispatch: "master_step s (snd (try_dispatch env s))"
| aging: "list_sort_ok (list_sort env) \<Longrightarrow> master_step s (aging_section env s)"
| preemption: "master_step s (check_preemption env s)"
| evicted: "reports s k qid \<Longrightarrow> master_step s (evict_section env qid pc k s)"
| ended: "reports s k qid \<Longrightarrow> master_step s (snd (end_query_section env qid k s))"
| storage_error: "master_step s (storage_error_section env m k s)"
| qc_lost: "master_step s (snd (handle_query_control_disconnection env k s))"
| worker_lost: "master_step s (snd (handle_worker_disconnection env k s))"
| message: "master_step s (snd (master_send env p k s))"

inductive reachable :: "t_master \<Rightarrow> bool" where
  init: "reachable (init_master interval algorithm)"
| step: "reachable s \<Longrightarrow> master_step s t \<Longrightarrow> reachable t"

lemma master_step_ok: "master_step s t \<Longrightarrow> master_ok s \<Longrightarrow> master_ok t"
  by (induction rule: master_step.induct)
    (simp_all add: register_query_ok register_worker_ok try_dispatch_ok aging_section_ok check_preemption_ok
      evict_section_ok end_query_section_ok storage_error_section_ok qc_disconnection_ok worker_disconnection_ok)

lemma reachable_ok: "reachable s \<Longrightarrow> master_ok s"
  by (induction rule: reachable.induct) (auto intro: init_master_ok master_step_ok)

interpretation runs: invariant_system master_step reachable
  by unfold_locales (rule reachable.step)

subsection \<open>Handlers are sequences of steps\<close>

text \<open>The query an answer of a worker names.\<close>

definition reported_query :: "t_package \<Rightarrow> u32 option" where
  "reported_query p =
     (if operation_code p = OP_WORKER_EVICT_RES then fst (package_read_uint32 p)
      else if operation_code p = OP_WORKER_END_QUERY
      then fst (buffer_read_uint32 (snd (buffer_read_uint32 (buffer_reset_offset (buffer p)))))
      else None)"

definition well_behaved :: "t_master \<Rightarrow> int \<Rightarrow> t_package option \<Rightarrow> bool" where
  "well_behaved s socket package \<longleftrightarrow>
     next_query_id (queries_table s) < 2 ^ 31 - 1 \<and>
     (case package of None \<Rightarrow> True
      | Some p \<Rightarrow> (case reported_query p of None \<Rightarrow> True | Some qid \<Rightarrow> reports s socket qid))"

lemmas then_dispatch = two_steps [where R = master_step, OF _ master_step.dispatch]

lemma file_path_steps:
  assumes "manage_query_file_path env p k s = Some (r, t)" "next_query_id (queries_table s) < 2 ^ 31 - 1"
  shows "master_step\<^sup>*\<^sup>* s t"
  using assms by (auto simp: manage_query_file_path_def split: prod.splits option.splits
      intro!: then_dispatch master_step.query)

lemma worker_handshake_steps:
  assumes "manage_worker_handshake env b k s = Some (r, t)"
  shows "master_step\<^sup>*\<^sup>* s t"
proof (cases "buffer_read_uint32 b")
  case (Pair v b1)
  show ?thesis
  proof (cases v)
    case None
    with assms Pair show ?thesis by (simp add: manage_worker_handshake_def)
  next
    case (Some wid)
    let ?s1 = "register_worker wid k s"
    let ?p = "\<lparr>operation_code = OP_WORKER_ACK, buffer = b1\<rparr>"
    let ?s2 = "snd (master_send env ?p k ?s1)"
    have sent: "master_step\<^sup>*\<^sup>* s ?s2" by (rule two_steps [where R = master_step, OF master_step.worker master_step.message])
    have disp: "master_step\<^sup>*\<^sup>* s (snd (try_dispatch env ?s2))"
      by (rule rtranclp.rtrancl_into_rtrancl [OF sent master_step.dispatch])
    have "t = s \<or> t = ?s2 \<or> t = snd (try_dispatch env ?s2)"
      using assms Pair Some
      by (auto simp: manage_worker_handshake_def package_create_def Let_def split_beta split: if_splits)
    with sent disp show ?thesis by auto
  qed
qed

lemma read_message_steps:
  assumes "manage_read_message_from_worker env b k s = Some (r, t)"
  shows "master_step\<^sup>*\<^sup>* s t"
proof -
  have "t = s \<or> t = snd (try_dispatch env s) \<or> (\<exists>p j. t = snd (master_send env p j s))"
    using assms unfolding manage_read_message_from_worker_def Let_def
    by (auto split: prod.splits option.splits if_splits) (metis snd_conv)+
  then show ?thesis by (auto intro: master_step.dispatch master_step.message)
qed

lemma evict_steps:
  assumes "\<And>qid. fst (package_read_uint32 p) = Some qid \<Longrightarrow> reports s k qid"
  shows "master_step\<^sup>*\<^sup>* s (manage_worker_evict_response env k p s)"
  using assms by (auto simp: manage_worker_evict_response_def split: prod.splits option.splits
      intro!: then_dispatch master_step.evicted)

lemma end_query_steps:
  assumes "manage_worker_end_query env b k s = Some (r, t)"
    and "\<And>qid. fst (buffer_read_uint32 (snd (buffer_read_uint32 (buffer_reset_offset b)))) = Some qid \<Longrightarrow>
      reports s k qid"
  shows "master_step\<^sup>*\<^sup>* s t"
proof -
  obtain v b1 where 1: "buffer_read_uint32 (buffer_reset_offset b) = (v, b1)" by fastforce
  obtain q b2 where 2: "buffer_read_uint32 b1 = (q, b2)" by fastforce
  obtain qid where q: "q = Some qid" using assms(1) 1 2
    by (auto simp: manage_worker_end_query_def split: option.splits)
  then have step: "master_step s (snd (end_query_section env qid k s))"
    using assms(2) 1 2 by (intro master_step.ended) simp
  have "t = snd (end_query_section env qid k s) \<or> t = snd (try_dispatch env (snd (end_query_section env qid k s)))"
    using assms(1) 1 2 q by (auto simp: manage_worker_end_query_def split_beta split: option.splits if_splits)
  then show ?thesis using step then_dispatch [OF step] by auto
qed

lemma handle_client_steps:
  assumes h: "handle_client env k pkg fl s = Some (go, fl', t)" and b: "well_behaved s k pkg"
  shows "master_step\<^sup>*\<^sup>* s t"
proof (cases pkg)
  case None
  then show ?thesis using h
    by (auto simp: handle_client_def intro: master_step.qc_lost master_step.worker_lost split: if_splits)
next
  case (Some p)
  have n: "next_query_id (queries_table s) < 2 ^ 31 - 1" using b by (simp add: well_behaved_def)
  have rep: "reported_query p = Some qid \<Longrightarrow> reports s k qid" for qid using b Some by (simp add: well_behaved_def)
  have err: "master_step\<^sup>*\<^sup>* s (snd (handle_error_from_storage env p k s))"
    by (auto simp: handle_error_from_storage_def Let_def split: prod.splits
        intro!: then_dispatch master_step.storage_error)
  have hs: "master_step s (snd (manage_query_handshake env k s))"
    by (simp add: manage_query_handshake_def split_beta master_step.message)
  consider "t = snd (manage_query_handshake env k s)"
    | r where "manage_query_file_path env p k s = Some (r, t)"
    | "t = snd (handle_query_control_disconnection env k s)"
    | r where "manage_worker_handshake env (buffer p) k s = Some (r, t)"
    | r where "manage_read_message_from_worker env (buffer p) k s = Some (r, t)"
    | r where "manage_worker_end_query env (buffer p) k s = Some (r, t)" "operation_code p = OP_WORKER_END_QUERY"
    | "t = manage_worker_evict_response env k p s" "operation_code p = OP_WORKER_EVICT_RES"
    | "t = snd (handle_worker_disconnection env k s)"
    | "t = snd (handle_error_from_storage env p k s)" | "t = s"
    using h Some unfolding handle_client_def Let_def
    by (auto simp: split_beta split: if_splits)
  then show ?thesis
  proof cases
    case 6
    show ?thesis by (rule end_query_steps [OF 6(1)], rule rep)
        (simp add: reported_query_def 6(2) OP_WORKER_END_QUERY_def OP_WORKER_EVICT_RES_def)
  next
    case 7
    show ?thesis unfolding 7(1) by (rule evict_steps, rule rep) (simp add: reported_query_def 7(2))
  qed (use n hs err in \<open>auto intro: file_path_steps worker_handshake_steps read_message_steps
      master_step.qc_lost master_step.worker_lost\<close>)
qed

lemma aging_turn_steps:
  assumes "list_sort_ok (list_sort env)"
  shows "master_step\<^sup>*\<^sup>* s (aging_turn env s)"
  using two_steps [where R = master_step, OF master_step.aging [OF assms] master_step.preemption] by (auto simp: aging_turn_def)

end
