(* ===== verification/Master_Properties.thy ===== *)
theory Master_Properties
  imports Master_Invariant
begin

text \<open>
  The properties of the Master over any reachable state: the invariant, dispatching, the order
  of the ready queue, aging, preemption, and what every answer or disconnection does.
\<close>

subsection \<open>A concrete environment\<close>

text \<open>The witnesses run with a network that takes everything and an insertion sort.\<close>

fun insert_before :: "(ptr \<Rightarrow> ptr \<Rightarrow> bool) \<Rightarrow> ptr \<Rightarrow> ptr list \<Rightarrow> ptr list" where
  "insert_before cmp x [] = [x]"
| "insert_before cmp x (y # ys) = (if cmp y x then y # insert_before cmp x ys else x # y # ys)"

definition insertion_sort :: "(ptr \<Rightarrow> ptr \<Rightarrow> bool) \<Rightarrow> ptr list \<Rightarrow> ptr list" where
  "insertion_sort cmp xs = foldr (insert_before cmp) xs []"

definition demo_master_env :: master_env where
  "demo_master_env = \<lparr>send = (\<lambda>_ bs. int (length bs)), now_ms = 1000, list_sort = insertion_sort\<rparr>"


text \<open>A package offered to a network that takes it is sent whole.\<close>

lemma master_send_whole:
  assumes "0 \<le> k" "send env k (package_bytes p) = int (length (package_bytes p))"
  shows "master_send env p k s = (0, s\<lparr>sent := sent s @ [(k, p)]\<rparr>)"
  using assms by (simp add: master_send_def package_send_def Let_def)

lemma demo_send [simp]: "0 \<le> k \<Longrightarrow> master_send demo_master_env p k s = (0, s\<lparr>sent := sent s @ [(k, p)]\<rparr>)"
  by (rule master_send_whole) (simp_all add: demo_master_env_def)

text \<open>
  The states of the witnesses: worker 7 on socket 5 and a query of priority 3 on socket 6
  that waits for it; then the query dispatched to the worker.
\<close>

definition demo_waiting :: t_master where
  "demo_waiting = register_query demo_master_env (to_bytes ''Q'') 3 6
     (register_worker 7 5 (init_master 100 ''PRIORITY''))"

definition demo_running :: t_master where
  "demo_running = snd (try_dispatch demo_master_env demo_waiting)"

lemma demo_waiting_reachable: "reachable demo_waiting"
  unfolding demo_waiting_def
  by (intro reachable.step [OF reachable.step [OF reachable.init master_step.worker] master_step.query])
    (simp add: heap_simps init_master_def)

lemma demo_running_reachable: "reachable demo_running"
  unfolding demo_running_def by (rule reachable.step [OF demo_waiting_reachable master_step.dispatch])

lemma demo_waiting_sel:
  "ready demo_waiting = [Suc 0]" "running demo_waiting = []" "queries demo_waiting = [Suc 0]"
  "workers demo_waiting = [0]" "idle demo_waiting = [0]" "busy demo_waiting = []"
  "qcb demo_waiting (Suc 0) = new_qcb demo_master_env 0 (to_bytes ''Q'') 3 6"
  "wcb demo_waiting 0 = \<lparr>worker_id = 7, w_socket_fd = 5, current_query_id = -1, w_state = WORKER_STATE_IDLE\<rparr>"
  "scheduling_algorithm demo_waiting = ''PRIORITY''"
  "sent demo_waiting = [(6, package_create_empty QC_OP_MASTER_CONNECTION_OK)]"
  by (simp_all add: demo_waiting_def heap_simps init_master_def wcb_def sint32)
    (simp add: register_query_def generate_query_id_def create_query_def register_worker_def create_worker_def
      Let_def init_master_def on_queries_def on_workers_def enqueue_ready_def)

subsection \<open>The invariant\<close>



subsection \<open>Dispatching\<close>

definition start_fields :: "t_query_control_block \<Rightarrow> wire_field list" where
  "start_fields q = [F_uint32 (word_of_int (query_id q)), F_uint32 (word_of_int (program_counter q)),
     F_string (query_file_path q)]"

lemma send_query_to_worker_alt:
  "send_query_to_worker env w q s =
     (let k = w_socket_fd (wcb s w);
          (ok, p) = add_fields (package_create_empty OP_WORKER_START_QUERY) (start_fields (qcb s q))
      in if k \<le> 0 \<or> \<not> ok then (-1, s)
         else let (r, s1) = master_send env p k s in (if r = 0 then 0 else -1, s1))"
  by (auto simp: send_query_to_worker_def start_fields_def Let_def split: prod.splits)

lemma master_send_failed: "fst (master_send env p k s) \<noteq> 0 \<Longrightarrow> snd (master_send env p k s) = s"
  by (simp add: master_send_def Let_def)

lemma master_send_done: "fst (master_send env p k s) = 0 \<Longrightarrow> snd (master_send env p k s) = s\<lparr>sent := sent s @ [(k, p)]\<rparr>"
  by (simp add: master_send_def Let_def)

lemma start_fields_assign:
  "q \<in> dom (qcb_heap s) \<Longrightarrow> start_fields (qcb (assign q w s) q) = start_fields (qcb s q)"
  by (simp add: start_fields_def heap_simps)

text \<open>The two outcomes of an attempt that finds a query and a worker.\<close>

lemma try_dispatch_cases:
  assumes ok: "master_ok s" and i: "idle s = w # ws" and r: "ready s = q # qs"
    and np: "\<not> list_ex (\<lambda>q. preemption_pending (qcb s q)) (running s)"
    and p: "add_fields (package_create_empty OP_WORKER_START_QUERY) (start_fields (qcb s q)) = (fits, p)"
  shows "try_dispatch env s =
    (if 0 < w_socket_fd (wcb s w) \<and> fits \<and> fst (package_send (send env) p (w_socket_fd (wcb s w))) = 0
     then (0, (assign q w s)\<lparr>sent := sent s @ [(w_socket_fd (wcb s w), p)]\<rparr>)
     else (-1, unassign q w (assign q w s)))"
proof -
  note o = master_okD [OF ok]
  have h: "q \<in> dom (qcb_heap s)" "w \<in> dom (wcb_heap s)"
    using queries_okD(4) [OF o(1)] queries_okD(5) [OF o(1), of q] workers_okD(4) [OF o(3)] workers_okD(5) [OF o(3), of w] r i
    by auto
  have k: "w_socket_fd (wcb (assign q w s) w) = w_socket_fd (wcb s w)" using h by (simp add: heap_simps)
  show ?thesis using np
    by (simp add: try_dispatch_def i r Let_def send_query_to_worker_alt start_fields_assign [OF h(1)] p k split_beta
        master_send_def assign_sel del: add_fields.simps)
qed

lemma unassign_assign:
  assumes ok: "master_ok s" and i: "idle s = w # ws" and r: "ready s = q # qs"
  defines "t \<equiv> unassign q w (assign q w s)"
  shows "mset (ready t) = mset (ready s)" and "running t = running s" and "idle t = ws @ [w]" and "busy t = busy s"
    and "wcb t = wcb s" and "qcb t p = (if p = q then (qcb s q)\<lparr>assigned_worker_id := -1\<rparr> else qcb s p)"
    and "sent t = sent s"
proof -
  note o = master_okD [OF ok]
  note qd = queries_okD [OF o(1)] and wd = workers_okD [OF o(3)]
  have q: "q \<in> set (ready s)" and w: "w \<in> set (idle s)" using i r by simp_all
  have h: "q \<in> dom (qcb_heap s)" "w \<in> dom (wcb_heap s)" using qd(4) qd(5) [OF q] wd(4) wd(5) [OF w] by simp_all
  have m: "mset (insert_query_by_priority f xs x) = add_mset x (mset xs)" for f xs x by (induction xs) auto
  have rm: "remove1 q (running s @ [q]) = running s" "remove1 w (busy s @ [w]) = busy s"
    using qd(7) [OF q] wd(7) [OF w] by (simp_all add: remove1_append)
  show "mset (ready t) = mset (ready s)" unfolding t_def
    by (simp add: unassign_def Let_def enqueue_ready_def heap_simps r m)
  show "running t = running s" "idle t = ws @ [w]" "busy t = busy s"
    unfolding t_def by (simp_all add: unassign_def Let_def heap_simps rm i)
  have "wcb t x = wcb s x" for x
  proof (cases "x = w")
    case True
    then have "wcb t x = (wcb s w)\<lparr>current_query_id := -1, w_state := WORKER_STATE_IDLE\<rparr>"
      unfolding t_def using h by (simp add: unassign_def Let_def heap_simps)
    also have "\<dots> = wcb s w" using wd(9,11) [OF w] by simp
    finally show ?thesis using True by simp
  qed (simp add: t_def unassign_def Let_def heap_simps)
  then show "wcb t = wcb s" by (simp add: fun_eq_iff)
  show "qcb t p = (if p = q then (qcb s q)\<lparr>assigned_worker_id := -1\<rparr> else qcb s p)"
    unfolding t_def using h qd(13,14) [OF q] by (simp add: unassign_def Let_def heap_simps)
  show "sent t = sent s" unfolding t_def by (simp add: unassign_def Let_def enqueue_ready_def heap_simps)
qed

lemma demo_start_fits:
  "fst (add_fields (package_create_empty OP_WORKER_START_QUERY) (start_fields (qcb demo_waiting (Suc 0)))) = True"
  by (simp add: demo_waiting_sel start_fields_def new_qcb_def add_field_defs package_create_empty_def
      buffer_create_dynamic_def buffer_write_uint32_def buffer_write_string_def c_string_def buffer_put_def
      to_bytes_def buffer_has_capacity_def)

text \<open>
  C9: Dispatching in any reachable state. With an idle worker and a ready query and no
  eviction pending, the first ready query, of the best priority under PRIORITY, is offered to
  the first idle worker. If the package that carries its identifier, program counter and path
  can be built and sent, it runs there; otherwise the call fails and everything is back as it
  was, with the query still ready and the worker still idle, at the end of its list. In every
  other state nothing changes.
\<close>

theorem dispatch_spec:
  fixes env
  assumes "reachable s"
    and "add_fields (package_create_empty OP_WORKER_START_QUERY) (start_fields (qcb s (hd (ready s)))) = (fits, p)"
  defines "q \<equiv> hd (ready s)" and "w \<equiv> hd (idle s)" and "k \<equiv> w_socket_fd (wcb s (hd (idle s)))"
    and "t \<equiv> snd (try_dispatch env s)"
  shows "if idle s = [] \<or> ready s = [] \<or> (\<exists>x \<in> set (running s). preemption_pending (qcb s x))
    then try_dispatch env s = (0, s)
    else (scheduling_algorithm s = ''PRIORITY'' \<longrightarrow> (\<forall>x \<in> set (ready s). prio_of s q \<le> prio_of s x)) \<and>
      (if 0 < k \<and> fits \<and> fst (package_send (send env) p k) = 0
       then fst (try_dispatch env s) = 0 \<and> sent t = sent s @ [(k, p)] \<and>
         ready t = tl (ready s) \<and> running t = running s @ [q] \<and> idle t = tl (idle s) \<and> busy t = busy s @ [w] \<and>
         q_state (qcb t q) = QUERY_STATE_RUNNING \<and> assigned_worker_id (qcb t q) = worker_id (wcb s w) \<and>
         current_query_id (wcb t w) = query_id (qcb s q) \<and> w_state (wcb t w) = WORKER_STATE_BUSY \<and>
         (\<forall>x. x \<noteq> q \<longrightarrow> qcb t x = qcb s x) \<and> (\<forall>v. v \<noteq> w \<longrightarrow> wcb t v = wcb s v)
       else fst (try_dispatch env s) = -1 \<and> sent t = sent s \<and>
         mset (ready t) = mset (ready s) \<and> running t = running s \<and> idle t = tl (idle s) @ [w] \<and> busy t = busy s \<and>
         wcb t = wcb s \<and> (\<forall>x. qcb t x = (if x = q then (qcb s q)\<lparr>assigned_worker_id := -1\<rparr> else qcb s x)))"
proof (cases "idle s = [] \<or> ready s = [] \<or> (\<exists>x \<in> set (running s). preemption_pending (qcb s x))")
  case True
  then show ?thesis by (auto simp: try_dispatch_def list_ex_iff)
next
  case False
  note ok = reachable_ok [OF assms(1)]
  note o = master_okD [OF ok]
  have r: "ready s = q # tl (ready s)" and i: "idle s = w # tl (idle s)"
    using False by (simp_all add: q_def w_def)
  have np: "\<not> list_ex (\<lambda>q. preemption_pending (qcb s q)) (running s)" using False by (simp add: list_ex_iff)
  have h: "q \<in> dom (qcb_heap s)" "w \<in> dom (wcb_heap s)"
    using queries_okD(4) [OF o(1)] queries_okD(5) [OF o(1), of q] workers_okD(4) [OF o(3)] workers_okD(5) [OF o(3), of w]
      False by (simp_all add: q_def w_def)
  have "sorted (map (prio_of s) (q # tl (ready s)))" if "scheduling_algorithm s = ''PRIORITY''"
    using o(2) that r by (simp add: ready_sorted_def)
  then have best: "scheduling_algorithm s = ''PRIORITY'' \<longrightarrow> (\<forall>x \<in> set (ready s). prio_of s q \<le> prio_of s x)"
    by (subst r) auto
  have p: "add_fields (package_create_empty OP_WORKER_START_QUERY) (start_fields (qcb s q)) = (fits, p)"
    using assms(2) by (simp add: q_def)
  note c = try_dispatch_cases [OF ok i r np p, of env]
  have k: "w_socket_fd (wcb s w) = k" by (simp add: k_def w_def)
  have sends: "qcb (s'\<lparr>sent := ps\<rparr>) = qcb s'" "wcb (s'\<lparr>sent := ps\<rparr>) = wcb s'" for s' ps
    by (simp_all add: qcb_def wcb_def fun_eq_iff)
  show ?thesis
  proof (cases "0 < k \<and> fits \<and> fst (package_send (send env) p k) = 0")
    case True
    with c False best h show ?thesis unfolding t_def k by (simp add: heap_simps sends)
  next
    case n: False
    then have t: "try_dispatch env s = (-1, unassign q w (assign q w s))" using c unfolding k by simp
    with unassign_assign [OF ok i r] False n best show ?thesis unfolding t_def by auto
  qed
qed

theorem dispatch_spec_witness:
  "ready demo_running = [] \<and> running demo_running = [1] \<and> idle demo_running = [] \<and> busy demo_running = [0] \<and>
   (\<exists>p. sent demo_running = sent demo_waiting @ [(5, p)])"
proof -
  obtain fits p where p: "add_fields (package_create_empty OP_WORKER_START_QUERY)
      (start_fields (qcb demo_waiting (hd (ready demo_waiting)))) = (fits, p)" by fastforce
  then show ?thesis
    using dispatch_spec [OF demo_waiting_reachable p, of demo_master_env] demo_send [of 5 p demo_waiting] demo_start_fits
    by (simp add: demo_waiting_sel demo_running_def master_send_def Let_def del: add_fields.simps)
qed

text \<open>The state after the dispatch of the witness.\<close>

lemma demo_running_sel:
  "ready demo_running = []" "running demo_running = [Suc 0]" "queries demo_running = [Suc 0]"
  "workers demo_running = [0]" "idle demo_running = []" "busy demo_running = [0]"
  "next_query_id (queries_table demo_running) = 0" "next_ptr demo_running = 2"
  "scheduling_algorithm demo_running = ''PRIORITY''"
  "qcb demo_running (Suc 0) = (new_qcb demo_master_env 0 (to_bytes ''Q'') 3 6)
     \<lparr>q_state := QUERY_STATE_RUNNING, assigned_worker_id := 7\<rparr>"
  "wcb demo_running 0 = \<lparr>worker_id = 7, w_socket_fd = 5, current_query_id = 0, w_state = WORKER_STATE_BUSY\<rparr>"
proof -
  obtain p where p: "add_fields (package_create_empty OP_WORKER_START_QUERY)
      (start_fields (qcb demo_waiting (Suc 0))) = (True, p)"
    using demo_start_fits by (metis prod.collapse)
  have n: "\<not> list_ex (\<lambda>q. preemption_pending (qcb demo_waiting q)) (running demo_waiting)" by (simp add: demo_waiting_sel)
  have d: "demo_running = (assign (Suc 0) 0 demo_waiting)\<lparr>sent := sent demo_waiting @ [(5, p)]\<rparr>"
    using try_dispatch_cases [OF reachable_ok [OF demo_waiting_reachable] demo_waiting_sel(5,1) n p, of demo_master_env]
      demo_send [of 5 p demo_waiting]
    by (simp add: demo_running_def demo_waiting_sel master_send_def Let_def)
  have h: "Suc 0 \<in> dom (qcb_heap demo_waiting)" "0 \<in> dom (wcb_heap demo_waiting)"
    by (simp_all add: demo_waiting_def heap_simps init_master_def)
  have s: "qcb (s'\<lparr>sent := ps\<rparr>) = qcb s'" "wcb (s'\<lparr>sent := ps\<rparr>) = wcb s'" for s' ps
    by (simp_all add: qcb_def wcb_def fun_eq_iff)
  have m: "next_query_id (queries_table demo_waiting) = 0" "next_ptr demo_waiting = 2"
    by (simp_all add: demo_waiting_def heap_simps init_master_def)
  show "ready demo_running = []" "running demo_running = [Suc 0]" "queries demo_running = [Suc 0]"
    "workers demo_running = [0]" "idle demo_running = []" "busy demo_running = [0]"
    "next_query_id (queries_table demo_running) = 0" "next_ptr demo_running = 2"
    "scheduling_algorithm demo_running = ''PRIORITY''"
    unfolding d by (simp_all add: heap_simps demo_waiting_sel m)
  show "qcb demo_running (Suc 0) = (new_qcb demo_master_env 0 (to_bytes ''Q'') 3 6)
     \<lparr>q_state := QUERY_STATE_RUNNING, assigned_worker_id := 7\<rparr>"
    "wcb demo_running 0 = \<lparr>worker_id = 7, w_socket_fd = 5, current_query_id = 0, w_state = WORKER_STATE_BUSY\<rparr>"
    unfolding d s using h by (simp_all add: heap_simps demo_waiting_sel new_qcb_def)
qed

subsection \<open>The order of the ready queue\<close>

lemma filter_insert_by_priority:
  "sorted (map f xs) \<Longrightarrow>
   filter (\<lambda>x. k = f x) (insert_query_by_priority f xs p) = filter (\<lambda>x. k = f x) xs @ filter (\<lambda>x. k = f x) [p]"
proof (induction xs)
  case (Cons y ys)
  show ?case
  proof (cases "f p < f y")
    case True
    then have "filter (\<lambda>x. f p = f x) (y # ys) = []" using Cons.prems by (auto simp: filter_empty_conv)
    then show ?thesis using True by (auto simp: filter_empty_conv)
  qed (use Cons in auto)
qed simp

text \<open>
  C21: Queries that arrive one after another under PRIORITY stand in the ready queue as a
  stable sort of the arrivals puts them: by priority, and among equals in order of arrival.
\<close>

theorem ready_queue_stable_sort:
  "foldl (insert_query_by_priority prio) [] arrivals = sort_key prio arrivals"
proof -
  let ?q = "foldl (insert_query_by_priority prio) []"
  have m: "mset (insert_query_by_priority prio xs x) = add_mset x (mset xs)" for xs x by (induction xs) auto
  have sorted: "sorted (map prio (?q xs))" for xs
    by (induction xs rule: rev_induct) (simp_all add: sorted_insert_by_priority)
  have "mset (?q xs) = mset xs" for xs by (induction xs rule: rev_induct) (simp_all add: m)
  moreover have "filter (\<lambda>x. prio k = prio x) (?q xs) = filter (\<lambda>x. prio k = prio x) xs" for k xs
    by (induction xs rule: rev_induct) (simp_all add: filter_insert_by_priority sorted)
  ultimately show ?thesis by (intro properties_for_sort_key [symmetric]) (simp_all add: sorted)
qed

subsection \<open>Aging\<close>

text \<open>The low half of a quotient below 2 to the 31, read as an \<^verbatim>\<open>int\<close>, is the quotient.\<close>

lemma intervals_exact:
  assumes "uint (x :: u64) < 2 ^ 31"
  shows "sint (ucast x :: u32) = uint x"
proof -
  have "uint (ucast x :: u32) = uint x" using assms by (simp add: unsigned_ucast_eq take_bit_int_eq_self)
  then show ?thesis using assms by (simp add: sint32)
qed

lemma age_query_exact:
  assumes st: "q_state q = QUERY_STATE_READY" and t: "ready_timestamp q \<noteq> 0" and p: "0 < priority q"
    and i: "0 < interval" "interval < 2 ^ 31" and now: "ready_timestamp q \<le> now"
    and few: "(uint now - uint (ready_timestamp q)) div interval < 2 ^ 31"
  defines "n \<equiv> (uint now - uint (ready_timestamp q)) div interval"
  shows "priority (fst (age_query interval now q)) = max 0 (priority q - n)"
    and "uint (ready_timestamp (fst (age_query interval now q))) = uint (ready_timestamp q) + n * interval"
    and "q_state (fst (age_query interval now q)) = QUERY_STATE_READY"
proof -
  let ?e = "now - ready_timestamp q"
  have e: "uint ?e = uint now - uint (ready_timestamp q)" using now by (simp add: uint_minus_simple_alt)
  have ui: "uint (word_of_int interval :: u64) = interval" using i by (simp add: uint_word_of_int)
  have div: "uint (?e div word_of_int interval) = n" by (simp add: uint_div e ui n_def)
  then have s: "sint (ucast (?e div word_of_int interval) :: u32) = n"
    using intervals_exact few by (simp add: n_def)
  have n0: "0 \<le> n" unfolding n_def using i now by (simp add: pos_imp_zdiv_nonneg_iff word_le_def)
  have lt: "?e < word_of_int interval \<longleftrightarrow> n = 0"
    using i n0 uint_ge_0 [of ?e] by (auto simp: word_less_def ui n_def e zdiv_eq_0_iff)
  have ni: "n * interval \<le> uint now - uint (ready_timestamp q)"
    unfolding n_def using i by (simp add: minus_mod_eq_div_mult [symmetric])
  have b: "uint now < 2 ^ 64" using uint_lt2p [of now] by simp
  have add: "uint (ready_timestamp q + word_of_int n * word_of_int interval) = uint (ready_timestamp q) + n * interval"
  proof -
    have "(word_of_int n * word_of_int interval :: u64) = word_of_int (n * interval)" by simp
    moreover have "uint (word_of_int (n * interval) :: u64) = n * interval"
    proof -
      have "n * interval < 2 ^ 64" using ni b uint_ge_0 [of "ready_timestamp q"] by linarith
      then show ?thesis using n0 i by (simp add: uint_word_of_int del: of_int_mult)
    qed
    moreover have "uint (ready_timestamp q) + n * interval < 2 ^ 64" using ni b by linarith
    ultimately show ?thesis using n0 i by (simp add: uint_plus_if_size word_size del: of_int_mult)
  qed
  show "priority (fst (age_query interval now q)) = max 0 (priority q - n)"
    "uint (ready_timestamp (fst (age_query interval now q))) = uint (ready_timestamp q) + n * interval"
    "q_state (fst (age_query interval now q)) = QUERY_STATE_READY"
    using st t p n0 by (auto simp: age_query_def Let_def s lt add)
qed

lemma age_query_zero:
  assumes "q_state q = QUERY_STATE_READY" "priority q = 0"
  shows "priority (fst (age_query interval now q)) = 0" "q_state (fst (age_query interval now q)) = QUERY_STATE_READY"
  using assms by (auto simp: age_query_def Let_def)

text \<open>
  C15: Aging is exact, however often the aging thread looks. A query that became ready at a
  known time with a given priority, looked at any number of times, has at the last look its
  initial priority less the number of whole intervals since it became ready, and not less than
  0: it loses no fraction of an interval between two looks, and after as many intervals as its
  priority nothing is ahead of it but queries that also reached 0.
\<close>

theorem aging_exact:
  assumes "q_state q = QUERY_STATE_READY" "ready_timestamp q \<noteq> 0" "0 \<le> priority q"
    and "0 < interval" "interval < 2 ^ 31"
    and "sorted (map uint (ready_timestamp q # looks))" "looks \<noteq> []"
    and "(uint (last looks) - uint (ready_timestamp q)) div interval < 2 ^ 31"
  shows "priority (foldl (\<lambda>q now. fst (age_query interval now q)) q looks) =
    max 0 (priority q - (uint (last looks) - uint (ready_timestamp q)) div interval)"
proof -
  let ?f = "foldl (\<lambda>q now. fst (age_query interval now q)) q"
  let ?t = "uint (ready_timestamp q)"
  let ?n = "\<lambda>now. (uint now - ?t) div interval"
  have inv: "q_state (?f ls) = QUERY_STATE_READY \<and>
      (let now = last (ready_timestamp q # ls) in priority (?f ls) = max 0 (priority q - ?n now) \<and>
        (0 < priority (?f ls) \<longrightarrow> uint (ready_timestamp (?f ls)) = ?t + ?n now * interval))"
    if "sorted (map uint (ready_timestamp q # ls))" "?n (last (ready_timestamp q # ls)) < 2 ^ 31" for ls
    using that
  proof (induction ls rule: rev_induct)
    case Nil
    then show ?case using assms(1,3) by simp
  next
    case (snoc now ls)
    let ?l = "last (ready_timestamp q # ls)"
    have s: "sorted (map uint (ready_timestamp q # ls))" and le: "uint ?l \<le> uint now" "?t \<le> uint ?l"
      using snoc.prems(1) by (auto simp: sorted_append)
    have n: "?n now < 2 ^ 31" using snoc.prems(2) by simp
    have mono: "?n ?l \<le> ?n now" using le assms(4) by (intro zdiv_mono1) auto
    note IH = snoc.IH [OF s, unfolded Let_def]
    let ?q = "?f ls"
    have ih: "q_state ?q = QUERY_STATE_READY" "priority ?q = max 0 (priority q - ?n ?l)"
      "0 < priority ?q \<Longrightarrow> uint (ready_timestamp ?q) = ?t + ?n ?l * interval"
      using IH mono n by auto
    show ?case
    proof (cases "0 < priority ?q")
      case False
      then have z: "priority ?q = 0" using ih(2) by simp
      with age_query_zero [OF ih(1) z] ih(2) mono show ?thesis by (simp add: Let_def)
    next
      case True
      note ts = ih(3) [OF True]
      have nl: "0 \<le> ?n ?l" using le(2) assms(4) by (simp add: pos_imp_zdiv_nonneg_iff)
      have lo: "?n ?l * interval \<le> uint ?l - ?t" using assms(4) by (simp add: minus_mod_eq_div_mult [symmetric])
      have pos: "0 < ?t" using assms(2) uint_ge_0 [of "ready_timestamp q"] by (auto simp: less_le unsigned_eq_0_iff)
      have nz: "ready_timestamp ?q \<noteq> 0"
      proof
        assume "ready_timestamp ?q = 0"
        then have "?t + ?n ?l * interval = 0" using ts by simp
        with pos nl assms(4) show False by (smt (verit) mult_nonneg_nonneg)
      qed
      have nle: "ready_timestamp ?q \<le> now" using ts lo le by (simp add: word_le_def)
      have split: "(uint now - uint (ready_timestamp ?q)) div interval = ?n now - ?n ?l"
      proof -
        have "uint now - uint (ready_timestamp ?q) = (uint now - ?t) + (- ?n ?l) * interval" by (simp add: ts)
        then show ?thesis using assms(4) by (simp only: div_mult_self1)
      qed
      have few: "(uint now - uint (ready_timestamp ?q)) div interval < 2 ^ 31" using split n nl by linarith
      note e = age_query_exact [OF ih(1) nz True assms(4,5) nle few, unfolded split]
      have "(?n now - ?n ?l) * interval = ?n now * interval - ?n ?l * interval" by (simp add: left_diff_distrib)
      then show ?thesis using e ih(2) ts True mono by (auto simp: Let_def)
    qed
  qed
  from inv [of looks] assms(6-8) show ?thesis by (simp add: Let_def)
qed

theorem aging_exact_witness:
  "priority (foldl (\<lambda>q now. fst (age_query 100 now q)) (qcb demo_waiting (Suc 0)) [1050, 1150, 1190, 1210]) = 1"
proof -
  let ?q = "qcb demo_waiting (Suc 0)"
  have q: "q_state ?q = QUERY_STATE_READY" "ready_timestamp ?q = 1000" "priority ?q = 3"
    by (simp_all add: demo_waiting_sel new_qcb_def demo_master_env_def)
  show ?thesis
    using aging_exact [of ?q 100 "[1050, 1150, 1190, 1210]"] by (simp add: q)
qed

subsection \<open>Preemption\<close>

lemma worst_running_max:
  "(worst_running s = None \<longleftrightarrow> running s = []) \<and>
   (\<forall>w. worst_running s = Some w \<longrightarrow> (\<forall>x \<in> set (running s). prio_of s x \<le> prio_of s w))"
proof -
  define step where "step = (\<lambda>p worst. case worst of None \<Rightarrow> Some p
      | Some w \<Rightarrow> if prio_of s w < prio_of s p then Some p else worst)"
  have "(fold step xs a = None \<longleftrightarrow> xs = [] \<and> a = None) \<and>
    (\<forall>w. fold step xs a = Some w \<longrightarrow> (\<forall>x \<in> set xs \<union> set_option a. prio_of s x \<le> prio_of s w))" for xs a
  proof (induction xs arbitrary: a)
    case (Cons x xs)
    show ?case using Cons [of "step x a"] by (auto simp: step_def split: option.splits if_splits)
  qed auto
  from this [of "running s" None] show ?thesis by (simp add: worst_running_def step_def)
qed

definition preempt_package :: "int \<Rightarrow> t_package" where
  "preempt_package i = snd (package_add_uint32 (package_create_empty OP_WORKER_PREEMPT_REQ) (word_of_int i))"

text \<open>
  C20: The check for preemption in a reachable state asks for at most one eviction: the running
  query with the worst priority, and only if the first ready query is strictly better. If an
  eviction of that query is already pending nothing happens; otherwise, with its worker
  connected and the request sent, it becomes pending and the worker receives the request with
  the identifier of the query. No query changes its list.
\<close>

theorem preemption_spec:
  fixes env
  assumes "reachable s"
  shows "if ready s = [] \<or> (\<forall>q \<in> set (running s). prio_of s q \<le> prio_of s (hd (ready s)))
    then check_preemption env s = s
    else \<exists>v w. v \<in> set (running s) \<and> (\<forall>x \<in> set (running s). prio_of s x \<le> prio_of s v) \<and>
      w \<in> set (workers s) \<and> worker_id (wcb s w) = assigned_worker_id (qcb s v) \<and>
      (preemption_pending (qcb s v) \<longrightarrow> check_preemption env s = s) \<and>
      (\<not> preemption_pending (qcb s v) \<and> 0 < w_socket_fd (wcb s w) \<and>
         fst (package_send (send env) (preempt_package (query_id (qcb s v))) (w_socket_fd (wcb s w))) = 0 \<longrightarrow>
       check_preemption env s =
         (upd_qcb v (\<lambda>q. q\<lparr>preemption_pending := True\<rparr>) s)
           \<lparr>sent := sent s @ [(w_socket_fd (wcb s w), preempt_package (query_id (qcb s v)))]\<rparr>)"
proof (cases "ready s = [] \<or> (\<forall>q \<in> set (running s). prio_of s q \<le> prio_of s (hd (ready s)))")
  case True
  then have "check_preemption env s = s"
    by (auto simp: check_preemption_def Let_def split: option.splits dest: worst_running_in)
  with True show ?thesis by simp
next
  case False
  then obtain q where q: "q \<in> set (running s)" "prio_of s (hd (ready s)) < prio_of s q" by fastforce
  note o = master_okD [OF reachable_ok [OF assms]]
  from q(1) worst_running_max [of s] obtain v where v: "worst_running s = Some v" by fastforce
  have vr: "v \<in> set (running s)" by (rule worst_running_in [OF v])
  have mx: "\<forall>x \<in> set (running s). prio_of s x \<le> prio_of s v" using worst_running_max [of s] v by blast
  from o(4) vr obtain b where b: "b \<in> set (busy s)" "worker_id (wcb s b) = assigned_worker_id (qcb s v)"
    unfolding linked_def by blast
  then have "find (match_worker_by_id s (assigned_worker_id (qcb s v))) (workers s) \<noteq> None"
    using workers_okD(6) [OF o(3)] by (auto simp: find_None_iff match_worker_by_id_def)
  then obtain w where w: "find (match_worker_by_id s (assigned_worker_id (qcb s v))) (workers s) = Some w" by blast
  have ww: "w \<in> set (workers s)" "worker_id (wcb s w) = assigned_worker_id (qcb s v)"
    using w by (auto simp: match_worker_by_id_def dest: find_SomeD)
  have "busy s \<noteq> []" "\<not> prio_of s v \<le> prio_of s (hd (ready s))" using b mx q by fastforce+
  then have chk: "check_preemption env s = snd (preempt_query_in_exec env v s)"
    using False v by (simp add: check_preemption_def)
  have same: "preemption_pending (qcb s v) \<Longrightarrow> check_preemption env s = s"
    unfolding chk by (simp add: preempt_query_in_exec_def)
  have "check_preemption env s = (upd_qcb v (\<lambda>q. q\<lparr>preemption_pending := True\<rparr>) s)
      \<lparr>sent := sent s @ [(w_socket_fd (wcb s w), preempt_package (query_id (qcb s v)))]\<rparr>"
    if "\<not> preemption_pending (qcb s v)" "0 < w_socket_fd (wcb s w)"
      "fst (package_send (send env) (preempt_package (query_id (qcb s v))) (w_socket_fd (wcb s w))) = 0"
    unfolding chk using that w
    by (simp add: preempt_query_in_exec_def Let_def master_send_def preempt_package_def [symmetric] upd_qcb_sel)
  with same vr mx ww False show ?thesis by auto
qed

text \<open>The state of the witness: a second query of priority 0 waits while the first, of priority 3, runs.\<close>

definition demo_contended :: t_master where
  "demo_contended = register_query demo_master_env (to_bytes ''R'') 0 8 demo_running"

lemma demo_contended_reachable: "reachable demo_contended"
  unfolding demo_contended_def
  by (rule reachable.step [OF demo_running_reachable master_step.query])
    (simp add: demo_running_sel)


theorem preemption_spec_witness:
  "reachable demo_contended \<and>
   check_preemption demo_master_env demo_contended =
     (upd_qcb 1 (\<lambda>q. q\<lparr>preemption_pending := True\<rparr>) demo_contended)
       \<lparr>sent := sent demo_contended @ [(5, preempt_package 0)]\<rparr>"
proof -
  let ?s = demo_contended
  have s: "ready ?s = [2]" "running ?s = [Suc 0]" "workers ?s = [0]"
    by (simp_all add: demo_contended_def heap_simps demo_running_sel)
  have q: "qcb ?s 2 = new_qcb demo_master_env 1 (to_bytes ''R'') 0 8" "qcb ?s (Suc 0) = qcb demo_running (Suc 0)"
    "wcb ?s = wcb demo_running"
    by (simp_all add: demo_contended_def heap_simps demo_running_sel wcb_def fun_eq_iff)
  have "fst (package_send (send demo_master_env) (preempt_package 0) 5) = 0"
    using demo_send [of 5 "preempt_package 0" ?s] by (simp add: master_send_def Let_def)
  then show ?thesis using preemption_spec [OF demo_contended_reachable, of demo_master_env]
    by (auto simp: s q demo_running_sel new_qcb_def demo_contended_reachable)
qed

subsection \<open>Answers and disconnections of workers\<close>

lemma find_unique:
  assumes "x \<in> set xs" "P x" "\<And>y. y \<in> set xs \<Longrightarrow> P y \<Longrightarrow> y = x"
  shows "find P xs = Some x"
proof (cases "find P xs")
  case None
  with assms(1,2) show ?thesis by (auto simp: find_None_iff)
next
  case (Some y)
  with find_SomeD [OF Some] assms(3) [of y] show ?thesis by blast
qed

lemma word_of_query_inj:
  assumes "queries_ok s" "p \<in> set (queries s)" "q \<in> set (queries s)"
    and "(word_of_int (query_id (qcb s p)) :: u32) = word_of_int (query_id (qcb s q))"
  shows "p = q"
proof (rule query_id_inj [OF assms(1-3)])
  note qd = queries_okD [OF assms(1)]
  have b: "0 \<le> query_id (qcb s x)" "query_id (qcb s x) < 2 ^ 31" if "x \<in> set (queries s)" for x
    using qd(9,10) [OF that] qd(17) by auto
  show "query_id (qcb s p) = query_id (qcb s q)"
    using query_of_word [OF b [OF assms(2)] assms(4)] query_of_word [OF b [OF assms(3)] refl] by simp
qed

lemma running_found:
  assumes "queries_ok s" "q \<in> set (running s)"
  shows "find (\<lambda>p. word_of_int (query_id (qcb s p)) = (word_of_int (query_id (qcb s q)) :: u32)) (running s) = Some q"
    and "find (\<lambda>p. query_id (qcb s p) = sint (word_of_int (query_id (qcb s q)) :: u32)) (running s) = Some q"
proof -
  note qd = queries_okD [OF assms(1)]
  note q = qd(6) [OF assms(2)]
  show "find (\<lambda>p. word_of_int (query_id (qcb s p)) = (word_of_int (query_id (qcb s q)) :: u32)) (running s) = Some q"
    by (rule find_unique [OF assms(2)]) (auto intro: word_of_query_inj [OF assms(1)] qd(6) q)
  have "sint (word_of_int (query_id (qcb s q)) :: u32) = query_id (qcb s q)"
    using query_of_word [OF qd(9) [OF q] _ refl] qd(10) [OF q] qd(17) by simp
  then show "find (\<lambda>p. query_id (qcb s p) = sint (word_of_int (query_id (qcb s q)) :: u32)) (running s) = Some q"
    by (intro find_unique [OF assms(2)]) (auto intro: query_id_inj [OF assms(1)] qd(6) q)
qed

text \<open>
  C19: An eviction answer in a reachable state, from the worker that holds the query. The worker
  is idle and the query no longer runs. A query that was canceled meanwhile is gone; any other
  is ready again with the program counter the worker reported, which is what the next dispatch
  sends, and with its priority unchanged. No other query changes.
\<close>

theorem evict_spec:
  fixes env pc
  assumes "reachable s" "q \<in> set (running s)" "find_worker_by_socket s k = Some w"
    and "current_query_id (wcb s w) = query_id (qcb s q)"
  defines "t \<equiv> evict_section env (word_of_int (query_id (qcb s q))) pc k s"
  shows "w \<in> set (idle t) \<and> w \<notin> set (busy t) \<and> q \<notin> set (running t) \<and>
    (if q_state (qcb s q) = QUERY_STATE_CANCELED then q \<notin> set (queries t) \<and> q \<notin> set (ready t)
     else q \<in> set (ready t) \<and> q_state (qcb t q) = QUERY_STATE_READY \<and>
       word_of_int (program_counter (qcb t q)) = pc \<and> priority (qcb t q) = priority (qcb s q)) \<and>
    (\<forall>x. x \<noteq> q \<longrightarrow> qcb t x = qcb s x \<and> (x \<in> set (ready t) \<longleftrightarrow> x \<in> set (ready s)) \<and>
       (x \<in> set (running t) \<longleftrightarrow> x \<in> set (running s)))"
proof -
  note ok = reachable_ok [OF assms(1)]
  note o = master_okD [OF ok]
  note qd = queries_okD [OF o(1)] and wd = workers_okD [OF o(3)]
  have b: "w \<in> set (busy s)" by (rule worker_of_query [OF ok assms(2-4)])
  have q: "q \<in> dom (qcb_heap s)" using qd(4) qd(6) [OF assms(2)] by simp
  have t: "t = on_workers (\<lambda>t. t\<lparr>busy_list := remove1 w (busy_list t), idle_list := idle_list t @ [w]\<rparr>)
      (upd_wcb w (\<lambda>w. w\<lparr>current_query_id := -1, w_state := WORKER_STATE_IDLE\<rparr>) (evict_query env q pc s))"
    using assms(3) running_found(1) [OF o(1) assms(2)] b by (simp add: t_def evict_section_def Let_def heap_simps)
  have w: "w \<in> set (idle t) \<and> w \<notin> set (busy t)" using wd(3) by (simp add: t heap_simps)
  show ?thesis
  proof (cases "q_state (qcb s q) = QUERY_STATE_CANCELED")
    case True
    have "dropped q s t" using evict_query_canceled [OF o(1) assms(2) True] by (simp add: t)
    with True w qd(1-3) show ?thesis by (auto simp: dropped_def)
  next
    case False
    have r: "requeued q s t" using evict_query_normal [OF ok assms(2) False] by (simp add: t)
    have "priority (qcb t q) = priority (qcb s q) \<and> program_counter (qcb t q) = sint pc"
      using False q by (simp add: t evict_query_def Let_def heap_simps)
    with r False w qd(3) show ?thesis by (auto simp: requeued_def)
  qed
qed

theorem evict_spec_witness:
  "word_of_int (program_counter (qcb (evict_section demo_master_env 0 4 5 demo_running) 1)) = (4 :: u32) \<and>
   1 \<in> set (ready (evict_section demo_master_env 0 4 5 demo_running))"
proof -
  have f: "find_worker_by_socket demo_running 5 = Some 0"
    by (simp add: find_worker_by_socket_def demo_running_sel)
  have q: "query_id (qcb demo_running (Suc 0)) = 0" "q_state (qcb demo_running (Suc 0)) \<noteq> QUERY_STATE_CANCELED"
    by (simp_all add: demo_running_sel new_qcb_def)
  show ?thesis
    using evict_spec [OF demo_running_reachable _ f, of "Suc 0" demo_master_env 4] q
    by (simp add: demo_running_sel)
qed

text \<open>
  C22: The end of a query in a reachable state, reported by the worker that holds it. The call
  succeeds, the worker is idle, the query is in no list and its block is freed; its Query
  Control is told, when the send succeeds, and nothing else is sent. No other query changes.
\<close>

theorem end_query_spec:
  fixes env
  assumes "reachable s" "q \<in> set (running s)" "find_worker_by_socket s k = Some w"
    and "current_query_id (wcb s w) = query_id (qcb s q)"
  defines "res \<equiv> end_query_section env (word_of_int (query_id (qcb s q))) k s"
    and "c \<equiv> q_socket_fd (qcb s q)" and "m \<equiv> end_package (query_id (qcb s q))"
  shows "fst res = 0 \<and> w \<in> set (idle (snd res)) \<and> w \<notin> set (busy (snd res)) \<and>
    q \<notin> set (queries (snd res)) \<union> set (ready (snd res)) \<union> set (running (snd res)) \<and>
    qcb_heap (snd res) q = None \<and>
    sent (snd res) = sent s @ (if 0 < c \<and> fst (package_send (send env) m c) = 0 then [(c, m)] else []) \<and>
    (\<forall>x. x \<noteq> q \<longrightarrow> qcb (snd res) x = qcb s x \<and> (x \<in> set (ready (snd res)) \<longleftrightarrow> x \<in> set (ready s)) \<and>
       (x \<in> set (running (snd res)) \<longleftrightarrow> x \<in> set (running s)))"
proof -
  note ok = reachable_ok [OF assms(1)]
  note o = master_okD [OF ok]
  note qd = queries_okD [OF o(1)] and wd = workers_okD [OF o(3)]
  have b: "w \<in> set (busy s)" by (rule worker_of_query [OF ok assms(2-4)])
  have h: "q \<in> dom (qcb_heap s)" and cl: "\<not> cleaned_up (qcb s q)"
    using qd(4) qd(6) [OF assms(2)] qd(8) by auto
  let ?s3 = "release_worker w (on_queries (\<lambda>t. t\<lparr>running_list := remove1 q (running_list t)\<rparr>)
      (upd_qcb q (\<lambda>q. q\<lparr>q_state := QUERY_STATE_COMPLETED, assigned_worker_id := -1\<rparr>) s))"
  let ?s4 = "if 0 < c then snd (master_send env m c ?s3) else ?s3"
  have q3: "q_socket_fd (qcb ?s3 q) = c" "query_id (qcb ?s3 q) = query_id (qcb s q)"
    using h by (simp_all add: heap_simps c_def)
  have res: "res = (0, cleanup_query_resources q ?s4)"
    using assms(3) running_found(2) [OF o(1) assms(2)] cl
    by (simp add: res_def end_query_section_def Let_def q3 m_def [symmetric])
  have d: "dropped q s (cleanup_query_resources q ?s4)"
    by (rule cleanup_dropped_any [OF qd(3)]) (use cl h in \<open>simp_all add: heap_simps\<close>)
  have "q \<notin> dom (qcb_heap (snd res))" using d by (simp add: res dropped_def)
  moreover have "sent (snd res) = sent s @ (if 0 < c \<and> fst (package_send (send env) m c) = 0 then [(c, m)] else [])"
    by (simp add: res heap_simps master_send_def Let_def)
  moreover have "w \<in> set (idle (snd res)) \<and> w \<notin> set (busy (snd res))"
    using wd(3) by (simp add: res heap_simps)
  ultimately show ?thesis using d qd(1-3) by (auto simp: res dropped_def)
qed

theorem end_query_spec_witness:
  "queries (snd (end_query_section demo_master_env 0 5 demo_running)) = [] \<and>
   sent (snd (end_query_section demo_master_env 0 5 demo_running)) = sent demo_running @ [(6, end_package 0)]"
proof -
  have f: "find_worker_by_socket demo_running 5 = Some 0"
    by (simp add: find_worker_by_socket_def demo_running_sel)
  have q: "query_id (qcb demo_running (Suc 0)) = 0" "q_socket_fd (qcb demo_running (Suc 0)) = 6"
    by (simp_all add: demo_running_sel new_qcb_def)
  have "fst (package_send (send demo_master_env) (end_package 0) 6) = 0"
    using demo_send [of 6 "end_package 0" demo_running] by (simp add: master_send_def Let_def)
  moreover have "master_ok (snd (end_query_section demo_master_env 0 5 demo_running))"
    by (rule end_query_section_ok [OF reachable_ok [OF demo_running_reachable]])
      (simp add: reports_def f demo_running_sel)
  ultimately show ?thesis
    using end_query_spec [OF demo_running_reachable _ f, of "Suc 0" demo_master_env] q
      queries_okD(5,12) [OF master_okD(1), of "snd (end_query_section demo_master_env 0 5 demo_running)"]
    by (simp add: demo_running_sel) (metis list.set_intros(1) list.exhaust set_ConsD empty_iff list.set(1))
qed

text \<open>
  C23: A worker is lost in a reachable state while it holds a query. The worker is in no list of
  connected workers and the multiprogramming level drops by one; the query is in no list and
  its Query Control is told the reason, when the send succeeds. No other query changes.
\<close>

theorem worker_lost_spec:
  fixes env
  assumes "reachable s" "q \<in> set (running s)" "find_worker_by_socket s k = Some w"
    and "current_query_id (wcb s w) = query_id (qcb s q)"
  defines "t \<equiv> snd (handle_worker_disconnection env k s)"
    and "c \<equiv> q_socket_fd (qcb s q)" and "m \<equiv> fin_package (query_id (qcb s q)) worker_lost"
  shows "w \<notin> set (workers t) \<union> set (idle t) \<union> set (busy t) \<and>
    multiprogramming_level t = multiprogramming_level s - 1 \<and>
    q \<notin> set (queries t) \<union> set (ready t) \<union> set (running t) \<and>
    sent t = sent s @ (if fst (package_send (send env) m c) = 0 then [(c, m)] else []) \<and>
    (\<forall>x. x \<noteq> q \<longrightarrow> qcb t x = qcb s x \<and> (x \<in> set (ready t) \<longleftrightarrow> x \<in> set (ready s)) \<and>
       (x \<in> set (running t) \<longleftrightarrow> x \<in> set (running s)))"
proof -
  note ok = reachable_ok [OF assms(1)]
  note o = master_okD [OF ok]
  note qd = queries_okD [OF o(1)] and wd = workers_okD [OF o(3)]
  note qq = qd(6) [OF assms(2)]
  have b: "w \<in> set (busy s)" by (rule worker_of_query [OF ok assms(2-4)])
  have h: "q \<in> dom (qcb_heap s)" and cl: "\<not> cleaned_up (qcb s q)" and pos: "0 \<le> current_query_id (wcb s w)"
    using qd(4) qq qd(8) qd(9) assms(4) by auto
  let ?s = "s\<lparr>running_query_id_for_predicate := current_query_id (wcb s w)\<rparr>"
  have same: "qcb (s\<lparr>running_query_id_for_predicate := i\<rparr>) = qcb s" for i by (simp add: qcb_def fun_eq_iff)
  have find: "find (match_query_by_id ?s (current_query_id (wcb s w))) (queries s) = Some q"
    by (rule find_unique [OF qq]) (auto simp: match_query_by_id_def same assms(4) intro: query_id_inj [OF o(1) _ qq])
  let ?u = "cleanup_query_resources q (finalize_query_with_error env q worker_lost ?s)"
  have t: "t = cleanup_worker_resources w ?u"
    using assms(3) pos find by (simp add: t_def handle_worker_disconnection_def Let_def)
  have d: "dropped q ?s ?u" by (rule cleanup_dropped(1) [OF touched_finalize]) (use h cl in \<open>simp_all add: same\<close>)
  have n: "total_workers_connected (workers_table s) = int (length (workers s))"
    "multiprogramming_level s = int (length (workers s))" using o(3) by (simp_all add: workers_ok_def)
  have "workers s \<noteq> []" using wd(6) [OF b] by auto
  then have "0 < total_workers_connected (workers_table ?u)" by (simp add: heap_simps n)
  note sel = cleanup_worker_sel(1-11,13) [OF this, of w]
  have ws: "w \<notin> set (workers t) \<union> set (idle t) \<union> set (busy t)"
    using wd(1-3) by (simp add: t sel heap_simps)
  have ml: "multiprogramming_level t = multiprogramming_level s - 1" by (simp add: t sel heap_simps n)
  have se: "sent t = sent s @ (if fst (package_send (send env) m c) = 0 then [(c, m)] else [])"
  proof -
    have "sent t = sent ?u" unfolding t by (rule sel)
    then show ?thesis
      by (simp add: heap_simps finalize_query_with_error_def Let_def same master_send_def m_def c_def)
  qed
  have "queries_table t = queries_table ?u" "qcb t = qcb ?u" by (simp_all add: t sel)
  with ws ml se d qd(1-3) show ?thesis by (auto simp: dropped_def same)
qed

theorem worker_lost_spec_witness:
  "0 \<notin> set (workers (snd (handle_worker_disconnection demo_master_env 5 demo_running))) \<and>
   1 \<notin> set (queries (snd (handle_worker_disconnection demo_master_env 5 demo_running))) \<and>
   sent (snd (handle_worker_disconnection demo_master_env 5 demo_running)) =
     sent demo_running @ [(6, fin_package 0 worker_lost)]"
proof -
  have f: "find_worker_by_socket demo_running 5 = Some 0"
    by (simp add: find_worker_by_socket_def demo_running_sel)
  have "fst (package_send (send demo_master_env) (fin_package 0 worker_lost) 6) = 0"
    using demo_send [of 6 "fin_package 0 worker_lost" demo_running] by (simp add: master_send_def Let_def)
  then show ?thesis
    using worker_lost_spec [OF demo_running_reachable _ f, of "Suc 0" demo_master_env]
    by (simp add: demo_running_sel new_qcb_def)
qed

subsection \<open>What goes wrong\<close>



text \<open>
  A second disconnection on the socket of a running query that is already canceled (a
  message that announces it and then the closed connection, or a later client with the same
  descriptor) frees the query before its worker has answered. The worker then stays in the busy
  list whatever it answers: an eviction answer changes nothing, and the report of the end leaves
  it there.
\<close>

theorem second_disconnection_strands_worker:
  fixes env env' pc
  assumes "reachable s" "find_query_by_socket s k = Some q" "q \<in> set (running s)"
    and "q_state (qcb s q) = QUERY_STATE_CANCELED"
    and "find_worker_by_socket s j = Some w" "current_query_id (wcb s w) = query_id (qcb s q)"
  defines "qid \<equiv> word_of_int (query_id (qcb s q))"
  defines "t \<equiv> snd (handle_query_control_disconnection env k s)"
  shows "q \<notin> set (queries t) \<and> w \<in> set (busy t) \<and> w \<notin> set (idle t) \<and>
    evict_section env' qid pc j t = t \<and>
    w \<in> set (busy (snd (end_query_section env' qid j t))) \<and> w \<notin> set (idle (snd (end_query_section env' qid j t)))"
proof -
  note ok = reachable_ok [OF assms(1)]
  note o = master_okD [OF ok]
  note qd = queries_okD [OF o(1)] and wd = workers_okD [OF o(3)]
  note qq = qd(6) [OF assms(3)]
  have b: "w \<in> set (busy s)" by (rule worker_of_query [OF ok assms(3,5,6)])
  have i: "w \<notin> set (idle s)" using wd(7) [of w] b by blast
  have cl: "\<not> cleaned_up (qcb s q)" by (rule qd(8) [OF qq])
  have t: "t = cleanup_query_resources q s"
    using assms(2,4) cl by (simp add: t_def handle_query_control_disconnection_def)
  note d = cleanup_dropped [OF touched_refl cl]
  have wt: "workers_table t = workers_table s" "wcb t = wcb s" by (simp_all add: t heap_simps)
  then have f: "find_worker_by_socket t j = Some w" using assms(5) by (simp add: find_worker_by_socket_def)
  have run: "x \<in> set (running s) \<and> x \<noteq> q \<and> qcb t x = qcb s x" if "x \<in> set (running t)" for x
    using that d(1) qd(3) by (auto simp: t dropped_def)
  have n1: "find (\<lambda>p. word_of_int (query_id (qcb t p)) = qid) (running t) = None"
    using run word_of_query_inj [OF o(1) qd(6) qq] by (auto simp: find_None_iff qid_def)
  have n2: "find (\<lambda>p. query_id (qcb t p) = sint qid) (running t) = None"
  proof -
    have "sint qid = query_id (qcb s q)"
      unfolding qid_def using query_of_word [OF qd(9) [OF qq] _ refl] qd(10) [OF qq] qd(17) by simp
    then show ?thesis using run query_id_inj [OF o(1) qd(6) qq] by (auto simp: find_None_iff)
  qed
  have "evict_section env' qid pc j t = t" using f n1 by (simp add: evict_section_def)
  moreover have "workers_table (snd (end_query_section env' qid j t)) = workers_table s"
    using f n2 by (simp add: end_query_section_def upd_wcb_sel wt)
  moreover have "q \<notin> set (queries t)" using d(1) qd(1) by (simp add: t dropped_def)
  ultimately show ?thesis using b i by (simp add: wt)
qed

text \<open>The query of the running state of the witnesses, canceled while its worker is asked to stop.\<close>

definition demo_canceled :: t_master where
  "demo_canceled = snd (handle_query_control_disconnection demo_master_env 6 demo_running)"

lemma demo_canceled_reachable: "reachable demo_canceled"
  unfolding demo_canceled_def by (rule reachable.step [OF demo_running_reachable master_step.qc_lost])

lemma demo_canceled_sel:
  "queries demo_canceled = [Suc 0]" "running demo_canceled = [Suc 0]" "workers demo_canceled = [0]"
  "wcb demo_canceled = wcb demo_running"
  "qcb demo_canceled (Suc 0) = (qcb demo_running (Suc 0))\<lparr>q_state := QUERY_STATE_CANCELED, preemption_pending := True\<rparr>"
proof -
  let ?c = "upd_qcb (Suc 0) (\<lambda>q. q\<lparr>q_state := QUERY_STATE_CANCELED\<rparr>) demo_running"
  have h: "Suc 0 \<in> dom (qcb_heap demo_running)"
    using queries_okD(4) [OF master_okD(1) [OF reachable_ok [OF demo_running_reachable]]] demo_running_sel(3) by (metis list.set_intros(1))
  have c: "qcb ?c (Suc 0) = (qcb demo_running (Suc 0))\<lparr>q_state := QUERY_STATE_CANCELED\<rparr>" using h by (rule qcb_upd_qcb)
  have "demo_canceled = snd (preempt_query_in_exec demo_master_env (Suc 0) ?c)"
    by (simp add: demo_canceled_def handle_query_control_disconnection_def find_query_by_socket_def demo_running_sel new_qcb_def)
  also have "\<dots> = (upd_qcb (Suc 0) (\<lambda>q. q\<lparr>preemption_pending := True\<rparr>) ?c)\<lparr>sent := sent demo_running @ [(5, preempt_package 0)]\<rparr>"
    by (simp add: preempt_query_in_exec_def c demo_running_sel new_qcb_def match_worker_by_id_def upd_qcb_sel
        Let_def preempt_package_def)
  finally have e: "demo_canceled = \<dots>" .
  show "queries demo_canceled = [Suc 0]" "running demo_canceled = [Suc 0]" "workers demo_canceled = [0]"
    unfolding e by (simp_all add: heap_simps demo_running_sel)
  have s: "qcb (s'\<lparr>sent := ps\<rparr>) = qcb s'" "wcb (s'\<lparr>sent := ps\<rparr>) = wcb s'" for s' ps
    by (simp_all add: qcb_def wcb_def fun_eq_iff)
  show "wcb demo_canceled = wcb demo_running"
    "qcb demo_canceled (Suc 0) = (qcb demo_running (Suc 0))\<lparr>q_state := QUERY_STATE_CANCELED, preemption_pending := True\<rparr>"
    unfolding e s using h by (simp_all add: heap_simps)
qed

theorem second_disconnection_strands_worker_witness:
  "evict_section demo_master_env 0 4 5 (snd (handle_query_control_disconnection demo_master_env 6 demo_canceled)) =
     snd (handle_query_control_disconnection demo_master_env 6 demo_canceled) \<and>
   0 \<in> set (busy (snd (handle_query_control_disconnection demo_master_env 6 demo_canceled)))"
proof -
  have "find_query_by_socket demo_canceled 6 = Some (Suc 0)" "find_worker_by_socket demo_canceled 5 = Some 0"
    by (simp_all add: find_query_by_socket_def find_worker_by_socket_def demo_canceled_sel demo_running_sel new_qcb_def)
  with second_disconnection_strands_worker [OF demo_canceled_reachable, of 6 "Suc 0" 5 0 demo_master_env demo_master_env 4]
  show ?thesis by (simp add: demo_canceled_sel demo_running_sel new_qcb_def)
qed

text \<open>
  The course of events: a query of priority 0 arrives while one of priority 3 runs on worker 7, so
  the eviction of the second is asked for; worker 8 connects meanwhile, and then worker 7 answers.
\<close>

definition demo_evicting :: t_master where
  "demo_evicting = check_preemption demo_master_env demo_contended"

definition demo_second_worker :: t_master where
  "demo_second_worker = snd (try_dispatch demo_master_env (register_worker 8 9 demo_evicting))"

definition demo_evicted :: t_master where
  "demo_evicted = evict_section demo_master_env 0 4 5 demo_second_worker"

definition demo_waiting_again :: t_master where
  "demo_waiting_again = snd (try_dispatch demo_master_env demo_evicted)"

lemma sent_deref: "qcb (s\<lparr>sent := ps\<rparr>) = qcb s" "wcb (s\<lparr>sent := ps\<rparr>) = wcb s"
  by (simp_all add: qcb_def wcb_def fun_eq_iff)

lemma demo_contended_sel:
  "ready demo_contended = [2]" "running demo_contended = [Suc 0]" "workers demo_contended = [0]"
  "idle demo_contended = []" "busy demo_contended = [0]" "next_ptr demo_contended = 3"
  "qcb demo_contended 2 = new_qcb demo_master_env 1 (to_bytes ''R'') 0 8"
  "qcb demo_contended (Suc 0) = qcb demo_running (Suc 0)" "wcb demo_contended = wcb demo_running"
  "scheduling_algorithm demo_contended = ''PRIORITY''"
  by (simp_all add: demo_contended_def heap_simps demo_running_sel wcb_def fun_eq_iff)

lemma demo_evicting_alt:
  "demo_evicting = (upd_qcb (Suc 0) (\<lambda>q. q\<lparr>preemption_pending := True\<rparr>) demo_contended)
     \<lparr>sent := sent demo_contended @ [(5, preempt_package 0)]\<rparr>"
  by (simp add: demo_evicting_def check_preemption_def worst_running_def preempt_query_in_exec_def demo_contended_sel
      demo_running_sel new_qcb_def match_worker_by_id_def Let_def preempt_package_def upd_qcb_sel)

lemma demo_evicting_reachable: "reachable demo_evicting"
  unfolding demo_evicting_def by (rule reachable.step [OF demo_contended_reachable master_step.preemption])

lemma demo_evicting_sel:
  "ready demo_evicting = [2]" "running demo_evicting = [Suc 0]" "workers demo_evicting = [0]"
  "idle demo_evicting = []" "busy demo_evicting = [0]" "next_ptr demo_evicting = 3"
  "qcb demo_evicting 2 = new_qcb demo_master_env 1 (to_bytes ''R'') 0 8"
  "qcb demo_evicting (Suc 0) = (qcb demo_running (Suc 0))\<lparr>preemption_pending := True\<rparr>"
  "wcb demo_evicting = wcb demo_running" "scheduling_algorithm demo_evicting = ''PRIORITY''"
proof -
  have "set (queries demo_contended) = dom (qcb_heap demo_contended)"
    by (rule queries_okD(4) [OF master_okD(1) [OF reachable_ok [OF demo_contended_reachable]]])
  moreover have "Suc 0 \<in> set (queries demo_contended)"
    by (rule queries_okD(6) [OF master_okD(1) [OF reachable_ok [OF demo_contended_reachable]]])
      (simp add: demo_contended_sel)
  ultimately have h: "Suc 0 \<in> dom (qcb_heap demo_contended)" by simp
  show "ready demo_evicting = [2]" "running demo_evicting = [Suc 0]" "workers demo_evicting = [0]"
    "idle demo_evicting = []" "busy demo_evicting = [0]" "next_ptr demo_evicting = 3"
    "scheduling_algorithm demo_evicting = ''PRIORITY''"
    unfolding demo_evicting_alt by (simp_all add: heap_simps demo_contended_sel)
  show "qcb demo_evicting 2 = new_qcb demo_master_env 1 (to_bytes ''R'') 0 8"
    "qcb demo_evicting (Suc 0) = (qcb demo_running (Suc 0))\<lparr>preemption_pending := True\<rparr>"
    "wcb demo_evicting = wcb demo_running"
    unfolding demo_evicting_alt sent_deref using h by (simp_all add: heap_simps demo_contended_sel)
qed

lemma demo_second_worker_alt: "demo_second_worker = register_worker 8 9 demo_evicting"
  by (simp add: demo_second_worker_def try_dispatch_def heap_simps demo_evicting_sel)

lemma demo_second_worker_reachable: "reachable demo_second_worker"
  unfolding demo_second_worker_alt by (rule reachable.step [OF demo_evicting_reachable master_step.worker])

lemma demo_evicted_reachable: "reachable demo_evicted"
  unfolding demo_evicted_def
  by (rule reachable.step [OF demo_second_worker_reachable master_step.evicted])
    (simp add: reports_def find_worker_by_socket_def demo_second_worker_alt heap_simps demo_evicting_sel demo_running_sel)

lemma demo_evicted_sel:
  "ready demo_evicted = [2, Suc 0]" "running demo_evicted = []" "idle demo_evicted = [3, 0]" "busy demo_evicted = []"
  "qcb demo_evicted 2 = new_qcb demo_master_env 1 (to_bytes ''R'') 0 8"
  "wcb demo_evicted 3 = \<lparr>worker_id = 8, w_socket_fd = 9, current_query_id = -1, w_state = WORKER_STATE_IDLE\<rparr>"
proof -
  define s where "s = register_worker 8 9 demo_evicting"
  have f: "find_worker_by_socket s 5 = Some 0"
    by (simp add: s_def find_worker_by_socket_def heap_simps demo_evicting_sel demo_running_sel)
  have n: "query_id (qcb s (Suc 0)) = 0" "q_state (qcb s (Suc 0)) \<noteq> QUERY_STATE_CANCELED" "priority (qcb s (Suc 0)) = 3" "priority (qcb s 2) = 0"
    "ready s = [2]" "running s = [Suc 0]" "idle s = [3]" "busy s = [0]"
    "qcb s 2 = new_qcb demo_master_env 1 (to_bytes ''R'') 0 8"
    "wcb s 3 = \<lparr>worker_id = 8, w_socket_fd = 9, current_query_id = -1, w_state = WORKER_STATE_IDLE\<rparr>"
    by (simp_all add: s_def heap_simps demo_evicting_sel demo_running_sel new_qcb_def sint32)
  have h: "Suc 0 \<in> dom (qcb_heap s)"
  proof -
    note ok = queries_okD [OF master_okD(1) [OF reachable_ok [OF demo_second_worker_reachable]],
        unfolded demo_second_worker_alt, folded s_def]
    have "Suc 0 \<in> set (queries s)" by (rule ok(6)) (simp add: n)
    then show ?thesis using ok(4) by simp
  qed
  have e: "demo_evicted = on_workers (\<lambda>t. t\<lparr>busy_list := remove1 0 (busy_list t), idle_list := idle_list t @ [0]\<rparr>)
      (upd_wcb 0 (\<lambda>w. w\<lparr>current_query_id := -1, w_state := WORKER_STATE_IDLE\<rparr>) (evict_query demo_master_env (Suc 0) 4 s))"
    by (simp add: demo_evicted_def demo_second_worker_alt s_def [symmetric] evict_section_def f n Let_def
        upd_wcb_sel evict_query_workers)
  show "ready demo_evicted = [2, Suc 0]" "running demo_evicted = []" "idle demo_evicted = [3, 0]" "busy demo_evicted = []"
    unfolding e using h by (simp_all add: n evict_query_def Let_def heap_simps new_qcb_def)
  show "qcb demo_evicted 2 = new_qcb demo_master_env 1 (to_bytes ''R'') 0 8"
    unfolding e by (simp add: heap_simps evict_query_def Let_def n)
  show "wcb demo_evicted 3 = \<lparr>worker_id = 8, w_socket_fd = 9, current_query_id = -1, w_state = WORKER_STATE_IDLE\<rparr>"
    unfolding e by (simp add: heap_simps n)
qed

text \<open>
  A ready query can be left waiting beside an idle worker. A worker that connects while an
  eviction is pending gets nothing, and the answer of the evicted worker triggers the dispatch of
  one query only: in the reachable state that follows one worker is idle, one query is ready and no
  eviction is pending, and the Master does nothing until the next message arrives.
\<close>

theorem ready_query_left_beside_idle_worker:
  "reachable demo_waiting_again \<and> idle demo_waiting_again = [0] \<and> ready demo_waiting_again = [1] \<and>
   running demo_waiting_again = [2] \<and> \<not> preemption_pending (qcb demo_waiting_again 2)"
proof -
  have fits: "fst (add_fields (package_create_empty OP_WORKER_START_QUERY) (start_fields (qcb demo_evicted 2)))"
    by (simp add: demo_evicted_sel start_fields_def new_qcb_def add_field_defs package_create_empty_def
        buffer_create_dynamic_def buffer_write_uint32_def buffer_write_string_def c_string_def buffer_put_def
        to_bytes_def buffer_has_capacity_def)
  obtain p where p: "add_fields (package_create_empty OP_WORKER_START_QUERY) (start_fields (qcb demo_evicted 2)) = (True, p)"
    using fits by (metis prod.collapse)
  have np: "\<not> list_ex (\<lambda>q. preemption_pending (qcb demo_evicted q)) (running demo_evicted)"
    by (simp add: demo_evicted_sel)
  have d: "demo_waiting_again = (assign 2 3 demo_evicted)\<lparr>sent := sent demo_evicted @ [(9, p)]\<rparr>"
    using try_dispatch_cases [OF reachable_ok [OF demo_evicted_reachable] demo_evicted_sel(3,1) np p, of demo_master_env]
      demo_send [of 9 p demo_evicted]
    by (simp add: demo_waiting_again_def demo_evicted_sel master_send_def Let_def)
  have "2 \<in> set (queries demo_evicted)"
    by (rule queries_okD(5) [OF master_okD(1) [OF reachable_ok [OF demo_evicted_reachable]]]) (simp add: demo_evicted_sel)
  then have h: "2 \<in> dom (qcb_heap demo_evicted)"
    using queries_okD(4) [OF master_okD(1) [OF reachable_ok [OF demo_evicted_reachable]]] by simp
  have "reachable demo_waiting_again"
    unfolding demo_waiting_again_def by (rule reachable.step [OF demo_evicted_reachable master_step.dispatch])
  moreover have "idle demo_waiting_again = [0]" "ready demo_waiting_again = [1]" "running demo_waiting_again = [2]"
    unfolding d by (simp_all add: heap_simps demo_evicted_sel)
  moreover have "\<not> preemption_pending (qcb demo_waiting_again 2)"
    unfolding d sent_deref using h by (simp add: heap_simps)
  ultimately show ?thesis by blast
qed

subsection \<open>Malformed packages\<close>

text \<open>The fields a handler reads without testing that they are there.\<close>

definition expected_fields :: "u8 \<Rightarrow> field_kind list" where
  "expected_fields op =
     (if op = OP_QUERY_FILE_PATH then [K_string, K_uint8]
      else if op = OP_WORKER_HANDSHAKE_REQ then [K_uint32]
      else if op = OP_WORKER_READ_MESSAGE_REQ then [K_uint32, K_uint32, K_data, K_string, K_string]
      else if op = OP_WORKER_END_QUERY then [K_uint32, K_uint32]
      else [])"

text \<open>
  On a package as received, with its read position at the start, the behaviour of
  \<^verbatim>\<open>handle_client\<close> is defined in every state when the package has the fields its code calls
  for. The Master does not test this: a request without its path or its priority, a handshake
  without the identifier and a report of the end of a query without its two identifiers lead to
  undefined behaviour whatever the state is.
\<close>

theorem handle_client_defined:
  fixes env k fl s
  assumes "\<And>p. pkg = Some p \<Longrightarrow> offset (buffer p) = 0"
  defines "complete \<equiv> (\<lambda>p. fst (read_fields p (expected_fields (operation_code p))) \<noteq> None)"
  shows "((\<forall>p. pkg = Some p \<longrightarrow> complete p) \<longrightarrow> handle_client env k pkg fl s \<noteq> None) \<and>
    (\<forall>p. pkg = Some p \<and> operation_code p \<in> {OP_QUERY_FILE_PATH, OP_WORKER_HANDSHAKE_REQ, OP_WORKER_END_QUERY} \<and>
       \<not> complete p \<longrightarrow> handle_client env k pkg fl s = None)"
proof (cases pkg)
  case None
  then show ?thesis by (simp add: handle_client_def)
next
  case (Some p)
  have z: "buffer_reset_offset (buffer p) = buffer p"
    using assms(1) [OF Some] by (simp add: buffer_reset_offset_def)
  note ops = OP_QUERY_HANDSHAKE_def OP_QUERY_FILE_PATH_def QC_OP_DISCONNECTION_def OP_WORKER_HANDSHAKE_REQ_def
    OP_WORKER_READ_MESSAGE_REQ_def OP_WORKER_END_QUERY_def
  have path: "manage_query_file_path env p k s = None \<longleftrightarrow> fst (read_fields p [K_string, K_uint8]) = None"
    by (auto simp: manage_query_file_path_def split: prod.splits option.splits)
  have hand: "manage_worker_handshake env (buffer p) k s = None \<longleftrightarrow> fst (read_fields p [K_uint32]) = None"
    by (auto simp: manage_worker_handshake_def package_create_def Let_def package_read_uint32_def on_buffer_def
        split: prod.splits option.splits)
  have fin: "manage_worker_end_query env (buffer p) k s = None \<longleftrightarrow> fst (read_fields p [K_uint32, K_uint32]) = None"
    by (auto simp: manage_worker_end_query_def z Let_def package_read_uint32_def on_buffer_def
        split: prod.splits option.splits)
  have read: "fst (read_fields p [K_uint32, K_uint32, K_data, K_string, K_string]) \<noteq> None \<Longrightarrow>
      manage_read_message_from_worker env (buffer p) k s \<noteq> None"
    by (auto simp: manage_read_message_from_worker_def z Let_def read_field_defs
        split: prod.splits option.splits)
  let ?op = "operation_code p"
  consider "?op = OP_QUERY_FILE_PATH" | "?op = OP_WORKER_HANDSHAKE_REQ" | "?op = OP_WORKER_READ_MESSAGE_REQ"
    | "?op = OP_WORKER_END_QUERY"
    | "?op \<notin> {OP_QUERY_FILE_PATH, OP_WORKER_HANDSHAKE_REQ, OP_WORKER_READ_MESSAGE_REQ, OP_WORKER_END_QUERY}"
    by blast
  then show ?thesis
  proof cases
    case 1
    then show ?thesis using path Some by (simp add: complete_def expected_fields_def handle_client_def ops
          del: read_fields.simps not_None_eq not_Some_eq)
  next
    case 2
    then show ?thesis using hand Some by (simp add: complete_def expected_fields_def handle_client_def ops
          del: read_fields.simps not_None_eq not_Some_eq)
  next
    case 3
    then show ?thesis using read Some by (simp add: complete_def expected_fields_def handle_client_def ops
          del: read_fields.simps not_None_eq not_Some_eq)
  next
    case 4
    then show ?thesis using fin Some by (simp add: complete_def expected_fields_def handle_client_def ops
          del: read_fields.simps not_None_eq not_Some_eq)
  next
    case 5
    then show ?thesis using Some by (simp add: handle_client_def Let_def split_beta del: not_None_eq not_Some_eq)
  qed
qed

theorem handle_client_defined_witness:
  "\<forall>fl. handle_client demo_master_env 5 (Some \<lparr>operation_code = OP_WORKER_END_QUERY,
     buffer = \<lparr>buf_size = 1, stream = [0], offset = 0, is_dynamic = False\<rparr>\<rparr>) fl demo_running = None \<and>
   handle_client demo_master_env 5 (Some \<lparr>operation_code = OP_WORKER_END_QUERY,
     buffer = \<lparr>buf_size = 8, stream = replicate 8 0, offset = 0, is_dynamic = False\<rparr>\<rparr>) fl demo_running \<noteq> None"
proof (rule allI)
  fix fl
  let ?short = "\<lparr>operation_code = OP_WORKER_END_QUERY, buffer = \<lparr>buf_size = 1, stream = [0], offset = 0, is_dynamic = False\<rparr>\<rparr>"
  let ?long = "\<lparr>operation_code = OP_WORKER_END_QUERY, buffer = \<lparr>buf_size = 8, stream = replicate 8 0, offset = 0, is_dynamic = False\<rparr>\<rparr>"
  have e: "expected_fields OP_WORKER_END_QUERY = [K_uint32, K_uint32]"
    by (simp add: expected_fields_def master_op_defs)
  have "fst (read_fields ?short [K_uint32, K_uint32]) = None" "fst (read_fields ?long [K_uint32, K_uint32]) \<noteq> None"
    by (simp_all add: package_read_uint32_def on_buffer_def buffer_read_uint32_def buffer_check_capacity_def buffer_get_def)
  then have "handle_client demo_master_env 5 (Some ?short) fl demo_running = None"
    "handle_client demo_master_env 5 (Some ?long) fl demo_running \<noteq> None"
    using handle_client_defined [of "Some ?short" demo_master_env 5 fl demo_running]
      handle_client_defined [of "Some ?long" demo_master_env 5 fl demo_running]
    by (simp_all add: e del: read_fields.simps not_None_eq not_Some_eq)
  then show "handle_client demo_master_env 5 (Some ?short) fl demo_running = None \<and>
    handle_client demo_master_env 5 (Some ?long) fl demo_running \<noteq> None" by blast
qed

end
