(* ===== verification/Master_Locks.thy ===== *)
theory Master_Locks
  imports Master_Properties
begin

text \<open>
  The order in which the threads of the Master take the two table mutexes. The critical
  sections of the other theories are atomic because they run with their mutexes held; what a
  thread does to the mutexes is here a program of acquisitions and releases, read off the
  handlers, and a step relation interleaves the programs of any number of threads. A mutex is
  not recursive, and \<^verbatim>\<open>pthread_mutex_lock\<close> waits while another thread holds it.
\<close>

subsection \<open>Mutexes and programs\<close>

datatype mutex = worker_table_mutex | query_table_mutex

text \<open>The order the sources announce: first the workers, then the queries.\<close>

instantiation mutex :: linorder
begin

definition less_eq_mutex :: "mutex \<Rightarrow> mutex \<Rightarrow> bool" where
  "less_eq_mutex a b \<longleftrightarrow> a = worker_table_mutex \<or> b = query_table_mutex"

definition less_mutex :: "mutex \<Rightarrow> mutex \<Rightarrow> bool" where
  "less_mutex a b \<longleftrightarrow> a = worker_table_mutex \<and> b = query_table_mutex"

instance
  by standard (auto simp: less_eq_mutex_def less_mutex_def intro: mutex.exhaust)

end

datatype lock_op = Acquire mutex | Release mutex

type_synonym lock_program = "lock_op list"

definition both_locks :: lock_program where
  "both_locks = [Acquire worker_table_mutex, Acquire query_table_mutex,
                 Release query_table_mutex, Release worker_table_mutex]"

definition query_lock :: lock_program where
  "query_lock = [Acquire query_table_mutex, Release query_table_mutex]"

definition worker_lock :: lock_program where
  "worker_lock = [Acquire worker_table_mutex, Release worker_table_mutex]"

text \<open>
  The programs of the handlers: \<^verbatim>\<open>create_query\<close> then \<^verbatim>\<open>try_dispatch\<close>; \<^verbatim>\<open>create_worker\<close> then
  \<^verbatim>\<open>try_dispatch\<close>; a section with both mutexes then \<^verbatim>\<open>try_dispatch\<close> for the three answers of
  a worker; the aging thread; and the two disconnections, which depend on the state.
\<close>

definition locks_query_file_path :: lock_program where
  "locks_query_file_path = query_lock @ both_locks"

definition locks_worker_handshake :: lock_program where
  "locks_worker_handshake = worker_lock @ both_locks"

definition locks_worker_answer :: lock_program where
  "locks_worker_answer = both_locks @ both_locks"

definition locks_aging_turn :: lock_program where
  "locks_aging_turn = query_lock @ both_locks"

definition locks_worker_disconnection :: "t_master \<Rightarrow> int \<Rightarrow> lock_program" where
  "locks_worker_disconnection s socket =
     (case find_worker_by_socket s socket of None \<Rightarrow> worker_lock
      | Some w \<Rightarrow> if 0 \<le> current_query_id (wcb s w) then both_locks else worker_lock)"

definition locks_query_control_disconnection :: "t_master \<Rightarrow> int \<Rightarrow> lock_program" where
  "locks_query_control_disconnection s socket =
     (case find_query_by_socket s socket of None \<Rightarrow> query_lock
      | Some q \<Rightarrow>
          if \<not> cleaned_up (qcb s q) \<and> q_state (qcb s q) = QUERY_STATE_RUNNING
          then [Acquire query_table_mutex, Acquire worker_table_mutex,
                Release worker_table_mutex, Release query_table_mutex]
          else query_lock)"

subsection \<open>Interleaving\<close>

text \<open>Who holds each mutex, and what each thread still has to do.\<close>

record lock_state =
  holder :: "mutex \<Rightarrow> nat option"
  threads :: "lock_program list"

inductive lock_step :: "lock_state \<Rightarrow> lock_state \<Rightarrow> bool" where
  acquire: "i < length (threads s) \<Longrightarrow> threads s ! i = Acquire m # prog \<Longrightarrow> holder s m = None \<Longrightarrow>
    lock_step s \<lparr>holder = (holder s)(m := Some i), threads = (threads s)[i := prog]\<rparr>"
| release: "i < length (threads s) \<Longrightarrow> threads s ! i = Release m # prog \<Longrightarrow> holder s m = Some i \<Longrightarrow>
    lock_step s \<lparr>holder = (holder s)(m := None), threads = (threads s)[i := prog]\<rparr>"

inductive_cases lock_stepE: "lock_step s t"

definition start :: "lock_program list \<Rightarrow> lock_state" where
  "start progs = \<lparr>holder = (\<lambda>_. None), threads = progs\<rparr>"

definition finished :: "lock_state \<Rightarrow> bool" where
  "finished s \<longleftrightarrow> (\<forall>prog \<in> set (threads s). prog = [])"

text \<open>
  A program in order, from a set of mutexes already held: it acquires only above what it holds,
  releases only what it holds, and ends with nothing.
\<close>

fun in_order :: "mutex set \<Rightarrow> lock_program \<Rightarrow> bool" where
  "in_order held [] \<longleftrightarrow> held = {}"
| "in_order held (Acquire m # prog) \<longleftrightarrow> (\<forall>h \<in> held. h < m) \<and> in_order (insert m held) prog"
| "in_order held (Release m # prog) \<longleftrightarrow> m \<in> held \<and> in_order (held - {m}) prog"

definition held_by :: "lock_state \<Rightarrow> nat \<Rightarrow> mutex set" where
  "held_by s i = {m. holder s m = Some i}"

definition locks_ok :: "lock_state \<Rightarrow> bool" where
  "locks_ok s \<longleftrightarrow> (\<forall>i < length (threads s). in_order (held_by s i) (threads s ! i)) \<and>
     (\<forall>m i. holder s m = Some i \<longrightarrow> i < length (threads s))"

lemma lock_step_ok:
  assumes "lock_step s t" "locks_ok s"
  shows "locks_ok t"
  using assms
proof cases
  case (acquire i m prog)
  have h: "held_by t j = (if j = i then insert m (held_by s i) else held_by s j)" for j
    using acquire by (auto simp: held_by_def)
  have "in_order (held_by s i) (Acquire m # prog)" using assms(2) acquire by (auto simp: locks_ok_def)
  then show ?thesis using assms(2) acquire h by (auto simp: locks_ok_def nth_list_update)
next
  case (release i m prog)
  have h: "held_by t j = (if j = i then held_by s i - {m} else held_by s j)" for j
    using release by (auto simp: held_by_def)
  have "in_order (held_by s i) (Release m # prog)" using assms(2) release unfolding locks_ok_def by metis
  then show ?thesis using assms(2) release h by (auto simp: locks_ok_def nth_list_update)
qed

text \<open>A holder of the last mutex can go on; so can a holder of the first when the last is free.\<close>

lemma locks_ok_progress:
  assumes ok: "locks_ok s" and nf: "\<not> finished s"
  shows "\<exists>t. lock_step s t"
proof -
  have ord: "in_order (held_by s i) (threads s ! i)" if "i < length (threads s)" for i
    using ok that by (simp add: locks_ok_def)
  have rel: "\<exists>t. lock_step s t" if "i < length (threads s)" "threads s ! i = Release m # prog" for i m prog
    using ord [OF that(1)] that release [OF that] by (auto simp: held_by_def)
  have acq: "\<exists>t. lock_step s t" if "i < length (threads s)" "threads s ! i = Acquire m # prog" "holder s m = None" for i m prog
    using acquire [OF that] by blast
  have next_op: "threads s ! i = [] \<or> (\<exists>m prog. threads s ! i = Acquire m # prog \<or> threads s ! i = Release m # prog)" for i
    by (metis list.exhaust lock_op.exhaust)
  show ?thesis
  proof (cases "holder s query_table_mutex")
    case (Some i)
    then have i: "i < length (threads s)" "query_table_mutex \<in> held_by s i"
      using ok by (auto simp: locks_ok_def held_by_def)
    have "\<exists>m prog. threads s ! i = Release m # prog"
      using next_op [of i] ord [OF i(1)] i(2) by (auto simp: less_mutex_def)
    with rel i(1) show ?thesis by blast
  next
    case q: None
    show ?thesis
    proof (cases "holder s worker_table_mutex")
      case (Some i)
      then have i: "i < length (threads s)" "worker_table_mutex \<in> held_by s i"
        using ok by (auto simp: locks_ok_def held_by_def)
      have "(\<exists>m prog. threads s ! i = Release m # prog) \<or> (\<exists>prog. threads s ! i = Acquire query_table_mutex # prog)"
        using next_op [of i] ord [OF i(1)] i(2) by (auto simp: less_mutex_def)
      with rel acq q i(1) show ?thesis by blast
    next
      case None
      from nf obtain i where i: "i < length (threads s)" "threads s ! i \<noteq> []"
        by (auto simp: finished_def in_set_conv_nth)
      have free: "holder s m = None" for m using q None by (cases m) auto
      then have "held_by s i = {}" by (simp add: held_by_def)
      then have "\<exists>m prog. threads s ! i = Acquire m # prog"
        using next_op [of i] ord [OF i(1)] i(2) by auto
      with acq i(1) free show ?thesis by blast
    qed
  qed
qed

lemma start_ok: "(\<forall>prog \<in> set progs. in_order {} prog) \<Longrightarrow> locks_ok (start progs)"
  by (simp add: locks_ok_def start_def held_by_def)

interpretation mutexes: progress_system lock_step locks_ok finished
  by unfold_locales (fact lock_step_ok, fact locks_ok_progress)

lemmas program_defs = both_locks_def query_lock_def worker_lock_def locks_query_file_path_def
  locks_worker_handshake_def locks_worker_answer_def locks_aging_turn_def

lemma in_order_append: "in_order held a \<Longrightarrow> in_order {} b \<Longrightarrow> in_order held (a @ b)"
  by (induction held a rule: in_order.induct) auto

lemma ordered_programs:
  "in_order {} locks_query_file_path" "in_order {} locks_worker_handshake"
  "in_order {} locks_worker_answer" "in_order {} locks_aging_turn" "in_order {} (locks_worker_disconnection s k)"
proof -
  have p: "in_order {} both_locks" "in_order {} query_lock" "in_order {} worker_lock"
    by (simp_all add: both_locks_def query_lock_def worker_lock_def less_mutex_def)
  then show "in_order {} locks_query_file_path" "in_order {} locks_worker_handshake"
    "in_order {} locks_worker_answer" "in_order {} locks_aging_turn"
    by (simp_all add: locks_query_file_path_def locks_worker_handshake_def locks_worker_answer_def
        locks_aging_turn_def in_order_append)
  show "in_order {} (locks_worker_disconnection s k)"
    using p by (simp add: locks_worker_disconnection_def split: option.split)
qed

text \<open>
  C24: The threads of the Master that register queries and workers, handle the answers of workers
  and their disconnections, and age the queries never block each other for good, in any number
  and interleaving: while one of them has work left, some thread can go on.
\<close>

theorem ordered_threads_never_deadlock:
  assumes "\<forall>prog \<in> set progs. prog \<in> {locks_query_file_path, locks_worker_handshake, locks_worker_answer,
      locks_aging_turn} \<union> {locks_worker_disconnection s k | s k. True}"
    and "lock_step\<^sup>*\<^sup>* (start progs) t" and "\<not> finished t"
  shows "\<exists>u. lock_step t u"
proof -
  have "in_order {} prog" if "prog \<in> set progs" for prog
    using bspec [OF assms(1) that] ordered_programs by auto
  then have "\<forall>prog \<in> set progs. in_order {} prog" by blast
  from mutexes.never_stuck [OF assms(2) start_ok [OF this] assms(3)] show ?thesis .
qed

theorem ordered_threads_never_deadlock_witness:
  "\<exists>u. lock_step (start [locks_aging_turn, locks_worker_answer]) u"
proof (rule ordered_threads_never_deadlock [of "[locks_aging_turn, locks_worker_answer]"])
  show "\<not> finished (start [locks_aging_turn, locks_worker_answer])"
    by (simp add: finished_def start_def program_defs)
qed simp_all

text \<open>
  C38: The disconnection of the Query Control of a running query takes the two mutexes in the
  other order. From any state with such a query, that thread and any thread that is about to take
  both mutexes can reach a point where each waits for the other and neither goes on.
\<close>

theorem disconnection_can_deadlock:
  assumes "reachable s" "find_query_by_socket s k = Some q" "q_state (qcb s q) = QUERY_STATE_RUNNING"
  shows "\<exists>t. lock_step\<^sup>*\<^sup>* (start [both_locks, locks_query_control_disconnection s k]) t \<and>
    \<not> finished t \<and> (\<forall>u. \<not> lock_step t u)"
proof -
  have "q \<in> set (queries s)" using assms(2) by (auto simp: find_query_by_socket_def dest: find_SomeD)
  then have "\<not> cleaned_up (qcb s q)"
    using queries_okD(8) [OF master_okD(1) [OF reachable_ok [OF assms(1)]]] by blast
  then have p: "locks_query_control_disconnection s k = [Acquire query_table_mutex, Acquire worker_table_mutex,
      Release worker_table_mutex, Release query_table_mutex]"
    using assms(2,3) by (simp add: locks_query_control_disconnection_def)
  let ?w = "[Acquire query_table_mutex, Release query_table_mutex, Release worker_table_mutex]"
  let ?q = "[Acquire worker_table_mutex, Release worker_table_mutex, Release query_table_mutex]"
  let ?s = "start [both_locks, locks_query_control_disconnection s k]"
  let ?a = "\<lparr>holder = (\<lambda>_. None)(worker_table_mutex := Some 0), threads = [?w, Acquire query_table_mutex # ?q]\<rparr>"
  let ?b = "\<lparr>holder = (\<lambda>_. None)(worker_table_mutex := Some 0, query_table_mutex := Some 1), threads = [?w, ?q]\<rparr>"
  have 1: "lock_step ?s ?a" using acquire [of 0 ?s worker_table_mutex ?w]
    by (simp add: start_def both_locks_def p)
  have 2: "lock_step ?a ?b" using acquire [of 1 ?a query_table_mutex ?q] by simp
  have "lock_step\<^sup>*\<^sup>* ?s ?b" by (rule two_steps [where R = lock_step, OF 1 2])
  moreover have "\<not> lock_step ?b u" for u
  proof
    assume "lock_step ?b u"
    then show False by cases (auto simp: less_Suc_eq)
  qed
  ultimately show ?thesis by (intro exI [of _ ?b]) (simp add: finished_def)
qed

theorem disconnection_can_deadlock_witness:
  "\<exists>t. lock_step\<^sup>*\<^sup>* (start [both_locks, locks_query_control_disconnection demo_running 6]) t \<and>
     \<not> finished t \<and> (\<forall>u. \<not> lock_step t u)"
  by (rule disconnection_can_deadlock [OF demo_running_reachable, of 6 "Suc 0"])
    (simp_all add: find_query_by_socket_def demo_running_sel new_qcb_def)

end
