(* ===== verification/Startup.thy ===== *)
theory Startup
  imports Query_Executor Master_Properties Storage_Properties
begin

text \<open>
  How the processes start: the configuration files (\<^verbatim>\<open>storage_config.c\<close>, \<^verbatim>\<open>worker_config.c\<close>,
  \<^verbatim>\<open>master_config.c\<close>, \<^verbatim>\<open>query_control_config.c\<close>), the sockets (\<^verbatim>\<open>utils/server.c\<close>,
  \<^verbatim>\<open>utils/client_socket.c\<close>) and what the \<^verbatim>\<open>main\<close> functions of Storage and Master do before
  they serve clients.

  The configuration files belong to the commons library: a parsed file is an argument of the
  model, with the four queries the sources make; a query for a string gives \<^verbatim>\<open>NULL\<close> (here
  \<open>None\<close>) for a key that is not there. A function returns a pointer that may be \<^verbatim>\<open>NULL\<close>, or
  its behaviour is undefined.
\<close>

record t_config =
  config_has_property :: "string \<Rightarrow> bool"
  config_keys_amount :: nat
  config_get_string_value :: "string \<Rightarrow> string option"
  config_get_int_value :: "string \<Rightarrow> int"

text \<open>What the library documents of a parsed file: the keys it has are finitely many, and they are those with a value.\<close>

definition config_ok :: "t_config \<Rightarrow> bool" where
  "config_ok c \<longleftrightarrow> finite {k. config_has_property c k} \<and> config_keys_amount c = card {k. config_has_property c k} \<and>
     (\<forall>k. config_has_property c k \<longleftrightarrow> config_get_string_value c k \<noteq> None)"

datatype 'a pointer = Undefined | Null | Pointer 'a

subsection \<open>Storage\<close>

record t_storage_config =
  sc_storage_ip :: string
  sc_storage_port :: string
  sc_fresh_start :: bool
  sc_mount_point :: string
  sc_operation_delay :: int
  sc_block_access_delay :: int
  sc_fs_size :: int
  sc_block_size :: int
  sc_bitmap_size_bytes :: u64
  sc_log_level :: int

definition required_props :: "string list" where
  "required_props = [''STORAGE_IP'', ''STORAGE_PORT'', ''FRESH_START'', ''MOUNT_POINT'', ''OPERATION_DELAY'',
     ''BLOCK_ACCESS_DELAY'', ''LOG_LEVEL'']"

text \<open>The loop runs over as many entries of the array as the file has keys; \<open>None\<close> past its end.\<close>

fun check_properties :: "t_config \<Rightarrow> string list \<Rightarrow> nat \<Rightarrow> bool option" where
  "check_properties config props 0 = Some True"
| "check_properties config [] (Suc n) = None"
| "check_properties config (p # props) (Suc n) =
     (if config_has_property config p then check_properties config props n else Some False)"

definition has_required_properties :: "t_config \<Rightarrow> bool option" where
  "has_required_properties config = check_properties config required_props (config_keys_amount config)"

text \<open>The division and the rounding, which \<^verbatim>\<open>int\<close> limits, and the conversion to \<^verbatim>\<open>size_t\<close>.\<close>

definition bitmap_bytes :: "int \<Rightarrow> int \<Rightarrow> u64 option" where
  "bitmap_bytes fsz block =
     (if block = 0 \<or> fsz sdiv block + 7 \<ge> 2 ^ 31 then None
      else Some (word_of_int ((fsz sdiv block + 7) sdiv 8)))"

text \<open>The second half of \<^verbatim>\<open>create_storage_config\<close>, which reads the superblock. Its path is cut to its buffer.\<close>

definition storage_config_from ::
  "(string \<Rightarrow> t_config option) \<Rightarrow> string \<Rightarrow> string \<Rightarrow> string \<Rightarrow> string \<Rightarrow> int \<Rightarrow> int \<Rightarrow> int \<Rightarrow> t_storage_config pointer" where
  "storage_config_from open_config ip port mount fresh od bd lvl =
     (case open_config (take (PATH_MAX - 1) (mount @ ''/superblock.config'')) of
        None \<Rightarrow> Null
      | Some sb \<Rightarrow>
          if \<not> config_has_property sb ''FS_SIZE'' \<or> \<not> config_has_property sb ''BLOCK_SIZE'' then Null
          else case bitmap_bytes (config_get_int_value sb ''FS_SIZE'') (config_get_int_value sb ''BLOCK_SIZE'') of
            None \<Rightarrow> Undefined
          | Some bytes \<Rightarrow>
              Pointer \<lparr>sc_storage_ip = ip, sc_storage_port = port, sc_fresh_start = (fresh = ''TRUE'' \<or> fresh = ''true''),
                sc_mount_point = mount, sc_operation_delay = od, sc_block_access_delay = bd,
                sc_fs_size = config_get_int_value sb ''FS_SIZE'', sc_block_size = config_get_int_value sb ''BLOCK_SIZE'',
                sc_bitmap_size_bytes = bytes, sc_log_level = lvl\<rparr>)"

text \<open>
  \<open>open_config\<close> is \<^verbatim>\<open>config_create\<close> by path; \<open>level\<close> is \<^verbatim>\<open>log_level_from_string\<close>. Duplicating a
  missing value is undefined.
\<close>

definition create_storage_config ::
  "(string \<Rightarrow> t_config option) \<Rightarrow> (string \<Rightarrow> int) \<Rightarrow> string \<Rightarrow> t_storage_config pointer" where
  "create_storage_config open_config level config_file_path =
     (case open_config config_file_path of
        None \<Rightarrow> Null
      | Some config \<Rightarrow>
          (case has_required_properties config of
             None \<Rightarrow> Undefined
           | Some False \<Rightarrow> Null
           | Some True \<Rightarrow>
               let str = config_get_string_value config
               in (case (str ''STORAGE_IP'', str ''STORAGE_PORT'', str ''MOUNT_POINT'', str ''LOG_LEVEL'', str ''FRESH_START'') of
                     (Some ip, Some port, Some mount, Some lvl, Some fresh) \<Rightarrow>
                       (if str ''OPERATION_DELAY'' = None \<or> str ''BLOCK_ACCESS_DELAY'' = None then Undefined
                        else storage_config_from open_config ip port mount fresh (config_get_int_value config ''OPERATION_DELAY'')
                               (config_get_int_value config ''BLOCK_ACCESS_DELAY'') (level lvl))
                   | _ \<Rightarrow> Undefined)))"

text \<open>\<^verbatim>\<open>read_superblock\<close> of \<^verbatim>\<open>filesystem_utils.c\<close> reads the same two numbers: the result and what it stores.\<close>

definition read_superblock :: "(string \<Rightarrow> t_config option) \<Rightarrow> string \<Rightarrow> int \<times> (int \<times> int) option" where
  "read_superblock open_config mount_point =
     (case open_config (take (PATH_MAX - 1) (mount_point @ ''/superblock.config'')) of
        None \<Rightarrow> (-1, None)
      | Some config \<Rightarrow>
          if \<not> config_has_property config ''FS_SIZE'' \<or> \<not> config_has_property config ''BLOCK_SIZE'' then (-2, None)
          else (0, Some (config_get_int_value config ''FS_SIZE'', config_get_int_value config ''BLOCK_SIZE'')))"

subsection \<open>Worker, Master and Query Control\<close>

text \<open>
  The loop over the string keys of a Worker. A missing or empty one leads to
  \<^verbatim>\<open>destroy_worker_config\<close> with the pointers from that key on never set, and freeing those is
  undefined: the result is \<open>None\<close>.
\<close>

fun read_strings :: "t_config \<Rightarrow> string list \<Rightarrow> string list option" where
  "read_strings config [] = Some []"
| "read_strings config (key # keys) =
     (if \<not> config_has_property config key then None
      else case config_get_string_value config key of
        None \<Rightarrow> None
      | Some v \<Rightarrow> if v = [] then None else map_option ((#) v) (read_strings config keys))"

definition worker_keys :: "string list" where
  "worker_keys = [''IP_MASTER'', ''PUERTO_MASTER'', ''IP_STORAGE'', ''PUERTO_STORAGE'', ''ALGORITMO_REEMPLAZO'',
     ''PATH_SCRIPTS'', ''LOG_LEVEL'']"

definition create_worker_config ::
  "(string \<Rightarrow> t_config option) \<Rightarrow> int \<Rightarrow> string \<Rightarrow> t_worker_config pointer" where
  "create_worker_config open_config garbage config_file_path =
     (case open_config config_file_path of
        None \<Rightarrow> Null
      | Some config \<Rightarrow>
          (case read_strings config worker_keys of
             Some [mip, mport, sip, sport, algorithm, scripts, lvl] \<Rightarrow>
               if \<not> config_has_property config ''TAM_MEMORIA'' \<or> \<not> config_has_property config ''RETARDO_MEMORIA'' then Null
               else Pointer \<lparr>wc_master_ip = mip, wc_master_port = mport, wc_storage_ip = sip, wc_storage_port = sport,
                 memory_size = config_get_int_value config ''TAM_MEMORIA'',
                 memory_retardation_ms = config_get_int_value config ''RETARDO_MEMORIA'',
                 replacement_algorithm = algorithm, wc_path_scripts = scripts, wc_block_size = garbage, wc_log_level = lvl\<rparr>
           | _ \<Rightarrow> Undefined))"

record t_master_config =
  mc_ip :: string
  mc_port :: string
  mc_scheduler_algorithm :: string
  mc_aging_time :: int
  mc_log_level :: int

definition create_master_config ::
  "(string \<Rightarrow> t_config option) \<Rightarrow> (string \<Rightarrow> int) \<Rightarrow> string \<Rightarrow> t_master_config pointer" where
  "create_master_config open_config level config_file_path =
     (case open_config config_file_path of
        None \<Rightarrow> Null
      | Some config \<Rightarrow>
          let str = config_get_string_value config
          in (case (str ''IP_ESCUCHA'', str ''PUERTO_ESCUCHA'', str ''ALGORITMO_PLANIFICACION'', str ''TIEMPO_AGING'', str ''LOG_LEVEL'') of
                (Some ip, Some port, Some algorithm, Some _, Some lvl) \<Rightarrow>
                  Pointer \<lparr>mc_ip = ip, mc_port = port, mc_scheduler_algorithm = algorithm,
                    mc_aging_time = config_get_int_value config ''TIEMPO_AGING'', mc_log_level = level lvl\<rparr>
              | _ \<Rightarrow> Undefined))"

record t_query_control_config =
  qc_ip :: string
  qc_port :: string
  qc_log_level :: int

definition create_query_control_config ::
  "(string \<Rightarrow> t_config option) \<Rightarrow> (string \<Rightarrow> int) \<Rightarrow> string \<Rightarrow> t_query_control_config pointer" where
  "create_query_control_config open_config level config_file_path =
     (case open_config config_file_path of
        None \<Rightarrow> Null
      | Some config \<Rightarrow>
          let str = config_get_string_value config
          in (case (str ''IP_MASTER'', str ''PUERTO_MASTER'', str ''LOG_LEVEL'') of
                (Some ip, Some port, Some lvl) \<Rightarrow> Pointer \<lparr>qc_ip = ip, qc_port = port, qc_log_level = level lvl\<rparr>
              | _ \<Rightarrow> Undefined))"

subsection \<open>Sockets\<close>

text \<open>
  The results of the system calls, which the environment decides, and what a function gives
  back of the resources it acquired, in order. A failed \<^verbatim>\<open>getaddrinfo\<close> leaves its result
  pointer alone.
\<close>

record net_calls =
  getaddrinfo_result :: int
  socket_result :: int
  setsockopt_result :: int
  bind_result :: int
  listen_result :: int
  connect_result :: int

datatype released = Freeaddrinfo | Close int

definition ERROR_INVALID_PARAMS :: int where "ERROR_INVALID_PARAMS = -1"
definition ERROR_GETADDRINFO :: int where "ERROR_GETADDRINFO = -2"
definition ERROR_SOCKET_CREATE :: int where "ERROR_SOCKET_CREATE = -3"
definition ERROR_SETSOCKOPT :: int where "ERROR_SETSOCKOPT = -4"
definition ERROR_BIND :: int where "ERROR_BIND = -5"
definition ERROR_LISTEN :: int where "ERROR_LISTEN = -6"

lemmas server_errors = ERROR_INVALID_PARAMS_def ERROR_GETADDRINFO_def ERROR_SOCKET_CREATE_def ERROR_SETSOCKOPT_def
  ERROR_BIND_def ERROR_LISTEN_def

definition start_server :: "net_calls \<Rightarrow> string option \<Rightarrow> string option \<Rightarrow> int \<times> released list" where
  "start_server calls ip port =
     (let server_socket = socket_result calls
      in if ip = None \<or> port = None then (ERROR_INVALID_PARAMS, [])
         else if getaddrinfo_result calls \<noteq> 0 then (ERROR_GETADDRINFO, [])
         else if server_socket = -1 then (ERROR_SOCKET_CREATE, [Freeaddrinfo])
         else if setsockopt_result calls = -1 then (ERROR_SETSOCKOPT, [Freeaddrinfo, Close server_socket])
         else if bind_result calls = -1 then (ERROR_BIND, [Freeaddrinfo, Close server_socket])
         else if listen_result calls = -1 then (ERROR_LISTEN, [Freeaddrinfo, Close server_socket])
         else (server_socket, [Freeaddrinfo]))"

definition start_server_error_string :: "int \<Rightarrow> string" where
  "start_server_error_string error_code =
     (if error_code = ERROR_INVALID_PARAMS then ''Invalid parameters (NULL IP or port)''
      else if error_code = ERROR_GETADDRINFO then ''Failed to resolve address information''
      else if error_code = ERROR_SOCKET_CREATE then ''Failed to create socket''
      else if error_code = ERROR_SETSOCKOPT then ''Failed to set socket options''
      else if error_code = ERROR_BIND then ''Failed to bind socket to address''
      else if error_code = ERROR_LISTEN then ''Failed to set socket to listen mode''
      else ''Unknown error'')"

definition connect_to_server :: "net_calls \<Rightarrow> string option \<Rightarrow> string option \<Rightarrow> int \<times> released list" where
  "connect_to_server calls ip port =
     (let client_socket = socket_result calls
      in if ip = None \<or> port = None then (-1, [])
         else if getaddrinfo_result calls \<noteq> 0 then (-2, [])
         else if client_socket = -1 then (-3, [Freeaddrinfo])
         else if connect_result calls = -1 then (-4, [Close client_socket, Freeaddrinfo])
         else (client_socket, [Freeaddrinfo]))"

definition client_connect :: "net_calls \<Rightarrow> string option \<Rightarrow> string option \<Rightarrow> int \<times> released list" where
  "client_connect calls server_ip server_port =
     (let client_socket = socket_result calls
      in if server_ip = None \<or> server_port = None then (-1, [])
         else if getaddrinfo_result calls \<noteq> 0 then (-1, [])
         else if client_socket = -1 then (-1, [Freeaddrinfo])
         else if connect_result calls = -1 then (-1, [Close client_socket, Freeaddrinfo])
         else (client_socket, [Freeaddrinfo]))"

subsection \<open>The processes\<close>






datatype master_process = Master_exit int | Master_serving int bool t_master \<comment> \<open>socket, aging thread started, state\<close>

text \<open>
  \<^verbatim>\<open>main\<close> of the Master up to its loop. When the configuration cannot be read it jumps over the
  declaration of \<^verbatim>\<open>master\<close> to the code that destroys it, and when the server does not start that
  code destroys the logger twice (in \<^verbatim>\<open>destroy_master\<close> and after it): both are undefined.
\<close>

definition master_main ::
  "(string \<Rightarrow> t_config option) \<Rightarrow> (string \<Rightarrow> int) \<Rightarrow> net_calls \<Rightarrow> string list \<Rightarrow> master_process option" where
  "master_main open_config level calls argv =
     (case argv of
        [_, path_config_file] \<Rightarrow>
          (case create_master_config open_config level path_config_file of
             Pointer c \<Rightarrow>
               let master = init_master (mc_aging_time c) (mc_scheduler_algorithm c);
                   server_socket_fd = fst (start_server calls (Some (mc_ip c)) (Some (mc_port c)))
               in if server_socket_fd < 0 then None
                  else Some (Master_serving server_socket_fd (mc_scheduler_algorithm c = ''PRIORITY'') master)
           | _ \<Rightarrow> None)
      | _ \<Rightarrow> Some (Master_exit (-1)))"

text \<open>
  \<^verbatim>\<open>destroy_master\<close>: the control blocks of both lists are freed one by one, \<open>None\<close> when one is
  not allocated. Under PRIORITY the tables are freed while the aging thread goes on using them
  and the thread is joined after that: undefined as well.
\<close>

fun free_blocks :: "ptr list \<Rightarrow> (ptr \<rightharpoonup> 'b) \<Rightarrow> (ptr \<rightharpoonup> 'b) option" where
  "free_blocks [] heap = Some heap"
| "free_blocks (p # ps) heap = (if heap p = None then None else free_blocks ps (heap(p := None)))"

definition destroy_master :: "t_master \<Rightarrow> t_master option" where
  "destroy_master s =
     (if scheduling_algorithm s = ''PRIORITY'' then None
      else case (free_blocks (query_list (queries_table s)) (qcb_heap s), free_blocks (worker_list (workers_table s)) (wcb_heap s)) of
        (Some qheap, Some wheap) \<Rightarrow> Some (s\<lparr>qcb_heap := qheap, wcb_heap := wheap\<rparr>)
      | _ \<Rightarrow> None)"

text \<open>\<^verbatim>\<open>main\<close> of a Worker up to its two threads; \<open>Inl\<close> is an exit code.\<close>

definition worker_main ::
  "(string \<Rightarrow> t_config option) \<Rightarrow> 's exchange \<Rightarrow> 'm exchange \<Rightarrow> net_calls \<Rightarrow> net_calls \<Rightarrow> int \<Rightarrow> (nat \<Rightarrow> u8) \<Rightarrow>
   query_context_t \<Rightarrow> string list \<Rightarrow> 's \<Rightarrow> 'm \<Rightarrow> (int + 's worker \<times> 's \<times> 'm) option" where
  "worker_main open_config ex ex_master storage_calls master_calls stack garbage ctx argv s m =
     (case validate_arguments argv of
        None \<Rightarrow> Some (Inl 1)
      | Some (config_path, ident) \<Rightarrow>
          (case create_worker_config open_config stack config_path of
             Undefined \<Rightarrow> None
           | Null \<Rightarrow> Some (Inl 1)
           | Pointer config \<Rightarrow>
               (case start_worker ex ex_master config
                       (fst (client_connect storage_calls (Some (wc_storage_ip config)) (Some (wc_storage_port config))))
                       (fst (client_connect master_calls (Some (wc_master_ip config)) (Some (wc_master_port config))))
                       ident garbage ctx s m of
                  (None, s1, m1) \<Rightarrow> Some (Inl 0)
                | (Some w, s1, m1) \<Rightarrow> Some (Inr (w, s1, m1)))))"

subsection \<open>Resources\<close>

text \<open>
  What every function that opens a socket owes: the address information is freed exactly when
  it was obtained, the socket is closed exactly when it was opened and not returned, and no
  failure is reported as a descriptor.
\<close>

definition balanced :: "net_calls \<Rightarrow> bool \<Rightarrow> int \<times> released list \<Rightarrow> bool" where
  "balanced calls works res \<longleftrightarrow>
     count_list (snd res) Freeaddrinfo = (if getaddrinfo_result calls = 0 then 1 else 0) \<and>
     count_list (snd res) (Close (socket_result calls)) =
       (if getaddrinfo_result calls = 0 \<and> socket_result calls \<noteq> -1 \<and> \<not> works then 1 else 0) \<and>
     fst res = (if works then socket_result calls else fst res) \<and> (\<not> works \<longrightarrow> fst res < 0)"

lemmas socket_defs = start_server_def connect_to_server_def client_connect_def server_errors Let_def

lemma sockets_balanced:
  fixes calls ip port
  defines "open \<equiv> getaddrinfo_result calls = 0 \<and> socket_result calls \<noteq> -1"
  shows "balanced calls (open \<and> setsockopt_result calls \<noteq> -1 \<and> bind_result calls \<noteq> -1 \<and> listen_result calls \<noteq> -1)
      (start_server calls (Some ip) (Some port))"
    and "balanced calls (open \<and> connect_result calls \<noteq> -1) (connect_to_server calls (Some ip) (Some port))"
    and "balanced calls (open \<and> connect_result calls \<noteq> -1) (client_connect calls (Some ip) (Some port))"
  by (simp_all add: balanced_def socket_defs open_def)

text \<open>Every way in which a server fails to start has its own message.\<close>

lemma server_errors_named:
  "inj_on start_server_error_string {ERROR_INVALID_PARAMS, ERROR_GETADDRINFO, ERROR_SOCKET_CREATE, ERROR_SETSOCKOPT, ERROR_BIND, ERROR_LISTEN}"
  by (simp add: start_server_error_string_def server_errors)

subsection \<open>The configuration of Storage\<close>

lemma check_properties_take:
  "check_properties c props n =
    (if \<forall>p \<in> set (take n props). config_has_property c p then if n \<le> length props then Some True else None else Some False)"
  by (induction c props n rule: check_properties.induct) auto

text \<open>A file with the required keys and as many keys as there are of those has no others.\<close>

lemma keys_bound:
  assumes "config_ok c" and "\<forall>p \<in> set required_props. config_has_property c p"
  shows "7 \<le> config_keys_amount c"
proof -
  have "card (set required_props) \<le> card {k. config_has_property c k}"
    using assms by (intro card_mono) (auto simp: config_ok_def)
  moreover have "card (set required_props) = 7" by (simp add: required_props_def)
  ultimately show ?thesis using assms(1) by (simp add: config_ok_def)
qed

lemma required_distinct: "set (take 7 required_props) = set required_props" "length required_props = 7"
  by (simp_all add: required_props_def)

lemma bitmap_bytes_ok:
  assumes "0 \<le> n" and "0 < b" and "n div b < 2 ^ 31 - 7"
  obtains w where "bitmap_bytes n b = Some w" and "unat w = nat ((n div b + 7) div 8)"
proof -
  have sd: "x sdiv y = x div y" if "0 \<le> x" "0 < y" for x y :: int
    using that by (cases "x = 0") (simp_all add: signed_divide_int_def)
  have q: "0 \<le> n div b" using assms by (simp add: pos_imp_zdiv_nonneg_iff)
  then have "0 \<le> (n div b + 7) div 8" "(n div b + 7) div 8 < 2 ^ 64" using assms(3) by auto
  then have "unat (word_of_int ((n div b + 7) div 8) :: u64) = nat ((n div b + 7) div 8)"
    by (simp add: unat_eq_nat_uint uint_word_of_int)
  then show thesis using that assms q by (simp add: bitmap_bytes_def sd)
qed

lemma has_required_eq:
  "has_required_properties c = (if \<forall>p \<in> set (take (config_keys_amount c) required_props). config_has_property c p
     then if config_keys_amount c \<le> 7 then Some True else None else Some False)"
  by (simp add: has_required_properties_def check_properties_take required_distinct(2))

lemma storage_config_seven:
  assumes "open_config path = Some c" and "config_ok c" and "config_keys_amount c = 7"
    and "\<forall>p \<in> set required_props. config_has_property c p"
  obtains ip port mount fresh od bd lvl where "config_get_string_value c ''STORAGE_IP'' = Some ip"
    and "config_get_string_value c ''STORAGE_PORT'' = Some port"
    and "config_get_string_value c ''MOUNT_POINT'' = Some mount" and "config_get_string_value c ''FRESH_START'' = Some fresh"
    and "create_storage_config open_config level path = storage_config_from open_config ip port mount fresh od bd lvl"
proof -
  let ?str = "config_get_string_value c"
  have str: "config_has_property c k \<longleftrightarrow> (\<exists>v. ?str k = Some v)" for k using assms(2) by (auto simp: config_ok_def)
  obtain ip port mount lvl fresh od bd where v: "?str ''STORAGE_IP'' = Some ip" "?str ''STORAGE_PORT'' = Some port"
    "?str ''MOUNT_POINT'' = Some mount" "?str ''LOG_LEVEL'' = Some lvl" "?str ''FRESH_START'' = Some fresh"
    "?str ''OPERATION_DELAY'' = Some od" "?str ''BLOCK_ACCESS_DELAY'' = Some bd"
    using assms(4) by (auto simp: required_props_def str)
  have "has_required_properties c = Some True" using assms(3,4) by (simp add: has_required_eq required_distinct(1))
  then have "create_storage_config open_config level path = storage_config_from open_config ip port mount fresh
      (config_get_int_value c ''OPERATION_DELAY'') (config_get_int_value c ''BLOCK_ACCESS_DELAY'') (level lvl)"
    by (simp add: create_storage_config_def assms(1) Let_def v)
  then show thesis using that v by blast
qed

text \<open>The two readers of the superblock agree.\<close>

lemma superblock_readers_agree:
  "storage_config_from open_config ip port mount fresh od bd lvl = Pointer sc \<Longrightarrow>
    read_superblock open_config mount = (0, Some (sc_fs_size sc, sc_block_size sc))"
  by (auto simp: storage_config_from_def read_superblock_def split: option.splits if_splits)

text \<open>
  C31: When Storage accepts its configuration. For a file the library has parsed, with \<open>n\<close> keys
  (the check runs over the first \<open>n\<close> required ones, and past them): a missing one among
  those is refused; otherwise any number of keys but seven is undefined behaviour, whether
  one of the required keys is missing (its value is duplicated all the same) or all are there
  and some other key with them (the array is read past its end). With seven keys, which are
  then the required ones, the outcome depends on the superblock: it has to be there with its
  two keys, and a block size of 0 is undefined. The sizes are those of the superblock, the
  bitmap has a bit per block in whole bytes, and \<^verbatim>\<open>FRESH_START\<close> is set by \<^verbatim>\<open>TRUE\<close> or \<^verbatim>\<open>true\<close>.
\<close>

theorem storage_config_spec:
  fixes level
  assumes "open_config path = Some c" and "config_ok c"
  defines "res \<equiv> create_storage_config open_config level path"
  shows "if \<not> (\<forall>p \<in> set (take (config_keys_amount c) required_props). config_has_property c p) then res = Null
    else if config_keys_amount c \<noteq> 7 then res = Undefined
    else \<exists>mount fresh. config_get_string_value c ''MOUNT_POINT'' = Some mount \<and>
      config_get_string_value c ''FRESH_START'' = Some fresh \<and>
      (case open_config (take (PATH_MAX - 1) (mount @ ''/superblock.config'')) of
         None \<Rightarrow> res = Null
       | Some sb \<Rightarrow>
           if \<not> config_has_property sb ''FS_SIZE'' \<or> \<not> config_has_property sb ''BLOCK_SIZE'' then res = Null
           else if config_get_int_value sb ''BLOCK_SIZE'' = 0 then res = Undefined
           else \<forall>n b. config_get_int_value sb ''FS_SIZE'' = n \<and> config_get_int_value sb ''BLOCK_SIZE'' = b \<and>
             0 \<le> n \<and> 0 < b \<and> n div b < 2 ^ 31 - 7 \<longrightarrow>
               (\<exists>sc. res = Pointer sc \<and> sc_fs_size sc = n \<and> sc_block_size sc = b \<and> sc_mount_point sc = mount \<and>
                 unat (sc_bitmap_size_bytes sc) = nat ((n div b + 7) div 8) \<and>
                 (sc_fresh_start sc \<longleftrightarrow> fresh = ''TRUE'' \<or> fresh = ''true'')))"
proof -
  let ?n = "config_keys_amount c" and ?str = "config_get_string_value c"
  have str: "config_has_property c k \<longleftrightarrow> (\<exists>v. ?str k = Some v)" for k using assms(2) by (auto simp: config_ok_def)
  note h = has_required_eq [of c]
  consider (missing) "\<not> (\<forall>p \<in> set (take ?n required_props). config_has_property c p)"
    | (many) "\<forall>p \<in> set (take ?n required_props). config_has_property c p" "7 < ?n"
    | (few) "\<forall>p \<in> set (take ?n required_props). config_has_property c p" "?n < 7"
    | (exact) "\<forall>p \<in> set (take ?n required_props). config_has_property c p" "?n = 7" by linarith
  then show ?thesis
  proof cases
    case missing
    then have "has_required_properties c = Some False" using h by auto
    with missing show ?thesis by (simp add: res_def create_storage_config_def assms(1))
  next
    case many
    then show ?thesis by (simp add: res_def create_storage_config_def assms(1) h)
  next
    case few
    then obtain p where "p \<in> set required_props" "?str p = None" using keys_bound [OF assms(2)] str by fastforce
    then have "?str ''STORAGE_IP'' = None \<or> ?str ''STORAGE_PORT'' = None \<or> ?str ''MOUNT_POINT'' = None \<or> ?str ''LOG_LEVEL'' = None \<or>
      ?str ''FRESH_START'' = None \<or> ?str ''OPERATION_DELAY'' = None \<or> ?str ''BLOCK_ACCESS_DELAY'' = None"
      by (auto simp: required_props_def)
    then have "res = Undefined" using few
      by (auto simp: res_def create_storage_config_def assms(1) h Let_def split: option.splits)
    then show ?thesis using few by simp
  next
    case exact
    then have all: "\<forall>p \<in> set required_props. config_has_property c p" by (simp add: required_distinct)
    obtain ip port mount fresh od bd lvl where s: "config_get_string_value c ''MOUNT_POINT'' = Some mount"
      "config_get_string_value c ''FRESH_START'' = Some fresh" "res = storage_config_from open_config ip port mount fresh od bd lvl"
      unfolding res_def by (rule storage_config_seven [of open_config path c level]) (use assms(1,2) exact(2) all in auto)
    have bz: "bitmap_bytes n 0 = None" for n by (simp add: bitmap_bytes_def)
    show ?thesis using exact
      by (auto simp: s storage_config_from_def bz split: option.splits elim: bitmap_bytes_ok)
  qed
qed

text \<open>The files of the witnesses: a parsed file from its pairs.\<close>

definition config_of :: "(string \<times> string) list \<Rightarrow> t_config" where
  "config_of kvs = \<lparr>config_has_property = (\<lambda>k. map_of kvs k \<noteq> None), config_keys_amount = length (remdups (map fst kvs)),
     config_get_string_value = map_of kvs, config_get_int_value = (\<lambda>k. case map_of kvs k of None \<Rightarrow> 0 | Some v \<Rightarrow> atoi v)\<rparr>"

lemma config_of_ok: "config_ok (config_of kvs)"
proof -
  have "{k. map_of kvs k \<noteq> None} = set (map fst kvs)" by (auto simp: map_of_eq_None_iff)
  then show ?thesis by (simp add: config_ok_def config_of_def length_remdups_card_conv)
qed

definition demo_keys :: "(string \<times> string) list" where
  "demo_keys = [(''STORAGE_IP'', ''127.0.0.1''), (''STORAGE_PORT'', ''9002''), (''FRESH_START'', ''TRUE''), (''MOUNT_POINT'', ''v''),
     (''OPERATION_DELAY'', ''0''), (''BLOCK_ACCESS_DELAY'', ''0''), (''LOG_LEVEL'', ''INFO'')]"

definition demo_files :: "string \<Rightarrow> t_config option" where
  "demo_files = map_of [(''s.config'', config_of demo_keys), (''more.config'', config_of ((''EXTRA'', ''1'') # demo_keys)),
     (''less.config'', config_of (take 2 demo_keys)), (''v/superblock.config'', config_of [(''FS_SIZE'', ''32''), (''BLOCK_SIZE'', ''4'')])]"

theorem storage_config_spec_witness:
  "(\<exists>sc. create_storage_config demo_files (\<lambda>l. 0) ''s.config'' = Pointer sc \<and> sc_fs_size sc = 32 \<and> sc_block_size sc = 4 \<and>
      unat (sc_bitmap_size_bytes sc) = 1 \<and> sc_fresh_start sc) \<and>
   create_storage_config demo_files (\<lambda>l. 0) ''more.config'' = Undefined \<and>
   create_storage_config demo_files (\<lambda>l. 0) ''less.config'' = Undefined"
proof (intro conjI)
  note ok = config_of_ok
  have f: "demo_files ''s.config'' = Some (config_of demo_keys)"
    "demo_files ''more.config'' = Some (config_of ((''EXTRA'', ''1'') # demo_keys))"
    "demo_files ''less.config'' = Some (config_of (take 2 demo_keys))"
    "demo_files ''v/superblock.config'' = Some (config_of [(''FS_SIZE'', ''32''), (''BLOCK_SIZE'', ''4'')])"
    by (simp_all add: demo_files_def)
  have n: "config_keys_amount (config_of demo_keys) = 7" "config_keys_amount (config_of ((''EXTRA'', ''1'') # demo_keys)) = 8"
    "config_keys_amount (config_of (take 2 demo_keys)) = 2" by code_simp+
  have p: "list_all (config_has_property (config_of demo_keys)) (take 7 required_props)"
    "list_all (config_has_property (config_of ((''EXTRA'', ''1'') # demo_keys))) (take 8 required_props)"
    "list_all (config_has_property (config_of (take 2 demo_keys))) (take 2 required_props)" by code_simp+
  show "create_storage_config demo_files (\<lambda>l. 0) ''more.config'' = Undefined"
    using storage_config_spec [where open_config = demo_files and path = "''more.config''" and level = "\<lambda>l. 0", OF f(2) ok] p(2) unfolding n list_all_iff by simp
  show "create_storage_config demo_files (\<lambda>l. 0) ''less.config'' = Undefined"
    using storage_config_spec [where open_config = demo_files and path = "''less.config''" and level = "\<lambda>l. 0", OF f(3) ok] p(3) unfolding n list_all_iff by simp
  have v: "config_get_string_value (config_of demo_keys) ''MOUNT_POINT'' = Some ''v''"
    "config_get_string_value (config_of demo_keys) ''FRESH_START'' = Some ''TRUE''"
    "config_get_int_value (config_of [(''FS_SIZE'', ''32''), (''BLOCK_SIZE'', ''4'')]) ''FS_SIZE'' = 32"
    "config_get_int_value (config_of [(''FS_SIZE'', ''32''), (''BLOCK_SIZE'', ''4'')]) ''BLOCK_SIZE'' = 4"
    "config_has_property (config_of [(''FS_SIZE'', ''32''), (''BLOCK_SIZE'', ''4'')]) ''FS_SIZE''"
    "config_has_property (config_of [(''FS_SIZE'', ''32''), (''BLOCK_SIZE'', ''4'')]) ''BLOCK_SIZE''" by code_simp+
  show "\<exists>sc. create_storage_config demo_files (\<lambda>l. 0) ''s.config'' = Pointer sc \<and> sc_fs_size sc = 32 \<and> sc_block_size sc = 4 \<and>
      unat (sc_bitmap_size_bytes sc) = 1 \<and> sc_fresh_start sc"
    using storage_config_spec [where open_config = demo_files and path = "''s.config''" and level = "\<lambda>l. 0", OF f(1) ok] p(1) unfolding n list_all_iff by (auto simp: v f(4) PATH_MAX_def)
qed

subsection \<open>Storage and Master\<close>




text \<open>The Master serves from its initial state, and ages queries under PRIORITY only.\<close>

lemma master_starts:
  "master_main open_config level calls argv = Some (Master_serving fd aging s) \<Longrightarrow>
    \<exists>interval. s = init_master interval (scheduling_algorithm s) \<and> (aging \<longleftrightarrow> scheduling_algorithm s = ''PRIORITY'')"
  by (auto simp: master_main_def Let_def init_master_def split: list.splits pointer.splits if_splits)

text \<open>Destroying the Master frees every control block it has, once, in whatever state it is.\<close>

lemma free_blocks_all:
  assumes "distinct ps" and "set ps \<subseteq> dom heap"
  shows "free_blocks ps heap = Some (heap |` (- set ps))"
  using assms
proof (induction ps arbitrary: heap)
  case (Cons p ps)
  then have "free_blocks ps (heap(p := None)) = Some (heap(p := None) |` (- set ps))" by (intro Cons.IH) auto
  moreover have "heap(p := None) |` (- set ps) = heap |` (- set (p # ps))" by (auto simp: restrict_map_def fun_eq_iff)
  ultimately show ?case using Cons.prems by auto
qed (simp add: restrict_map_def)

lemma destroy_master_frees_all:
  assumes "reachable s" and "scheduling_algorithm s \<noteq> ''PRIORITY''"
  shows "destroy_master s = Some (s\<lparr>qcb_heap := Map.empty, wcb_heap := Map.empty\<rparr>)"
proof -
  have "queries_ok s" "workers_ok s" using reachable_ok [OF assms(1)] by (simp_all add: master_ok_def)
  then have d: "distinct (queries s)" "set (queries s) = dom (qcb_heap s)" "distinct (workers s)" "set (workers s) = dom (wcb_heap s)"
    by (simp_all add: queries_ok_def workers_ok_def)
  have e: "m |` (- dom m) = Map.empty" for m :: "ptr \<rightharpoonup> 'x" by (auto simp: restrict_map_def fun_eq_iff)
  show ?thesis using d assms(2) by (simp add: destroy_master_def free_blocks_all e)
qed

text \<open>A key missing in the configuration of a Worker is never reported: it is undefined behaviour.\<close>

lemma read_strings_all:
  "read_strings c keys \<noteq> None \<longleftrightarrow> (\<forall>k \<in> set keys. config_has_property c k \<and> (\<exists>v. config_get_string_value c k = Some v \<and> v \<noteq> []))"
  by (induction keys) (auto split: option.splits)

lemma worker_config_missing_key:
  assumes "open_config path = Some c" and "k \<in> set worker_keys" and "\<not> config_has_property c k"
  shows "create_worker_config open_config garbage path = Undefined"
proof -
  have "read_strings c worker_keys = None" using read_strings_all [of c worker_keys] assms(2,3) by blast
  then show ?thesis by (simp add: create_worker_config_def assms(1))
qed

end
