(* ===== verification/Storage_Sessions.thy ===== *)
theory Storage_Sessions
  imports Storage_Properties Storage_Client
begin

text \<open>
  The Storage process as a whole: the connections it serves, each by a thread of
  \<^verbatim>\<open>handle_client\<close> in \<^verbatim>\<open>storage/src/server/server.c\<close>, over one filesystem and one counter of
  Workers. An event is a connection that \<^verbatim>\<open>main\<close> accepts, a package that arrives on one, or
  the end of one; the events of different connections come in any order. A request is one
  event: the locks that would make it one in the program are commented out.
\<close>

record storage_server =
  srv_state :: storage_state
  srv_clients :: "int \<rightharpoonup> t_client_data"
  srv_replies :: "(int \<times> t_package) list"

datatype storage_event = Connects int | Sends int t_package | Disconnects int

text \<open>
  A handler without a response ends the thread, which closes the connection and leaves the
  counter alone. The identifier of a new client is not set.
\<close>

fun serve :: "storage_env \<Rightarrow> storage_event \<Rightarrow> storage_server \<Rightarrow> storage_server" where
  "serve g (Connects c) s =
     (if srv_clients s c = None then s\<lparr>srv_clients := (srv_clients s)(c \<mapsto> \<lparr>client_socket = c, client_id = None\<rparr>)\<rparr> else s)"
| "serve g (Sends c request) s =
     (case srv_clients s c of
        None \<Rightarrow> s
      | Some client_data \<Rightarrow>
          (case handle_client_request g (srv_state s) client_data request of
             (None, st, _) \<Rightarrow> s\<lparr>srv_state := st, srv_clients := (srv_clients s)(c := None)\<rparr>
           | (Some response, st, client_data1) \<Rightarrow>
               s\<lparr>srv_state := st, srv_clients := (srv_clients s)(c \<mapsto> client_data1),
                 srv_replies := srv_replies s @ [(c, response)]\<rparr>))"
| "serve g (Disconnects c) s =
     (case srv_clients s c of
        None \<Rightarrow> s
      | Some _ \<Rightarrow> s\<lparr>srv_state := handle_client_closed (srv_state s), srv_clients := (srv_clients s)(c := None)\<rparr>)"


subsection \<open>The File:Tag of a request\<close>







subsection \<open>A request\<close>










subsection \<open>Any number of connections\<close>





subsection \<open>The counter of Workers\<close>

text \<open>
  The counter is right while every connection begins with its one handshake, has all its
  requests answered and closes after that.
\<close>

definition polite :: "storage_env \<Rightarrow> storage_server \<Rightarrow> storage_event \<Rightarrow> bool" where
  "polite g s e \<longleftrightarrow>
     (case e of
        Connects c \<Rightarrow> True
      | Sends c p \<Rightarrow> (\<forall>cd. srv_clients s c = Some cd \<longrightarrow>
          (operation_code p = STORAGE_OP_WORKER_SEND_ID_REQ \<longleftrightarrow> client_id cd = None) \<and>
          fst (handle_client_request g (srv_state s) cd p) \<noteq> None)
      | Disconnects c \<Rightarrow> (\<forall>cd. srv_clients s c = Some cd \<longrightarrow> client_id cd \<noteq> None))"

inductive polite_step :: "storage_env \<Rightarrow> storage_server \<Rightarrow> storage_server \<Rightarrow> bool" for g where
  "polite g s e \<Longrightarrow> polite_step g s (serve g e s)"

definition identified :: "(int \<rightharpoonup> t_client_data) \<Rightarrow> int set" where
  "identified clients = {c. \<exists>cd. clients c = Some cd \<and> client_id cd \<noteq> None}"

definition counted :: "storage_server \<Rightarrow> bool" where
  "counted s \<longleftrightarrow> finite (dom (srv_clients s)) \<and> g_worker_counter (srv_state s) = int (card (identified (srv_clients s)))"

lemma identified_update:
  "identified (clients(c \<mapsto> cd)) = (if client_id cd = None then identified clients - {c} else insert c (identified clients))"
  "identified (clients(c := None)) = identified clients - {c}"
  by (auto simp: identified_def)

lemma identified_finite: "finite (dom clients) \<Longrightarrow> finite (identified clients)"
  by (rule finite_subset [of _ "dom clients"]) (auto simp: identified_def)

lemma answered_counter:
  assumes "handle_client_request g st cd p = (Some r, st', cd')"
  shows "operation_code p = STORAGE_OP_WORKER_SEND_ID_REQ \<Longrightarrow> g_worker_counter st' = g_worker_counter st + 1 \<and> client_id cd' \<noteq> None"
    and "operation_code p \<noteq> STORAGE_OP_WORKER_SEND_ID_REQ \<Longrightarrow> g_worker_counter st' = g_worker_counter st \<and> cd' = cd"
  using assms by (auto simp: handle_client_request_def handle_handshake_def Let_def split: if_splits prod.splits option.splits)

interpretation server_count: invariant_system "polite_step g" counted for g
proof
  fix s s' assume st: "polite_step g s s'" and ok: "counted s"
  obtain e where e: "polite g s e" "s' = serve g e s" using st by (auto elim: polite_step.cases)
  note fin = identified_finite [of "srv_clients s"]
  show "counted s'"
  proof (cases e)
    case (Connects c)
    have "c \<notin> identified (srv_clients s)" if "srv_clients s c = None" using that by (simp add: identified_def)
    then show ?thesis using ok e(2) Connects by (auto simp: counted_def identified_update)
  next
    case (Sends c p)
    show ?thesis
    proof (cases "srv_clients s c")
      case (Some cd)
      obtain r st' cd' where h: "handle_client_request g (srv_state s) cd p = (Some r, st', cd')"
        using e(1) Some by (cases "handle_client_request g (srv_state s) cd p") (auto simp: polite_def Sends)
      note a = answered_counter [OF h]
      have i: "c \<in> identified (srv_clients s) \<longleftrightarrow> client_id cd \<noteq> None" using Some by (simp add: identified_def)
      have "operation_code p = STORAGE_OP_WORKER_SEND_ID_REQ \<longleftrightarrow> client_id cd = None" using e(1) Some by (simp add: polite_def Sends)
      then show ?thesis using ok e(2) Some h a i fin
        by (cases "client_id cd = None") (auto simp: counted_def identified_update Sends insert_absorb)
    qed (use ok e(2) Sends in simp)
  next
    case (Disconnects c)
    show ?thesis
    proof (cases "srv_clients s c")
      case (Some cd)
      have "c \<in> identified (srv_clients s)" using e(1) Some by (auto simp: polite_def Disconnects identified_def)
      moreover from this have "0 < card (identified (srv_clients s))" using ok fin by (auto simp: counted_def card_gt_0_iff)
      ultimately show ?thesis using ok e(2) Some fin
        by (auto simp: counted_def identified_update Disconnects handle_client_closed_def of_nat_diff)
    qed (use ok e(2) Disconnects in simp)
  qed
qed

lemma worker_count_exact:
  assumes "(polite_step g)\<^sup>*\<^sup>* s t" and "srv_clients s = Map.empty" and "g_worker_counter (srv_state s) = 0"
  shows "g_worker_counter (srv_state t) = int (card {c. \<exists>cd. srv_clients t c = Some cd \<and> client_id cd \<noteq> None})"
proof -
  have "counted s" using assms(2,3) by (simp add: counted_def identified_def)
  then show ?thesis using server_count.steps_inv [OF assms(1)] by (simp add: counted_def identified_def)
qed

text \<open>A connection without a handshake that closes counts one Worker too few; one that is dropped for its request, one too many.\<close>

lemma silent_connection_miscounts:
  assumes "srv_clients s c = None"
  shows "g_worker_counter (srv_state (fold (serve g) [Connects c, Disconnects c] s)) = g_worker_counter (srv_state s) - 1"
    and "srv_clients (fold (serve g) [Connects c, Disconnects c] s) = srv_clients s"
  using assms by (simp_all add: handle_client_closed_def fun_upd_idem)

lemma dropped_worker_still_counted:
  assumes "srv_clients s c = Some cd" and "operation_code p = STORAGE_OP_ERROR"
  shows "g_worker_counter (srv_state (serve g (Sends c p) s)) = g_worker_counter (srv_state s)"
    and "srv_clients (serve g (Sends c p) s) c = None"
  using assms by (simp_all add: handle_client_request_def storage_op_defs)

end
