(* ===== verification/File_Locks.thy ===== *)
theory File_Locks
  imports Prelude
begin

text \<open>
  The reader/writer locks of Storage: \<^verbatim>\<open>storage/src/file_locks.c\<close>. A dictionary maps
  \<^verbatim>\<open>File:Tag\<close> to a reference-counted lock that the first user creates and the last one frees.
  What a thread does while it holds the mutex of the dictionary is one step, and so is each
  call on a lock; a call waits while the lock is taken. Every use of a lock, from
  \<^verbatim>\<open>lock_file\<close> to the end of \<^verbatim>\<open>unlock_file\<close>, is a session with its own number, so that a thread
  that takes two locks is two sessions. The operations do not call these functions at
  present: the calls are commented out.
\<close>

type_synonym session = nat
type_synonym mutex_ptr = nat

record t_file_mutex =
  rw_readers :: "session set"
  rw_writer :: "session option"
  ref_count :: nat

record open_files =
  open_files_dict :: "string \<rightharpoonup> mutex_ptr"
  mutex_heap :: "mutex_ptr \<rightharpoonup> t_file_mutex"
  fresh_mutex :: mutex_ptr

subsection \<open>The functions\<close>

definition lock_key :: "string \<Rightarrow> string \<Rightarrow> string" where
  "lock_key name tag = name @ '':'' @ tag"

definition upd_mutex :: "mutex_ptr \<Rightarrow> (t_file_mutex \<Rightarrow> t_file_mutex) \<Rightarrow> open_files \<Rightarrow> open_files" where
  "upd_mutex fm f s = s\<lparr>mutex_heap := (mutex_heap s)(fm := map_option f (mutex_heap s fm))\<rparr>"

text \<open>The section of \<^verbatim>\<open>lock_file\<close> under the mutex of the dictionary.\<close>

definition lock_file_section :: "string \<Rightarrow> open_files \<Rightarrow> mutex_ptr \<times> open_files" where
  "lock_file_section key s =
     (let (fm, s1) =
        (case open_files_dict s key of
           Some fm \<Rightarrow> (fm, s)
         | None \<Rightarrow>
             let fm = fresh_mutex s
             in (fm, s\<lparr>open_files_dict := (open_files_dict s)(key \<mapsto> fm),
                       mutex_heap := (mutex_heap s)(fm \<mapsto> \<lparr>rw_readers = {}, rw_writer = None, ref_count = 0\<rparr>),
                       fresh_mutex := fm + 1\<rparr>))
      in (fm, upd_mutex fm (\<lambda>m. m\<lparr>ref_count := ref_count m + 1\<rparr>) s1))"

text \<open>\<^verbatim>\<open>pthread_rwlock_wrlock\<close> and \<^verbatim>\<open>pthread_rwlock_rdlock\<close>; \<open>None\<close> while they wait.\<close>

definition rwlock_lock :: "session \<Rightarrow> bool \<Rightarrow> t_file_mutex \<Rightarrow> t_file_mutex option" where
  "rwlock_lock a for_write m =
     (if for_write then if rw_writer m = None \<and> rw_readers m = {} then Some (m\<lparr>rw_writer := Some a\<rparr>) else None
      else if rw_writer m = None then Some (m\<lparr>rw_readers := insert a (rw_readers m)\<rparr>) else None)"

definition rwlock_unlock :: "session \<Rightarrow> t_file_mutex \<Rightarrow> t_file_mutex" where
  "rwlock_unlock a m = (if rw_writer m = Some a then m\<lparr>rw_writer := None\<rparr> else m\<lparr>rw_readers := rw_readers m - {a}\<rparr>)"

text \<open>The last section of \<^verbatim>\<open>unlock_file\<close>.\<close>

definition unlock_file_section :: "string \<Rightarrow> mutex_ptr \<Rightarrow> open_files \<Rightarrow> open_files" where
  "unlock_file_section key fm s =
     (let s1 = upd_mutex fm (\<lambda>m. m\<lparr>ref_count := ref_count m - 1\<rparr>) s
      in if map_option ref_count (mutex_heap s1 fm) \<noteq> Some 0 then s1
         else case open_files_dict s1 key of
           None \<Rightarrow> s1
         | Some removed_fm \<Rightarrow>
             s1\<lparr>open_files_dict := (open_files_dict s1)(key := None), mutex_heap := (mutex_heap s1)(removed_fm := None)\<rparr>)"

text \<open>
  Where a session is: outside, between the section of \<^verbatim>\<open>lock_file\<close> and its lock, with the lock,
  in \<^verbatim>\<open>unlock_file\<close> before it gives the lock back, and before its last section.
\<close>

datatype lock_pc =
  Idle
| Locking string bool mutex_ptr
| Holding string bool mutex_ptr
| Unlocking string bool mutex_ptr
| Releasing string mutex_ptr

inductive file_lock_step :: "open_files \<times> (session \<Rightarrow> lock_pc) \<Rightarrow> open_files \<times> (session \<Rightarrow> lock_pc) \<Rightarrow> bool" where
  enter: "pc a = Idle \<Longrightarrow> lock_file_section (lock_key name tag) s = (fm, s') \<Longrightarrow>
    file_lock_step (s, pc) (s', pc(a := Locking (lock_key name tag) w fm))"
| acquire: "pc a = Locking key w fm \<Longrightarrow> mutex_heap s fm = Some m \<Longrightarrow> rwlock_lock a w m = Some m' \<Longrightarrow>
    file_lock_step (s, pc) (upd_mutex fm (\<lambda>_. m') s, pc(a := Holding key w fm))"
| find: "pc a = Holding key w fm \<Longrightarrow> open_files_dict s key = Some fm' \<Longrightarrow>
    file_lock_step (s, pc) (s, pc(a := Unlocking key w fm'))"
| give_back: "pc a = Unlocking key w fm \<Longrightarrow> mutex_heap s fm = Some m \<Longrightarrow>
    file_lock_step (s, pc) (upd_mutex fm (rwlock_unlock a) s, pc(a := Releasing key fm))"
| leave: "pc a = Releasing key fm \<Longrightarrow> mutex_heap s fm = Some m \<Longrightarrow>
    file_lock_step (s, pc) (unlock_file_section key fm s, pc(a := Idle))"

definition no_open_files :: open_files where
  "no_open_files = \<lparr>open_files_dict = Map.empty, mutex_heap = Map.empty, fresh_mutex = 0\<rparr>"

text \<open>\<^verbatim>\<open>cleanup_file_sync\<close> at the end of the program frees what is left.\<close>

definition cleanup_file_sync :: "open_files \<Rightarrow> open_files" where
  "cleanup_file_sync s =
     s\<lparr>open_files_dict := Map.empty, mutex_heap := (\<lambda>fm. if fm \<in> ran (open_files_dict s) then None else mutex_heap s fm)\<rparr>"

subsection \<open>The invariant\<close>

fun uses :: "lock_pc \<Rightarrow> (string \<times> mutex_ptr) option" where
  "uses Idle = None"
| "uses (Locking key w fm) = Some (key, fm)"
| "uses (Holding key w fm) = Some (key, fm)"
| "uses (Unlocking key w fm) = Some (key, fm)"
| "uses (Releasing key fm) = Some (key, fm)"

fun holds :: "lock_pc \<Rightarrow> (mutex_ptr \<times> bool) option" where
  "holds (Holding key w fm) = Some (fm, w)"
| "holds (Unlocking key w fm) = Some (fm, w)"
| "holds _ = None"

definition users :: "(session \<Rightarrow> lock_pc) \<Rightarrow> mutex_ptr \<Rightarrow> session set" where
  "users pc fm = {a. \<exists>key. uses (pc a) = Some (key, fm)}"

text \<open>A lock in the heap is the one of some key, counts its users and knows who holds it.\<close>

definition mutex_ok :: "(session \<Rightarrow> lock_pc) \<Rightarrow> mutex_ptr \<Rightarrow> t_file_mutex \<Rightarrow> bool" where
  "mutex_ok pc fm m \<longleftrightarrow> ref_count m = card (users pc fm) \<and> users pc fm \<noteq> {} \<and>
     (\<forall>a. rw_writer m = Some a \<longleftrightarrow> holds (pc a) = Some (fm, True)) \<and>
     rw_readers m = {a. holds (pc a) = Some (fm, False)} \<and>
     (rw_writer m \<noteq> None \<longrightarrow> rw_readers m = {})"

definition file_locks_ok :: "open_files \<times> (session \<Rightarrow> lock_pc) \<Rightarrow> bool" where
  "file_locks_ok sp \<longleftrightarrow> (case sp of (s, pc) \<Rightarrow>
     finite {a. pc a \<noteq> Idle} \<and>
     (\<forall>a key fm. uses (pc a) = Some (key, fm) \<longrightarrow> open_files_dict s key = Some fm) \<and>
     (\<forall>key fm. open_files_dict s key = Some fm \<longrightarrow> mutex_heap s fm \<noteq> None) \<and>
     (\<forall>key key' fm. open_files_dict s key = Some fm \<and> open_files_dict s key' = Some fm \<longrightarrow> key = key') \<and>
     (\<forall>fm m. mutex_heap s fm = Some m \<longrightarrow> fm < fresh_mutex s \<and> (\<exists>key. open_files_dict s key = Some fm) \<and> mutex_ok pc fm m))"

lemma file_locks_okD:
  assumes "file_locks_ok (s, pc)"
  shows "finite {a. pc a \<noteq> Idle}" and "uses (pc a) = Some (key, fm) \<Longrightarrow> open_files_dict s key = Some fm"
    and "open_files_dict s key = Some fm \<Longrightarrow> \<exists>m. mutex_heap s fm = Some m"
    and "open_files_dict s key = Some fm \<Longrightarrow> open_files_dict s key' = Some fm \<Longrightarrow> key = key'"
    and "mutex_heap s fm = Some m \<Longrightarrow> fm < fresh_mutex s"
    and "mutex_heap s fm = Some m \<Longrightarrow> \<exists>key. open_files_dict s key = Some fm"
    and "mutex_heap s fm = Some m \<Longrightarrow> mutex_ok pc fm m"
  using assms by (auto simp: file_locks_ok_def)

lemma file_locks_okI:
  assumes "finite {a. pc a \<noteq> Idle}" and "\<And>a key fm. uses (pc a) = Some (key, fm) \<Longrightarrow> open_files_dict s key = Some fm"
    and "\<And>key fm. open_files_dict s key = Some fm \<Longrightarrow> \<exists>m. mutex_heap s fm = Some m"
    and "\<And>key key' fm. open_files_dict s key = Some fm \<Longrightarrow> open_files_dict s key' = Some fm \<Longrightarrow> key = key'"
    and "\<And>fm m. mutex_heap s fm = Some m \<Longrightarrow> fm < fresh_mutex s \<and> (\<exists>key. open_files_dict s key = Some fm) \<and> mutex_ok pc fm m"
  shows "file_locks_ok (s, pc)"
  using assms by (auto simp: file_locks_ok_def)

lemma holds_uses: "holds p = Some (fm, w) \<Longrightarrow> \<exists>key. uses p = Some (key, fm)"
  by (cases p) auto

lemma busy_finite: "finite {a. pc a \<noteq> Idle} \<Longrightarrow> finite {a. (pc(b := x)) a \<noteq> Idle}"
  by (rule finite_subset [of _ "insert b {a. pc a \<noteq> Idle}"]) auto

lemma users_finite: "finite {a. pc a \<noteq> Idle} \<Longrightarrow> finite (users pc fm)"
  by (rule finite_subset [of _ "{a. pc a \<noteq> Idle}"]) (auto simp: users_def)

lemma users_same: "uses x = uses (pc a) \<Longrightarrow> users (pc(a := x)) fm = users pc fm"
  by (auto simp: users_def)

text \<open>A step of a session that stays a user of the same lock keeps the others' locks sound.\<close>

lemma mutex_ok_other:
  assumes "mutex_ok pc g m" and "uses x = uses (pc a)" and "uses x = Some (key, fm)" and "g \<noteq> fm"
  shows "mutex_ok (pc(a := x)) g m"
proof -
  have "holds x \<noteq> Some (g, w)" "holds (pc a) \<noteq> Some (g, w)" for w
    using assms(2-4) holds_uses [of x g w] holds_uses [of "pc a" g w] by auto
  then have h: "holds ((pc(a := x)) b) = Some (g, w) \<longleftrightarrow> holds (pc b) = Some (g, w)" for b w by simp
  show ?thesis using assms(1) unfolding mutex_ok_def h users_same [of x pc a, OF assms(2)] .
qed

text \<open>A step that writes one lock and sends no session to another.\<close>

lemma one_mutex_step:
  assumes ok: "file_locks_ok (s, pc)" and fin: "finite {b. pc' b \<noteq> Idle}"
    and uses: "\<And>b k f. uses (pc' b) = Some (k, f) \<Longrightarrow> open_files_dict s k = Some f"
    and m: "mutex_heap s fm = Some m" and m': "mutex_ok pc' fm m'"
    and others: "\<And>g n. mutex_ok pc g n \<Longrightarrow> g \<noteq> fm \<Longrightarrow> mutex_ok pc' g n"
  shows "file_locks_ok (upd_mutex fm (\<lambda>_. m') s, pc')"
proof (rule file_locks_okI [OF fin])
  note d = file_locks_okD [OF ok]
  show "open_files_dict (upd_mutex fm (\<lambda>_. m') s) k = Some f" if "uses (pc' b) = Some (k, f)" for b k f
    using uses [OF that] by (simp add: upd_mutex_def)
  show "\<exists>m. mutex_heap (upd_mutex fm (\<lambda>_. m') s) f = Some m" if "open_files_dict (upd_mutex fm (\<lambda>_. m') s) k = Some f" for k f
    using that d(3) m by (auto simp: upd_mutex_def)
  show "k = k'" if "open_files_dict (upd_mutex fm (\<lambda>_. m') s) k = Some f" "open_files_dict (upd_mutex fm (\<lambda>_. m') s) k' = Some f" for k k' f
    using that d(4) by (simp add: upd_mutex_def)
  show "f < fresh_mutex (upd_mutex fm (\<lambda>_. m') s) \<and> (\<exists>k. open_files_dict (upd_mutex fm (\<lambda>_. m') s) k = Some f) \<and> mutex_ok pc' f n"
    if "mutex_heap (upd_mutex fm (\<lambda>_. m') s) f = Some n" for f n
    using that d(5-7) m m' others [of f n] by (cases "f = fm") (auto simp: upd_mutex_def)
qed

lemma same_user_step:
  assumes ok: "file_locks_ok (s, pc)" and u: "uses x = uses (pc a)" "uses x = Some (key, fm)"
    and m: "mutex_heap s fm = Some m" and m': "mutex_ok (pc(a := x)) fm m'"
  shows "file_locks_ok (upd_mutex fm (\<lambda>_. m') s, pc(a := x))"
proof (rule one_mutex_step [OF ok busy_finite _ m m'])
  note d = file_locks_okD [OF ok]
  show "finite {b. pc b \<noteq> Idle}" by (rule d(1))
  show "open_files_dict s k = Some f" if "uses ((pc(a := x)) b) = Some (k, f)" for b k f
    using that d(2) u by (auto split: if_splits)
  show "mutex_ok (pc(a := x)) g n" if "mutex_ok pc g n" "g \<noteq> fm" for g n
    using that u by (intro mutex_ok_other [where key = key and fm = fm])
qed

lemma acquire_ok:
  assumes ok: "file_locks_ok (s, pc)" and p: "pc a = Locking key w fm" and m: "mutex_heap s fm = Some m"
    and l: "rwlock_lock a w m = Some m'"
  shows "file_locks_ok (upd_mutex fm (\<lambda>_. m') s, pc(a := Holding key w fm))"
proof (rule same_user_step [OF ok _ _ m])
  let ?x = "Holding key w fm"
  show "uses ?x = uses (pc a)" "uses ?x = Some (key, fm)" using p by simp_all
  have u: "users (pc(a := ?x)) fm = users pc fm" using p by (intro users_same) simp
  have mo: "mutex_ok pc fm m" by (rule file_locks_okD(7) [OF ok m])
  have h: "holds ((pc(a := ?x)) b) = (if b = a then Some (fm, w) else holds (pc b))" for b by simp
  have a: "holds (pc a) = None" using p by simp
  show "mutex_ok (pc(a := ?x)) fm m'"
    using l mo a unfolding mutex_ok_def u h by (auto simp: rwlock_lock_def split: if_splits)
qed

lemma find_ok:
  assumes ok: "file_locks_ok (s, pc)" and p: "pc a = Holding key w fm" and f: "open_files_dict s key = Some fm'"
  shows "file_locks_ok (s, pc(a := Unlocking key w fm'))" and "fm' = fm"
proof -
  note d = file_locks_okD [OF ok]
  show e: "fm' = fm" using d(2) [of a key fm] p f by simp
  obtain m where m: "mutex_heap s fm = Some m" using d(3) f e by blast
  have "file_locks_ok (upd_mutex fm (\<lambda>_. m) s, pc(a := Unlocking key w fm))"
  proof (rule same_user_step [OF ok _ _ m])
    let ?x = "Unlocking key w fm"
    show "uses ?x = uses (pc a)" "uses ?x = Some (key, fm)" using p by simp_all
    have u: "users (pc(a := ?x)) fm = users pc fm" using p by (intro users_same) simp
    have h: "holds ((pc(a := ?x)) b) = holds (pc b)" for b using p by simp
    show "mutex_ok (pc(a := ?x)) fm m" using d(7) [OF m] unfolding mutex_ok_def u h .
  qed
  moreover have "upd_mutex fm (\<lambda>_. m) s = s" using m by (simp add: upd_mutex_def fun_upd_idem)
  ultimately show "file_locks_ok (s, pc(a := Unlocking key w fm'))" using e by simp
qed

lemma give_back_ok:
  assumes ok: "file_locks_ok (s, pc)" and p: "pc a = Unlocking key w fm" and m: "mutex_heap s fm = Some m"
  shows "file_locks_ok (upd_mutex fm (rwlock_unlock a) s, pc(a := Releasing key fm))"
proof -
  have "file_locks_ok (upd_mutex fm (\<lambda>_. rwlock_unlock a m) s, pc(a := Releasing key fm))"
  proof (rule same_user_step [OF ok _ _ m])
    let ?x = "Releasing key fm"
    show "uses ?x = uses (pc a)" "uses ?x = Some (key, fm)" using p by simp_all
    have u: "users (pc(a := ?x)) fm = users pc fm" using p by (intro users_same) simp
    have h: "holds ((pc(a := ?x)) b) = (if b = a then None else holds (pc b))" for b by simp
    have a: "holds (pc a) = Some (fm, w)" using p by simp
    have mo: "mutex_ok pc fm m" by (rule file_locks_okD(7) [OF ok m])
    then have wr: "holds (pc b) = Some (fm, True) \<longleftrightarrow> rw_writer m = Some b"
      and rd: "rw_readers m = {b. holds (pc b) = Some (fm, False)}" and ex: "rw_writer m \<noteq> None \<Longrightarrow> rw_readers m = {}"
      and c: "ref_count m = card (users pc fm)" "users pc fm \<noteq> {}" for b unfolding mutex_ok_def by blast+
    show "mutex_ok (pc(a := ?x)) fm (rwlock_unlock a m)"
    proof (cases w)
      case True
      then have "rw_writer m = Some a" using a wr by simp
      then show ?thesis using c ex rd unfolding mutex_ok_def u h rwlock_unlock_def by (auto simp: wr)
    next
      case False
      then have "a \<in> rw_readers m" using a rd by simp
      then have "rw_writer m = None" using ex by (cases "rw_writer m") auto
      then show ?thesis using c rd unfolding mutex_ok_def u h rwlock_unlock_def by (auto simp: wr)
    qed
  qed
  then show ?thesis using m by (simp add: upd_mutex_def)
qed

text \<open>Entering: a new user of an old lock, or the first user of a new one.\<close>

lemma entering:
  fixes key w fm
  assumes fin: "finite {b. pc b \<noteq> Idle}" and p: "pc a = Idle"
  defines "pc' \<equiv> pc(a := Locking key w fm)"
  shows "mutex_ok pc g m \<Longrightarrow> g \<noteq> fm \<Longrightarrow> mutex_ok pc' g m"
    and "mutex_ok pc fm m \<Longrightarrow> mutex_ok pc' fm (m\<lparr>ref_count := ref_count m + 1\<rparr>)"
    and "users pc fm = {} \<Longrightarrow> mutex_ok pc' fm \<lparr>rw_readers = {}, rw_writer = None, ref_count = 1\<rparr>"
proof -
  have out: "a \<notin> users pc g" for g using p by (simp add: users_def)
  have users: "users pc' g = (if g = fm then insert a (users pc fm) else users pc g)" for g
    using p by (auto simp: users_def pc'_def)
  have h: "holds (pc' b) = holds (pc b)" for b using p by (simp add: pc'_def)
  show "mutex_ok pc' g m" if "mutex_ok pc g m" "g \<noteq> fm"
    using that unfolding mutex_ok_def users h by auto
  show "mutex_ok pc' fm (m\<lparr>ref_count := ref_count m + 1\<rparr>)" if "mutex_ok pc fm m"
    using that out [of fm] users_finite [OF fin, of fm] unfolding mutex_ok_def users h by auto
  show "mutex_ok pc' fm \<lparr>rw_readers = {}, rw_writer = None, ref_count = 1\<rparr>" if "users pc fm = {}"
  proof -
    have "holds (pc b) \<noteq> Some (fm, v)" for b v using holds_uses [of "pc b" fm v] that by (auto simp: users_def)
    then show ?thesis unfolding mutex_ok_def users h using that by simp
  qed
qed

lemma enter_known_ok:
  assumes ok: "file_locks_ok (s, pc)" and p: "pc a = Idle" and k: "open_files_dict s key = Some fm"
  shows "file_locks_ok (upd_mutex fm (\<lambda>m. m\<lparr>ref_count := ref_count m + 1\<rparr>) s, pc(a := Locking key w fm))"
proof -
  note d = file_locks_okD [OF ok]
  note e = entering [OF d(1) p]
  obtain m where m: "mutex_heap s fm = Some m" using d(3) [OF k] by blast
  have "file_locks_ok (upd_mutex fm (\<lambda>_. m\<lparr>ref_count := ref_count m + 1\<rparr>) s, pc(a := Locking key w fm))"
    by (rule one_mutex_step [OF ok busy_finite [OF d(1)] _ m e(2) [OF d(7) [OF m]] e(1)])
      (use d(2) k in \<open>auto split: if_splits\<close>)
  then show ?thesis using m by (simp add: upd_mutex_def)
qed

lemma enter_new_ok:
  assumes ok: "file_locks_ok (s, pc)" and p: "pc a = Idle" and k: "open_files_dict s key = None"
    and f: "fm = fresh_mutex s"
    and s': "open_files_dict s' = (open_files_dict s)(key \<mapsto> fm)" "fresh_mutex s' = fm + 1"
      "mutex_heap s' = (mutex_heap s)(fm \<mapsto> \<lparr>rw_readers = {}, rw_writer = None, ref_count = 1\<rparr>)"
  shows "file_locks_ok (s', pc(a := Locking key w fm))"
proof (rule file_locks_okI)
  note d = file_locks_okD [OF ok]
  note e = entering [OF d(1) p]
  let ?x = "Locking key w fm"
  have "mutex_heap s fm = None" using d(5) [of fm] f by (cases "mutex_heap s fm") auto
  then have nd: "open_files_dict s k \<noteq> Some fm" for k using d(3) [of k fm] by auto
  then have nu: "users pc fm = {}" using d(2) by (auto simp: users_def)
  show "finite {b. (pc(a := ?x)) b \<noteq> Idle}" by (rule busy_finite [OF d(1)])
  show "open_files_dict s' j = Some g" if "uses ((pc(a := ?x)) b) = Some (j, g)" for b j g
    using that d(2) [of b j g] k by (auto simp: s' split: if_splits)
  show "\<exists>m. mutex_heap s' g = Some m" if "open_files_dict s' j = Some g" for j g
    using that d(3) [of j g] by (auto simp: s' split: if_splits)
  show "i = j" if "open_files_dict s' i = Some g" "open_files_dict s' j = Some g" for i j g
    using that d(4) nd by (auto simp: s' split: if_splits)
  show "g < fresh_mutex s' \<and> (\<exists>j. open_files_dict s' j = Some g) \<and> mutex_ok (pc(a := ?x)) g m"
    if "mutex_heap s' g = Some m" for g m
  proof (cases "g = fm")
    case True
    then show ?thesis using that e(3) [OF nu] by (auto simp: s')
  next
    case False
    then have m: "mutex_heap s g = Some m" using that by (simp add: s')
    obtain j where "open_files_dict s j = Some g" using d(6) [OF m] by blast
    moreover from this have "j \<noteq> key" using k by auto
    ultimately have "open_files_dict s' j = Some g" by (simp add: s')
    then show ?thesis using d(5) [OF m] e(1) [OF d(7) [OF m] False] f by (auto simp: s'(2))
  qed
qed

lemma enter_ok:
  assumes "file_locks_ok (s, pc)" and "pc a = Idle" and "lock_file_section key s = (fm, s')"
  shows "file_locks_ok (s', pc(a := Locking key w fm))"
proof (cases "open_files_dict s key")
  case None
  then show ?thesis using assms(3)
    by (intro enter_new_ok [OF assms(1,2) None]) (auto simp: lock_file_section_def Let_def upd_mutex_def)
next
  case (Some g)
  then show ?thesis using assms(3) enter_known_ok [OF assms(1,2) Some] by (auto simp: lock_file_section_def)
qed

text \<open>Leaving: the last user frees the lock, any other one leaves it to the rest.\<close>

lemma leaving:
  assumes fin: "finite {b. pc b \<noteq> Idle}" and p: "pc a = Releasing key fm"
  defines "pc' \<equiv> pc(a := Idle)"
  shows "mutex_ok pc g m \<Longrightarrow> g \<noteq> fm \<Longrightarrow> mutex_ok pc' g m"
    and "mutex_ok pc fm m \<Longrightarrow> users pc fm \<noteq> {a} \<Longrightarrow>
      mutex_ok pc' fm (m\<lparr>ref_count := ref_count m - 1\<rparr>) \<and> 1 < ref_count m"
proof -
  have users: "users pc' g = users pc g - {a}" for g by (auto simp: users_def pc'_def)
  have a: "a \<in> users pc fm" "g \<noteq> fm \<Longrightarrow> a \<notin> users pc g" for g using p by (auto simp: users_def)
  have h: "holds (pc' b) = holds (pc b)" for b using p by (simp add: pc'_def)
  show "mutex_ok pc' g m" if "mutex_ok pc g m" "g \<noteq> fm"
    using that a(2) [OF that(2)] unfolding mutex_ok_def users h by auto
  show "mutex_ok pc' fm (m\<lparr>ref_count := ref_count m - 1\<rparr>) \<and> 1 < ref_count m" if ok: "mutex_ok pc fm m" and n: "users pc fm \<noteq> {a}"
  proof -
    have f: "finite (users pc fm)" by (rule users_finite [OF fin])
    have c: "ref_count m = card (users pc fm)" using ok by (simp add: mutex_ok_def)
    have "1 < card (users pc fm)" using psubset_card_mono [OF f, of "{a}"] a(1) n by auto
    moreover have "card (users pc fm - {a}) = ref_count m - 1" "users pc fm - {a} \<noteq> {}" using a(1) f c n by auto
    ultimately show ?thesis using ok c unfolding mutex_ok_def users h by auto
  qed
qed

lemma leave_last_ok:
  assumes ok: "file_locks_ok (s, pc)" and p: "pc a = Releasing key fm" and last: "users pc fm = {a}"
    and s': "open_files_dict s' = (open_files_dict s)(key := None)" "mutex_heap s' = (mutex_heap s)(fm := None)"
      "fresh_mutex s' = fresh_mutex s"
  shows "file_locks_ok (s', pc(a := Idle))"
proof (rule file_locks_okI)
  note d = file_locks_okD [OF ok]
  have dict: "open_files_dict s key = Some fm" using d(2) [of a key fm] p by simp
  show "finite {b. (pc(a := Idle)) b \<noteq> Idle}" by (rule busy_finite [OF d(1)])
  show "open_files_dict s' k = Some f" if "uses ((pc(a := Idle)) b) = Some (k, f)" for b k f
  proof -
    have b: "b \<noteq> a" "uses (pc b) = Some (k, f)" using that by (auto split: if_splits)
    then have "f \<noteq> fm" using last by (auto simp: users_def)
    then show ?thesis using d(2) [OF b(2)] dict by (auto simp: s')
  qed
  show "\<exists>m. mutex_heap s' f = Some m" if "open_files_dict s' k = Some f" for k f
    using that d(3) [of k f] d(4) [of k f key] dict by (auto simp: s' split: if_splits)
  show "k = k'" if "open_files_dict s' k = Some f" "open_files_dict s' k' = Some f" for k k' f
    using that d(4) by (auto simp: s' split: if_splits)
  show "f < fresh_mutex s' \<and> (\<exists>k. open_files_dict s' k = Some f) \<and> mutex_ok (pc(a := Idle)) f n"
    if "mutex_heap s' f = Some n" for f n
  proof -
    have f: "f \<noteq> fm" "mutex_heap s f = Some n" using that by (auto simp: s' split: if_splits)
    obtain k where "open_files_dict s k = Some f" using d(6) [OF f(2)] by blast
    moreover from this have "k \<noteq> key" using dict f(1) by auto
    ultimately have "open_files_dict s' k = Some f" by (simp add: s')
    then show ?thesis using d(5) [OF f(2)] leaving(1) [OF d(1) p d(7) [OF f(2)] f(1)] by (auto simp: s'(3))
  qed
qed

lemma leave_ok:
  assumes ok: "file_locks_ok (s, pc)" and p: "pc a = Releasing key fm" and m: "mutex_heap s fm = Some m"
  shows "file_locks_ok (unlock_file_section key fm s, pc(a := Idle))"
proof -
  note d = file_locks_okD [OF ok]
  have dict: "open_files_dict s key = Some fm" using d(2) [of a key fm] p by simp
  have mo: "mutex_ok pc fm m" by (rule d(7) [OF m])
  show ?thesis
  proof (cases "users pc fm = {a}")
    case True
    then have "ref_count m = 1" using mo by (simp add: mutex_ok_def)
    then show ?thesis using m dict
      by (intro leave_last_ok [OF ok p True]) (simp_all add: unlock_file_section_def Let_def upd_mutex_def)
  next
    case False
    note l = leaving [OF d(1) p]
    have "file_locks_ok (upd_mutex fm (\<lambda>_. m\<lparr>ref_count := ref_count m - 1\<rparr>) s, pc(a := Idle))"
      by (rule one_mutex_step [OF ok busy_finite [OF d(1)] _ m l(2) [OF mo False, THEN conjunct1] l(1)])
        (use d(2) in \<open>auto split: if_splits\<close>)
    moreover have "unlock_file_section key fm s = upd_mutex fm (\<lambda>_. m\<lparr>ref_count := ref_count m - 1\<rparr>) s"
      using m l(2) [OF mo False] by (simp add: unlock_file_section_def Let_def upd_mutex_def)
    ultimately show ?thesis by simp
  qed
qed

interpretation file_locks: invariant_system file_lock_step file_locks_ok
proof
  fix sp sp' assume "file_lock_step sp sp'" and "file_locks_ok sp"
  then show "file_locks_ok sp'"
    by (induction rule: file_lock_step.induct) (auto intro: enter_ok acquire_ok find_ok(1) give_back_ok leave_ok)
qed

lemma no_open_files_ok: "file_locks_ok (no_open_files, \<lambda>a. Idle)"
  by (simp add: file_locks_ok_def no_open_files_def)

lemma cleanup_frees_all:
  assumes "file_locks_ok (s, pc)"
  shows "mutex_heap (cleanup_file_sync s) = Map.empty"
proof
  fix fm
  show "mutex_heap (cleanup_file_sync s) fm = None"
    using file_locks_okD(6) [OF assms, of fm] by (cases "mutex_heap s fm") (auto simp: cleanup_file_sync_def ran_def)
qed

text \<open>A session that holds a lock excludes another one, unless both read.\<close>

lemma holders_share:
  assumes ok: "file_locks_ok (s, pc)" and a: "holds (pc a) = Some (fm, v)" and b: "holds (pc b) = Some (fm, w)" and "a \<noteq> b"
  shows "\<not> v \<and> \<not> w"
proof -
  note d = file_locks_okD [OF ok]
  obtain key where "uses (pc a) = Some (key, fm)" using holds_uses [OF a] by blast
  then obtain m where m: "mutex_heap s fm = Some m" using d(2,3) by blast
  have mo: "\<And>c. rw_writer m = Some c \<longleftrightarrow> holds (pc c) = Some (fm, True)"
    "rw_readers m = {c. holds (pc c) = Some (fm, False)}" "rw_writer m \<noteq> None \<Longrightarrow> rw_readers m = {}"
    using d(7) [OF m] unfolding mutex_ok_def by blast+
  have "False" if "holds (pc c) = Some (fm, True)" "holds (pc e) = Some (fm, x)" "c \<noteq> e" for c e x
    using that mo(1) [of c] mo(1) [of e] mo(2,3) by (cases x) auto
  then show ?thesis using a b assms(4) by (metis (full_types))
qed

text \<open>
  C30: The file locks do what they are for, whatever number of sessions use them and however
  their steps interleave. Two sessions that hold the lock of the same File:Tag both hold it
  for reading. A session always finds its lock where it left it: the block its pointer names is
  allocated and is the one the dictionary has for its File:Tag, so \<^verbatim>\<open>unlock_file\<close> never fails its
  assertion and never touches freed memory. And once no session is under way every lock has
  been freed.
\<close>

theorem file_locks_exclude:
  assumes "file_lock_step\<^sup>*\<^sup>* (no_open_files, \<lambda>a. Idle) (s, pc)"
  shows "(\<forall>a b key v w fm gm. pc a = Holding key v fm \<and> pc b = Holding key w gm \<and> a \<noteq> b \<longrightarrow> \<not> v \<and> \<not> w) \<and>
    (\<forall>a key fm. uses (pc a) = Some (key, fm) \<longrightarrow> open_files_dict s key = Some fm \<and> mutex_heap s fm \<noteq> None) \<and>
    ((\<forall>a. pc a = Idle) \<longrightarrow> open_files_dict s = Map.empty \<and> mutex_heap s = Map.empty)"
proof (intro conjI allI impI)
  note ok = file_locks.steps_inv [OF assms no_open_files_ok]
  note d = file_locks_okD [OF ok]
  fix a b key v w fm gm assume h: "pc a = Holding key v fm \<and> pc b = Holding key w gm \<and> a \<noteq> b"
  then have "open_files_dict s key = Some fm" "open_files_dict s key = Some gm" using d(2) [of a key fm] d(2) [of b key gm] by auto
  then have "gm = fm" by simp
  with h show "\<not> v" "\<not> w" using holders_share [OF ok, of a fm v b w] by auto
next
  note d = file_locks_okD [OF file_locks.steps_inv [OF assms no_open_files_ok]]
  fix a key fm assume "uses (pc a) = Some (key, fm)"
  then show "open_files_dict s key = Some fm" "mutex_heap s fm \<noteq> None" using d(2) [of a key fm] d(3) [of key fm] by auto
next
  note d = file_locks_okD [OF file_locks.steps_inv [OF assms no_open_files_ok]]
  assume idle: "\<forall>a. pc a = Idle"
  then have "users pc fm = {}" for fm by (simp add: users_def)
  then have n: "mutex_heap s fm = None" for fm using d(7) [of fm] by (cases "mutex_heap s fm") (auto simp: mutex_ok_def)
  then show "mutex_heap s = Map.empty" by blast
  show "open_files_dict s = Map.empty" using d(3) n by (metis ext option.distinct(1) option.exhaust)
qed

theorem file_locks_exclude_witness:
  "\<exists>s pc fm. file_lock_step\<^sup>*\<^sup>* (no_open_files, \<lambda>a. Idle) (s, pc) \<and> pc 0 = Holding (lock_key ''a'' ''v1'') False fm \<and>
    pc 1 = Holding (lock_key ''a'' ''v1'') False fm \<and> mutex_heap s fm \<noteq> None"
proof -
  let ?k = "lock_key ''a'' ''v1''"
  let ?m = "\<lambda>r n. \<lparr>rw_readers = r, rw_writer = None, ref_count = n\<rparr>"
  let ?s = "\<lambda>r n. \<lparr>open_files_dict = [?k \<mapsto> 0], mutex_heap = [0 \<mapsto> ?m r n], fresh_mutex = 1\<rparr>"
  let ?p1 = "(\<lambda>a. Idle)(0 := Locking ?k False 0)"
  let ?p2 = "?p1(1 := Locking ?k False 0)"
  let ?p3 = "?p2(0 := Holding ?k False 0)"
  let ?p4 = "?p3(1 := Holding ?k False 0)"
  have "file_lock_step (no_open_files, \<lambda>a. Idle) (?s {} 1, ?p1)"
    by (rule file_lock_step.enter) (simp_all add: lock_file_section_def no_open_files_def Let_def upd_mutex_def)
  moreover have "file_lock_step (?s {} 1, ?p1) (?s {} 2, ?p2)"
    by (rule file_lock_step.enter) (simp_all add: lock_file_section_def upd_mutex_def numeral_2_eq_2)
  moreover have "file_lock_step (?s {} 2, ?p2) (?s {0} 2, ?p3)"
    using file_lock_step.acquire [of ?p2 0 ?k False 0 "?s {} 2" "?m {} 2" "?m {0} 2"] by (simp add: rwlock_lock_def upd_mutex_def)
  moreover have "file_lock_step (?s {0} 2, ?p3) (?s {0, 1} 2, ?p4)"
    using file_lock_step.acquire [of ?p3 1 ?k False 0 "?s {0} 2" "?m {0} 2" "?m {0, 1} 2"]
    by (simp add: rwlock_lock_def upd_mutex_def insert_commute)
  ultimately have run: "file_lock_step\<^sup>*\<^sup>* (no_open_files, \<lambda>a. Idle) (?s {0, 1} 2, ?p4)"
    by (meson converse_rtranclp_into_rtranclp rtranclp.rtrancl_refl)
  have h: "?p4 0 = Holding ?k False 0" "?p4 1 = Holding ?k False 0" by simp_all
  have "mutex_heap (?s {0, 1} 2) 0 \<noteq> None"
    using file_locks_exclude [OF run, THEN conjunct2, THEN conjunct1, rule_format, of 0 ?k 0] by simp
  with run h show ?thesis by blast
qed

end
