(* ===== verification/Spec2Isabelle.thy ===== *)
theory Spec2Isabelle
  imports Worker_Properties Executor_Correct Query_Control Master_Locks Startup Storage_Sessions File_Locks
begin

text \<open>
  A verification of a distributed query system: Query Controls submit scripts to a Master,
  which schedules them on Workers; Workers interpret them over a paged memory backed by a
  Storage process with a block filesystem. All messages share one wire format.

  \<^bold>\<open>The program and the theories.\<close> Paths are relative to \<^verbatim>\<open>src/\<close>; definitions carry the
  names of the functions they translate.

  \<^item> Shared: \<open>Prelude\<close> (integer widths, byte strings, C strings, the two locales for step
    relations), \<open>Protocol\<close> (\<^verbatim>\<open>utils/src/connection/protocol.h\<close>), \<open>Serialization\<close>
    (\<^verbatim>\<open>serialization.c\<close>: buffers, packages, sending and receiving over a socket that delivers
    any fragments).
  \<^item> Storage: \<open>Storage_FS\<close> (directories, hard links, metadata, bitmap and hash index as a
    record; \<^verbatim>\<open>utils/filesystem_utils.c\<close>), \<open>Storage_Ops\<close> (\<^verbatim>\<open>operations/*.c\<close> and
    \<^verbatim>\<open>fresh_start.c\<close>), \<open>Storage_Server\<close> (the package handlers and \<^verbatim>\<open>server.c\<close>),
    \<open>Storage_Sessions\<close> (any number of connections at once, and the counter of Workers), \<open>File_Locks\<close>
    (\<^verbatim>\<open>file_locks.c\<close>: the reader/writer locks, whose calls in the operations are commented out).
    \<open>Storage_Links\<close>, \<open>Storage_Correct\<close>, \<open>Storage_Commit\<close> and \<open>Storage_Files\<close> show that every
    operation keeps the invariant of the filesystem (exact link counts, no linked block marked
    free) and touches only the File:Tag it names; \<open>Storage_Properties\<close> states the results.
  \<^item> Worker memory: \<open>Page_Table\<close> and \<open>Memory_Manager\<close> (\<^verbatim>\<open>worker/src/memory\<close>: page tables,
    frames, LRU and CLOCK-M, faults, accesses, flushes). \<open>Memory_Correct\<close>, \<open>Worker_Memory\<close> and
    \<open>Memory_Access\<close> prove it against the locale \<open>block_store\<close>, the contract of a store of
    blocks; \<open>Worker_Storage\<close> interprets that locale on the Worker's client functions
    (\<open>Storage_Client\<close>: \<^verbatim>\<open>connections/storage.c\<close>, \<^verbatim>\<open>common.c\<close>) talking to the modelled Storage
    process through the wire format, and \<open>Worker_Properties\<close> states what queries see.
  \<^item> Worker queries: \<open>Query_Interpreter\<close> (\<^verbatim>\<open>query_interpreter.c\<close>, \<^verbatim>\<open>connections/master.c\<close>),
    \<open>Query_Executor\<close> (\<^verbatim>\<open>query_executor.c\<close>, \<^verbatim>\<open>worker_listener.c\<close>, \<^verbatim>\<open>main.c\<close>: the two threads as
    a step relation, and the start of a Worker). \<open>Query_Scripts\<close> relates scripts and decoded
    instructions, \<open>Storage_Requests\<close> and \<open>Instruction_Correct\<close> give the effect of every
    instruction on what queries see, \<open>Executor_Correct\<close> relates the executor to a plain
    interpreter of scripts and treats evictions and the races with the listener.
  \<^item> Master: \<open>Master_Tables\<close> (control blocks in heaps, the lists of both tables, scheduler,
    aging, release of blocks), \<open>Master\<close> (\<^verbatim>\<open>query_control_manager.c\<close>, \<^verbatim>\<open>worker_manager.c\<close>,
    \<^verbatim>\<open>disconnection_handler.c\<close> and \<^verbatim>\<open>handle_client\<close> of \<^verbatim>\<open>main.c\<close>). \<open>Master_Invariant\<close> proves the
    invariant of the tables for the step relation whose steps are the critical sections,
    \<open>Master_Properties\<close> the behaviour of every message, \<open>Master_Locks\<close> the order of the mutexes.
  \<^item> Query Control: \<open>Query_Control\<close> (\<^verbatim>\<open>query_control/src/main.c\<close>).
  \<^item> Start-up: \<open>Startup\<close> (\<^verbatim>\<open>config/*_config.c\<close> of the four processes, \<^verbatim>\<open>read_superblock\<close>,
    \<^verbatim>\<open>utils/server.c\<close>, \<^verbatim>\<open>utils/client_socket.c\<close>, and \<^verbatim>\<open>main\<close> of Storage, Master and Worker up to
    their loops, \<^verbatim>\<open>destroy_master\<close>): which configurations are accepted, refused or undefined, what a failed
    socket gives back, and that a Storage that starts serves a sound filesystem.
  \<^item> This theory: what the processes do together. A query is registered as it was submitted, a
    READ shows the user the bytes the query sees, and an evicted query goes on, on any Worker,
    where it stopped.

  \<^bold>\<open>Interfaces.\<close> \<open>wire_codec\<close> is the contract of a field of a message, interpreted for the six
  kinds of fields; \<open>block_store\<close> the one between memory manager and Storage, interpreted on the
  real client and server; \<open>invariant_system\<close> and \<open>progress_system\<close> are those of step relations,
  interpreted for the Master, for its mutexes, for the two threads of a Worker and (the first)
  for the file locks of Storage and its counter of Workers.

  \<^bold>\<open>Conventions.\<close> C integers are words of their width where they wrap or are cut
  (identifiers, program counters, sizes on the wire, priorities, timestamps), and numbers
  otherwise. Pointers to control blocks are addresses in a heap with explicit deallocation.
  Undefined behaviour and calls that do not return are \<open>None\<close>; there is no fuel: every loop is
  a total recursion with its measure but the CLOCK-M search, a \<open>partial_function\<close> on options
  whose return is proved (with a page present or a frame free) or refuted. Sockets are streams that
  may deliver any fragments; sending succeeds or fails as the environment decides.
  A parsed configuration file, the bit array, \<^verbatim>\<open>string_split\<close>, \<^verbatim>\<open>string_equals_ignore_case\<close> and \<^verbatim>\<open>list_sort\<close> of the commons
  library and the hash function are parameters, with what they document as hypotheses.

  \<^bold>\<open>Not modelled.\<close> Failing \<^verbatim>\<open>malloc\<close> and system calls with sound arguments; functions that only
  free memory; the loggers (\<^verbatim>\<open>utils/logger.c\<close>, \<^verbatim>\<open>create_logger\<close>) and \<^verbatim>\<open>getcwd\<close>, which are taken
  to succeed; the artificial delays; the loops that accept connections and create threads.
  The operations of Storage do not take the file locks (the calls are commented out), so
  requests to Storage are sequences of whole operations.
\<close>

section \<open>From process to process\<close>

text \<open>What a dispatch does not touch of a control block.\<close>

definition same_query :: "t_query_control_block \<Rightarrow> t_query_control_block \<Rightarrow> bool" where
  "same_query a b \<longleftrightarrow> query_id a = query_id b \<and> query_file_path a = query_file_path b \<and> priority a = priority b \<and>
     program_counter a = program_counter b \<and> q_socket_fd a = q_socket_fd b"

lemma same_query_refl [simp]: "same_query a a"
  by (simp add: same_query_def)

lemma try_dispatch_keeps:
  assumes ok: "master_ok s"
  shows "queries (snd (try_dispatch env s)) = queries s" and "same_query (qcb (snd (try_dispatch env s)) x) (qcb s x)"
proof -
  have "queries (snd (try_dispatch env s)) = queries s \<and> same_query (qcb (snd (try_dispatch env s)) x) (qcb s x)"
  proof (cases "idle s = [] \<or> ready s = [] \<or> list_ex (\<lambda>q. preemption_pending (qcb s q)) (running s)")
    case True
    then show ?thesis by (auto simp: try_dispatch_def)
  next
    case False
    then obtain w ws q qs where i: "idle s = w # ws" and r: "ready s = q # qs" by (meson list.exhaust)
    obtain fits p where p: "add_fields (package_create_empty OP_WORKER_START_QUERY) (start_fields (qcb s q)) = (fits, p)"
      by (metis surj_pair)
    have h: "q \<in> dom (qcb_heap s)"
      using queries_okD(4) [OF master_okD(1) [OF ok]] queries_okD(5) [OF master_okD(1) [OF ok], of q] r by simp
    have sends: "qcb (s'\<lparr>sent := ps\<rparr>) = qcb s'" for s' ps by (simp add: qcb_def fun_eq_iff)
    have a: "queries ((assign q w s)\<lparr>sent := ps\<rparr>) = queries s"
      "same_query (qcb ((assign q w s)\<lparr>sent := ps\<rparr>) x) (qcb s x)" for ps
      using h by (cases "x = q"; simp add: heap_simps sends same_query_def)+
    have u: "queries (unassign q w (assign q w s)) = queries s"
      "same_query (qcb (unassign q w (assign q w s)) x) (qcb s x)"
      using unassign_assign(6) [OF ok i r, of x]
      by (simp_all add: same_query_def unassign_def Let_def enqueue_ready_def heap_simps)
    show ?thesis
      using try_dispatch_cases [OF ok i r _ p, of env] False a u by (simp del: add_fields.simps split: if_splits)
  qed
  then show "queries (snd (try_dispatch env s)) = queries s" "same_query (qcb (snd (try_dispatch env s)) x) (qcb s x)"
    by blast+
qed

subsection \<open>Submitting a query\<close>

text \<open>
  C26: What the Query Control submits is what the Master registers. The request for a path and
  a priority, built by the Query Control and delivered, makes the Master enter one more query
  with the next identifier, that path, the socket it came from, program counter 0 and the
  priority modulo 256, whether or not it is dispatched at once; no other query changes its
  identifier, path, priority, program counter or socket.
\<close>

theorem submitted_query_registered:
  assumes "reachable s" and "wire_name path" and "next_query_id (queries_table s) < 2 ^ 31 - 1"
  shows "\<exists>m r t. query_package path prio = (True, m) \<and> transmit m = Some r \<and>
    handle_client env k (Some r) fl s = Some (True, fl, t) \<and> reachable t \<and>
    queries t = queries s @ [next_ptr s] \<and>
    (\<forall>q. q = qcb t (next_ptr s) \<longrightarrow> query_id q = next_query_id (queries_table s) + 1 \<and>
      query_file_path q = to_bytes path \<and> priority q = prio mod 256 \<and> program_counter q = 0 \<and> q_socket_fd q = k) \<and>
    (\<forall>x. x \<noteq> next_ptr s \<longrightarrow> same_query (qcb t x) (qcb s x))"
proof -
  obtain m r where r: "query_package path prio = (True, m)" "transmit m = Some r" "operation_code r = OP_QUERY_FILE_PATH"
    "fst (read_fields r [K_string, K_uint8]) = Some [F_string (to_bytes path), F_uint8 (word_of_int prio)]"
    by (rule query_sent [OF assms(2), of prio])
  define u where "u = register_query env (to_bytes path) (word_of_int prio) k s"
  define t where "t = snd (try_dispatch env u)"
  have p: "uint (word_of_int prio :: u8) = prio mod 256" by (simp add: uint_word_of_int)
  have ru: "reachable u" unfolding u_def by (rule reachable.step [OF assms(1) master_step.query]) (rule assms(3))
  have rt: "reachable t" unfolding t_def by (rule reachable.step [OF ru master_step.dispatch])
  have "manage_query_file_path env r k s = Some (0, t)"
    using r(4) by (auto simp: manage_query_file_path_def t_def u_def split: prod.splits option.splits)
  then have h: "handle_client env k (Some r) fl s = Some (True, fl, t)"
    using r(3) by (simp add: handle_client_def Let_def master_op_defs)
  note K = try_dispatch_keeps [OF reachable_ok [OF ru], of env]
  have q: "queries t = queries s @ [next_ptr s]" unfolding t_def K(1) by (simp add: u_def register_query_sel)
  have n: "same_query (qcb t (next_ptr s)) (new_qcb env (next_query_id (queries_table s) + 1) (to_bytes path) (prio mod 256) k)"
    using K(2) [of "next_ptr s"] by (simp add: t_def u_def register_query_sel(13) p)
  have "same_query (qcb t x) (qcb s x)" if "x \<noteq> next_ptr s" for x
    using K(2) [of x] that by (simp add: t_def u_def register_query_sel(13))
  moreover have "c_string (to_bytes path) = to_bytes path"
    using assms(2) by (auto simp: wire_name_def string_valid_def)
  ultimately show ?thesis using r(1,2) h rt q n
    by - (rule exI [of _ m], rule exI [of _ r], rule exI [of _ t], simp add: same_query_def new_qcb_def)
qed

theorem submitted_query_registered_witness:
  "\<exists>m r t. query_package ''read.txt'' 300 = (True, m) \<and> transmit m = Some r \<and>
    handle_client demo_master_env 9 (Some r) \<lparr>is_query_control = True, is_worker = False\<rparr> demo_running =
      Some (True, \<lparr>is_query_control = True, is_worker = False\<rparr>, t) \<and>
    query_file_path (qcb t 2) = to_bytes ''read.txt'' \<and> priority (qcb t 2) = 44 \<and> query_id (qcb t 2) = 1"
proof -
  have nm: "wire_name ''read.txt''"
    unfolding wire_name_def string_valid_def to_bytes_nul by (simp add: to_bytes_def MAX_STRING_LENGTH_def)
  have b: "next_query_id (queries_table demo_running) < 2 ^ 31 - 1" by (simp add: demo_running_sel)
  from submitted_query_registered [OF demo_running_reachable nm b, of 300 demo_master_env 9
      "\<lparr>is_query_control = True, is_worker = False\<rparr>"]
  obtain m r t where "query_package ''read.txt'' 300 = (True, m)" "transmit m = Some r"
    "handle_client demo_master_env 9 (Some r) \<lparr>is_query_control = True, is_worker = False\<rparr> demo_running =
      Some (True, \<lparr>is_query_control = True, is_worker = False\<rparr>, t)"
    "\<forall>q. q = qcb t (next_ptr demo_running) \<longrightarrow> query_id q = next_query_id (queries_table demo_running) + 1 \<and>
      query_file_path q = to_bytes ''read.txt'' \<and> priority q = 300 mod 256 \<and> program_counter q = 0 \<and> q_socket_fd q = 9"
    by (elim exE conjE)
  then show ?thesis by - (rule exI [of _ m], rule exI [of _ r], rule exI [of _ t], simp add: demo_running_sel)
qed

subsection \<open>A READ, from the file to the screen\<close>

lemma delivered_at_start:
  assumes "transmit p = Some r" and "buffer_ok (buffer p)"
  shows "buffer_reset_offset (buffer r) = buffer r"
  using assms by (auto simp: transmit_ok buffer_reset_offset_def)

text \<open>The Master reads the message of a Worker from its buffer.\<close>

lemma read_message_forwarded:
  assumes "fst (read_fields r [K_uint32, K_uint32, K_data, K_string, K_string]) =
      Some [F_uint32 w, F_uint32 (word_of_int (query_id (qcb s q))), F_data d, F_string f, F_string t]"
    and "buffer_reset_offset (buffer r) = buffer r" and "queries_ok s" and "q \<in> set (running s)"
    and "add_fields (package_create_empty QC_OP_READ_DATA) [F_data d, F_string (c_string f @ to_bytes '':'' @ c_string t)] = (True, fwd)"
    and "master_send env fwd (q_socket_fd (qcb s q)) s = (0, s1)"
  shows "manage_read_message_from_worker env (buffer r) k s = Some (0, s1)"
proof -
  obtain b1 b2 b3 b4 b5 where b: "buffer_read_uint32 (buffer r) = (Some w, b1)"
    "buffer_read_uint32 b1 = (Some (word_of_int (query_id (qcb s q))), b2)" "buffer_read_data b2 = (Some d, b3)"
    "buffer_read_string b3 = (Some f, b4)" "buffer_read_string b4 = (Some t, b5)"
    using assms(1) by (auto simp: read_field_defs Let_def map_prod_def split: prod.splits option.splits)
  obtain p1 where "package_add_data (package_create_empty QC_OP_READ_DATA) d = (True, p1)"
    "package_add_string p1 (c_string f @ to_bytes '':'' @ c_string t) = (True, fwd)"
    using assms(5) by (auto split: prod.splits if_splits)
  then show ?thesis
    using running_found(1) [OF assms(3,4)] assms(6)
    by (simp add: manage_read_message_from_worker_def assms(2) b Let_def)
qed

lemma empty_data_refused: "package_add_data p [] \<noteq> (True, p')"
  by (simp add: add_field_defs buffer_write_data_def Let_def split: prod.splits)

text \<open>
  C1: A READ, end to end. When the Worker's READ of a query that runs succeeds, the last message
  the Worker sent, once delivered, makes the Master send one message, to the Query Control of
  that query, and do nothing else; delivered there, it makes the Query Control show exactly
  one line, with the \<^verbatim>\<open>File:Tag\<close> of the instruction and the bytes that the query sees in the
  named range of the file (its own writes included, wherever they are), dots standing for
  what cannot be printed. The name of the file, the tag and the separator fit the protocol's
  longest string and the range its largest piece of data.
\<close>

theorem read_instruction_shown:
  assumes "worker_inv g mm s" and "can_search mm" and "storage_ex c = storage_exchange g cd"
    and "operation i = READ" and "params i = P_read p"
    and "execute_instruction c i mm (query_id (qcb ms q)) w s = Some (0, mm', s')"
    and "wire_name (rd_file p)" and "wire_name (rd_tag p)"
    and "length (rd_file p) + length (rd_tag p) < MAX_STRING_LENGTH" and "unat (rd_size p) \<le> MAX_DATA_SIZE"
    and "reachable ms" and "q \<in> set (running ms)" and "0 \<le> q_socket_fd (qcb ms q)"
    and "\<forall>k bs. send env k bs = int (length bs)"
  shows "\<exists>data r fwd v. length data = unat (rd_size p) \<and>
    (\<forall>k < unat (rd_size p). seen mm s (rd_file p) (rd_tag p) (unat (rd_base p) + k) = Some (data ! k)) \<and>
    transmit (last (snd s')) = Some r \<and>
    handle_client env k (Some r) fl ms = Some (True, fl, ms\<lparr>sent := sent ms @ [(q_socket_fd (qcb ms q), fwd)]\<rparr>) \<and>
    transmit fwd = Some v \<and>
    (\<forall>rv rest screen. receive_loop rv (Some v # rest) screen =
       receive_loop rv rest (screen\<lparr>shown := shown screen @
         [Lectura_realizada (to_bytes (rd_file p @ '':'' @ rd_tag p)) (unat (rd_size p))
            (map (\<lambda>b. if 32 \<le> b \<and> b \<le> 126 then b else 46) data)]\<rparr>))"
proof -
  let ?f = "rd_file p" and ?t = "rd_tag p" and ?id = "query_id (qcb ms q)"
  have "execute_read c p mm ?id w s = Some (0, mm', s')" using assms(4-6) by (simp add: execute_instruction_def)
  with read_executes [OF assms(1-3), of p ?id w] obtain data msg out where d: "length data = unat (rd_size p)"
    "\<forall>k < unat (rd_size p). seen mm s ?f ?t (unat (rd_base p) + k) = Some (data ! k)"
    "add_fields (package_create_empty OP_WORKER_READ_MESSAGE_REQ) (read_message w ?id data ?f ?t) = (True, msg)"
    "snd s' = out @ [msg]" by auto
  have ne: "data \<noteq> []"
    using d(3) empty_data_refused by (auto simp: read_message_def split: prod.splits if_splits)
  have nn: "c_string (to_bytes ?f) = to_bytes ?f" "c_string (to_bytes ?t) = to_bytes ?t"
    using assms(7,8) by (auto simp: wire_name_def string_valid_def)
  let ?ft = "to_bytes (?f @ '':'' @ ?t)"
  have ft: "to_bytes ?f @ to_bytes '':'' @ to_bytes ?t = ?ft" by (simp add: to_bytes_def)
  have l: "length (to_bytes ?f) = length ?f" "length (to_bytes ?t) = length ?t" by (simp_all add: to_bytes_def)
  have v: "\<forall>x \<in> set (read_message w ?id data ?f ?t). field_valid x"
    using assms(7,8,10) d(1) by (simp add: read_message_def wire_name_def data_valid_def)
  have sv: "string_valid ?ft"
    using assms(7-9) by (simp add: string_valid_def wire_name_def to_bytes_nul) (simp add: to_bytes_def)
  let ?fs = "[F_data data, F_string ?ft]"
  have fv: "\<forall>x \<in> set ?fs. field_valid x" using sv assms(10) d(1) by (simp add: data_valid_def)
  obtain fwd where fwd: "add_fields (package_create_empty QC_OP_READ_DATA) ?fs = (True, fwd)"
    by (rule message_fits [OF fv, of QC_OP_READ_DATA])
      (use ne sv assms(10) d(1) in \<open>simp_all add: enc_sized_def string_valid_def MAX_STRING_LENGTH_def MAX_DATA_SIZE_def\<close>)
  obtain r where r: "transmit msg = Some r" "operation_code r = OP_WORKER_READ_MESSAGE_REQ"
    "fst (read_fields r (map kind_of (read_message w ?id data ?f ?t))) = Some (read_message w ?id data ?f ?t)"
    by (rule transmit_fields [OF d(3) v])
  obtain x where x: "transmit fwd = Some x" "operation_code x = QC_OP_READ_DATA" "fst (read_fields x (map kind_of ?fs)) = Some ?fs"
    by (rule transmit_fields [OF fwd fv])
  have "master_send env fwd (q_socket_fd (qcb ms q)) ms = (0, ms\<lparr>sent := sent ms @ [(q_socket_fd (qcb ms q), fwd)]\<rparr>)"
    by (rule master_send_whole [OF assms(13)]) (simp add: assms(14))
  moreover have "add_fields (package_create_empty QC_OP_READ_DATA)
      [F_data data, F_string (c_string (to_bytes ?f) @ to_bytes '':'' @ c_string (to_bytes ?t))] = (True, fwd)"
    unfolding nn ft by (rule fwd)
  ultimately have "manage_read_message_from_worker env (buffer r) k ms =
      Some (0, ms\<lparr>sent := sent ms @ [(q_socket_fd (qcb ms q), fwd)]\<rparr>)"
    using r(3) by (intro read_message_forwarded [OF _ delivered_at_start [OF r(1) built_ok(1) [OF d(3) v]]
          master_okD(1) [OF reachable_ok [OF assms(11)]] assms(12)])
      (simp_all add: read_message_def del: add_fields.simps read_fields.simps)
  then have h: "handle_client env k (Some r) fl ms = Some (True, fl, ms\<lparr>sent := sent ms @ [(q_socket_fd (qcb ms q), fwd)]\<rparr>)"
    using r(2) by (simp add: handle_client_def Let_def master_op_defs)
  have "forwarded_read x (data, ?ft)" using x by (simp add: forwarded_read_def del: read_fields.simps)
  note show_it = receive_loop_read [OF this]
  have pb: "(\<lambda>b. if 32 \<le> b \<and> b \<le> 126 then b else 46) = printable_byte"
    by (simp add: printable_byte_def fun_eq_iff)
  show ?thesis unfolding pb
    by (rule exI [of _ data], rule exI [of _ r], rule exI [of _ fwd], rule exI [of _ x])
      (use d r(1) x(1) h show_it in \<open>simp add: lectura_def del: receive_loop.simps\<close>)
qed

lemma demo_read_memory:
  "\<exists>mm' st. mm_read_from_memory io (demo_loaded LRU) n 0 ''a'' ''v1'' 1 2 = Some (0, [2, 3], mm', st)"
proof -
  let ?m = "mm_update_page_access (demo_loaded LRU) 0 0"
  have e: "ensure_page (demo_loaded LRU) 0 0 = (0, demo_loaded LRU)" "present (page_at (demo_loaded LRU) 0 0)"
    "mm_page_size (demo_loaded LRU) = 4" "mm_page_size ?m = 4" "mm_get_frame_address ?m (frame (page_at ?m 0 0)) = Some 0"
    "region (Suc 0) 2 (physical_memory ?m) = [2, 3]" by code_simp+
  have "access_loop io False 0 ''a'' ''v1'' (demo_loaded LRU) n 0 1 2 [] [] = Some (0, [2, 3], ?m, n)"
    by (subst access_loop.simps) (simp add: e Let_def access_loop.simps [where remaining = 0])
  then have "mm_read_from_memory io (demo_loaded LRU) n 0 ''a'' ''v1'' 1 2 = Some (0, [2, 3], ?m, n)"
    by (simp add: mm_read_from_memory_def mm_access_memory_def e)
  then show ?thesis by blast
qed

definition demo_read_range :: read_params_t where
  "demo_read_range = \<lparr>rd_file = ''a'', rd_tag = ''v1'', rd_base = 1, rd_size = 2\<rparr>"

lemma demo_read_executes:
  "\<exists>mm' s'. execute_instruction demo_conn \<lparr>operation = READ, params = P_read demo_read_range\<rparr> (demo_loaded LRU) 0 1 demo_net = Some (0, mm', s')"
proof -
  have nm: "wire_name ''a''" "wire_name ''v1''"
    unfolding wire_name_def string_valid_def to_bytes_nul by (simp_all add: to_bytes_def MAX_STRING_LENGTH_def)
  let ?fs = "[F_uint32 (word_of_int 1), F_uint32 (word_of_int 0), F_data [2, 3], F_string (to_bytes ''a''), F_string (to_bytes ''v1'')]"
  have v: "\<forall>f \<in> set ?fs. field_valid f" using nm by (simp add: wire_name_def data_valid_def MAX_DATA_SIZE_def)
  obtain m where m: "add_fields (package_create_empty OP_WORKER_READ_MESSAGE_REQ) ?fs = (True, m)"
    by (rule message_fits [OF v, of OP_WORKER_READ_MESSAGE_REQ]) (simp_all add: enc_sized_def to_bytes_def)
  have f: "mm_find_page_table (demo_loaded LRU) ''a'' ''v1'' = Some 0" by code_simp
  obtain mm' st out where r: "mm_read_from_memory (exchange_io (storage_ex demo_conn) (mm_query_id (demo_loaded LRU)))
      (demo_loaded LRU) demo_net 0 ''a'' ''v1'' 1 2 = Some (0, [2, 3], mm', st, out)"
    using demo_read_memory by (metis surj_pair)
  have "execute_read demo_conn demo_read_range (demo_loaded LRU) 0 1 demo_net = Some (0, mm', st, out @ [m])"
    unfolding execute_read_def demo_read_range_def using r m
    by (simp add: f PTRDIFF_MAX_def send_read_content_to_master_def send_to_master_def demo_conn_def del: add_fields.simps)
  then show ?thesis by (simp add: execute_instruction_def)
qed

theorem read_instruction_shown_witness:
  "\<exists>mm' s' data r fwd v.
    execute_instruction demo_conn \<lparr>operation = READ, params = P_read demo_read_range\<rparr> (demo_loaded LRU) 0 1 demo_net = Some (0, mm', s') \<and>
    (\<forall>k < 2. seen (demo_loaded LRU) demo_net ''a'' ''v1'' (1 + k) = Some (data ! k)) \<and> transmit (last (snd s')) = Some r \<and>
    handle_client demo_master_env 5 (Some r) \<lparr>is_query_control = False, is_worker = True\<rparr> demo_running =
      Some (True, \<lparr>is_query_control = False, is_worker = True\<rparr>, demo_running\<lparr>sent := sent demo_running @ [(6, fwd)]\<rparr>) \<and>
    transmit fwd = Some v"
proof -
  let ?i = "\<lparr>operation = READ, params = P_read demo_read_range\<rparr>" and ?fl = "\<lparr>is_query_control = False, is_worker = True\<rparr>"
  have nm: "wire_name (rd_file demo_read_range)" "wire_name (rd_tag demo_read_range)"
    unfolding demo_read_range_def wire_name_def string_valid_def to_bytes_nul by (simp_all add: to_bytes_def MAX_STRING_LENGTH_def)
  have sz: "length (rd_file demo_read_range) + length (rd_tag demo_read_range) < MAX_STRING_LENGTH"
    "unat (rd_size demo_read_range) \<le> MAX_DATA_SIZE"
    by (simp_all add: demo_read_range_def MAX_STRING_LENGTH_def MAX_DATA_SIZE_def)
  have q: "query_id (qcb demo_running (Suc 0)) = 0" "Suc 0 \<in> set (running demo_running)" "q_socket_fd (qcb demo_running (Suc 0)) = 6"
    by (simp_all add: demo_running_sel new_qcb_def)
  have nonneg: "0 \<le> q_socket_fd (qcb demo_running (Suc 0))" by (simp add: q)
  have snd': "\<forall>k bs. send demo_master_env k bs = int (length bs)" by (simp add: demo_master_env_def)
  have cs: "can_search (demo_loaded LRU)" by (simp add: can_search_def demo_loaded_def)
  have ex: "storage_ex demo_conn = storage_exchange demo_env demo_client" by (simp add: demo_conn_def)
  obtain mm' s' where E: "execute_instruction demo_conn ?i (demo_loaded LRU) (query_id (qcb demo_running (Suc 0))) 1 demo_net = Some (0, mm', s')"
    using demo_read_executes q(1) by auto
  have op: "operation ?i = READ" "params ?i = P_read demo_read_range" by simp_all
  from read_instruction_shown [OF demo_loaded_ok cs ex op E nm sz demo_running_reachable q(2) nonneg snd', of 5 ?fl]
  obtain data r fwd v where R: "\<forall>k < unat (rd_size demo_read_range). seen (demo_loaded LRU) demo_net (rd_file demo_read_range)
       (rd_tag demo_read_range) (unat (rd_base demo_read_range) + k) = Some (data ! k)"
    "transmit (last (snd s')) = Some r" "handle_client demo_master_env 5 (Some r) ?fl demo_running =
      Some (True, ?fl, demo_running\<lparr>sent := sent demo_running @ [(q_socket_fd (qcb demo_running (Suc 0)), fwd)]\<rparr>)"
    "transmit fwd = Some v" by (elim exE conjE)
  show ?thesis
    by (rule exI [of _ mm'], rule exI [of _ s'], rule exI [of _ data], rule exI [of _ r], rule exI [of _ fwd], rule exI [of _ v])
      (use R E q in \<open>simp add: demo_read_range_def\<close>)
qed

subsection \<open>An eviction, from Worker to Worker\<close>

lemma evict_section_requeues:
  fixes env pc
  assumes "reachable s" and "q \<in> set (running s)" and "find_worker_by_socket s k = Some w"
    and "q_state (qcb s q) \<noteq> QUERY_STATE_CANCELED"
  defines "t \<equiv> evict_section env (word_of_int (query_id (qcb s q))) pc k s"
  shows "qcb t q = (qcb s q)\<lparr>program_counter := sint pc, q_state := QUERY_STATE_READY, assigned_worker_id := -1,
      preemption_pending := False, ready_timestamp := now_ms env\<rparr>"
    and "queries t = queries s"
proof -
  note ok = reachable_ok [OF assms(1)]
  note o = master_okD [OF ok]
  note qd = queries_okD [OF o(1)]
  have h: "q \<in> dom (qcb_heap s)" using qd(4) qd(6) [OF assms(2)] by simp
  let ?e = "upd_wcb w (\<lambda>w. w\<lparr>current_query_id := -1, w_state := WORKER_STATE_IDLE\<rparr>) (Master.evict_query env q pc s)"
  have t: "t = (if w \<notin> set (busy ?e) then ?e
      else on_workers (\<lambda>t. t\<lparr>busy_list := remove1 w (busy_list t), idle_list := idle_list t @ [w]\<rparr>) ?e)"
    using assms(3) running_found(1) [OF o(1) assms(2)] by (simp add: t_def evict_section_def Let_def)
  show "qcb t q = (qcb s q)\<lparr>program_counter := sint pc, q_state := QUERY_STATE_READY, assigned_worker_id := -1,
      preemption_pending := False, ready_timestamp := now_ms env\<rparr>" "queries t = queries s"
    using assms(4) h by (simp_all add: t Master.evict_query_def Let_def heap_simps)
qed

text \<open>
  C13: The place where a query was interrupted survives the way through the Master. The message
  with which a Worker answers an eviction, delivered to the Master on the socket of the worker
  that holds the query, makes it record the program counter and nothing else of what the query
  is; and the message that starts the query again, on any Worker, makes that Worker's listener
  take the same identifier, the same path and exactly that program counter.
\<close>

theorem resume_point_preserved:
  fixes wst :: "'s worker_state_t" and s :: t_master
  assumes "reachable s" and "q \<in> set (running s)" and "q_state (qcb s q) \<noteq> QUERY_STATE_CANCELED"
    and "find_worker_by_socket s k = Some w" and "current_query_id (wcb s w) = query_id (qcb s q)"
    and "0 \<le> pc" and "pc < 2 ^ 31"
    and "query_file_path (qcb s q) = to_bytes path" and "wire_name path" and "length path < PATH_MAX"
    and "master_accepts (w_conn wenv) (two_uint32 OP_WORKER_EVICT_RES (word_of_int (query_id (qcb s q))) (word_of_int pc))"
  shows "\<exists>m r t. snd (w_net (Query_Executor.evict_query wenv (query_id (qcb s q)) pc wst)) = snd (w_net (flush_all wenv wst)) @ [m] \<and>
    transmit m = Some r \<and> handle_client env k (Some r) fl s = Some (True, fl, t) \<and> reachable t \<and> queries t = queries s \<and>
    same_query (qcb t q) ((qcb s q)\<lparr>program_counter := pc\<rparr>) \<and>
    (\<forall>wst2 :: 's worker_state_t. \<exists>p a st. add_fields (package_create_empty OP_WORKER_START_QUERY) (start_fields (qcb t q)) = (True, p) \<and>
       transmit p = Some a \<and> listener_receive (Some a) wst2 = Some (True, L_receive, st) \<and> has_query st \<and>
       current_query st = \<lparr>ctx_query_path = path, ctx_query_id = query_id (qcb s q), ctx_program_counter = pc\<rparr>)"
proof -
  let ?id = "query_id (qcb s q)"
  let ?m = "two_uint32 OP_WORKER_EVICT_RES (word_of_int ?id) (word_of_int pc)"
  note o = master_okD [OF reachable_ok [OF assms(1)]]
  note qd = queries_okD [OF o(1)]
  have w32: "sint (word_of_int x :: u32) = x" if "0 \<le> x" "x < 2 ^ 31" for x using query_of_word [OF that refl] by simp
  have id: "sint (word_of_int ?id :: u32) = ?id"
    using qd(9,10) [OF qd(6) [OF assms(2)]] qd(17) by (intro w32) auto
  obtain r where r: "transmit ?m = Some r" "operation_code r = OP_WORKER_EVICT_RES"
    "fst (read_fields r [K_uint32, K_uint32]) = Some [F_uint32 (word_of_int ?id), F_uint32 (word_of_int pc)]"
    by (rule transmit_fields [OF two_uint32_fields]) auto
  define e where "e = evict_section env (word_of_int ?id) (word_of_int pc) k s"
  define t where "t = snd (try_dispatch env e)"
  have h: "handle_client env k (Some r) fl s = Some (True, fl, t)"
    using r(2,3) by (auto simp: handle_client_def Let_def master_op_defs manage_worker_evict_response_def t_def e_def
        split: prod.splits option.splits)
  note E = evict_section_requeues [OF assms(1,2,4,3), of env "word_of_int pc", folded e_def]
  have re: "reachable e" unfolding e_def
    by (rule reachable.step [OF assms(1) master_step.evicted]) (simp add: assms(4,5) reports_def id)
  have rt: "reachable t" unfolding t_def by (rule reachable.step [OF re master_step.dispatch])
  note K = try_dispatch_keeps [OF reachable_ok [OF re], of env, folded t_def]
  have sq: "same_query (qcb t q) ((qcb s q)\<lparr>program_counter := pc\<rparr>)"
    using K(2) [of q] w32 [OF assms(6,7)] by (simp add: E(1) same_query_def)
  let ?fs = "[F_uint32 (word_of_int ?id), F_uint32 (word_of_int pc), F_string (to_bytes path)]"
  have sf: "start_fields (qcb t q) = ?fs" using sq assms(8) by (simp add: start_fields_def same_query_def)
  have v: "\<forall>f \<in> set ?fs. field_valid f" using assms(9) by (simp add: wire_name_def)
  obtain p where p: "add_fields (package_create_empty OP_WORKER_START_QUERY) ?fs = (True, p)"
    by (rule message_fits [OF v, of OP_WORKER_START_QUERY])
      (use assms(10) in \<open>simp_all add: enc_sized_def to_bytes_def PATH_MAX_def\<close>)
  obtain a where a: "transmit p = Some a" "operation_code a = OP_WORKER_START_QUERY"
    "fst (read_fields a [K_uint32, K_uint32, K_string]) = Some ?fs" by (rule transmit_fields [OF p v]) auto
  have l: "length (to_bytes path) < PATH_MAX" using assms(10) by (simp add: to_bytes_def)
  have "\<forall>wst2 :: 's worker_state_t. \<exists>p a st. add_fields (package_create_empty OP_WORKER_START_QUERY) (start_fields (qcb t q)) = (True, p) \<and>
       transmit p = Some a \<and> listener_receive (Some a) wst2 = Some (True, L_receive, st) \<and> has_query st \<and>
       current_query st = \<lparr>ctx_query_path = path, ctx_query_id = ?id, ctx_program_counter = pc\<rparr>"
    using id w32 [OF assms(6,7)] p a(1) by (simp add: sf assign_reads [OF a(3,2) l] del: add_fields.simps)
  moreover have "snd (w_net (Query_Executor.evict_query wenv ?id pc wst)) = snd (w_net (flush_all wenv wst)) @ [?m]"
    using assms(11) by (simp add: Query_Executor.evict_query_def post_def send_to_master_def)
  moreover have "queries t = queries s" using K(1) E(2) by simp
  ultimately show ?thesis using r(1) h rt sq
    by - (rule exI [of _ ?m], rule exI [of _ r], rule exI [of _ t], intro conjI)
qed

theorem resume_point_preserved_witness:
  "\<exists>m r t. snd (w_net (Query_Executor.evict_query demo_worker_env 0 4 demo_worker)) = snd (w_net (flush_all demo_worker_env demo_worker)) @ [m] \<and>
    transmit m = Some r \<and>
    handle_client demo_master_env 5 (Some r) \<lparr>is_query_control = False, is_worker = True\<rparr> demo_running =
      Some (True, \<lparr>is_query_control = False, is_worker = True\<rparr>, t) \<and> program_counter (qcb t (Suc 0)) = 4 \<and>
    (\<exists>p a st. add_fields (package_create_empty OP_WORKER_START_QUERY) (start_fields (qcb t (Suc 0))) = (True, p) \<and>
       transmit p = Some a \<and> listener_receive (Some a) demo_worker = Some (True, L_receive, st) \<and>
       current_query st = \<lparr>ctx_query_path = ''Q'', ctx_query_id = 0, ctx_program_counter = 4\<rparr>)"
proof -
  let ?fl = "\<lparr>is_query_control = False, is_worker = True\<rparr>"
  have f: "find_worker_by_socket demo_running 5 = Some 0" by (simp add: find_worker_by_socket_def demo_running_sel)
  have q: "query_id (qcb demo_running (Suc 0)) = 0" "Suc 0 \<in> set (running demo_running)"
    "q_state (qcb demo_running (Suc 0)) \<noteq> QUERY_STATE_CANCELED"
    "current_query_id (wcb demo_running 0) = query_id (qcb demo_running (Suc 0))"
    by (simp_all add: demo_running_sel new_qcb_def)
  have nm: "wire_name ''Q''" "length ''Q'' < PATH_MAX"
    unfolding wire_name_def string_valid_def to_bytes_nul by (simp_all add: to_bytes_def MAX_STRING_LENGTH_def PATH_MAX_def)
  have pth: "query_file_path (qcb demo_running (Suc 0)) = to_bytes ''Q''"
    using nm(1) by (auto simp: demo_running_sel new_qcb_def wire_name_def string_valid_def)
  have pc: "0 \<le> (4 :: int)" "(4 :: int) < 2 ^ 31" by simp_all
  note acc = demo_conn_sends(2) [of "two_uint32 OP_WORKER_EVICT_RES (word_of_int (query_id (qcb demo_running (Suc 0)))) (word_of_int 4)"]
  from resume_point_preserved [OF demo_running_reachable q(2,3) f q(4) pc pth nm acc, of demo_worker demo_master_env ?fl]
  obtain m r t where R:
    "snd (w_net (Query_Executor.evict_query demo_worker_env 0 4 demo_worker)) = snd (w_net (flush_all demo_worker_env demo_worker)) @ [m]"
    "transmit m = Some r" "handle_client demo_master_env 5 (Some r) ?fl demo_running = Some (True, ?fl, t)"
    "same_query (qcb t (Suc 0)) ((qcb demo_running (Suc 0))\<lparr>program_counter := 4\<rparr>)"
    "\<forall>wst2 :: storage_state worker_state_t. \<exists>p a st. add_fields (package_create_empty OP_WORKER_START_QUERY) (start_fields (qcb t (Suc 0))) = (True, p) \<and>
       transmit p = Some a \<and> listener_receive (Some a) wst2 = Some (True, L_receive, st) \<and> has_query st \<and>
       current_query st = \<lparr>ctx_query_path = ''Q'', ctx_query_id = 0, ctx_program_counter = 4\<rparr>"
    unfolding q(1) by (elim exE conjE)
  then show ?thesis using R(5) [rule_format, of demo_worker]
    by - (rule exI [of _ m], rule exI [of _ r], rule exI [of _ t], simp add: same_query_def del: add_fields.simps, blast)
qed

end
